(* ===== verification/Prelude.thy ===== *)
theory Prelude
  imports Main "HOL-Library.Word"
begin

text \<open>
  Shared vocabulary of the development: the C integer types as words, the ways a C
  program can go wrong as values (\<open>fault\<close>), little-endian storage of multi-byte
  fields, and the generic theory of a machine that is fed one byte at a time
  (\<open>run\<close>), with the two interfaces every parser of the repository is an instance
  of: \<open>byte_machine\<close> (a step that keeps an invariant never faults on any stream) and
  \<open>framed_machine\<close> (a machine that turns one encoded message into one delivery
  turns a stream of encoded messages into the same list of deliveries).
\<close>

unbundle bit_operations_syntax

type_synonym u8 = "8 word"
type_synonym u16 = "16 word"
type_synonym u32 = "32 word"

named_theorems res_simps \<open>rewriting results of fallible operations\<close>
named_theorems layout_simps \<open>reading back what was stored in a byte layout\<close>

section \<open>Faults\<close>

text \<open>
  What the C standard leaves undefined is a value of the model: an access outside its
  object, a call or access through a null pointer, the use of the value of a
  function that ended without \<^verbatim>\<open>return\<close>, and a call to an address that is no function.
\<close>

datatype fault = OutOfBounds | NullPointer | UndefinedReturn | WildCall

type_synonym 'a res = "fault + 'a"

definition rbind :: "'a res \<Rightarrow> ('a \<Rightarrow> 'b res) \<Rightarrow> 'b res" where
  "rbind m f = (case m of Inl e \<Rightarrow> Inl e | Inr x \<Rightarrow> f x)"

lemma rbind_simps [simp, res_simps]:
  "rbind (Inl e) f = Inl e"
  "rbind (Inr x) f = f x"
  by (simp_all add: rbind_def)

lemma rbind_Inr_iff [res_simps]:
  "rbind m f = Inr y \<longleftrightarrow> (\<exists>x. m = Inr x \<and> f x = Inr y)"
  by (cases m) auto

lemma rbind_Inl_iff [res_simps]:
  "rbind m f = Inl e \<longleftrightarrow> m = Inl e \<or> (\<exists>x. m = Inr x \<and> f x = Inl e)"
  by (cases m) auto

lemma rbind_assoc: "rbind (rbind m f) g = rbind m (\<lambda>x. rbind (f x) g)"
  by (cases m) auto

section \<open>Array access\<close>

text \<open>
  C indexes are promoted to \<open>int\<close> before they are used, so \<^verbatim>\<open>buffer[msg_length - 2]\<close>
  can be negative: the index of \<open>at\<close> and \<open>upd\<close> is an \<open>int\<close> and anything
  outside the array is a fault.
\<close>

definition at :: "'a list \<Rightarrow> int \<Rightarrow> 'a res" where
  "at xs i = (if 0 \<le> i \<and> i < int (length xs) then Inr (xs ! nat i) else Inl OutOfBounds)"

definition upd :: "'a list \<Rightarrow> int \<Rightarrow> 'a \<Rightarrow> 'a list res" where
  "upd xs i x =
     (if 0 \<le> i \<and> i < int (length xs) then Inr (xs[nat i := x]) else Inl OutOfBounds)"

lemma at_nat: "n < length xs \<Longrightarrow> at xs (int n) = Inr (xs ! n)"
  by (simp add: at_def)

lemma upd_nat: "n < length xs \<Longrightarrow> upd xs (int n) x = Inr (xs[n := x])"
  by (simp add: upd_def)

lemma upd_OutOfBounds: "length xs \<le> n \<Longrightarrow> upd xs (int n) x = Inl OutOfBounds"
  by (simp add: upd_def)

lemma at_Inr_iff: "at xs i = Inr v \<longleftrightarrow> 0 \<le> i \<and> i < int (length xs) \<and> v = xs ! nat i"
  by (auto simp: at_def)

lemma upd_Inr_iff:
  "upd xs i x = Inr ys \<longleftrightarrow> 0 \<le> i \<and> i < int (length xs) \<and> ys = xs[nat i := x]"
  by (auto simp: upd_def)

lemma uint_less_int_iff [simp]: "uint (w :: 'a::len word) < int n \<longleftrightarrow> unat w < n"
  unfolding uint_nat by (rule of_nat_less_iff)

lemma at_word: "at xs (uint (w :: 'b::len word)) =
    (if unat w < length xs then Inr (xs ! unat w) else Inl OutOfBounds)"
  by (simp add: at_def)

lemma upd_word: "upd xs (uint (w :: 'b::len word)) x =
    (if unat w < length xs then Inr (xs[unat w := x]) else Inl OutOfBounds)"
  by (simp add: upd_def)

lemma at_word_back:
  assumes "k \<le> unat (w :: 'b::len word)" and "unat w - k < length xs"
  shows "at xs (uint w - int k) = Inr (xs ! (unat w - k))"
proof -
  have "uint w - int k = int (unat w - k)" using assms(1) by (simp add: of_nat_diff)
  then show ?thesis using assms(2) by (simp only: at_nat)
qed

lemma take_Suc_update: "n < length xs \<Longrightarrow> take (Suc n) (xs[n := x]) = take n xs @ [x]"
  by (simp add: take_Suc_conv_app_nth)

lemma drop_last_4:
  assumes "length xs = k + 4"
  shows "drop k xs = [xs ! k, xs ! (k + 1), xs ! (k + 2), xs ! (k + 3)]"
proof (rule nth_equalityI)
  fix i assume "i < length (drop k xs)"
  then have "i = 0 \<or> i = 1 \<or> i = 2 \<or> i = 3" using assms by auto
  then show "drop k xs ! i = [xs ! k, xs ! (k + 1), xs ! (k + 2), xs ! (k + 3)] ! i"
    using assms by auto
qed (simp add: assms)

section \<open>Little-endian fields\<close>

definition le16 :: "u8 \<Rightarrow> u8 \<Rightarrow> u16" where
  "le16 b0 b1 = ucast b0 OR push_bit 8 (ucast b1)"

definition le32 :: "u8 \<Rightarrow> u8 \<Rightarrow> u8 \<Rightarrow> u8 \<Rightarrow> u32" where
  "le32 b0 b1 b2 b3 =
     ucast b0 OR push_bit 8 (ucast b1) OR push_bit 16 (ucast b2) OR push_bit 24 (ucast b3)"

text \<open>Byte \<open>k\<close> of a word, counted from the least significant one.\<close>

definition byte_of :: "nat \<Rightarrow> 'a::len word \<Rightarrow> u8" where
  "byte_of k w = ucast (drop_bit (8 * k) w)"

lemma bit_byte_of: "bit (byte_of k w) n \<longleftrightarrow> n < 8 \<and> bit w (8 * k + n)"
  by (auto simp: byte_of_def bit_simps)

lemma le16_bytes [simp, layout_simps]: "le16 (byte_of 0 v) (byte_of (Suc 0) v) = v"
proof (rule bit_word_eqI)
  fix n assume "n < LENGTH(16)"
  then show "bit (le16 (byte_of 0 v) (byte_of (Suc 0) v)) n = bit v n"
    by (cases "n < 8") (auto simp: le16_def bit_simps bit_byte_of)
qed

lemma le32_bytes [simp, layout_simps]:
  "le32 (byte_of 0 v) (byte_of (Suc 0) v) (byte_of 2 v) (byte_of 3 v) = v"
proof (rule bit_word_eqI)
  fix n assume n: "n < LENGTH(32)"
  consider "n < 8" | "8 \<le> n" "n < 16" | "16 \<le> n" "n < 24" | "24 \<le> n" "n < 32"
    using n by fastforce
  then show "bit (le32 (byte_of 0 v) (byte_of (Suc 0) v) (byte_of 2 v) (byte_of 3 v)) n = bit v n"
    by cases (auto simp: le32_def bit_simps bit_byte_of)
qed

lemma byte_of_le16 [simp, layout_simps]:
  "byte_of 0 (le16 a b) = a" "byte_of (Suc 0) (le16 a b) = b"
  by (rule bit_word_eqI, auto simp: le16_def bit_simps bit_byte_of dest: bit_imp_le_length)+

lemma byte_of_le32 [simp, layout_simps]:
  "byte_of 0 (le32 a b c d) = a" "byte_of (Suc 0) (le32 a b c d) = b"
  "byte_of 2 (le32 a b c d) = c" "byte_of 3 (le32 a b c d) = d"
  by (rule bit_word_eqI, auto simp: le32_def bit_simps bit_byte_of dest: bit_imp_le_length)+

text \<open>
  A block of memory whose layout matters (a C \<^verbatim>\<open>union\<close>) is a function from offsets to
  bytes; wider fields are read and written byte by byte, so overlapping members alias
  exactly as they do in C.
\<close>

type_synonym mem = "nat \<Rightarrow> u8"

definition get16 :: "mem \<Rightarrow> nat \<Rightarrow> u16" where
  "get16 m i = le16 (m i) (m (i + 1))"

definition put16 :: "mem \<Rightarrow> nat \<Rightarrow> u16 \<Rightarrow> mem" where
  "put16 m i v = m(i := byte_of 0 v, i + 1 := byte_of 1 v)"

definition get32 :: "mem \<Rightarrow> nat \<Rightarrow> u32" where
  "get32 m i = le32 (m i) (m (i + 1)) (m (i + 2)) (m (i + 3))"

definition put32 :: "mem \<Rightarrow> nat \<Rightarrow> u32 \<Rightarrow> mem" where
  "put32 m i v =
     m(i := byte_of 0 v, i + 1 := byte_of 1 v, i + 2 := byte_of 2 v, i + 3 := byte_of 3 v)"

lemma get16_put16 [simp, layout_simps]: "get16 (put16 m i v) i = v"
  by (simp add: get16_def put16_def)

lemma get32_put32 [simp, layout_simps]: "get32 (put32 m i v) i = v"
  by (simp add: get32_def put32_def)

lemma get16_put16_other [layout_simps]:
  "i + 1 < j \<or> j + 1 < i \<Longrightarrow> get16 (put16 m j v) i = get16 m i"
  by (auto simp: get16_def put16_def)

lemma get16_put32_other [layout_simps]:
  "i + 1 < j \<or> j + 3 < i \<Longrightarrow> get16 (put32 m j v) i = get16 m i"
  by (auto simp: get16_def put32_def)

lemma get32_put16_other [layout_simps]:
  "i + 3 < j \<or> j + 1 < i \<Longrightarrow> get32 (put16 m j v) i = get32 m i"
  by (auto simp: get32_def put16_def)

lemma get16_upd_other [layout_simps]: "j \<noteq> i \<Longrightarrow> j \<noteq> i + 1 \<Longrightarrow> get16 (m(j := v)) i = get16 m i"
  by (simp add: get16_def)

lemma put16_other [layout_simps]: "j \<noteq> i \<Longrightarrow> j \<noteq> i + 1 \<Longrightarrow> put16 m i v j = m j"
  by (simp add: put16_def)

section \<open>Machine arithmetic\<close>

lemma unat_Suc_below:
  assumes "unat (x :: 'a::len word) < unat (y :: 'a word)"
  shows "unat (x + 1) = Suc (unat x)"
proof -
  have "Suc (unat x) < 2 ^ LENGTH('a)"
    by (rule order_le_less_trans [OF Suc_leI [OF assms] unsigned_less])
  then show ?thesis by (simp add: unat_word_ariths)
qed

lemma unat_dec: "(x :: 'a::len word) \<noteq> 0 \<Longrightarrow> unat (x - 1) = unat x - 1"
  by (metis unat_minus_one)

lemma unat_of_nat_16: "n < 65536 \<Longrightarrow> unat (of_nat n :: u16) = n"
  by (simp add: unat_of_nat take_bit_eq_mod)

text \<open>A 16-bit counter that starts at \<open>len\<close> reaches zero with its \<open>len\<close>-th decrement.\<close>

text \<open>A property of bytes is decided by the 256 values.\<close>

lemma all_bytes:
  fixes P :: "u8 \<Rightarrow> bool"
  assumes "list_all (\<lambda>n. P (of_nat n)) [0..<256]"
  shows "P c"
proof -
  have "unat c < 256" using unsigned_less [of c] by simp
  then have "unat c \<in> set [0..<256]" by simp
  then have "P (of_nat (unat c))" using assms unfolding list_all_iff by blast
  then show ?thesis by simp
qed

lemma dec_complete:
  assumes "Suc k < 65536"
  shows "(len :: u16) - of_nat k - 1 = 0 \<longleftrightarrow> unat len = Suc k"
proof -
  have "len - of_nat k - 1 = len - of_nat (Suc k)" by simp
  moreover have "len - of_nat (Suc k) = 0 \<longleftrightarrow> len = of_nat (Suc k)" by (rule right_minus_eq)
  moreover have "len = of_nat (Suc k) \<longleftrightarrow> unat len = Suc k"
    using unat_of_nat_16 [OF assms] unfolding word_unat_eq_iff by simp
  ultimately show ?thesis by (simp only:)
qed

section \<open>Machines fed one byte at a time\<close>

fun run :: "('s \<Rightarrow> u8 \<Rightarrow> 's res) \<Rightarrow> 's \<Rightarrow> u8 list \<Rightarrow> 's res" where
  "run step s [] = Inr s"
| "run step s (b # bs) = rbind (step s b) (\<lambda>t. run step t bs)"

lemma run_append: "run step s (xs @ ys) = rbind (run step s xs) (\<lambda>t. run step t ys)"
  by (induction xs arbitrary: s) (auto simp: rbind_assoc)

lemma run_snoc: "run step s (xs @ [b]) = rbind (run step s xs) (\<lambda>t. step t b)"
proof -
  have "rbind (step t b) Inr = step t b" for t by (cases "step t b") auto
  then show ?thesis by (simp add: run_append)
qed

text \<open>
  The first interface: a step that never faults on a state of the invariant and keeps
  it. Its client is the safety of every byte stream.
\<close>

locale byte_machine =
  fixes step :: "'s \<Rightarrow> u8 \<Rightarrow> 's res"
    and inv :: "'s \<Rightarrow> bool"
  assumes step_safe: "inv s \<Longrightarrow> \<exists>t. step s b = Inr t \<and> inv t"
begin

lemma run_safe: "inv s \<Longrightarrow> \<exists>t. run step s bs = Inr t \<and> inv t"
proof (induction bs arbitrary: s)
  case Nil
  then show ?case by simp
next
  case (Cons b bs)
  obtain t where "step s b = Inr t" "inv t" using step_safe [OF Cons.prems] by blast
  with Cons.IH [of t] show ?case by simp
qed

lemma run_inv: "inv s \<Longrightarrow> run step s bs = Inr t \<Longrightarrow> inv t"
  using run_safe [of s bs] by auto

end

text \<open>
  The second interface: a machine with a set of idle states, an encoding of messages as
  byte strings and a trace of deliveries, that turns one encoded message into exactly
  the deliveries the message stands for and is idle again. Its client is the stream of
  messages.
\<close>

locale framed_machine =
  fixes step :: "'s \<Rightarrow> u8 \<Rightarrow> 's res"
    and idle :: "'s \<Rightarrow> bool"
    and valid :: "'m \<Rightarrow> bool"
    and encode :: "'m \<Rightarrow> u8 list"
    and deliver :: "'m \<Rightarrow> 'd list"
    and trace :: "'s \<Rightarrow> 'd list"
  assumes frame: "idle s \<Longrightarrow> valid m \<Longrightarrow>
    \<exists>t. run step s (encode m) = Inr t \<and> idle t \<and> trace t = trace s @ deliver m"
begin

lemma stream:
  assumes "idle s" and "list_all valid ms"
  shows "\<exists>t. run step s (concat (map encode ms)) = Inr t \<and> idle t
             \<and> trace t = trace s @ concat (map deliver ms)"
  using assms
proof (induction ms arbitrary: s)
  case Nil
  then show ?case by simp
next
  case (Cons m ms)
  obtain t where t: "run step s (encode m) = Inr t" "idle t" "trace t = trace s @ deliver m"
    using frame [of s m] Cons.prems by auto
  with Cons.IH [of t] Cons.prems show ?case by (auto simp: run_append)
qed

end

end
