(* ===== verification/Crc.thy ===== *)
theory Crc
  imports Prelude
begin

text \<open>
  The two cyclic redundancy checks of the repository and their lookup tables:
  CRC-32 (\<^verbatim>\<open>semp_crc32Table\<close> of Message_Parser.c, reflected, polynomial
  \<open>0xEDB88320\<close>) and CRC-24Q (\<^verbatim>\<open>semp_crc24qTable\<close> of lib/semp_crc24q.h, polynomial
  \<open>0x1864CFB\<close>). The specification of both is the shift register that divides by
  the polynomial one bit at a time; the tables are shown to be eight steps of it, so
  the table-driven byte step of the code is the bitwise one. The register is linear
  and injective (locale \<open>lfsr\<close>), which gives the fact the parsers rely on: feeding the
  register its own value in transmission order leaves zero, and nothing else does.
\<close>

section \<open>Linear injective registers\<close>

locale lfsr =
  fixes shift :: "'a::len word \<Rightarrow> 'a word"
  assumes shift_xor: "shift (a XOR b) = shift a XOR shift b"
    and shift_0: "shift a = 0 \<longleftrightarrow> a = 0"
begin

lemma pow_xor: "(shift ^^ n) (a XOR b) = (shift ^^ n) a XOR (shift ^^ n) b"
  by (induction n) (simp_all add: shift_xor)

lemma pow_0: "(shift ^^ n) a = 0 \<longleftrightarrow> a = 0"
  by (induction n) (simp_all add: shift_0)

lemma pow_inj: "(shift ^^ n) a = (shift ^^ n) b \<longleftrightarrow> a = b"
proof -
  have "(shift ^^ n) a = (shift ^^ n) b \<longleftrightarrow> (shift ^^ n) (a XOR b) = 0"
    unfolding pow_xor by (auto simp: bit_eq_iff bit_simps)
  also have "\<dots> \<longleftrightarrow> a = b" unfolding pow_0 by (auto simp: bit_eq_iff bit_simps)
  finally show ?thesis .
qed

end

section \<open>Tables of linear functions\<close>

text \<open>
  A table that doubles from its entries at the powers of two is the table of a linear
  function, if it is right at the powers of two. \<open>h\<close> reads the part of an entry that
  matters.
\<close>

definition xor_double :: "'c::len word list \<Rightarrow> 'c word \<Rightarrow> 'c word list" where
  "xor_double xs g = xs @ map (\<lambda>x. x XOR g) xs"

lemma length_xor_table: "length (foldl xor_double xs gs) = length xs * 2 ^ length gs"
  by (induction gs arbitrary: xs) (simp_all add: xor_double_def)

lemma of_nat_double:
  assumes "j < 2 ^ n"
  shows "(of_nat (2 ^ n + j) :: 'a::len word) = of_nat j XOR of_nat (2 ^ n)"
proof -
  have "take_bit n j AND 2 ^ n = 0" by (rule bit_eqI) (auto simp: bit_simps)
  with assms have "j AND 2 ^ n = 0" by (simp add: take_bit_nat_eq_self)
  then have "2 ^ n + j = j XOR 2 ^ n"
    by (metis disjunctive_add_eq_xor add.commute)
  then show ?thesis by (metis of_nat_xor_eq)
qed

lemma xor_table:
  fixes f :: "'a::len word \<Rightarrow> 'b::len word" and h :: "'c::len word \<Rightarrow> 'b word"
  assumes f: "\<And>a b. f (a XOR b) = f a XOR f b" and h: "\<And>a b. h (a XOR b) = h a XOR h b"
    and "\<And>k. k < length gs \<Longrightarrow> h (gs ! k) = f (of_nat (2 ^ k))" and "i < 2 ^ length gs"
  shows "h (foldl xor_double [0] gs ! i) = f (of_nat i)"
  using assms(3,4)
proof (induction gs arbitrary: i rule: rev_induct)
  case Nil
  have "f 0 = 0" "h 0 = 0" using f [of 0 0] h [of 0 0] by simp_all
  with Nil show ?case by simp
next
  case (snoc g gs)
  define T where "T = foldl xor_double [0] gs"
  have len: "length T = 2 ^ length gs" by (simp add: T_def length_xor_table)
  have IH: "h (T ! j) = f (of_nat j)" if "j < 2 ^ length gs" for j
  proof -
    have "h (gs ! k) = f (of_nat (2 ^ k))" if "k < length gs" for k
      using snoc.prems(1) [of k] that by (simp add: nth_append)
    then show ?thesis using snoc.IH that by (simp add: T_def)
  qed
  have T: "foldl xor_double [0] (gs @ [g]) = T @ map (\<lambda>x. x XOR g) T"
    by (simp add: T_def xor_double_def)
  show ?case
  proof (cases "i < 2 ^ length gs")
    case True
    with len IH show ?thesis unfolding T by (simp add: nth_append)
  next
    case False
    define j where "j = i - 2 ^ length gs"
    have ij: "i = 2 ^ length gs + j" and j: "j < 2 ^ length gs"
      using False snoc.prems(2) by (simp_all add: j_def)
    have "f (of_nat i) = f (of_nat j) XOR f (of_nat (2 ^ length gs))"
      unfolding ij of_nat_double [OF j] by (rule f)
    also have "\<dots> = h (T ! j XOR g)"
      using IH [OF j] snoc.prems(1) [of "length gs"] by (simp add: h)
    finally show ?thesis unfolding T using len j by (simp add: nth_append ij)
  qed
qed

section \<open>Bytes of words\<close>

lemma and_ff: "(x :: 'a::len word) AND 0xff = take_bit 8 x"
  by (simp add: take_bit_eq_mask mask_numeral)

lemma unat_take_bit_8: "unat (take_bit 8 (x :: u32)) < 256"
  using take_bit_nat_less_exp [of 8 "unat x"] by (simp add: unsigned_take_bit_eq)

lemma funpow_8: "(f ^^ 8) x = f (f (f (f (f (f (f (f x)))))))"
  by (simp add: numeral_eq_Suc)

lemma less_8_cases:
  assumes "k < (8::nat)"
  obtains "k = 0" | "k = 1" | "k = 2" | "k = 3" | "k = 4" | "k = 5" | "k = 6" | "k = 7"
  using assms by fastforce

lemma xor_eq_swap: "a XOR b = c \<longleftrightarrow> a = c XOR (b :: 'a::len word)"
  by (auto simp: bit_eq_iff bit_simps)

section \<open>CRC-32, reflected\<close>

definition crc32_bit :: "u32 \<Rightarrow> u32" where
  "crc32_bit c = (if bit c 0 then drop_bit 1 c XOR 0xEDB88320 else drop_bit 1 c)"

text \<open>The specification of a byte step: add the byte to the register, shift eight times.\<close>

definition crc32_spec :: "u32 \<Rightarrow> u8 \<Rightarrow> u32" where
  "crc32_spec c d = (crc32_bit ^^ 8) (c XOR ucast d)"

text \<open>The byte step as the code computes it from a table.\<close>

definition crc32_step :: "u32 list \<Rightarrow> u32 \<Rightarrow> u8 \<Rightarrow> u32" where
  "crc32_step tab c d = tab ! unat ((c XOR ucast d) AND 0xff) XOR drop_bit 8 c"

definition semp_crc32Table :: "u32 list" where
  "semp_crc32Table = [
     0x00000000, 0x77073096, 0xEE0E612C, 0x990951BA, 0x076DC419, 0x706AF48F,
     0xE963A535, 0x9E6495A3, 0x0EDB8832, 0x79DCB8A4, 0xE0D5E91E, 0x97D2D988,
     0x09B64C2B, 0x7EB17CBD, 0xE7B82D07, 0x90BF1D91, 0x1DB71064, 0x6AB020F2,
     0xF3B97148, 0x84BE41DE, 0x1ADAD47D, 0x6DDDE4EB, 0xF4D4B551, 0x83D385C7,
     0x136C9856, 0x646BA8C0, 0xFD62F97A, 0x8A65C9EC, 0x14015C4F, 0x63066CD9,
     0xFA0F3D63, 0x8D080DF5, 0x3B6E20C8, 0x4C69105E, 0xD56041E4, 0xA2677172,
     0x3C03E4D1, 0x4B04D447, 0xD20D85FD, 0xA50AB56B, 0x35B5A8FA, 0x42B2986C,
     0xDBBBC9D6, 0xACBCF940, 0x32D86CE3, 0x45DF5C75, 0xDCD60DCF, 0xABD13D59,
     0x26D930AC, 0x51DE003A, 0xC8D75180, 0xBFD06116, 0x21B4F4B5, 0x56B3C423,
     0xCFBA9599, 0xB8BDA50F, 0x2802B89E, 0x5F058808, 0xC60CD9B2, 0xB10BE924,
     0x2F6F7C87, 0x58684C11, 0xC1611DAB, 0xB6662D3D, 0x76DC4190, 0x01DB7106,
     0x98D220BC, 0xEFD5102A, 0x71B18589, 0x06B6B51F, 0x9FBFE4A5, 0xE8B8D433,
     0x7807C9A2, 0x0F00F934, 0x9609A88E, 0xE10E9818, 0x7F6A0DBB, 0x086D3D2D,
     0x91646C97, 0xE6635C01, 0x6B6B51F4, 0x1C6C6162, 0x856530D8, 0xF262004E,
     0x6C0695ED, 0x1B01A57B, 0x8208F4C1, 0xF50FC457, 0x65B0D9C6, 0x12B7E950,
     0x8BBEB8EA, 0xFCB9887C, 0x62DD1DDF, 0x15DA2D49, 0x8CD37CF3, 0xFBD44C65,
     0x4DB26158, 0x3AB551CE, 0xA3BC0074, 0xD4BB30E2, 0x4ADFA541, 0x3DD895D7,
     0xA4D1C46D, 0xD3D6F4FB, 0x4369E96A, 0x346ED9FC, 0xAD678846, 0xDA60B8D0,
     0x44042D73, 0x33031DE5, 0xAA0A4C5F, 0xDD0D7CC9, 0x5005713C, 0x270241AA,
     0xBE0B1010, 0xC90C2086, 0x5768B525, 0x206F85B3, 0xB966D409, 0xCE61E49F,
     0x5EDEF90E, 0x29D9C998, 0xB0D09822, 0xC7D7A8B4, 0x59B33D17, 0x2EB40D81,
     0xB7BD5C3B, 0xC0BA6CAD, 0xEDB88320, 0x9ABFB3B6, 0x03B6E20C, 0x74B1D29A,
     0xEAD54739, 0x9DD277AF, 0x04DB2615, 0x73DC1683, 0xE3630B12, 0x94643B84,
     0x0D6D6A3E, 0x7A6A5AA8, 0xE40ECF0B, 0x9309FF9D, 0x0A00AE27, 0x7D079EB1,
     0xF00F9344, 0x8708A3D2, 0x1E01F268, 0x6906C2FE, 0xF762575D, 0x806567CB,
     0x196C3671, 0x6E6B06E7, 0xFED41B76, 0x89D32BE0, 0x10DA7A5A, 0x67DD4ACC,
     0xF9B9DF6F, 0x8EBEEFF9, 0x17B7BE43, 0x60B08ED5, 0xD6D6A3E8, 0xA1D1937E,
     0x38D8C2C4, 0x4FDFF252, 0xD1BB67F1, 0xA6BC5767, 0x3FB506DD, 0x48B2364B,
     0xD80D2BDA, 0xAF0A1B4C, 0x36034AF6, 0x41047A60, 0xDF60EFC3, 0xA867DF55,
     0x316E8EEF, 0x4669BE79, 0xCB61B38C, 0xBC66831A, 0x256FD2A0, 0x5268E236,
     0xCC0C7795, 0xBB0B4703, 0x220216B9, 0x5505262F, 0xC5BA3BBE, 0xB2BD0B28,
     0x2BB45A92, 0x5CB36A04, 0xC2D7FFA7, 0xB5D0CF31, 0x2CD99E8B, 0x5BDEAE1D,
     0x9B64C2B0, 0xEC63F226, 0x756AA39C, 0x026D930A, 0x9C0906A9, 0xEB0E363F,
     0x72076785, 0x05005713, 0x95BF4A82, 0xE2B87A14, 0x7BB12BAE, 0x0CB61B38,
     0x92D28E9B, 0xE5D5BE0D, 0x7CDCEFB7, 0x0BDBDF21, 0x86D3D2D4, 0xF1D4E242,
     0x68DDB3F8, 0x1FDA836E, 0x81BE16CD, 0xF6B9265B, 0x6FB077E1, 0x18B74777,
     0x88085AE6, 0xFF0F6A70, 0x66063BCA, 0x11010B5C, 0x8F659EFF, 0xF862AE69,
     0x616BFFD3, 0x166CCF45, 0xA00AE278, 0xD70DD2EE, 0x4E048354, 0x3903B3C2,
     0xA7672661, 0xD06016F7, 0x4969474D, 0x3E6E77DB, 0xAED16A4A, 0xD9D65ADC,
     0x40DF0B66, 0x37D83BF0, 0xA9BCAE53, 0xDEBB9EC5, 0x47B2CF7F, 0x30B5FFE9,
     0xBDBDF21C, 0xCABAC28A, 0x53B39330, 0x24B4A3A6, 0xBAD03605, 0xCDD70693,
     0x54DE5729, 0x23D967BF, 0xB3667A2E, 0xC4614AB8, 0x5D681B02, 0x2A6F2B94,
     0xB40BBE37, 0xC30C8EA1, 0x5A05DF1B, 0x2D02EF8D]"


interpretation crc32: lfsr crc32_bit
proof
  fix a b :: u32
  show "crc32_bit (a XOR b) = crc32_bit a XOR crc32_bit b"
    by (simp add: crc32_bit_def bit_xor_iff drop_bit_xor ac_simps xor.left_commute)
  show "crc32_bit a = 0 \<longleftrightarrow> a = 0"
  proof
    assume 0: "crc32_bit a = 0"
    have "bit (crc32_bit a) 31 \<longleftrightarrow> bit a 0"
      by (auto simp: crc32_bit_def bit_simps dest: bit_imp_le_length)
    with 0 have a0: "\<not> bit a 0" by simp
    with 0 have "drop_bit 1 a = 0" by (simp add: crc32_bit_def)
    then have "\<not> bit (drop_bit 1 a) n" for n by simp
    then have "\<not> bit a n" for n using a0 by (cases n) (simp_all add: bit_simps)
    then show "a = 0" by (simp add: bit_eq_iff)
  qed (simp add: crc32_bit_def)
qed

lemma crc32_pow_low_zero:
  "(\<And>k. k < n \<Longrightarrow> \<not> bit x k) \<Longrightarrow> (crc32_bit ^^ n) x = drop_bit n x"
proof (induction n)
  case (Suc n)
  then have "(crc32_bit ^^ n) x = drop_bit n x" by simp
  moreover have "\<not> bit (drop_bit n x) 0" using Suc.prems [of n] by (simp add: bit_simps)
  ultimately show ?case by (simp add: crc32_bit_def [of "drop_bit n x"])
qed simp

lemma semp_crc32Table_double: "semp_crc32Table = foldl xor_double [0] [0x77073096, 0xEE0E612C, 0x076DC419, 0x0EDB8832, 0x1DB71064, 0x3B6E20C8, 0x76DC4190, 0xEDB88320]"
  by (simp add: semp_crc32Table_def xor_double_def)

lemma crc32_table_eq:
  assumes "i < 256"
  shows "semp_crc32Table ! i = (crc32_bit ^^ 8) (of_nat i)"
proof -
  have "id (foldl xor_double [0] [0x77073096, 0xEE0E612C, 0x076DC419, 0x0EDB8832, 0x1DB71064, 0x3B6E20C8, 0x76DC4190, 0xEDB88320] ! i) = (crc32_bit ^^ 8) (of_nat i)"
  proof (rule xor_table)
    fix k assume "k < length [0x77073096, 0xEE0E612C, 0x076DC419, 0x0EDB8832, 0x1DB71064, 0x3B6E20C8, 0x76DC4190, 0xEDB88320 :: u32]"
    then have "k < 8" by simp
    then show "id ([0x77073096, 0xEE0E612C, 0x076DC419, 0x0EDB8832, 0x1DB71064, 0x3B6E20C8, 0x76DC4190, 0xEDB88320] ! k) = (crc32_bit ^^ 8) (of_nat (2 ^ k))"
      by (cases rule: less_8_cases) (simp_all add: funpow_8 crc32_bit_def bit_simps)
  qed (use assms in \<open>simp_all add: crc32.pow_xor\<close>)
  then show ?thesis by (simp add: semp_crc32Table_double)
qed

text \<open>
  The interface of a CRC-32 table: what the byte step of the code and the three parsers
  that use it rely on. The repository has three copies of the table, one per parser.
\<close>

locale crc32_table =
  fixes table :: "u32 list"
  assumes table_entry: "i < 256 \<Longrightarrow> table ! i = (crc32_bit ^^ 8) (of_nat i)"
begin

lemma step_spec: "crc32_step table c d = crc32_spec c d"
proof -
  define x where "x = c XOR ucast d"
  define hi where "hi = push_bit 8 (drop_bit 8 c)"
  have x: "x = take_bit 8 x XOR hi"
    by (rule bit_word_eqI) (auto simp: x_def hi_def bit_simps dest: bit_imp_le_length)
  have "table ! unat (take_bit 8 x) = (crc32_bit ^^ 8) (take_bit 8 x)"
    using table_entry [OF unat_take_bit_8] by simp
  moreover have "(crc32_bit ^^ 8) hi = drop_bit 8 hi"
    by (rule crc32_pow_low_zero) (simp add: hi_def bit_simps)
  moreover have "drop_bit 8 hi = drop_bit 8 c"
    by (rule bit_word_eqI) (auto simp: hi_def bit_simps dest: bit_imp_le_length)
  ultimately have "crc32_step table c d = (crc32_bit ^^ 8) (take_bit 8 x XOR hi)"
    by (simp add: crc32_step_def and_ff crc32.pow_xor flip: x_def)
  also have "\<dots> = crc32_spec c d" unfolding x [symmetric] by (simp add: crc32_spec_def x_def)
  finally show ?thesis .
qed

lemma foldl_spec: "foldl (crc32_step table) c ds = foldl crc32_spec c ds"
  by (induction ds arbitrary: c) (simp_all add: step_spec)

end

interpretation semp_crc32: crc32_table semp_crc32Table
  by unfold_locales (rule crc32_table_eq)

subsection \<open>The residue\<close>

lemma crc32_spec_eq:
  assumes "drop_bit 24 y = 0"
  shows "crc32_spec c b = y \<longleftrightarrow> c = push_bit 8 y XOR ucast b"
proof -
  have "drop_bit 8 (push_bit 8 y) = y"
  proof (rule bit_word_eqI)
    fix n assume "n < LENGTH(32)"
    have "\<not> bit (drop_bit 24 y) k" for k using assms by simp
    then have "\<not> bit y (24 + k)" for k by (simp add: bit_simps)
    then have "bit y n \<Longrightarrow> n < 24" by (metis le_add_diff_inverse not_le)
    then show "bit (drop_bit 8 (push_bit 8 y)) n = bit y n" by (auto simp: bit_simps)
  qed
  then have "(crc32_bit ^^ 8) (push_bit 8 y) = y"
    using crc32_pow_low_zero [of 8 "push_bit 8 y"] by (simp add: bit_simps)
  then have "crc32_spec c b = y \<longleftrightarrow> (crc32_bit ^^ 8) (c XOR ucast b) = (crc32_bit ^^ 8) (push_bit 8 y)"
    by (simp add: crc32_spec_def)
  also have "\<dots> \<longleftrightarrow> c = push_bit 8 y XOR ucast b"
    by (simp add: crc32.pow_inj xor_eq_swap)
  finally show ?thesis .
qed

text \<open>
  A register that reads four bytes ends at zero exactly when the bytes are its own value,
  least significant byte first.
\<close>

lemma crc32_residue: "foldl crc32_spec c [b0, b1, b2, b3] = 0 \<longleftrightarrow> c = le32 b0 b1 b2 b3"
proof -
  let ?y3 = "ucast b3 :: u32"
  let ?y2 = "push_bit 8 ?y3 XOR ucast b2"
  let ?y1 = "push_bit 8 ?y2 XOR ucast b1"
  have y: "drop_bit 24 ?y3 = 0" "drop_bit 24 ?y2 = 0" "drop_bit 24 ?y1 = 0"
    by (rule bit_word_eqI, auto simp: bit_simps dest: bit_imp_le_length)+
  have le: "push_bit 8 ?y1 XOR ucast b0 = le32 b0 b1 b2 b3"
    by (rule bit_word_eqI) (auto simp: le32_def bit_simps dest: bit_imp_le_length)
  have "foldl crc32_spec c [b0, b1, b2, b3] = 0 \<longleftrightarrow>
      crc32_spec (crc32_spec (crc32_spec c b0) b1) b2 = ?y3"
    using crc32_spec_eq [of 0 "crc32_spec (crc32_spec (crc32_spec c b0) b1) b2" b3] by simp
  also have "\<dots> \<longleftrightarrow> crc32_spec (crc32_spec c b0) b1 = ?y2" by (rule crc32_spec_eq [OF y(1)])
  also have "\<dots> \<longleftrightarrow> crc32_spec c b0 = ?y1" by (rule crc32_spec_eq [OF y(2)])
  also have "\<dots> \<longleftrightarrow> c = push_bit 8 ?y1 XOR ucast b0" by (rule crc32_spec_eq [OF y(3)])
  finally show ?thesis by (simp only: le)
qed

section \<open>CRC-24Q\<close>

type_synonym u24 = "24 word"

definition crc24_bit :: "u24 \<Rightarrow> u24" where
  "crc24_bit c = (if bit c 23 then push_bit 1 c XOR 0x864CFB else push_bit 1 c)"

definition crc24_spec :: "u24 \<Rightarrow> u8 \<Rightarrow> u24" where
  "crc24_spec c d = (crc24_bit ^^ 8) (c XOR push_bit 16 (ucast d))"

definition semp_crc24qTable :: "u32 list" where
  "semp_crc24qTable = [
     0x00000000, 0x01864CFB, 0x028AD50D, 0x030C99F6,
     0x0493E6E1, 0x0515AA1A, 0x061933EC, 0x079F7F17,
     0x08A18139, 0x0927CDC2, 0x0A2B5434, 0x0BAD18CF,
     0x0C3267D8, 0x0DB42B23, 0x0EB8B2D5, 0x0F3EFE2E,
     0x10C54E89, 0x11430272, 0x124F9B84, 0x13C9D77F,
     0x1456A868, 0x15D0E493, 0x16DC7D65, 0x175A319E,
     0x1864CFB0, 0x19E2834B, 0x1AEE1ABD, 0x1B685646,
     0x1CF72951, 0x1D7165AA, 0x1E7DFC5C, 0x1FFBB0A7,
     0x200CD1E9, 0x218A9D12, 0x228604E4, 0x2300481F,
     0x249F3708, 0x25197BF3, 0x2615E205, 0x2793AEFE,
     0x28AD50D0, 0x292B1C2B, 0x2A2785DD, 0x2BA1C926,
     0x2C3EB631, 0x2DB8FACA, 0x2EB4633C, 0x2F322FC7,
     0x30C99F60, 0x314FD39B, 0x32434A6D, 0x33C50696,
     0x345A7981, 0x35DC357A, 0x36D0AC8C, 0x3756E077,
     0x38681E59, 0x39EE52A2, 0x3AE2CB54, 0x3B6487AF,
     0x3CFBF8B8, 0x3D7DB443, 0x3E712DB5, 0x3FF7614E,
     0x4019A3D2, 0x419FEF29, 0x429376DF, 0x43153A24,
     0x448A4533, 0x450C09C8, 0x4600903E, 0x4786DCC5,
     0x48B822EB, 0x493E6E10, 0x4A32F7E6, 0x4BB4BB1D,
     0x4C2BC40A, 0x4DAD88F1, 0x4EA11107, 0x4F275DFC,
     0x50DCED5B, 0x515AA1A0, 0x52563856, 0x53D074AD,
     0x544F0BBA, 0x55C94741, 0x56C5DEB7, 0x5743924C,
     0x587D6C62, 0x59FB2099, 0x5AF7B96F, 0x5B71F594,
     0x5CEE8A83, 0x5D68C678, 0x5E645F8E, 0x5FE21375,
     0x6015723B, 0x61933EC0, 0x629FA736, 0x6319EBCD,
     0x648694DA, 0x6500D821, 0x660C41D7, 0x678A0D2C,
     0x68B4F302, 0x6932BFF9, 0x6A3E260F, 0x6BB86AF4,
     0x6C2715E3, 0x6DA15918, 0x6EADC0EE, 0x6F2B8C15,
     0x70D03CB2, 0x71567049, 0x725AE9BF, 0x73DCA544,
     0x7443DA53, 0x75C596A8, 0x76C90F5E, 0x774F43A5,
     0x7871BD8B, 0x79F7F170, 0x7AFB6886, 0x7B7D247D,
     0x7CE25B6A, 0x7D641791, 0x7E688E67, 0x7FEEC29C,
     0x803347A4, 0x81B50B5F, 0x82B992A9, 0x833FDE52,
     0x84A0A145, 0x8526EDBE, 0x862A7448, 0x87AC38B3,
     0x8892C69D, 0x89148A66, 0x8A181390, 0x8B9E5F6B,
     0x8C01207C, 0x8D876C87, 0x8E8BF571, 0x8F0DB98A,
     0x90F6092D, 0x917045D6, 0x927CDC20, 0x93FA90DB,
     0x9465EFCC, 0x95E3A337, 0x96EF3AC1, 0x9769763A,
     0x98578814, 0x99D1C4EF, 0x9ADD5D19, 0x9B5B11E2,
     0x9CC46EF5, 0x9D42220E, 0x9E4EBBF8, 0x9FC8F703,
     0xA03F964D, 0xA1B9DAB6, 0xA2B54340, 0xA3330FBB,
     0xA4AC70AC, 0xA52A3C57, 0xA626A5A1, 0xA7A0E95A,
     0xA89E1774, 0xA9185B8F, 0xAA14C279, 0xAB928E82,
     0xAC0DF195, 0xAD8BBD6E, 0xAE872498, 0xAF016863,
     0xB0FAD8C4, 0xB17C943F, 0xB2700DC9, 0xB3F64132,
     0xB4693E25, 0xB5EF72DE, 0xB6E3EB28, 0xB765A7D3,
     0xB85B59FD, 0xB9DD1506, 0xBAD18CF0, 0xBB57C00B,
     0xBCC8BF1C, 0xBD4EF3E7, 0xBE426A11, 0xBFC426EA,
     0xC02AE476, 0xC1ACA88D, 0xC2A0317B, 0xC3267D80,
     0xC4B90297, 0xC53F4E6C, 0xC633D79A, 0xC7B59B61,
     0xC88B654F, 0xC90D29B4, 0xCA01B042, 0xCB87FCB9,
     0xCC1883AE, 0xCD9ECF55, 0xCE9256A3, 0xCF141A58,
     0xD0EFAAFF, 0xD169E604, 0xD2657FF2, 0xD3E33309,
     0xD47C4C1E, 0xD5FA00E5, 0xD6F69913, 0xD770D5E8,
     0xD84E2BC6, 0xD9C8673D, 0xDAC4FECB, 0xDB42B230,
     0xDCDDCD27, 0xDD5B81DC, 0xDE57182A, 0xDFD154D1,
     0xE026359F, 0xE1A07964, 0xE2ACE092, 0xE32AAC69,
     0xE4B5D37E, 0xE5339F85, 0xE63F0673, 0xE7B94A88,
     0xE887B4A6, 0xE901F85D, 0xEA0D61AB, 0xEB8B2D50,
     0xEC145247, 0xED921EBC, 0xEE9E874A, 0xEF18CBB1,
     0xF0E37B16, 0xF16537ED, 0xF269AE1B, 0xF3EFE2E0,
     0xF4709DF7, 0xF5F6D10C, 0xF6FA48FA, 0xF77C0401,
     0xF842FA2F, 0xF9C4B6D4, 0xFAC82F22, 0xFB4E63D9,
     0xFCD11CCE, 0xFD575035, 0xFE5BC9C3, 0xFFDD8538]"

interpretation crc24: lfsr crc24_bit
proof
  fix a b :: u24
  show "crc24_bit (a XOR b) = crc24_bit a XOR crc24_bit b"
    by (simp add: crc24_bit_def bit_xor_iff push_bit_xor ac_simps xor.left_commute)
  show "crc24_bit a = 0 \<longleftrightarrow> a = 0"
  proof
    assume 0: "crc24_bit a = 0"
    have "bit (crc24_bit a) 0 \<longleftrightarrow> bit a 23"
      using bit_push_bit_iff [of 1 a 0] by (auto simp: crc24_bit_def bit_xor_iff)
    with 0 have a: "\<not> bit a 23" by simp
    with 0 have "push_bit 1 a = 0" by (simp add: crc24_bit_def)
    then have "\<not> bit (push_bit 1 a) (Suc n)" for n by simp
    then have "\<not> bit a n" if "n < 23" for n
      using that bit_push_bit_iff [of 1 a "Suc n"] by simp
    then have "\<not> bit a n" for n
      using a bit_imp_le_length [of a n] by (cases "n < 23") (auto simp: not_less le_eq_less_or_eq)
    then show "a = 0" by (simp add: bit_eq_iff)
  qed (simp add: crc24_bit_def)
qed

lemma crc24_pow_high_zero:
  "n \<le> 24 \<Longrightarrow> (\<And>k. 24 - n \<le> k \<Longrightarrow> \<not> bit x k) \<Longrightarrow> (crc24_bit ^^ n) x = push_bit n x"
proof (induction n)
  case (Suc n)
  then have "(crc24_bit ^^ n) x = push_bit n x" by simp
  moreover have "\<not> bit (push_bit n x) 23" using Suc.prems by (simp add: bit_push_bit_iff)
  ultimately have "(crc24_bit ^^ Suc n) x = push_bit 1 (push_bit n x)"
    by (simp add: crc24_bit_def [of "push_bit n x"])
  also have "\<dots> = push_bit (Suc n) x" by (simp only: push_bit_push_bit plus_1_eq_Suc)
  finally show ?case .
qed simp

lemma semp_crc24qTable_double: "semp_crc24qTable = foldl xor_double [0] [0x01864CFB, 0x028AD50D, 0x0493E6E1, 0x08A18139, 0x10C54E89, 0x200CD1E9, 0x4019A3D2, 0x803347A4]"
  by (simp add: semp_crc24qTable_def xor_double_def)

lemma ucast_xor: "ucast (a XOR b) = ucast a XOR (ucast b :: 'b::len word)"
  for a b :: "'a::len word"
  by (rule bit_word_eqI) (auto simp: bit_simps)

lemma crc24_table_eq:
  assumes "i < 256"
  shows "ucast (semp_crc24qTable ! i) = (crc24_bit ^^ 8) (push_bit 16 (of_nat i))"
proof -
  have "ucast (foldl xor_double [0] [0x01864CFB, 0x028AD50D, 0x0493E6E1, 0x08A18139, 0x10C54E89, 0x200CD1E9, 0x4019A3D2, 0x803347A4 :: u32] ! i) =
      (crc24_bit ^^ 8) (push_bit 16 (ucast (of_nat i :: u8)))"
  proof (rule xor_table [where f = "\<lambda>i :: u8. (crc24_bit ^^ 8) (push_bit 16 (ucast i))"])
    fix k assume "k < length [0x01864CFB, 0x028AD50D, 0x0493E6E1, 0x08A18139, 0x10C54E89, 0x200CD1E9, 0x4019A3D2, 0x803347A4 :: u32]"
    then have "k < 8" by simp
    then show "ucast ([0x01864CFB, 0x028AD50D, 0x0493E6E1, 0x08A18139, 0x10C54E89, 0x200CD1E9, 0x4019A3D2, 0x803347A4 :: u32] ! k) =
        (crc24_bit ^^ 8) (push_bit 16 (ucast (of_nat (2 ^ k) :: u8)))"
      by (cases rule: less_8_cases) (simp_all add: funpow_8 crc24_bit_def bit_simps)
  qed (use assms in \<open>simp_all add: crc24.pow_xor ucast_xor push_bit_xor\<close>)
  moreover have "ucast (of_nat i :: u8) = (of_nat i :: u24)"
    using assms
    by (simp add: word_unat_eq_iff unsigned_ucast_eq unsigned_of_nat take_bit_nat_eq_self)
  ultimately show ?thesis by (simp add: semp_crc24qTable_double)
qed

text \<open>The byte step as \<^verbatim>\<open>sempRtcmComputeCrc24q\<close> computes it, on a 32-bit register.\<close>

definition crc24q_step :: "u32 \<Rightarrow> u8 \<Rightarrow> u32" where
  "crc24q_step c d =
     (push_bit 8 c XOR semp_crc24qTable ! unat (ucast d XOR (drop_bit 16 c AND 0xff)))
       AND 0x00ffffff"

lemma and_ffffff: "(x :: u32) AND 0x00ffffff = ucast (ucast x :: u24)"
proof -
  have "x AND 0x00ffffff = take_bit 24 x" by (simp add: take_bit_eq_mask mask_numeral)
  also have "\<dots> = ucast (ucast x :: u24)" by (rule bit_word_eqI) (auto simp: bit_simps)
  finally show ?thesis .
qed

lemma crc24q_step_spec: "crc24q_step (ucast c) d = ucast (crc24_spec c d)"
proof -
  define i where "i = d XOR byte_of 2 c"
  have idx: "ucast d XOR (drop_bit 16 (ucast c) AND 0xff) = (ucast i :: u32)"
    unfolding and_ff i_def
    by (rule bit_word_eqI) (auto simp: bit_simps bit_byte_of dest: bit_imp_le_length)
  have un: "unat (ucast i :: u32) = unat i" by (simp add: unsigned_ucast_eq take_bit_nat_eq_self_iff order_less_trans [OF unsigned_less])
  have tab: "ucast (semp_crc24qTable ! unat i) = (crc24_bit ^^ 8) (push_bit 16 (ucast i))"
    using crc24_table_eq [of "unat i"] unsigned_less [of i] by (simp add: of_nat_unat)
  have split: "c XOR push_bit 16 (ucast d) = take_bit 16 c XOR push_bit 16 (ucast i)"
    unfolding i_def
    by (rule bit_word_eqI) (auto simp: bit_simps bit_byte_of dest: bit_imp_le_length)
  have low: "(crc24_bit ^^ 8) (take_bit 16 c) = ucast (push_bit 8 (ucast c :: u32))"
  proof -
    have "(crc24_bit ^^ 8) (take_bit 16 c) = push_bit 8 (take_bit 16 c)"
      by (rule crc24_pow_high_zero) (auto simp: bit_simps)
    also have "\<dots> = ucast (push_bit 8 (ucast c :: u32))"
      by (rule bit_word_eqI) (auto simp: bit_simps dest: bit_imp_le_length)
    finally show ?thesis .
  qed
  have "crc24_spec c d = ucast (push_bit 8 (ucast c :: u32) XOR semp_crc24qTable ! unat i)"
    by (simp only: crc24_spec_def split crc24.pow_xor low tab ucast_xor)
  then show ?thesis by (simp add: crc24q_step_def idx un and_ffffff)
qed

lemma foldl_crc24q: "foldl crc24q_step (ucast c) ds = ucast (foldl crc24_spec c ds)"
  by (induction ds arbitrary: c) (simp_all add: crc24q_step_spec)

subsection \<open>The residue\<close>

lemma crc24_spec_eq:
  assumes "take_bit 8 y = 0"
  shows "crc24_spec c b = y \<longleftrightarrow> c = drop_bit 8 y XOR push_bit 16 (ucast b)"
proof -
  have "push_bit 8 (drop_bit 8 y) = y"
  proof (rule bit_word_eqI)
    fix n assume "n < LENGTH(24)"
    have "\<not> bit (take_bit 8 y) k" for k using assms by simp
    then have "bit y n \<Longrightarrow> 8 \<le> n" by (meson bit_take_bit_iff not_le)
    with \<open>n < LENGTH(24)\<close> show "bit (push_bit 8 (drop_bit 8 y)) n = bit y n"
      by (auto simp: bit_simps)
  qed
  moreover have "(crc24_bit ^^ 8) (drop_bit 8 y) = push_bit 8 (drop_bit 8 y)"
    by (rule crc24_pow_high_zero) (auto simp: bit_simps dest: bit_imp_le_length)
  ultimately have "crc24_spec c b = y \<longleftrightarrow>
      (crc24_bit ^^ 8) (c XOR push_bit 16 (ucast b)) = (crc24_bit ^^ 8) (drop_bit 8 y)"
    by (simp add: crc24_spec_def)
  also have "\<dots> \<longleftrightarrow> c = drop_bit 8 y XOR push_bit 16 (ucast b)"
    by (simp add: crc24.pow_inj xor_eq_swap)
  finally show ?thesis .
qed

text \<open>
  A register that reads three bytes ends at zero exactly when the bytes are its own
  value, most significant byte first.
\<close>

lemma crc24_residue:
  "foldl crc24_spec c [b2, b1, b0] = 0 \<longleftrightarrow> [b2, b1, b0] = [byte_of 2 c, byte_of 1 c, byte_of 0 c]"
proof -
  let ?y0 = "push_bit 16 (ucast b0) :: u24"
  let ?y1 = "drop_bit 8 ?y0 XOR push_bit 16 (ucast b1)"
  have y: "take_bit 8 ?y0 = 0" "take_bit 8 ?y1 = 0"
    by (rule bit_word_eqI, auto simp: bit_simps dest: bit_imp_le_length)+
  have "foldl crc24_spec c [b2, b1, b0] = 0 \<longleftrightarrow> crc24_spec (crc24_spec c b2) b1 = ?y0"
    using crc24_spec_eq [of 0 "crc24_spec (crc24_spec c b2) b1" b0] by simp
  also have "\<dots> \<longleftrightarrow> crc24_spec c b2 = ?y1" by (rule crc24_spec_eq [OF y(1)])
  also have "\<dots> \<longleftrightarrow> c = drop_bit 8 ?y1 XOR push_bit 16 (ucast b2)"
    by (rule crc24_spec_eq [OF y(2)])
  also have "\<dots> \<longleftrightarrow> [b2, b1, b0] = [byte_of 2 c, byte_of 1 c, byte_of 0 c]"
  proof
    assume "c = drop_bit 8 ?y1 XOR push_bit 16 (ucast b2)"
    then have c: "bit c n \<longleftrightarrow> bit (drop_bit 8 ?y1 XOR push_bit 16 (ucast b2)) n" for n by simp
    have "b2 = byte_of 2 c" "b1 = byte_of 1 c" "b0 = byte_of 0 c"
      by (rule bit_word_eqI, auto simp: c bit_simps bit_byte_of dest: bit_imp_le_length)+
    then show "[b2, b1, b0] = [byte_of 2 c, byte_of 1 c, byte_of 0 c]" by simp
  next
    assume "[b2, b1, b0] = [byte_of 2 c, byte_of 1 c, byte_of 0 c]"
    then have b: "b2 = byte_of 2 c" "b1 = byte_of 1 c" "b0 = byte_of 0 c" by simp_all
    show "c = drop_bit 8 ?y1 XOR push_bit 16 (ucast b2)"
    proof (rule bit_word_eqI)
      fix n assume "n < LENGTH(24)"
      then consider "n < 8" | "8 \<le> n" "n < 16" | "16 \<le> n" "n < 24" by fastforce
      then show "bit c n = bit (drop_bit 8 ?y1 XOR push_bit 16 (ucast b2)) n"
        by cases (auto simp: b bit_simps bit_byte_of dest: bit_imp_le_length)
    qed
  qed
  finally show ?thesis .
qed

end
