(* ===== verification/Message_Types.thy ===== *)
theory Message_Types
  imports Crc
begin

text \<open>
  The data of my_parser/Message_Parser.h: the parser state, the overlapping scratch
  areas, the routines that can be the current state, and the trace of what the parser
  tells the application.

  \<^item> A routine pointer is a value of a datatype with one constructor per routine of the
    program; calling it is a case distinction. \<open>SEMP_PARSE_ROUTINE\<close> are the values
    of \<^verbatim>\<open>parse->state\<close> (with the null pointer of a structure that is not set up), \<open>SEMP_PREAMBLE\<close> the entries of \<^verbatim>\<open>parse->parsers_table\<close> and
    \<open>SEMP_COMPUTE_CRC\<close> the values of \<^verbatim>\<open>parse->computeCrc\<close>.
  \<^item> A callback that only observes the parser (end of message, printing) is its address;
    a call adds an event to the trace \<open>log\<close>. The bad-CRC callback decides, so it is a
    function of the data it can read of the parser (\<open>parse_view\<close>). Callbacks do not write
    to the parser.
  \<^item> The scratch pad is memory: its \<^verbatim>\<open>union\<close> members are read and written at their
    offsets, so they overlap as they do in C.
\<close>

section \<open>Routines\<close>

datatype SEMP_PARSE_ROUTINE =
    NullRoutine
  | FirstByte
  | NmeaFindFirstComma | NmeaFindAsterisk | NmeaChecksumByte1 | NmeaChecksumByte2
  | NmeaLineTermination | NmeaCarriageReturn | NmeaLineFeed
  | RtcmReadLength1 | RtcmReadLength2 | RtcmReadMessage1 | RtcmReadMessage2
  | RtcmReadData | RtcmReadCrc
  | UbloxSync2 | UbloxClass | UbloxId | UbloxLength1 | UbloxLength2 | UbloxPayload
  | UbloxCkA | UbloxCkB
  | CustomSync2 | CustomSync3 | CustomReadHeader | CustomReadData | CustomReadCrc
  | UnicoreBinarySync2 | UnicoreBinarySync3 | UnicoreBinaryReadHeader
  | UnicoreBinaryReadData | UnicoreBinaryReadCrc
  | UnicoreHashFindFirstComma | UnicoreHashFindAsterisk | UnicoreHashChecksumByte
  | UnicoreHashLineTermination | UnicoreHashCarriageReturn | UnicoreHashLineFeed

datatype SEMP_PREAMBLE =
    NmeaPreamble | RtcmPreamble | UbloxPreamble
  | UnicoreBinaryPreamble | UnicoreHashPreamble | CustomPreamble

datatype SEMP_COMPUTE_CRC = RtcmComputeCrc24q | CustomComputeCrc | UnicoreBinaryComputeCrc

section \<open>Diagnostics and the trace\<close>

text \<open>One constructor per format string that the library prints.\<close>

datatype diag =
    MessageTooLong
  | NmeaBadChecksum | NmeaInvalidSecondChecksum | NmeaInvalidFirstChecksum
  | NmeaSentenceTooLong | NmeaInvalidNameCharacter | NmeaNameTooLong
  | RtcmBadCrc
  | UbloxBadChecksum | UbloxInvalidSync2
  | CustomBadCrc
  | UnicoreBinaryBadCrc
  | HashBadCrc | HashSentenceTooLong | HashBadChecksum | HashInvalidChecksumCharacter
  | HashInvalidNameCharacter | HashNameTooLong
  | ParserCountMismatch | NoParserTable | NoParserNameTable | NoEomCallback
  | NoParserName | NoParsers | AllocationFailed
  | ScratchPadBytes u16 | ScratchPadAligned u16 | ScratchPadMinimum u16 | ParseBytes int
  | IncreasingBufferLength u16 | ParseAddress | ScratchPadAddress | BufferAddress
  | ConfigTitle | ConfigName string | ConfigParsers | ConfigParserNames | ConfigParserCount u8
  | ConfigPrintError | ConfigPrintDebug | ConfigScratchPad | ConfigComputeCrc | ConfigCrc u32
  | ConfigState bool | ConfigEomCallback | ConfigBuffer u16 | ConfigLength u16
  | ConfigType u8 string

type_synonym callback = nat

datatype event =
    Eom callback u16 "u8 list"
  | BadCrcCall u8 "u8 list"
  | Print callback diag

section \<open>The parser state\<close>

record parse_view =
  buffer :: "u8 list"
  msg_length :: u16
  buffer_length :: u16
  crc :: u32
  parser_type :: u8
  parsers_count :: u8
  scratchPad :: mem

record SEMP_PARSE_STATE = parse_view +
  parserName :: string
  parsers_table :: "SEMP_PREAMBLE list"
  parserNames_table :: "string list option"
  state :: SEMP_PARSE_ROUTINE
  eomCallback :: "callback option"
  badCrc :: "(parse_view \<Rightarrow> bool) option"
  computeCrc :: "SEMP_COMPUTE_CRC option"
  printError :: "callback option"
  printDebug :: "callback option"
  log :: "event list"

type_synonym parse = SEMP_PARSE_STATE

section \<open>The scratch areas\<close>

text \<open>
  \<^verbatim>\<open>SEMP_SCRATCH_PAD\<close> is a union of six structs. The offsets are those of the natural
  alignment of \<^verbatim>\<open>uint16_t\<close> and \<^verbatim>\<open>uint32_t\<close>; the target is little-endian, as the
  protocols are.
\<close>

named_theorems scratch_defs \<open>the accessors of the scratch areas\<close>

definition nmea_sentenceName :: "parse \<Rightarrow> nat \<Rightarrow> u8" where
  [scratch_defs]: "nmea_sentenceName p i = scratchPad p i"

definition set_nmea_sentenceName :: "nat \<Rightarrow> u8 \<Rightarrow> parse \<Rightarrow> parse" where
  [scratch_defs]: "set_nmea_sentenceName i v p = p\<lparr>scratchPad := (scratchPad p)(i := v)\<rparr>"

definition nmea_sentenceNameLength :: "parse \<Rightarrow> u8" where
  [scratch_defs]: "nmea_sentenceNameLength p = scratchPad p 16"

definition set_nmea_sentenceNameLength :: "u8 \<Rightarrow> parse \<Rightarrow> parse" where
  [scratch_defs]: "set_nmea_sentenceNameLength v p = p\<lparr>scratchPad := (scratchPad p)(16 := v)\<rparr>"

definition rtcm_crc :: "parse \<Rightarrow> u32" where
  [scratch_defs]: "rtcm_crc p = get32 (scratchPad p) 0"

definition set_rtcm_crc :: "u32 \<Rightarrow> parse \<Rightarrow> parse" where
  [scratch_defs]: "set_rtcm_crc v p = p\<lparr>scratchPad := put32 (scratchPad p) 0 v\<rparr>"

definition rtcm_bytesRemaining :: "parse \<Rightarrow> u16" where
  [scratch_defs]: "rtcm_bytesRemaining p = get16 (scratchPad p) 4"

definition set_rtcm_bytesRemaining :: "u16 \<Rightarrow> parse \<Rightarrow> parse" where
  [scratch_defs]: "set_rtcm_bytesRemaining v p = p\<lparr>scratchPad := put16 (scratchPad p) 4 v\<rparr>"

definition rtcm_message :: "parse \<Rightarrow> u16" where
  [scratch_defs]: "rtcm_message p = get16 (scratchPad p) 6"

definition set_rtcm_message :: "u16 \<Rightarrow> parse \<Rightarrow> parse" where
  [scratch_defs]: "set_rtcm_message v p = p\<lparr>scratchPad := put16 (scratchPad p) 6 v\<rparr>"

definition ublox_bytesRemaining :: "parse \<Rightarrow> u16" where
  [scratch_defs]: "ublox_bytesRemaining p = get16 (scratchPad p) 0"

definition set_ublox_bytesRemaining :: "u16 \<Rightarrow> parse \<Rightarrow> parse" where
  [scratch_defs]: "set_ublox_bytesRemaining v p = p\<lparr>scratchPad := put16 (scratchPad p) 0 v\<rparr>"

definition ublox_message :: "parse \<Rightarrow> u16" where
  [scratch_defs]: "ublox_message p = get16 (scratchPad p) 2"

definition set_ublox_message :: "u16 \<Rightarrow> parse \<Rightarrow> parse" where
  [scratch_defs]: "set_ublox_message v p = p\<lparr>scratchPad := put16 (scratchPad p) 2 v\<rparr>"

definition ublox_ck_a :: "parse \<Rightarrow> u8" where
  [scratch_defs]: "ublox_ck_a p = scratchPad p 4"

definition set_ublox_ck_a :: "u8 \<Rightarrow> parse \<Rightarrow> parse" where
  [scratch_defs]: "set_ublox_ck_a v p = p\<lparr>scratchPad := (scratchPad p)(4 := v)\<rparr>"

definition ublox_ck_b :: "parse \<Rightarrow> u8" where
  [scratch_defs]: "ublox_ck_b p = scratchPad p 5"

definition set_ublox_ck_b :: "u8 \<Rightarrow> parse \<Rightarrow> parse" where
  [scratch_defs]: "set_ublox_ck_b v p = p\<lparr>scratchPad := (scratchPad p)(5 := v)\<rparr>"

definition unicoreBinary_crc :: "parse \<Rightarrow> u32" where
  [scratch_defs]: "unicoreBinary_crc p = get32 (scratchPad p) 0"

definition set_unicoreBinary_crc :: "u32 \<Rightarrow> parse \<Rightarrow> parse" where
  [scratch_defs]: "set_unicoreBinary_crc v p = p\<lparr>scratchPad := put32 (scratchPad p) 0 v\<rparr>"

definition unicoreBinary_bytesRemaining :: "parse \<Rightarrow> u16" where
  [scratch_defs]: "unicoreBinary_bytesRemaining p = get16 (scratchPad p) 4"

definition set_unicoreBinary_bytesRemaining :: "u16 \<Rightarrow> parse \<Rightarrow> parse" where
  [scratch_defs]:
    "set_unicoreBinary_bytesRemaining v p = p\<lparr>scratchPad := put16 (scratchPad p) 4 v\<rparr>"

definition unicoreHash_bytesRemaining :: "parse \<Rightarrow> u8" where
  [scratch_defs]: "unicoreHash_bytesRemaining p = scratchPad p 0"

definition set_unicoreHash_bytesRemaining :: "u8 \<Rightarrow> parse \<Rightarrow> parse" where
  [scratch_defs]:
    "set_unicoreHash_bytesRemaining v p = p\<lparr>scratchPad := (scratchPad p)(0 := v)\<rparr>"

definition unicoreHash_checksumBytes :: "parse \<Rightarrow> u8" where
  [scratch_defs]: "unicoreHash_checksumBytes p = scratchPad p 1"

definition set_unicoreHash_checksumBytes :: "u8 \<Rightarrow> parse \<Rightarrow> parse" where
  [scratch_defs]:
    "set_unicoreHash_checksumBytes v p = p\<lparr>scratchPad := (scratchPad p)(1 := v)\<rparr>"

definition unicoreHash_sentenceName :: "parse \<Rightarrow> nat \<Rightarrow> u8" where
  [scratch_defs]: "unicoreHash_sentenceName p i = scratchPad p (2 + i)"

definition set_unicoreHash_sentenceName :: "nat \<Rightarrow> u8 \<Rightarrow> parse \<Rightarrow> parse" where
  [scratch_defs]:
    "set_unicoreHash_sentenceName i v p = p\<lparr>scratchPad := (scratchPad p)(2 + i := v)\<rparr>"

definition unicoreHash_sentenceNameLength :: "parse \<Rightarrow> u8" where
  [scratch_defs]: "unicoreHash_sentenceNameLength p = scratchPad p 18"

definition set_unicoreHash_sentenceNameLength :: "u8 \<Rightarrow> parse \<Rightarrow> parse" where
  [scratch_defs]:
    "set_unicoreHash_sentenceNameLength v p = p\<lparr>scratchPad := (scratchPad p)(18 := v)\<rparr>"

definition custom_crc :: "parse \<Rightarrow> u32" where
  [scratch_defs]: "custom_crc p = get32 (scratchPad p) 0"

definition set_custom_crc :: "u32 \<Rightarrow> parse \<Rightarrow> parse" where
  [scratch_defs]: "set_custom_crc v p = p\<lparr>scratchPad := put32 (scratchPad p) 0 v\<rparr>"

definition custom_bytesRemaining :: "parse \<Rightarrow> u16" where
  [scratch_defs]: "custom_bytesRemaining p = get16 (scratchPad p) 4"

definition set_custom_bytesRemaining :: "u16 \<Rightarrow> parse \<Rightarrow> parse" where
  [scratch_defs]: "set_custom_bytesRemaining v p = p\<lparr>scratchPad := put16 (scratchPad p) 4 v\<rparr>"

section \<open>Access to the message buffer\<close>

text \<open>\<^verbatim>\<open>parse->buffer[parse->msg_length++] = data\<close>\<close>

definition buffer_push :: "parse \<Rightarrow> u8 \<Rightarrow> parse res" where
  "buffer_push p d =
     rbind (upd (buffer p) (uint (msg_length p)) d)
       (\<lambda>b. Inr (p\<lparr>buffer := b, msg_length := msg_length p + 1\<rparr>))"

text \<open>\<^verbatim>\<open>parse->buffer[parse->msg_length] = data\<close>\<close>

definition buffer_put :: "parse \<Rightarrow> u8 \<Rightarrow> parse res" where
  "buffer_put p d =
     rbind (upd (buffer p) (uint (msg_length p)) d) (\<lambda>b. Inr (p\<lparr>buffer := b\<rparr>))"

text \<open>\<^verbatim>\<open>parse->buffer[parse->msg_length - k]\<close>\<close>

definition buffer_back :: "parse \<Rightarrow> int \<Rightarrow> u8 res" where
  "buffer_back p k = at (buffer p) (uint (msg_length p) - k)"

text \<open>The message read so far.\<close>

definition message :: "parse \<Rightarrow> u8 list" where
  "message p = take (unat (msg_length p)) (buffer p)"

section \<open>Calls to the application\<close>

definition call_eom :: "parse \<Rightarrow> parse res" where
  "call_eom p =
     (case eomCallback p of
        None \<Rightarrow> Inl NullPointer
      | Some a \<Rightarrow> Inr (p\<lparr>log := log p @ [Eom a (ucast (parser_type p)) (message p)]\<rparr>))"

text \<open>
  \<^verbatim>\<open>ok || (parse->badCrc && (!parse->badCrc(parse)))\<close>: the test of every protocol
  after its own check.
\<close>

definition crc_accepted :: "bool \<Rightarrow> parse \<Rightarrow> parse \<times> bool" where
  "crc_accepted ok p =
     (if ok then (p, True)
      else case badCrc p of
        None \<Rightarrow> (p, False)
      | Some f \<Rightarrow> (p\<lparr>log := log p @ [BadCrcCall (parser_type p) (message p)]\<rparr>,
                   \<not> f (parse_view.truncate p)))"

definition sempPrintf :: "callback option \<Rightarrow> diag \<Rightarrow> parse \<Rightarrow> parse" where
  "sempPrintf cb m p = (case cb of None \<Rightarrow> p | Some a \<Rightarrow> p\<lparr>log := log p @ [Print a m]\<rparr>)"

text \<open>The messages delivered to the application, in order: parser index and bytes.\<close>

fun eoms :: "event list \<Rightarrow> (u16 \<times> u8 list) list" where
  "eoms [] = []"
| "eoms (Eom a t bs # es) = (t, bs) # eoms es"
| "eoms (BadCrcCall t bs # es) = eoms es"
| "eoms (Print a m # es) = eoms es"

lemma eoms_append [simp]: "eoms (xs @ ys) = eoms xs @ eoms ys"
  by (induction xs rule: eoms.induct) simp_all

abbreviation delivered :: "parse \<Rightarrow> (u16 \<times> u8 list) list" where
  "delivered p \<equiv> eoms (log p)"

end
