(* ===== verification/Preambles.thy ===== *)
theory Preambles
  imports Message_Types
begin

text \<open>
  The entry points of the six protocol files of my_parser: the routines an application
  puts in the parser table, and the CRC routines they install. A preamble routine looks
  at the first byte of a message and calls nothing else, so the table walk of
  Message_Parser.c can be defined on top of them; the rest of each protocol file calls
  back into Message_Parser.c and has its own theory.

  The contract between the table walk and a preamble routine is the locale
  \<open>preamble\<close>, interpreted for the six routines.
\<close>

section \<open>CRC routines\<close>

definition sempRtcmComputeCrc24q :: "parse \<Rightarrow> u8 \<Rightarrow> u32" where
  "sempRtcmComputeCrc24q p data = crc24q_step (crc p) data"

definition sempCustomComputeCrc :: "parse \<Rightarrow> u8 \<Rightarrow> u32" where
  "sempCustomComputeCrc p data = crc32_step semp_crc32Table (crc p) data"

text \<open>
  The body of \<^verbatim>\<open>sempUnicoreBinaryComputeCrc\<close> is commented out: it ends without a
  \<^verbatim>\<open>return\<close>, and its callers use the value.
\<close>

definition sempUnicoreBinaryComputeCrc :: "parse \<Rightarrow> u8 \<Rightarrow> u32 res" where
  "sempUnicoreBinaryComputeCrc p data = Inl UndefinedReturn"

fun call_computeCrc :: "SEMP_COMPUTE_CRC \<Rightarrow> parse \<Rightarrow> u8 \<Rightarrow> u32 res" where
  "call_computeCrc RtcmComputeCrc24q p data = Inr (sempRtcmComputeCrc24q p data)"
| "call_computeCrc CustomComputeCrc p data = Inr (sempCustomComputeCrc p data)"
| "call_computeCrc UnicoreBinaryComputeCrc p data = sempUnicoreBinaryComputeCrc p data"

section \<open>Preamble routines\<close>

definition sempNmeaPreamble :: "parse \<Rightarrow> u8 \<Rightarrow> (parse \<times> bool) res" where
  "sempNmeaPreamble p data =
     (if data \<noteq> 0x24 \<and> data \<noteq> 0x21 then Inr (p, False)
      else Inr ((set_nmea_sentenceNameLength 0 p)\<lparr>state := NmeaFindFirstComma\<rparr>, True))"

definition sempRtcmPreamble :: "parse \<Rightarrow> u8 \<Rightarrow> (parse \<times> bool) res" where
  "sempRtcmPreamble p data =
     (if data = 0xd3 then
        let p = p\<lparr>computeCrc := Some RtcmComputeCrc24q\<rparr>;
            p = p\<lparr>crc := sempRtcmComputeCrc24q p data\<rparr>
        in Inr (p\<lparr>state := RtcmReadLength1\<rparr>, True)
      else Inr (p, False))"

definition sempUbloxPreamble :: "parse \<Rightarrow> u8 \<Rightarrow> (parse \<times> bool) res" where
  "sempUbloxPreamble p data =
     (if data \<noteq> 0xb5 then Inr (p, False) else Inr (p\<lparr>state := UbloxSync2\<rparr>, True))"

definition sempCustomPreamble :: "parse \<Rightarrow> u8 \<Rightarrow> (parse \<times> bool) res" where
  "sempCustomPreamble p data =
     (if data \<noteq> 0xAA then Inr (p, False)
      else
        let p = p\<lparr>crc := 0xFFFFFFFF, computeCrc := Some CustomComputeCrc\<rparr>;
            p = p\<lparr>crc := sempCustomComputeCrc p data\<rparr>
        in Inr (p\<lparr>state := CustomSync2\<rparr>, True))"

definition sempUnicoreBinaryPreamble :: "parse \<Rightarrow> u8 \<Rightarrow> (parse \<times> bool) res" where
  "sempUnicoreBinaryPreamble p data =
     (if data \<noteq> 0xAA then Inr (p, False)
      else
        let p = p\<lparr>crc := 0, computeCrc := Some UnicoreBinaryComputeCrc\<rparr>
        in rbind (sempUnicoreBinaryComputeCrc p data)
             (\<lambda>c. Inr (p\<lparr>crc := c, state := UnicoreBinarySync2\<rparr>, True)))"

definition sempUnicoreHashPreamble :: "parse \<Rightarrow> u8 \<Rightarrow> (parse \<times> bool) res" where
  "sempUnicoreHashPreamble p data =
     (if data \<noteq> 0x23 then Inr (p, False)
      else Inr ((set_unicoreHash_sentenceNameLength 0 p)\<lparr>state := UnicoreHashFindFirstComma\<rparr>, True))"

fun call_preamble :: "SEMP_PREAMBLE \<Rightarrow> parse \<Rightarrow> u8 \<Rightarrow> (parse \<times> bool) res" where
  "call_preamble NmeaPreamble = sempNmeaPreamble"
| "call_preamble RtcmPreamble = sempRtcmPreamble"
| "call_preamble UbloxPreamble = sempUbloxPreamble"
| "call_preamble UnicoreBinaryPreamble = sempUnicoreBinaryPreamble"
| "call_preamble UnicoreHashPreamble = sempUnicoreHashPreamble"
| "call_preamble CustomPreamble = sempCustomPreamble"

section \<open>The contract of a preamble routine\<close>

text \<open>
  What the table walk relies on: a routine that declines a byte leaves the parser as it
  was; one that takes it changes only the parser's own registers (scratch area, CRC, CRC
  routine, state), never the buffer, the message length, the table or the trace.
\<close>

definition same_frame :: "parse \<Rightarrow> parse \<Rightarrow> bool" where
  "same_frame p q \<longleftrightarrow>
     q = p\<lparr>crc := crc q, computeCrc := computeCrc q, scratchPad := scratchPad q, state := state q\<rparr>"

lemma same_frameD:
  assumes "same_frame p q"
  shows "buffer q = buffer p" "msg_length q = msg_length p" "buffer_length q = buffer_length p"
    "parsers_count q = parsers_count p" "parser_type q = parser_type p"
    "parsers_table q = parsers_table p" "eomCallback q = eomCallback p" "badCrc q = badCrc p"
    "printError q = printError p" "printDebug q = printDebug p" "log q = log p"
    "message q = message p"
  using assms by (cases p; cases q; simp add: same_frame_def message_def)+

locale preamble =
  fixes pre :: "parse \<Rightarrow> u8 \<Rightarrow> (parse \<times> bool) res"
    and first :: "u8 set"
  assumes declines: "data \<notin> first \<Longrightarrow> pre p data = Inr (p, False)"
    and takes: "data \<in> first \<Longrightarrow> pre p data = Inr (q, b) \<Longrightarrow> b \<and> same_frame p q"
begin

lemma not_taken: "pre p data = Inr (q, False) \<longleftrightarrow> data \<notin> first \<and> q = p"
  using declines takes by (metis Inr_inject Pair_inject)

lemma taken: "pre p data = Inr (q, True) \<Longrightarrow> data \<in> first \<and> same_frame p q"
  using declines takes by (metis Inr_inject Pair_inject)

end

interpretation nmea: preamble sempNmeaPreamble "{0x24, 0x21}"
  by unfold_locales (auto simp: sempNmeaPreamble_def same_frame_def scratch_defs)

interpretation rtcm: preamble sempRtcmPreamble "{0xd3}"
  by unfold_locales (auto simp: sempRtcmPreamble_def same_frame_def Let_def)

interpretation ublox: preamble sempUbloxPreamble "{0xb5}"
  by unfold_locales (auto simp: sempUbloxPreamble_def same_frame_def)

interpretation custom: preamble sempCustomPreamble "{0xAA}"
  by unfold_locales (auto simp: sempCustomPreamble_def same_frame_def Let_def)

interpretation unicore_binary: preamble sempUnicoreBinaryPreamble "{0xAA}"
  by unfold_locales
    (auto simp: sempUnicoreBinaryPreamble_def sempUnicoreBinaryComputeCrc_def same_frame_def)

interpretation unicore_hash: preamble sempUnicoreHashPreamble "{0x23}"
  by unfold_locales (auto simp: sempUnicoreHashPreamble_def same_frame_def scratch_defs)

text \<open>The first bytes a table entry takes, and the contract for an arbitrary entry.\<close>

fun first_bytes :: "SEMP_PREAMBLE \<Rightarrow> u8 set" where
  "first_bytes NmeaPreamble = {0x24, 0x21}"
| "first_bytes RtcmPreamble = {0xd3}"
| "first_bytes UbloxPreamble = {0xb5}"
| "first_bytes UnicoreBinaryPreamble = {0xAA}"
| "first_bytes UnicoreHashPreamble = {0x23}"
| "first_bytes CustomPreamble = {0xAA}"

lemma preamble_entry: "preamble (call_preamble r) (first_bytes r)"
  by (cases r) (simp_all add: nmea.preamble_axioms rtcm.preamble_axioms ublox.preamble_axioms
      custom.preamble_axioms unicore_binary.preamble_axioms unicore_hash.preamble_axioms)

interpretation entry: preamble "call_preamble r" "first_bytes r" for r
  by (rule preamble_entry)

end
