(* ===== verification/Message_Parser.thy ===== *)
theory Message_Parser
  imports Preambles
begin

text \<open>
  The core of my_parser/Message_Parser.c that the protocol files call back into:
  \<^verbatim>\<open>sempFirstByte\<close>, the search for the protocol that takes a byte as the start of a
  message. The invariant \<open>wf_parse\<close> of the parser structure is stated here, with the facts
  about the message buffer that every protocol uses.
\<close>

section \<open>The table walk\<close>

function sempFirstByte_loop :: "u8 \<Rightarrow> parse \<Rightarrow> u8 \<Rightarrow> (parse \<times> bool) res" where
  "sempFirstByte_loop index p data =
     (if index < parsers_count p then
        (case at (parsers_table p) (uint index) of
           Inl e \<Rightarrow> Inl e
         | Inr parseRoutine \<Rightarrow>
             (case call_preamble parseRoutine p data of
                Inl e \<Rightarrow> Inl e
              | Inr (p', found) \<Rightarrow>
                  (if found then Inr (p'\<lparr>parser_type := index\<rparr>, True)
                   else sempFirstByte_loop (index + 1) p' data)))
      else Inr (p\<lparr>state := FirstByte\<rparr>, False))"
  by pat_completeness auto
termination
proof (relation "measure (\<lambda>(i, p, _). unat (parsers_count p) - unat i)")
  fix index :: u8 and p data r x p' found
  assume lt: "index < parsers_count p" and "call_preamble r p data = Inr x"
    and x: "(p', found) = x" and "\<not> found"
  then have "p' = p" by (auto simp: entry.not_taken)
  moreover have "unat (index + 1) = Suc (unat index)"
    using lt by (simp add: unat_Suc_below word_less_nat_alt)
  ultimately show "((index + 1, p', data), index, p, data)
      \<in> measure (\<lambda>(i, p, _). unat (parsers_count p) - unat i)"
    using lt by (simp add: word_less_nat_alt)
qed simp

declare sempFirstByte_loop.simps [simp del]

definition sempFirstByte :: "parse \<Rightarrow> u8 \<Rightarrow> (parse \<times> bool) res" where
  "sempFirstByte p data =
     rbind (buffer_push
              (p\<lparr>crc := 0, computeCrc := None, msg_length := 0, parser_type := parsers_count p\<rparr>) data)
       (\<lambda>p. sempFirstByte_loop 0 p data)"

text \<open>The routine tests its pointer argument first: a null parser is ignored.\<close>

fun sempFirstByte_ptr :: "parse option \<Rightarrow> u8 \<Rightarrow> (parse option \<times> bool) res" where
  "sempFirstByte_ptr None data = Inr (None, False)"
| "sempFirstByte_ptr (Some p) data = rbind (sempFirstByte p data) (\<lambda>(q, b). Inr (Some q, b))"

section \<open>Well-formed parsers\<close>

text \<open>
  What \<^verbatim>\<open>sempBeginParser\<close> sets up and every routine keeps: the buffer has the length
  the parser believes it has, which is at least the minimum; the message fits in it; the
  table has as many entries as the count says; there is somebody to deliver messages to.
\<close>

definition wf_parse :: "parse \<Rightarrow> bool" where
  "wf_parse p \<longleftrightarrow>
     length (buffer p) = unat (buffer_length p) \<and> 256 \<le> length (buffer p)
     \<and> unat (msg_length p) \<le> length (buffer p)
     \<and> length (parsers_table p) = unat (parsers_count p)
     \<and> eomCallback p \<noteq> None"

lemma wf_parseD:
  assumes "wf_parse p"
  shows "length (buffer p) = unat (buffer_length p)" "256 \<le> length (buffer p)"
    "unat (msg_length p) \<le> length (buffer p)"
    "length (parsers_table p) = unat (parsers_count p)" "\<exists>a. eomCallback p = Some a"
  using assms by (auto simp: wf_parse_def)

lemma message_simps [simp]:
  "message (p\<lparr>state := s\<rparr>) = message p" "message (p\<lparr>scratchPad := m\<rparr>) = message p"
  "message (p\<lparr>crc := c\<rparr>) = message p" "message (p\<lparr>computeCrc := f\<rparr>) = message p"
  "message (p\<lparr>log := es\<rparr>) = message p" "message (p\<lparr>parser_type := t\<rparr>) = message p"
  by (simp_all add: message_def)

lemma wf_parse_simps [simp]:
  "wf_parse (p\<lparr>state := s\<rparr>) = wf_parse p" "wf_parse (p\<lparr>scratchPad := m\<rparr>) = wf_parse p"
  "wf_parse (p\<lparr>crc := c\<rparr>) = wf_parse p" "wf_parse (p\<lparr>computeCrc := f\<rparr>) = wf_parse p"
  "wf_parse (p\<lparr>log := es\<rparr>) = wf_parse p" "wf_parse (p\<lparr>parser_type := t\<rparr>) = wf_parse p"
  by (simp_all add: wf_parse_def)

lemma length_buffer_16: "wf_parse p \<Longrightarrow> length (buffer p) < 65536"
  using unsigned_less [of "buffer_length p"] by (simp add: wf_parse_def)

lemma length_message: "wf_parse p \<Longrightarrow> length (message p) = unat (msg_length p)"
  by (simp add: message_def wf_parse_def)

lemma buffer_push_eq:
  assumes "wf_parse p" and "unat (msg_length p) < length (buffer p)"
  shows "\<exists>q. buffer_push p d = Inr q \<and> wf_parse q \<and> message q = message p @ [d]
    \<and> unat (msg_length q) = Suc (unat (msg_length p))
    \<and> q = p\<lparr>buffer := buffer q, msg_length := msg_length q\<rparr>"
proof -
  define b where "b = (buffer p)[unat (msg_length p) := d]"
  have un: "unat (msg_length p + 1) = Suc (unat (msg_length p))"
    using assms by (intro unat_Suc_below [of _ "buffer_length p"]) (simp add: wf_parse_def)
  have "message (p\<lparr>buffer := b, msg_length := msg_length p + 1\<rparr>) = message p @ [d]"
    using assms(2) by (simp add: message_def b_def un take_Suc_update)
  moreover have "wf_parse (p\<lparr>buffer := b, msg_length := msg_length p + 1\<rparr>)"
    using assms un by (simp add: wf_parse_def b_def)
  moreover have "buffer_push p d = Inr (p\<lparr>buffer := b, msg_length := msg_length p + 1\<rparr>)"
    using assms(2) by (simp add: buffer_push_def b_def upd_word)
  ultimately show ?thesis using un by (intro exI [of _ "p\<lparr>buffer := b, msg_length := msg_length p + 1\<rparr>"]) simp
qed

lemma buffer_push_overflow:
  "length (buffer p) \<le> unat (msg_length p) \<Longrightarrow> buffer_push p d = Inl OutOfBounds"
  by (simp add: buffer_push_def upd_word)

lemma buffer_back_eq:
  assumes "wf_parse p" and "0 < k" and "k \<le> length (message p)"
  shows "buffer_back p (int k) = Inr (message p ! (length (message p) - k))"
proof -
  have len: "length (message p) = unat (msg_length p)" "unat (msg_length p) \<le> length (buffer p)"
    using assms by (simp_all add: length_message wf_parseD(3))
  have "buffer_back p (int k) = Inr (buffer p ! (unat (msg_length p) - k))"
    using assms len unfolding buffer_back_def by (intro at_word_back) simp_all
  then show ?thesis using assms len by (simp add: message_def)
qed

lemma buffer_back_last:
  assumes "wf_parse p"
  shows "message p = m @ [d] \<Longrightarrow> buffer_back p 1 = Inr d"
    and "message p = m @ [c, d] \<Longrightarrow> buffer_back p 2 = Inr c"
  using buffer_back_eq [OF assms, of 1] buffer_back_eq [OF assms, of 2] by (auto simp: nth_append)

lemma buffer_at:
  assumes "wf_parse p" and "k < length (message p)"
  shows "at (buffer p) (int k) = Inr (message p ! k)"
  using assms by (simp add: message_def wf_parse_def at_nat)

lemma wf_parse_clear: "wf_parse p \<Longrightarrow> wf_parse (p\<lparr>msg_length := 0\<rparr>)"
  by (simp add: wf_parse_def)

section \<open>What the walk computes\<close>

fun first_match :: "SEMP_PREAMBLE list \<Rightarrow> u8 \<Rightarrow> nat option" where
  "first_match [] data = None"
| "first_match (r # rs) data =
     (if data \<in> first_bytes r then Some 0 else map_option Suc (first_match rs data))"

lemma first_match_Some:
  "first_match rs data = Some k \<Longrightarrow> k < length rs \<and> data \<in> first_bytes (rs ! k)"
  by (induction rs arbitrary: k) (auto split: if_splits)

lemma sempFirstByte_loop_eq:
  assumes "length (parsers_table p) = unat (parsers_count p)" and "unat i \<le> length (parsers_table p)"
  shows "sempFirstByte_loop i p data =
    (case first_match (drop (unat i) (parsers_table p)) data of
       None \<Rightarrow> Inr (p\<lparr>state := FirstByte\<rparr>, False)
     | Some k \<Rightarrow>
         rbind (call_preamble (parsers_table p ! (unat i + k)) p data)
           (\<lambda>(q, _). Inr (q\<lparr>parser_type := of_nat (unat i + k)\<rparr>, True)))"
  using assms
proof (induction "unat (parsers_count p) - unat i" arbitrary: i)
  case 0
  then show ?case by (subst sempFirstByte_loop.simps) (simp add: word_less_nat_alt)
next
  case (Suc n)
  define r where "r = parsers_table p ! unat i"
  have lt: "unat i < unat (parsers_count p)" using Suc.hyps(2) by simp
  then have un: "unat (i + 1) = Suc (unat i)" by (rule unat_Suc_below)
  have d: "drop (unat i) (parsers_table p) = r # drop (unat (i + 1)) (parsers_table p)"
    using lt Suc.prems(1) by (simp add: r_def un Cons_nth_drop_Suc)
  have at: "at (parsers_table p) (uint i) = Inr r"
    using lt Suc.prems(1) by (simp add: r_def at_word)
  show ?case
  proof (cases "data \<in> first_bytes r")
    case True
    then have t: "call_preamble r p data = Inr (q, b) \<Longrightarrow> b" for q b
      using entry.takes by blast
    from True show ?thesis
      using lt at d t by (subst sempFirstByte_loop.simps)
        (auto simp: word_less_nat_alt r_def split: sum.splits)
  next
    case False
    have "sempFirstByte_loop i p data = sempFirstByte_loop (i + 1) p data"
      using lt at False by (subst sempFirstByte_loop.simps) (simp add: word_less_nat_alt entry.declines)
    also have "\<dots> = (case first_match (drop (unat (i + 1)) (parsers_table p)) data of
       None \<Rightarrow> Inr (p\<lparr>state := FirstByte\<rparr>, False)
     | Some k \<Rightarrow>
         rbind (call_preamble (parsers_table p ! (unat (i + 1) + k)) p data)
           (\<lambda>(q, _). Inr (q\<lparr>parser_type := of_nat (unat (i + 1) + k)\<rparr>, True)))"
      using Suc.hyps(2) Suc.prems lt un by (intro Suc.hyps(1)) simp_all
    finally show ?thesis using False un d by (auto simp: ac_simps split: option.split)
  qed
qed

text \<open>The parser after \<^verbatim>\<open>sempFirstByte\<close> has stored the byte and before the walk.\<close>

definition restart :: "parse \<Rightarrow> u8 \<Rightarrow> parse" where
  "restart p data =
     p\<lparr>crc := 0, computeCrc := None, parser_type := parsers_count p,
       buffer := (buffer p)[0 := data], msg_length := 1\<rparr>"

lemma restart_simps [simp]:
  "crc (restart p data) = 0" "computeCrc (restart p data) = None"
  "parser_type (restart p data) = parsers_count p" "parsers_count (restart p data) = parsers_count p"
  "msg_length (restart p data) = 1" "buffer_length (restart p data) = buffer_length p"
  "parsers_table (restart p data) = parsers_table p" "log (restart p data) = log p"
  "badCrc (restart p data) = badCrc p" "eomCallback (restart p data) = eomCallback p"
  "scratchPad (restart p data) = scratchPad p" "printDebug (restart p data) = printDebug p"
  "length (buffer (restart p data)) = length (buffer p)"
  by (simp_all add: restart_def)

lemma wf_parse_restart [simp]: "wf_parse p \<Longrightarrow> wf_parse (restart p data)"
  by (simp add: wf_parse_def)

lemma message_restart: "wf_parse p \<Longrightarrow> message (restart p data) = [data]"
  by (cases "buffer p") (auto simp: wf_parse_def message_def restart_def)

theorem sempFirstByte_eq:
  assumes "wf_parse p"
  shows "sempFirstByte p data =
    (case first_match (parsers_table p) data of
       None \<Rightarrow> Inr ((restart p data)\<lparr>state := FirstByte\<rparr>, False)
     | Some k \<Rightarrow>
         rbind (call_preamble (parsers_table p ! k) (restart p data) data)
           (\<lambda>(q, _). Inr (q\<lparr>parser_type := of_nat k\<rparr>, True)))"
proof -
  have "buffer_push (p\<lparr>crc := 0, computeCrc := None, msg_length := 0,
      parser_type := parsers_count p\<rparr>) data = Inr (restart p data)"
    using assms by (auto simp: buffer_push_def upd_def restart_def dest: wf_parseD(2))
  then show ?thesis
    using assms sempFirstByte_loop_eq [of "restart p data" 0 data]
    by (auto simp: sempFirstByte_def wf_parseD(4) split: option.split)
qed

end
