(* ===== verification/Message_Util.thy ===== *)
theory Message_Util
  imports Message_Types
begin

text \<open>
  The utility functions at the end of my_parser/Message_Parser.c: hexadecimal digits, the
  hexadecimal dump, the exclusive-or checksum and the splitting of a sentence into
  fields. Pointers are options, arrays are lists; an access outside an array is a fault.
\<close>

section \<open>Hexadecimal digits\<close>

definition semp_util_asciiToNibble :: "int \<Rightarrow> int" where
  "semp_util_asciiToNibble data =
     (let data = data OR 0x20
      in if data \<ge> 0x61 \<and> data \<le> 0x66 then data - 0x61 + 10
         else if data \<ge> 0x30 \<and> data \<le> 0x39 then data - 0x30
         else -1)"

section \<open>Hexadecimal dump\<close>

text \<open>\<^verbatim>\<open>%02X\<close>\<close>

definition hex_upper :: "u8 \<Rightarrow> u8" where
  "hex_upper n = (if n < 10 then 0x30 + n else 0x37 + n)"

definition hex_text :: "u8 \<Rightarrow> u8 list" where
  "hex_text d = [hex_upper (drop_bit 4 d), hex_upper (take_bit 4 d)]"

text \<open>\<^verbatim>\<open>snprintf(output + pos, outputSize - pos, "%02X ", d)\<close> when four bytes are left\<close>

fun store_bytes :: "u8 list \<Rightarrow> nat \<Rightarrow> u8 list \<Rightarrow> u8 list res" where
  "store_bytes out pos [] = Inr out"
| "store_bytes out pos (c # cs) =
     (case upd out (int pos) c of Inl e \<Rightarrow> Inl e | Inr out \<Rightarrow> store_bytes out (Suc pos) cs)"

function hexToString_loop ::
  "u8 list \<Rightarrow> nat \<Rightarrow> nat \<Rightarrow> nat \<Rightarrow> u8 list \<Rightarrow> nat \<Rightarrow> (u8 list \<times> nat) res" where
  "hexToString_loop data len outputSize i out pos =
     (if i < len \<and> int pos < int outputSize - 3 then
        (case at data (int i) of
           Inl e \<Rightarrow> Inl e
         | Inr d \<Rightarrow>
             (case store_bytes out pos (hex_text d @ [0x20, 0]) of
                Inl e \<Rightarrow> Inl e
              | Inr out \<Rightarrow> hexToString_loop data len outputSize (Suc i) out (pos + 3)))
      else Inr (out, pos))"
  by pat_completeness auto
termination
  by (relation "measure (\<lambda>(_, len, _, i, _, _). len - i)") auto

declare hexToString_loop.simps [simp del]

definition semp_util_hexToString ::
  "u8 list option \<Rightarrow> u16 \<Rightarrow> u8 list option \<Rightarrow> u16 \<Rightarrow> (u8 list option \<times> nat) res" where
  "semp_util_hexToString data len output outputSize =
     (case (data, output) of
        (Some data, Some out) \<Rightarrow>
          if outputSize < 3 then Inr (output, 0)
          else
            rbind (hexToString_loop data (unat len) (unat outputSize) 0 out 0) (\<lambda>(out, pos).
              if pos > 0 then
                rbind (at out (int pos - 1)) (\<lambda>c.
                  if c = 0x20
                  then rbind (upd out (int pos - 1) 0) (\<lambda>out. Inr (Some out, pos - 1))
                  else Inr (Some out, pos))
              else Inr (Some out, pos))
      | _ \<Rightarrow> Inr (output, 0))"

section \<open>Checksum\<close>

function calculateChecksum_loop :: "u8 list \<Rightarrow> nat \<Rightarrow> nat \<Rightarrow> u8 \<Rightarrow> u8 res" where
  "calculateChecksum_loop data len i checksum =
     (if i < len then
        (case at data (int i) of
           Inl e \<Rightarrow> Inl e
         | Inr d \<Rightarrow> calculateChecksum_loop data len (Suc i) (checksum XOR d))
      else Inr checksum)"
  by pat_completeness auto
termination
  by (relation "measure (\<lambda>(_, len, i, _). len - i)") auto

declare calculateChecksum_loop.simps [simp del]

definition semp_util_calculateChecksum :: "u8 list \<Rightarrow> u16 \<Rightarrow> u8 res" where
  "semp_util_calculateChecksum data len = calculateChecksum_loop data (unat len) 0 0"

section \<open>Fields\<close>

text \<open>\<^verbatim>\<open>rows[i][j] = c\<close> for an array of rows\<close>

definition put_field :: "u8 list list \<Rightarrow> int \<Rightarrow> int \<Rightarrow> u8 \<Rightarrow> u8 list list res" where
  "put_field rows i j c = rbind (at rows i) (\<lambda>row. rbind (upd row j c) (\<lambda>row. upd rows i row))"

function fields_loop ::
  "u8 list \<Rightarrow> int \<Rightarrow> int \<Rightarrow> u8 \<Rightarrow> u8 \<Rightarrow> nat \<Rightarrow> u8 list list \<Rightarrow> int \<Rightarrow> int
    \<Rightarrow> (u8 list list \<times> int \<times> int) res" where
  "fields_loop s maxFields fieldSize delimiter terminator p rows fieldCount fieldPos =
     (if p < length s then
        let c = s ! p
        in if c \<noteq> 0 \<and> c \<noteq> terminator \<and> fieldCount < maxFields then
             if c = delimiter then
               (case put_field rows fieldCount fieldPos 0 of
                  Inl e \<Rightarrow> Inl e
                | Inr rows \<Rightarrow>
                    if fieldCount + 1 < maxFields then
                      (case put_field rows (fieldCount + 1) 0 0 of
                         Inl e \<Rightarrow> Inl e
                       | Inr rows \<Rightarrow>
                           fields_loop s maxFields fieldSize delimiter terminator (Suc p) rows
                             (fieldCount + 1) 0)
                    else fields_loop s maxFields fieldSize delimiter terminator (Suc p) rows
                           (fieldCount + 1) fieldPos)
             else if fieldPos < fieldSize - 1 then
               (case put_field rows fieldCount fieldPos c of
                  Inl e \<Rightarrow> Inl e
                | Inr rows \<Rightarrow>
                    fields_loop s maxFields fieldSize delimiter terminator (Suc p) rows fieldCount
                      (fieldPos + 1))
             else fields_loop s maxFields fieldSize delimiter terminator (Suc p) rows fieldCount fieldPos
           else Inr (rows, fieldCount, fieldPos)
      else Inl OutOfBounds)"
  by pat_completeness auto
termination
  by (relation "measure (\<lambda>(s, _, _, _, _, p, _). length s - p)") auto

declare fields_loop.simps [simp del]

text \<open>
  \<open>sentence\<close> is the memory from the pointer on; reading behind it is a fault. \<^verbatim>\<open>char\<close> is
  signed, as on the target of the build, so \<^verbatim>\<open>*p < 32\<close> also holds of bytes above 127.
\<close>

definition semp_util_parse_delimited_fields ::
  "u8 list option \<Rightarrow> u8 list list option \<Rightarrow> int \<Rightarrow> int \<Rightarrow> u8 \<Rightarrow> u8 \<Rightarrow> (u8 list list option \<times> int) res" where
  "semp_util_parse_delimited_fields sentence rows maxFields fieldSize delimiter terminator =
     (case (sentence, rows) of
        (Some s, Some rows0) \<Rightarrow>
          if maxFields \<le> 0 then Inr (rows, 0)
          else
            rbind (at s 0) (\<lambda>c.
            let p = (if sint c < 32 then 1 else 0)
            in rbind (put_field rows0 0 0 0) (\<lambda>rows.
               rbind (fields_loop s maxFields fieldSize delimiter terminator p rows 0 0)
                 (\<lambda>(rows, fieldCount, fieldPos).
                    if fieldPos > 0
                    then rbind (put_field rows fieldCount fieldPos 0) (\<lambda>rows.
                           Inr (Some rows, fieldCount + 1))
                    else Inr (Some rows, fieldCount))))
      | _ \<Rightarrow> Inr (rows, 0))"

section \<open>Facts about digits\<close>

text \<open>
  Exactly which bytes are taken as digits: besides the hexadecimal digits also the control
  characters 16 to 25, because the bit that makes letters lower case is set first.
\<close>

lemma or_32: "(x :: int) OR 32 = (if odd (x div 32) then x else x + 32)"
proof -
  have b: "bit x 5 \<longleftrightarrow> odd (x div 32)" by (simp add: bit_iff_odd)
  have "x OR 32 = set_bit 5 x" by (simp add: set_bit_eq_or)
  also have "\<dots> = x + of_bool (\<not> bit x 5) * 2 ^ 5" by (rule set_bit_eq)
  finally show ?thesis by (simp add: b)
qed

lemma asciiToNibble_eq:
  fixes c :: u8
  shows "semp_util_asciiToNibble (uint c) =
    (if 0x30 \<le> c \<and> c \<le> 0x39 then uint c - 0x30
     else if 0x10 \<le> c \<and> c \<le> 0x19 then uint c - 0x10
     else if 0x41 \<le> c \<and> c \<le> 0x46 then uint c - 0x41 + 10
     else if 0x61 \<le> c \<and> c \<le> 0x66 then uint c - 0x61 + 10
     else -1)"
proof -
  define q where "q = uint c div 32"
  have r: "0 \<le> uint c" "uint c < 256" using unsigned_less [where 'a = int and w = c] by simp_all
  then have b: "32 * q \<le> uint c" "uint c < 32 * q + 32" unfolding q_def by simp_all
  have "q = 0 \<or> q = 1 \<or> q = 2 \<or> q = 3 \<or> q = 4 \<or> q = 5 \<or> q = 6 \<or> q = 7" using b r by linarith
  then show ?thesis
    unfolding semp_util_asciiToNibble_def Let_def or_32 word_le_def q_def [symmetric]
    using b by auto
qed

text \<open>The digits the dump prints are read back as the number printed.\<close>

lemma nibble_hex_upper: "n < 16 \<Longrightarrow> semp_util_asciiToNibble (uint (hex_upper n)) = uint n"
proof -
  assume "n < 16"
  then have n: "unat n \<in> set [0..<16]" by (simp add: word_less_nat_alt)
  have "list_all (\<lambda>m. semp_util_asciiToNibble (uint (hex_upper (of_nat m))) = uint (of_nat m :: u8)) [0..<16]"
    by code_simp
  then have "semp_util_asciiToNibble (uint (hex_upper (of_nat (unat n)))) = uint (of_nat (unat n) :: u8)"
    using n unfolding list_all_iff by blast
  then show ?thesis by simp
qed

section \<open>Facts about the dump\<close>

definition dump_text :: "u8 list \<Rightarrow> u8 list" where
  "dump_text ds = concat (map (\<lambda>d. hex_text d @ [0x20]) ds)"

lemma length_hex_text [simp]: "length (hex_text d) = 2"
  by (simp add: hex_text_def)

lemma length_dump_text [simp]: "length (dump_text ds) = 3 * length ds"
  by (induction ds) (simp_all add: dump_text_def hex_text_def)

lemma dump_text_snoc: "dump_text (ds @ [d]) = dump_text ds @ hex_text d @ [0x20]"
  by (simp add: dump_text_def)

lemma store_bytes_eq:
  "pos + length cs \<le> length out \<Longrightarrow>
    store_bytes out pos cs = Inr (take pos out @ cs @ drop (pos + length cs) out)"
proof (induction cs arbitrary: out pos)
  case (Cons c cs)
  then show ?case
    by (simp add: upd_nat take_Suc_update)
qed simp

text \<open>The number of bytes that fit: three characters each and the terminator\<close>

definition dump_count :: "nat \<Rightarrow> nat \<Rightarrow> nat" where
  "dump_count len room = min len ((room - 1) div 3)"

lemma hexToString_loop_eq:
  assumes "len \<le> length data" "room \<le> length out" "i \<le> dump_count len room"
    "take (3 * i) out = dump_text (take i data)"
  shows "\<exists>out'. hexToString_loop data len room i out (3 * i) = Inr (out', 3 * dump_count len room)
    \<and> length out' = length out \<and> drop room out' = drop room out
    \<and> take (3 * dump_count len room) out' = dump_text (take (dump_count len room) data)
    \<and> (i = dump_count len room \<longrightarrow> out' = out)"
  using assms
proof (induction "dump_count len room - i" arbitrary: i out)
  case 0
  then have i: "i = dump_count len room" by simp
  then have "\<not> (i < len \<and> int (3 * i) < int room - 3)"
    by (simp add: dump_count_def min_def split: if_splits)
  then have "hexToString_loop data len room i out (3 * i) = Inr (out, 3 * i)"
    by (subst hexToString_loop.simps) (rule if_not_P)
  then show ?case using 0 i by simp
next
  case (Suc n)
  then have lt: "i < dump_count len room" by simp
  then have i: "i < len" "3 * i + 4 \<le> room" unfolding dump_count_def by (simp_all, presburger)
  define out' where "out' = take (3 * i) out @ (hex_text (data ! i) @ [0x20, 0]) @ drop (3 * i + 4) out"
  have "store_bytes out (3 * i) (hex_text (data ! i) @ [0x20, 0]) = Inr out'"
    using i Suc.prems unfolding out'_def by (subst store_bytes_eq) simp_all
  then have run: "hexToString_loop data len room i out (3 * i) =
      hexToString_loop data len room (Suc i) out' (3 * Suc i)"
    using i Suc.prems by (subst hexToString_loop.simps) (simp add: at_nat add.commute)
  have "take (3 * Suc i) out' = take (3 * i) out @ hex_text (data ! i) @ [0x20]"
    using i Suc.prems unfolding out'_def by simp
  also have "\<dots> = dump_text (take (Suc i) data)"
    using i Suc.prems by (simp add: take_Suc_conv_app_nth dump_text_snoc)
  finally have t: "take (3 * Suc i) out' = dump_text (take (Suc i) data)" .
  obtain r where r: "room = 3 * i + 4 + r" using i(2) le_Suc_ex by blast
  have l: "length out' = length out" "drop room out' = drop room out"
    using i Suc.prems unfolding out'_def r by (simp_all add: numeral_eq_Suc ac_simps)
  show ?case
  proof -
    have "n = dump_count len room - Suc i" using Suc.hyps(2) by simp
    from Suc.hyps(1) [OF this _ _ _ t] show ?thesis
      unfolding run using Suc.prems lt l by auto
  qed
qed

lemma hexToString_text:
  assumes "unat len \<le> length data" "unat room \<le> length out" "3 \<le> room"
    "0 < dump_count (unat len) (unat room)"
  shows "\<exists>out'. semp_util_hexToString (Some data) len (Some out) room =
      Inr (Some out', 3 * dump_count (unat len) (unat room) - 1)
    \<and> length out' = length out \<and> drop (unat room) out' = drop (unat room) out
    \<and> take (3 * dump_count (unat len) (unat room)) out' =
      butlast (dump_text (take (dump_count (unat len) (unat room)) data)) @ [0]"
proof -
  define k where "k = dump_count (unat len) (unat room)"
  define ds where "ds = take k data"
  have "3 \<le> unat room" using assms(3) by (simp add: word_le_nat_alt)
  moreover have "k \<le> (unat room - 1) div 3" by (simp add: k_def dump_count_def)
  ultimately have k: "0 < k" "k \<le> unat len" "3 * k < unat room"
    using assms(4) by (simp_all add: k_def dump_count_def)
  obtain out' where o: "hexToString_loop data (unat len) (unat room) 0 out 0 = Inr (out', 3 * k)"
    "length out' = length out" "drop (unat room) out' = drop (unat room) out"
    "take (3 * k) out' = dump_text ds"
    using hexToString_loop_eq [OF assms(1,2), of 0] unfolding k_def [symmetric] ds_def
    by (auto simp: dump_text_def [of "[]"])
  have l: "length ds = k" using k assms by (simp add: ds_def)
  then obtain es d where ds: "ds = es @ [d]" using k by (cases ds rule: rev_cases) auto
  define pre where "pre = dump_text es @ hex_text d"
  have pre: "dump_text ds = pre @ [0x20]" "length pre = 3 * k - 1"
    using l by (auto simp: ds pre_def dump_text_snoc)
  have out': "out' = pre @ 0x20 # drop (3 * k) out'"
    using o(4) pre(1) append_take_drop_id [of "3 * k" out'] by simp
  have lt: "3 * k - 1 < length out'" using k o assms by simp
  have nth: "out' ! (3 * k - 1) = 0x20" unfolding pre(2) [symmetric] by (subst out') (rule nth_append_length)
  have upd: "out'[3 * k - 1 := 0] = pre @ 0 # drop (3 * k) out'"
    unfolding pre(2) [symmetric] by (subst out') (rule list_update_length)
  have j: "int (3 * k) - 1 = int (3 * k - 1)" using k by simp
  have a: "at out' (int (3 * k) - 1) = Inr 0x20"
    "upd out' (int (3 * k) - 1) 0 = Inr (out'[3 * k - 1 := 0])"
    unfolding j using at_nat [OF lt] upd_nat [OF lt] nth by (simp_all only:)
  have "semp_util_hexToString (Some data) len (Some out) room =
    Inr (Some (out'[3 * k - 1 := 0]), 3 * k - 1)"
    using k(1) o(1) assms(3) a unfolding semp_util_hexToString_def
    by (simp add: leD [OF assms(3)] del: of_nat_mult)
  moreover have "take (3 * k) (out'[3 * k - 1 := 0]) = butlast (dump_text ds) @ [0]"
    unfolding upd using pre k by simp
  moreover have "drop (unat room) (out'[3 * k - 1 := 0]) = drop (unat room) out"
    using o(3) k by (simp add: drop_update_cancel)
  moreover have "length (out'[3 * k - 1 := 0]) = length out" using o(2) by simp
  ultimately show ?thesis unfolding k_def [symmetric] ds_def [symmetric] by blast
qed

lemma hexToString_empty:
  assumes "unat len \<le> length data" "unat room \<le> length out" "dump_count (unat len) (unat room) = 0"
  shows "semp_util_hexToString (Some data) len (Some out) room = Inr (Some out, 0)"
  using hexToString_loop_eq [of "unat len" data "unat room" out 0] assms
  unfolding semp_util_hexToString_def by (auto simp: dump_text_def)

section \<open>Facts about the checksum\<close>

lemma calculateChecksum_loop_eq:
  "i \<le> len \<Longrightarrow> calculateChecksum_loop data len i c =
    (if i < len \<and> length data < len then Inl OutOfBounds
     else Inr (foldl (XOR) c (drop i (take len data))))"
proof (induction "len - i" arbitrary: i c)
  case 0
  then show ?case by (subst calculateChecksum_loop.simps) simp
next
  case (Suc n)
  then have i: "i < len" by simp
  show ?case
  proof (cases "i < length data")
    case True
    then have "drop i (take len data) = data ! i # drop (Suc i) (take len data)"
      using i by (simp add: Cons_nth_drop_Suc [symmetric])
    then show ?thesis using True i Suc.hyps(1) [of "Suc i"] Suc.hyps(2)
      by (subst calculateChecksum_loop.simps) (auto simp: at_nat)
  next
    case False
    then show ?thesis using i by (subst calculateChecksum_loop.simps) (simp add: at_def)
  qed
qed

lemma calculateChecksum_eq:
  "semp_util_calculateChecksum data len =
    (if length data < unat len then Inl OutOfBounds else Inr (foldl (XOR) 0 (take (unat len) data)))"
  unfolding semp_util_calculateChecksum_def by (subst calculateChecksum_loop_eq) auto

section \<open>Facts about fields\<close>

lemma put_field_eq:
  "i < length rows \<Longrightarrow> j < length (rows ! i) \<Longrightarrow>
    put_field rows (int i) (int j) c = Inr (rows[i := (rows ! i)[j := c]])"
  by (simp add: put_field_def at_nat upd_nat)

lemma put_field_no_row: "length rows \<le> i \<Longrightarrow> put_field rows (int i) j c = Inl OutOfBounds"
  by (simp add: put_field_def at_def)

text \<open>The characters of a field: neither the end of the string nor a separator\<close>

definition plain :: "u8 \<Rightarrow> u8 \<Rightarrow> u8 list \<Rightarrow> bool" where
  "plain delimiter terminator f \<longleftrightarrow> list_all (\<lambda>c. c \<noteq> 0 \<and> c \<noteq> terminator \<and> c \<noteq> delimiter) f"

definition row_text :: "u8 list \<Rightarrow> nat \<Rightarrow> u8 list \<Rightarrow> u8 list" where
  "row_text row j f = take j row @ f @ drop (j + length f) row"

lemma length_row_text [simp]: "j + length f \<le> length row \<Longrightarrow> length (row_text row j f) = length row"
  by (simp add: row_text_def)

lemma row_text_Cons: "j < length row \<Longrightarrow> row_text (row[j := c]) (Suc j) f = row_text row j (c # f)"
  by (simp add: row_text_def take_Suc_update)

text \<open>The characters of a field go into its row, as many as fit before a terminator.\<close>

lemma fields_loop_chars:
  assumes "plain dl tm f" "c < m" "c < length rows" "Suc z \<le> length (rows ! c)" "j \<le> z"
  shows "fields_loop (pre @ f @ rest) (int m) (int (Suc z)) dl tm (length pre) rows (int c) (int j) =
    fields_loop (pre @ f @ rest) (int m) (int (Suc z)) dl tm (length (pre @ f))
      (rows[c := row_text (rows ! c) j (take (z - j) f)]) (int c) (int (j + length (take (z - j) f)))"
  using assms
proof (induction f arbitrary: pre rows j)
  case Nil
  then show ?case by (simp add: row_text_def)
next
  case (Cons x f)
  have x: "x \<noteq> 0" "x \<noteq> tm" "x \<noteq> dl" and f: "plain dl tm f" using Cons.prems(1) by (auto simp: plain_def)
  show ?case
  proof (cases "j < z")
    case True
    define rows' where "rows' = rows[c := (rows ! c)[j := x]]"
    have t: "take (z - j) (x # f) = x # take (z - Suc j) f" using True by (simp add: take_Cons' )
    have "fields_loop (pre @ (x # f) @ rest) (int m) (int (Suc z)) dl tm (length pre) rows (int c) (int j) =
        fields_loop ((pre @ [x]) @ f @ rest) (int m) (int (Suc z)) dl tm (length (pre @ [x])) rows'
          (int c) (int (Suc j))"
      using True x Cons.prems put_field_eq [of c rows j x] unfolding rows'_def
      by (subst fields_loop.simps) (simp add: ac_simps)
    also have "\<dots> = fields_loop ((pre @ [x]) @ f @ rest) (int m) (int (Suc z)) dl tm
        (length ((pre @ [x]) @ f)) (rows'[c := row_text (rows' ! c) (Suc j) (take (z - Suc j) f)]) (int c)
        (int (Suc j + length (take (z - Suc j) f)))"
      using True f Cons.prems unfolding rows'_def by (intro Cons.IH) simp_all
    also have "rows'[c := row_text (rows' ! c) (Suc j) (take (z - Suc j) f)] =
        rows[c := row_text (rows ! c) j (take (z - j) (x # f))]"
      unfolding t rows'_def using True Cons.prems by (simp add: row_text_Cons)
    finally show ?thesis unfolding t by simp
  next
    case False
    then have "fields_loop (pre @ (x # f) @ rest) (int m) (int (Suc z)) dl tm (length pre) rows (int c) (int j) =
        fields_loop ((pre @ [x]) @ f @ rest) (int m) (int (Suc z)) dl tm (length (pre @ [x])) rows
          (int c) (int j)"
      using x Cons.prems by (subst fields_loop.simps) simp
    also have "\<dots> = fields_loop ((pre @ [x]) @ f @ rest) (int m) (int (Suc z)) dl tm
        (length ((pre @ [x]) @ f)) (rows[c := row_text (rows ! c) j (take (z - j) f)]) (int c)
        (int (j + length (take (z - j) f)))"
      using f Cons.prems by (intro Cons.IH) simp_all
    finally show ?thesis using False by simp
  qed
qed

definition stores :: "nat \<Rightarrow> u8 list \<Rightarrow> u8 list \<Rightarrow> bool" where
  "stores z row f \<longleftrightarrow> take (Suc (length (take z f))) row = take z f @ [0]"

lemma stores_row_text: "stores z (row_text row 0 (take z f @ [0])) f"
proof -
  have "take (Suc (length w)) (row_text row 0 (w @ [0])) = w @ [0]" for w :: "u8 list"
    by (simp add: row_text_def)
  then show ?thesis unfolding stores_def .
qed

lemma row_text_end:
  "j + length f < length row \<Longrightarrow> (row_text row j f)[j + length f := c] = row_text row j (f @ [c])"
  by (simp add: row_text_def list_update_append upd_conv_take_nth_drop Cons_nth_drop_Suc [symmetric])

definition wide :: "nat \<Rightarrow> u8 list list \<Rightarrow> bool" where
  "wide z rows \<longleftrightarrow> (\<forall>i<length rows. z < length (rows ! i))"

lemma wide_row: "wide z rows \<Longrightarrow> i < length rows \<Longrightarrow> z < length (rows ! i)"
  by (simp add: wide_def)

lemma wide_update: "wide z rows \<Longrightarrow> z < length row \<Longrightarrow> wide z (rows[i := row])"
  unfolding wide_def by (metis length_list_update nth_list_update_eq nth_list_update_neq)

lemma take_row_text: "length f \<le> length row \<Longrightarrow> take (length f) (row_text row 0 f) = f"
  by (simp add: row_text_def)

lemma fields_loop_delimiter:
  assumes "dl \<noteq> 0" "dl \<noteq> tm" "c < m" "put_field rows (int c) j 0 = Inr rows1"
  shows "fields_loop (pre @ dl # rest) (int m) w dl tm (length pre) rows (int c) j =
    (if Suc c < m
     then rbind (put_field rows1 (1 + int c) 0 0) (\<lambda>rows2.
       fields_loop (pre @ dl # rest) (int m) w dl tm (Suc (length pre)) rows2 (1 + int c) 0)
     else fields_loop (pre @ dl # rest) (int m) w dl tm (Suc (length pre)) rows1 (1 + int c) j)"
  using assms by (subst fields_loop.simps) (simp add: rbind_def add.commute cong: sum.case_cong)

text \<open>A field that a delimiter ends is stored; the next one starts, when there is room for it.\<close>

lemma fields_loop_delimited:
  assumes "plain dl tm f" "dl \<noteq> 0" "dl \<noteq> tm" "c < m" "m \<le> length rows" "wide z rows"
  shows "fields_loop (pre @ f @ dl # rest) (int m) (int (Suc z)) dl tm (length pre) rows (int c) 0 =
    fields_loop ((pre @ f @ [dl]) @ rest) (int m) (int (Suc z)) dl tm (length (pre @ f @ [dl]))
      (if Suc c < m
       then rows[c := row_text (rows ! c) 0 (take z f @ [0]), Suc c := (rows ! Suc c)[0 := 0]]
       else rows[c := row_text (rows ! c) 0 (take z f @ [0])])
      (int (Suc c)) (if Suc c < m then 0 else int (length (take z f)))"
proof -
  define rows' where "rows' = rows[c := row_text (rows ! c) 0 (take z f)]"
  have c: "c < length rows" "Suc z \<le> length (rows ! c)" using assms by (auto simp: wide_def Suc_le_eq)
  have put: "put_field rows' (int c) (int (length (take z f))) 0 =
      Inr (rows[c := row_text (rows ! c) 0 (take z f @ [0])])"
    using c row_text_end [of 0 "take z f" "rows ! c" 0] unfolding rows'_def
    by (subst put_field_eq) (auto simp: row_text_def)
  have open_next: "put_field (rows[c := row]) (1 + int c) 0 0 = Inr (rows[c := row, Suc c := (rows ! Suc c)[0 := 0]])"
    if "Suc c < m" for row
  proof -
    have "rows ! Suc c \<noteq> []" using wide_row [OF assms(6), of "Suc c"] that assms(5) by auto
    then show ?thesis using that assms(5) put_field_eq [of "Suc c" "rows[c := row]" 0 0] by simp
  qed
  have "fields_loop (pre @ f @ dl # rest) (int m) (int (Suc z)) dl tm (length pre) rows (int c) (int 0) =
      fields_loop (pre @ f @ dl # rest) (int m) (int (Suc z)) dl tm (length (pre @ f)) rows' (int c)
        (int (length (take z f)))"
    using fields_loop_chars [OF assms(1,4) c, of 0 pre "dl # rest"] unfolding rows'_def by simp
  then show ?thesis
    using fields_loop_delimiter [OF assms(2-4) put, of "pre @ f" rest] open_next by simp
qed

fun joined :: "u8 \<Rightarrow> u8 list list \<Rightarrow> u8 list" where
  "joined d [] = []"
| "joined d [f] = f"
| "joined d (f # fs) = f @ d # joined d fs"

definition rows_after :: "nat \<Rightarrow> u8 list list \<Rightarrow> nat \<Rightarrow> u8 list list \<Rightarrow> u8 list list \<Rightarrow> bool" where
  "rows_after z rows c fs rows' \<longleftrightarrow> length rows' = length rows \<and> wide z rows'
    \<and> (\<forall>i<c. rows' ! i = rows ! i) \<and> (\<forall>i<length fs - 1. stores z (rows' ! (c + i)) (fs ! i))
    \<and> take (length (take z (last fs))) (rows' ! (c + length fs - 1)) = take z (last fs)"

lemma fields_loop_joined:
  assumes "fs \<noteq> []" "list_all (plain dl tm) fs" "dl \<noteq> 0" "dl \<noteq> tm" "t = 0 \<or> t = tm"
    "c + length fs \<le> m" "m \<le> length rows" "wide z rows"
  shows "\<exists>rows'. fields_loop (pre @ joined dl fs @ t # rest) (int m) (int (Suc z)) dl tm (length pre) rows (int c) 0 =
      Inr (rows', int (c + length fs - 1), int (length (take z (last fs))))
    \<and> rows_after z rows c fs rows'"
  using assms
proof (induction dl fs arbitrary: c rows pre rule: joined.induct)
  case (2 d f)
  define rows' where "rows' = rows[c := row_text (rows ! c) 0 (take z f)]"
  have c: "c < m" "c < length rows" "Suc z \<le> length (rows ! c)" using 2 by (auto simp: wide_def Suc_le_eq)
  have p: "plain d tm f" using 2(2) by simp
  have "fields_loop (pre @ f @ t # rest) (int m) (int (Suc z)) d tm (length (pre @ f)) rows' (int c)
      (int (length (take z f))) = Inr (rows', int c, int (length (take z f)))"
    using 2(5) by (subst fields_loop.simps) auto
  then have "fields_loop (pre @ f @ t # rest) (int m) (int (Suc z)) d tm (length pre) rows (int c) (int 0) =
      Inr (rows', int c, int (length (take z f)))"
    using fields_loop_chars [OF p c, of 0 pre "t # rest"] unfolding rows'_def by simp
  moreover have "rows_after z rows c [f] rows'"
    using c 2(7) 2(8) unfolding rows'_def rows_after_def
    using take_row_text [of "take z f" "rows ! c"] by (auto intro!: wide_update)
  ultimately show ?case by auto
next
  case (3 d f g fs)
  define rows1 where
    "rows1 = rows[c := row_text (rows ! c) 0 (take z f @ [0]), Suc c := (rows ! Suc c)[0 := 0]]"
  have c: "Suc c < m" "Suc c < length rows" "Suc z \<le> length (rows ! c)" using 3 by (auto simp: wide_def Suc_le_eq)
  have r1: "length rows1 = length rows" "wide z rows1"
    "\<forall>i<c. rows1 ! i = rows ! i" "stores z (rows1 ! c) f"
    using c 3(9) stores_row_text [of z "rows ! c" f] unfolding rows1_def
    by (auto simp: wide_def nth_list_update)
  have "fields_loop (pre @ joined d (f # g # fs) @ t # rest) (int m) (int (Suc z)) d tm (length pre) rows (int c) 0 =
      fields_loop ((pre @ f @ [d]) @ joined d (g # fs) @ t # rest) (int m) (int (Suc z)) d tm
        (length (pre @ f @ [d])) rows1 (int (Suc c)) 0"
    using fields_loop_delimited [of d tm f c m rows z pre "joined d (g # fs) @ t # rest"] 3 c
    unfolding rows1_def by simp
  moreover obtain rows' where
    "fields_loop ((pre @ f @ [d]) @ joined d (g # fs) @ t # rest) (int m) (int (Suc z)) d tm
        (length (pre @ f @ [d])) rows1 (int (Suc c)) 0 =
      Inr (rows', int (Suc c + length (g # fs) - 1), int (length (take z (last (g # fs)))))"
    "rows_after z rows1 (Suc c) (g # fs) rows'"
    using 3(1) [of "Suc c" rows1 "pre @ f @ [d]"] 3(3-8) r1 by auto
  moreover have "rows_after z rows c (f # g # fs) rows'"
  proof -
    have "stores z (rows' ! (c + i)) ((f # g # fs) ! i)" if "i < Suc (length fs)" for i
      using that r1(4) \<open>rows_after z rows1 (Suc c) (g # fs) rows'\<close> unfolding rows_after_def by (cases i) auto
    then show ?thesis
      using \<open>rows_after z rows1 (Suc c) (g # fs) rows'\<close> r1 unfolding rows_after_def by simp
  qed
  ultimately show ?case by auto
qed simp

text \<open>Fields that all end with a delimiter and fill every row leave the counter behind the last row.\<close>

lemma fields_loop_full:
  assumes "fs \<noteq> []" "list_all (plain dl tm) fs" "dl \<noteq> 0" "dl \<noteq> tm"
    "c + length fs = m" "m \<le> length rows" "wide z rows" "rest \<noteq> []"
  shows "\<exists>rows'. fields_loop (pre @ concat (map (\<lambda>f. f @ [dl]) fs) @ rest) (int m) (int (Suc z)) dl tm
      (length pre) rows (int c) 0 = Inr (rows', int m, int (length (take z (last fs))))
    \<and> length rows' = length rows"
  using assms
proof (induction fs arbitrary: c rows pre)
  case (Cons f fs)
  define rows1 where "rows1 = rows[c := row_text (rows ! c) 0 (take z f @ [0])]"
  define rows2 where "rows2 = rows1[Suc c := (rows ! Suc c)[0 := 0]]"
  have c: "c < m" "c < length rows" "z < length (rows ! c)" using Cons.prems by (auto simp: wide_def)
  have "wide z rows1" unfolding rows1_def using Cons.prems(7) c by (intro wide_update) simp_all
  then have w: "wide z rows2" if "Suc c < m" using that Cons.prems(6,7) unfolding rows2_def
    by (intro wide_update) (auto simp: wide_def)
  have step: "fields_loop (pre @ concat (map (\<lambda>f. f @ [dl]) (f # fs)) @ rest) (int m) (int (Suc z)) dl tm
        (length pre) rows (int c) 0 =
      fields_loop ((pre @ f @ [dl]) @ concat (map (\<lambda>f. f @ [dl]) fs) @ rest) (int m) (int (Suc z)) dl tm
        (length (pre @ f @ [dl])) (if Suc c < m then rows2 else rows1) (int (Suc c))
        (if Suc c < m then 0 else int (length (take z f)))"
    using fields_loop_delimited [of dl tm f c m rows z pre "concat (map (\<lambda>f. f @ [dl]) fs) @ rest"]
      Cons.prems c unfolding rows1_def rows2_def by simp
  show ?case
  proof (cases "fs = []")
    case True
    then show ?thesis unfolding step using Cons.prems c(1)
      by (subst fields_loop.simps) (auto simp: Let_def nth_append rows1_def hd_conv_nth)
  next
    case False
    then have "Suc c < m" using Cons.prems(5) by (cases fs) auto
    then show ?thesis unfolding step
      using Cons.IH [of "Suc c" rows2 "pre @ f @ [dl]"] Cons.prems False w by (auto simp: rows2_def rows1_def)
  qed
qed simp

lemma parse_fields_start:
  assumes "s \<noteq> []" "\<not> sint (hd s) < 32" "0 < m" "0 < length rows" "wide z rows"
  shows "semp_util_parse_delimited_fields (Some s) (Some rows) (int m) (int (Suc z)) dl tm =
    rbind (fields_loop s (int m) (int (Suc z)) dl tm 0 (rows[0 := (rows ! 0)[0 := 0]]) 0 0)
      (\<lambda>(rows, fieldCount, fieldPos).
         if fieldPos > 0
         then rbind (put_field rows fieldCount fieldPos 0) (\<lambda>rows. Inr (Some rows, fieldCount + 1))
         else Inr (Some rows, fieldCount))"
proof -
  have "at s 0 = Inr (hd s)" using assms(1) by (cases s) (simp_all add: at_def)
  moreover have "put_field rows 0 0 0 = Inr (rows[0 := (rows ! 0)[0 := 0]])"
    using put_field_eq [of 0 rows 0 0] assms(4,5) by (force simp: wide_def)
  ultimately show ?thesis using assms(2,3) unfolding semp_util_parse_delimited_fields_def by simp
qed

lemma parse_fields_joined:
  assumes fs: "fs \<noteq> []" "list_all (plain dl tm) fs" "dl \<noteq> 0" "dl \<noteq> tm" "t = 0 \<or> t = tm"
    and room: "length fs \<le> m" "m \<le> length rows" "wide z rows" "0 < z"
    and first: "\<not> sint (hd (joined dl fs @ [t])) < 32" and last: "last fs \<noteq> []"
  shows "\<exists>rows'. semp_util_parse_delimited_fields (Some (joined dl fs @ t # rest)) (Some rows)
      (int m) (int (Suc z)) dl tm = Inr (Some rows', int (length fs))
    \<and> length rows' = length rows \<and> (\<forall>i<length fs. stores z (rows' ! i) (fs ! i))"
proof -
  define k where "k = length fs - 1"
  have k: "length fs = Suc k" "k < length rows" "fs ! k = List.last fs"
    using fs(1) room(1,2) by (cases fs; simp add: k_def last_conv_nth)+
  have "hd (joined dl fs @ t # rest) = hd (joined dl fs @ [t])" by (cases "joined dl fs") simp_all
  then have start: "semp_util_parse_delimited_fields (Some (joined dl fs @ t # rest)) (Some rows) (int m) (int (Suc z)) dl tm =
      rbind (fields_loop (joined dl fs @ t # rest) (int m) (int (Suc z)) dl tm 0 (rows[0 := (rows ! 0)[0 := 0]]) 0 0)
      (\<lambda>(rows, fieldCount, fieldPos). if fieldPos > 0
         then rbind (put_field rows fieldCount fieldPos 0) (\<lambda>rows. Inr (Some rows, fieldCount + 1))
         else Inr (Some rows, fieldCount))"
    using first room k by (intro parse_fields_start) auto
  have "wide z (rows[0 := (rows ! 0)[0 := 0]])" 
    using wide_row [OF room(3) le_less_trans [OF zero_le k(2)]] room(3) by (intro wide_update) simp_all
  then obtain rows' where r: "fields_loop (joined dl fs @ t # rest) (int m) (int (Suc z)) dl tm 0
      (rows[0 := (rows ! 0)[0 := 0]]) 0 0 = Inr (rows', int k, int (length (take z (List.last fs))))"
      "rows_after z (rows[0 := (rows ! 0)[0 := 0]]) 0 fs rows'"
    using fields_loop_joined [OF fs, of 0 m "rows[0 := (rows ! 0)[0 := 0]]" z "[]" rest] room k by auto
  define row where "row = row_text (rows' ! k) 0 (take z (List.last fs) @ [0])"
  have a: "k < length rows'" "z < length (rows' ! k)"
      "take (length (take z (List.last fs))) (rows' ! k) = take z (List.last fs)"
    using r(2) k by (auto simp: rows_after_def wide_def)
  have row: "(rows' ! k)[length (take z (List.last fs)) := 0] = row"
    using a unfolding row_def row_text_def
    by (simp add: upd_conv_take_nth_drop Cons_nth_drop_Suc)
  have "0 < length (take z (List.last fs))" using last room by simp
  then have "semp_util_parse_delimited_fields (Some (joined dl fs @ t # rest)) (Some rows) (int m) (int (Suc z)) dl tm =
      Inr (Some (rows'[k := row]), int (length fs))"
    using put_field_eq [of k rows' "length (take z (List.last fs))" 0] a row k unfolding start r(1) by simp
  moreover have "stores z (rows'[k := row] ! i) (fs ! i)" if "i < length fs" for i
    using that r(2) k a stores_row_text [of z "rows' ! k" "List.last fs"] unfolding row_def rows_after_def
    by (cases "i = k") auto
  moreover have "length (rows'[k := row]) = length rows" using r(2) by (simp add: rows_after_def)
  ultimately show ?thesis by blast
qed

lemma parse_fields_overflow:
  assumes "fs \<noteq> []" "list_all (plain dl tm) fs" "dl \<noteq> 0" "dl \<noteq> tm" "length rows = length fs" "wide z rows"
    "0 < z" "\<not> sint (hd (hd fs @ [dl])) < 32" "last fs \<noteq> []" "rest \<noteq> []"
  shows "semp_util_parse_delimited_fields (Some (concat (map (\<lambda>f. f @ [dl]) fs) @ rest)) (Some rows)
    (int (length fs)) (int (Suc z)) dl tm = Inl OutOfBounds"
proof -
  define s where "s = concat (map (\<lambda>f. f @ [dl]) fs) @ rest"
  have s: "s \<noteq> []" "hd s = hd (hd fs @ [dl])" using assms(1) unfolding s_def by (cases fs; simp; cases "hd fs"; simp)+
  have r: "0 < length rows" using assms(1,5) by simp
  then have w: "wide z (rows[0 := (rows ! 0)[0 := 0]])" using assms(6) by (intro wide_update) (auto simp: wide_def)
  obtain rows' where "fields_loop s (int (length fs)) (int (Suc z)) dl tm 0 (rows[0 := (rows ! 0)[0 := 0]]) 0 0 =
      Inr (rows', int (length fs), int (length (take z (last fs))))" "length rows' = length rows"
    using fields_loop_full [OF assms(1-4), of 0 "length fs" "rows[0 := (rows ! 0)[0 := 0]]" z rest "[]"] w assms(5,10)
    unfolding s_def by auto
  then show ?thesis
    using parse_fields_start [of s "length fs" rows z dl tm] s assms r put_field_no_row [of rows' "length fs"]
    unfolding s_def by simp
qed

end
