(* ===== verification/Parse_NMEA.thy ===== *)
theory Parse_NMEA
  imports Message_Parser Message_Util
begin

text \<open>
  my_parser/Parse_NMEA.c: NMEA 0183 sentences, \<^verbatim>\<open>$name,fields*XX\<close> with an optional line
  end. The checksum is the exclusive or of the bytes between the first byte and the
  asterisk. A complete sentence is delivered with carriage return, line feed and a
  terminating zero appended, whatever the line end was.
\<close>

definition NMEA_BUFFER_OVERHEAD :: nat where
  "NMEA_BUFFER_OVERHEAD = 1 + 2 + 2 + 1"

definition sempNmeaValidateChecksum :: "parse \<Rightarrow> parse res" where
  "sempNmeaValidateChecksum p =
     rbind (buffer_back p 2) (\<lambda>c1.
     rbind (buffer_back p 1) (\<lambda>c2.
       let checksum = push_bit 4 (semp_util_asciiToNibble (uint c1));
           checksum = checksum OR semp_util_asciiToNibble (uint c2);
           (p, accepted) = crc_accepted (word_of_int checksum = crc p) p
       in if accepted then
            rbind (buffer_push p 0x0D) (\<lambda>p.
            rbind (buffer_push p 0x0A) (\<lambda>p.
            rbind (buffer_put p 0) (\<lambda>p.
              call_eom p)))
          else Inr (sempPrintf (printDebug p) NmeaBadChecksum p)))"

definition sempNmeaLineFeed :: "parse \<Rightarrow> u8 \<Rightarrow> (parse \<times> bool) res" where
  "sempNmeaLineFeed p data =
     (let p = p\<lparr>msg_length := msg_length p - 1\<rparr>
      in if data = 0x0A
         then rbind (sempNmeaValidateChecksum p) (\<lambda>p. Inr (p\<lparr>state := FirstByte\<rparr>, True))
         else rbind (sempNmeaValidateChecksum p) (\<lambda>p. sempFirstByte p data))"

definition sempNmeaCarriageReturn :: "parse \<Rightarrow> u8 \<Rightarrow> (parse \<times> bool) res" where
  "sempNmeaCarriageReturn p data =
     (let p = p\<lparr>msg_length := msg_length p - 1\<rparr>
      in if data = 0x0D
         then rbind (sempNmeaValidateChecksum p) (\<lambda>p. Inr (p\<lparr>state := FirstByte\<rparr>, True))
         else rbind (sempNmeaValidateChecksum p) (\<lambda>p. sempFirstByte p data))"

definition sempNmeaLineTermination :: "parse \<Rightarrow> u8 \<Rightarrow> (parse \<times> bool) res" where
  "sempNmeaLineTermination p data =
     (let p = p\<lparr>msg_length := msg_length p - 1\<rparr>
      in if data = 0x0D then Inr (p\<lparr>state := NmeaLineFeed\<rparr>, True)
         else if data = 0x0A then Inr (p\<lparr>state := NmeaCarriageReturn\<rparr>, True)
         else rbind (sempNmeaValidateChecksum p) (\<lambda>p. sempFirstByte p data))"

definition sempNmeaChecksumByte2 :: "parse \<Rightarrow> u8 \<Rightarrow> (parse \<times> bool) res" where
  "sempNmeaChecksumByte2 p data =
     rbind (buffer_back p 1) (\<lambda>c.
       if semp_util_asciiToNibble (uint c) \<ge> 0
       then Inr (p\<lparr>state := NmeaLineTermination\<rparr>, True)
       else sempFirstByte (sempPrintf (printDebug p) NmeaInvalidSecondChecksum p) data)"

definition sempNmeaChecksumByte1 :: "parse \<Rightarrow> u8 \<Rightarrow> (parse \<times> bool) res" where
  "sempNmeaChecksumByte1 p data =
     rbind (buffer_back p 1) (\<lambda>c.
       if semp_util_asciiToNibble (uint c) \<ge> 0
       then Inr (p\<lparr>state := NmeaChecksumByte2\<rparr>, True)
       else sempFirstByte (sempPrintf (printDebug p) NmeaInvalidFirstChecksum p) data)"

definition sempNmeaFindAsterisk :: "parse \<Rightarrow> u8 \<Rightarrow> (parse \<times> bool) res" where
  "sempNmeaFindAsterisk p data =
     (if data = 0x2A then Inr (p\<lparr>state := NmeaChecksumByte1\<rparr>, True)
      else
        let p = p\<lparr>crc := crc p XOR ucast data\<rparr>
        in if unat (msg_length p) + NMEA_BUFFER_OVERHEAD > unat (buffer_length p)
           then sempFirstByte (sempPrintf (printDebug p) NmeaSentenceTooLong p) data
           else Inr (p, True))"

text \<open>The array \<^verbatim>\<open>sentenceName\<close> has sixteen elements.\<close>

definition nmea_store_name :: "u8 \<Rightarrow> parse \<Rightarrow> parse res" where
  "nmea_store_name data p =
     (if unat (nmea_sentenceNameLength p) < 16
      then Inr (set_nmea_sentenceName (unat (nmea_sentenceNameLength p)) data p)
      else Inl OutOfBounds)"

definition sempNmeaFindFirstComma :: "parse \<Rightarrow> u8 \<Rightarrow> (parse \<times> bool) res" where
  "sempNmeaFindFirstComma p data =
     (let p = p\<lparr>crc := crc p XOR ucast data\<rparr>
      in if data \<noteq> 0x2C \<or> nmea_sentenceNameLength p = 0
         then
           let upper = data AND NOT 0x20
           in if (upper < 0x41 \<or> upper > 0x5A) \<and> (data < 0x30 \<or> data > 0x39)
              then sempFirstByte (sempPrintf (printDebug p) NmeaInvalidNameCharacter p) data
              else if nmea_sentenceNameLength p = 15
              then sempFirstByte (sempPrintf (printDebug p) NmeaNameTooLong p) data
              else rbind (nmea_store_name data p) (\<lambda>q.
                     Inr (set_nmea_sentenceNameLength (nmea_sentenceNameLength p + 1) q, True))
         else rbind (nmea_store_name 0 p) (\<lambda>p. Inr (p\<lparr>state := NmeaFindAsterisk\<rparr>, True)))"

end
