(* ===== verification/Parse_RTCM.thy ===== *)
theory Parse_RTCM
  imports Message_Parser
begin

text \<open>
  my_parser/Parse_RTCM.c: RTCM 3. A message is \<^verbatim>\<open>D3 len_hi len_lo data crc24\<close>, with a
  10-bit length of the data; its first twelve bits are the message number. The CRC-24Q
  of \<open>Crc\<close> runs over every byte from the preamble on, the three CRC bytes included, and
  must end at zero. \<^verbatim>\<open>bytesRemaining\<close> is a \<^verbatim>\<open>uint16_t\<close>, so \<^verbatim>\<open>bytesRemaining <= 0\<close>
  is a test for zero and the decrements wrap.
\<close>

definition sempRtcmReadCrc :: "parse \<Rightarrow> u8 \<Rightarrow> (parse \<times> bool) res" where
  "sempRtcmReadCrc p data =
     (let p = set_rtcm_bytesRemaining (rtcm_bytesRemaining p - 1) p
      in if rtcm_bytesRemaining p > 0 then Inr (p, True)
         else
           let (p, accepted) = crc_accepted (crc p = 0) p
           in rbind (if accepted then call_eom p
                     else Inr (sempPrintf (printDebug p) RtcmBadCrc p))
                (\<lambda>p. Inr (p\<lparr>state := FirstByte\<rparr>, False)))"

definition sempRtcmReadData :: "parse \<Rightarrow> u8 \<Rightarrow> (parse \<times> bool) res" where
  "sempRtcmReadData p data =
     (let p = set_rtcm_bytesRemaining (rtcm_bytesRemaining p - 1) p
      in if rtcm_bytesRemaining p \<le> 0
         then
           let p = set_rtcm_crc (crc p) p;
               p = set_rtcm_bytesRemaining 3 p
           in Inr (p\<lparr>state := RtcmReadCrc\<rparr>, True)
         else Inr (p, True))"

definition sempRtcmReadMessage2 :: "parse \<Rightarrow> u8 \<Rightarrow> (parse \<times> bool) res" where
  "sempRtcmReadMessage2 p data =
     (let p = set_rtcm_message (rtcm_message p OR ucast (drop_bit 4 data)) p;
          p = set_rtcm_bytesRemaining (rtcm_bytesRemaining p - 1) p
      in Inr (p\<lparr>state := RtcmReadData\<rparr>, True))"

definition sempRtcmReadMessage1 :: "parse \<Rightarrow> u8 \<Rightarrow> (parse \<times> bool) res" where
  "sempRtcmReadMessage1 p data =
     (let p = set_rtcm_message (push_bit 4 (ucast data)) p;
          p = set_rtcm_bytesRemaining (rtcm_bytesRemaining p - 1) p
      in Inr (p\<lparr>state := RtcmReadMessage2\<rparr>, True))"

definition sempRtcmReadLength2 :: "parse \<Rightarrow> u8 \<Rightarrow> (parse \<times> bool) res" where
  "sempRtcmReadLength2 p data =
     (let p = set_rtcm_bytesRemaining (rtcm_bytesRemaining p OR ucast data) p
      in Inr (p\<lparr>state := RtcmReadMessage1\<rparr>, True))"

definition sempRtcmReadLength1 :: "parse \<Rightarrow> u8 \<Rightarrow> (parse \<times> bool) res" where
  "sempRtcmReadLength1 p data =
     (if data AND NOT 3 \<noteq> 0 then sempFirstByte p data
      else
        let p = set_rtcm_bytesRemaining (push_bit 8 (ucast data)) p
        in Inr (p\<lparr>state := RtcmReadLength2\<rparr>, True))"

end
