(* ===== verification/Parse_UBLOX.thy ===== *)
theory Parse_UBLOX
  imports Message_Parser
begin

text \<open>
  my_parser/Parse_UBLOX.c: the u-blox UBX protocol. A message is
  \<^verbatim>\<open>B5 62 class id len_lo len_hi payload ck_a ck_b\<close>, the two checksum bytes being an
  8-bit Fletcher sum over everything between the sync bytes and the checksum.
\<close>

definition sempUbloxCkB :: "parse \<Rightarrow> u8 \<Rightarrow> (parse \<times> bool) res" where
  "sempUbloxCkB p data =
     rbind (buffer_back p 2) (\<lambda>rx_a.
     rbind (buffer_back p 1) (\<lambda>rx_b.
       let badChecksum = (rx_a \<noteq> ublox_ck_a p \<or> rx_b \<noteq> ublox_ck_b p);
           (p, accepted) = crc_accepted (\<not> badChecksum) p
       in rbind (if accepted then call_eom p
                 else Inr (sempPrintf (printDebug p) UbloxBadChecksum p))
            (\<lambda>p. Inr (p\<lparr>msg_length := 0, state := FirstByte\<rparr>, False))))"

definition sempUbloxCkA :: "parse \<Rightarrow> u8 \<Rightarrow> (parse \<times> bool) res" where
  "sempUbloxCkA p data = Inr (p\<lparr>state := UbloxCkB\<rparr>, True)"

text \<open>The running checksum: \<^verbatim>\<open>ck_a += data; ck_b += ck_a\<close>.\<close>

definition ublox_checksum :: "u8 \<Rightarrow> parse \<Rightarrow> parse" where
  "ublox_checksum data p =
     (let p = set_ublox_ck_a (ublox_ck_a p + data) p
      in set_ublox_ck_b (ublox_ck_b p + ublox_ck_a p) p)"

text \<open>
  The counter is tested before it is decremented, so it is left at \<open>65535\<close> when the
  first checksum byte arrives.
\<close>

definition sempUbloxPayload :: "parse \<Rightarrow> u8 \<Rightarrow> (parse \<times> bool) res" where
  "sempUbloxPayload p data =
     (let remaining = ublox_bytesRemaining p;
          p = set_ublox_bytesRemaining (remaining - 1) p
      in if remaining \<noteq> 0 then Inr (ublox_checksum data p, True) else sempUbloxCkA p data)"

definition sempUbloxLength2 :: "parse \<Rightarrow> u8 \<Rightarrow> (parse \<times> bool) res" where
  "sempUbloxLength2 p data =
     (let p = ublox_checksum data p;
          p = set_ublox_bytesRemaining (ublox_bytesRemaining p OR push_bit 8 (ucast data)) p
      in Inr (p\<lparr>state := UbloxPayload\<rparr>, True))"

definition sempUbloxLength1 :: "parse \<Rightarrow> u8 \<Rightarrow> (parse \<times> bool) res" where
  "sempUbloxLength1 p data =
     (let p = ublox_checksum data p;
          p = set_ublox_bytesRemaining (ucast data) p
      in Inr (p\<lparr>state := UbloxLength2\<rparr>, True))"

definition sempUbloxId :: "parse \<Rightarrow> u8 \<Rightarrow> (parse \<times> bool) res" where
  "sempUbloxId p data =
     (let p = ublox_checksum data p;
          p = set_ublox_message (ublox_message p OR ucast data) p
      in Inr (p\<lparr>state := UbloxLength1\<rparr>, True))"

definition sempUbloxClass :: "parse \<Rightarrow> u8 \<Rightarrow> (parse \<times> bool) res" where
  "sempUbloxClass p data =
     (let p = set_ublox_ck_a data p;
          p = set_ublox_ck_b data p;
          p = set_ublox_message (push_bit 8 (ucast data)) p
      in Inr (p\<lparr>state := UbloxId\<rparr>, True))"

definition sempUbloxSync2 :: "parse \<Rightarrow> u8 \<Rightarrow> (parse \<times> bool) res" where
  "sempUbloxSync2 p data =
     (if data \<noteq> 0x62 then sempFirstByte (sempPrintf (printDebug p) UbloxInvalidSync2 p) data
      else Inr (p\<lparr>state := UbloxClass\<rparr>, True))"

end
