(* ===== verification/Parse_Custom.thy ===== *)
theory Parse_Custom
  imports Message_Parser
begin

text \<open>
  my_parser/Parse_Custom.c: the repository's own binary protocol. A 20-byte header
  starting with \<^verbatim>\<open>AA 44 18\<close>, whose bytes 12 and 13 are the length of the data,
  the data, and the CRC-32 of everything before it, least significant byte first. The
  register is inverted when the data is complete and must be zero after the CRC bytes.
\<close>

text \<open>\<^verbatim>\<open>sizeof(SEMP_CUSTOM_HEADER)\<close>; the struct has no padding.\<close>

definition sizeof_SEMP_CUSTOM_HEADER :: nat where
  "sizeof_SEMP_CUSTOM_HEADER = 20"

text \<open>\<^verbatim>\<open>((SEMP_CUSTOM_HEADER *)parse->buffer)->messageLength\<close>\<close>

definition custom_messageLength :: "parse \<Rightarrow> u16 res" where
  "custom_messageLength p =
     rbind (at (buffer p) 12) (\<lambda>lo. rbind (at (buffer p) 13) (\<lambda>hi. Inr (le16 lo hi)))"

text \<open>The arguments of the bad-CRC message read the last four bytes of the buffer.\<close>

definition custom_print_bad_crc :: "parse \<Rightarrow> parse res" where
  "custom_print_bad_crc p =
     rbind (buffer_back p 4) (\<lambda>_. rbind (buffer_back p 3) (\<lambda>_.
     rbind (buffer_back p 2) (\<lambda>_. rbind (buffer_back p 1) (\<lambda>_.
       Inr (sempPrintf (printDebug p) CustomBadCrc p)))))"

definition sempCustomReadCrc :: "parse \<Rightarrow> u8 \<Rightarrow> (parse \<times> bool) res" where
  "sempCustomReadCrc p data =
     (let p = set_custom_bytesRemaining (custom_bytesRemaining p - 1) p
      in if custom_bytesRemaining p \<noteq> 0 then Inr (p, True)
         else
           let (p, accepted) = crc_accepted (crc p = 0) p
           in rbind (if accepted then call_eom p else custom_print_bad_crc p)
                (\<lambda>p. Inr (p\<lparr>state := FirstByte\<rparr>, False)))"

definition sempCustomReadData :: "parse \<Rightarrow> u8 \<Rightarrow> (parse \<times> bool) res" where
  "sempCustomReadData p data =
     (let p = set_custom_bytesRemaining (custom_bytesRemaining p - 1) p
      in if custom_bytesRemaining p = 0
         then
           let p = set_custom_bytesRemaining 4 p;
               p = p\<lparr>crc := crc p XOR 0xFFFFFFFF\<rparr>;
               p = set_custom_crc (crc p) p
           in Inr (p\<lparr>state := CustomReadCrc\<rparr>, True)
         else Inr (p, True))"

definition sempCustomReadHeader :: "parse \<Rightarrow> u8 \<Rightarrow> (parse \<times> bool) res" where
  "sempCustomReadHeader p data =
     (if unat (msg_length p) \<ge> sizeof_SEMP_CUSTOM_HEADER
      then rbind (custom_messageLength p) (\<lambda>n.
             let p = set_custom_bytesRemaining n p
             in Inr (p\<lparr>state := CustomReadData\<rparr>, True))
      else Inr (p, True))"

definition sempCustomSync3 :: "parse \<Rightarrow> u8 \<Rightarrow> (parse \<times> bool) res" where
  "sempCustomSync3 p data =
     (if data \<noteq> 0x18 then sempFirstByte p data
      else Inr (p\<lparr>state := CustomReadHeader\<rparr>, True))"

definition sempCustomSync2 :: "parse \<Rightarrow> u8 \<Rightarrow> (parse \<times> bool) res" where
  "sempCustomSync2 p data =
     (if data \<noteq> 0x44 then sempFirstByte p data else Inr (p\<lparr>state := CustomSync3\<rparr>, True))"

end
