(* ===== verification/Parse_Unicore_Binary.thy ===== *)
theory Parse_Unicore_Binary
  imports Message_Parser
begin

text \<open>
  my_parser/Parse_Unicore_Binary.c: the Unicore binary protocol, a 24-byte header
  starting with \<^verbatim>\<open>AA 44 B5\<close> with the data length at bytes 6 and 7, the data and four
  CRC bytes. The CRC routine of this file has no \<^verbatim>\<open>return\<close> (see \<open>Preambles\<close>).
\<close>

definition sizeof_SEMP_UNICORE_HEADER :: nat where
  "sizeof_SEMP_UNICORE_HEADER = 24"

text \<open>\<^verbatim>\<open>((SEMP_UNICORE_HEADER *)parse->buffer)->messageLength\<close>\<close>

definition unicore_messageLength :: "parse \<Rightarrow> u16 res" where
  "unicore_messageLength p =
     rbind (at (buffer p) 6) (\<lambda>lo. rbind (at (buffer p) 7) (\<lambda>hi. Inr (le16 lo hi)))"

definition sempUnicoreBinaryReadCrc :: "parse \<Rightarrow> u8 \<Rightarrow> (parse \<times> bool) res" where
  "sempUnicoreBinaryReadCrc p data =
     (let p = set_unicoreBinary_bytesRemaining (unicoreBinary_bytesRemaining p - 1) p
      in if unicoreBinary_bytesRemaining p \<noteq> 0 then Inr (p, True)
         else
           let (p, accepted) = crc_accepted (crc p = 0) p
           in rbind (if accepted then call_eom p
                     else Inr (sempPrintf (printDebug p) UnicoreBinaryBadCrc p))
                (\<lambda>p. Inr (p\<lparr>state := FirstByte\<rparr>, False)))"

definition sempUnicoreBinaryReadData :: "parse \<Rightarrow> u8 \<Rightarrow> (parse \<times> bool) res" where
  "sempUnicoreBinaryReadData p data =
     (let p = set_unicoreBinary_bytesRemaining (unicoreBinary_bytesRemaining p - 1) p
      in if unicoreBinary_bytesRemaining p = 0
         then
           let p = set_unicoreBinary_bytesRemaining 4 p;
               p = set_unicoreBinary_crc (crc p) p
           in Inr (p\<lparr>state := UnicoreBinaryReadCrc\<rparr>, True)
         else Inr (p, True))"

definition sempUnicoreBinaryReadHeader :: "parse \<Rightarrow> u8 \<Rightarrow> (parse \<times> bool) res" where
  "sempUnicoreBinaryReadHeader p data =
     (if unat (msg_length p) \<ge> sizeof_SEMP_UNICORE_HEADER
      then rbind (unicore_messageLength p) (\<lambda>n.
             let p = set_unicoreBinary_bytesRemaining n p
             in Inr (p\<lparr>state := UnicoreBinaryReadData\<rparr>, True))
      else Inr (p, True))"

definition sempUnicoreBinarySync3 :: "parse \<Rightarrow> u8 \<Rightarrow> (parse \<times> bool) res" where
  "sempUnicoreBinarySync3 p data =
     (if data \<noteq> 0xB5 then sempFirstByte p data
      else Inr (p\<lparr>state := UnicoreBinaryReadHeader\<rparr>, True))"

definition sempUnicoreBinarySync2 :: "parse \<Rightarrow> u8 \<Rightarrow> (parse \<times> bool) res" where
  "sempUnicoreBinarySync2 p data =
     (if data \<noteq> 0x44 then sempFirstByte p data
      else Inr (p\<lparr>state := UnicoreBinarySync3\<rparr>, True))"

end
