(* ===== verification/Parse_Unicore_Hash.thy ===== *)
theory Parse_Unicore_Hash
  imports Message_Parser Message_Util
begin

text \<open>
  my_parser/Parse_Unicore_Hash.c: Unicore sentences, \<^verbatim>\<open>#name,fields*check\<close>. Sentences
  whose name contains \<^verbatim>\<open>MODE\<close> carry a two-digit exclusive-or checksum, all others the
  eight digits of a CRC-32 without inversion, most significant digit first.
\<close>

definition UNICORE_HASH_BUFFER_OVERHEAD :: nat where
  "UNICORE_HASH_BUFFER_OVERHEAD = 1 + 1 + 1"

text \<open>
  The loop over the sentence: it takes the byte at \<open>i\<close>, moves on, and stops when the
  next byte is an asterisk. The result is the index of the asterisk and the register.
\<close>

function hash_crc_loop :: "u8 list \<Rightarrow> nat \<Rightarrow> u32 \<Rightarrow> (nat \<times> u32) res" where
  "hash_crc_loop b i c =
     (if i < length b then
        let c = crc32_step semp_crc32Table c (b ! i)
        in if Suc i < length b then
             if b ! Suc i \<noteq> 0x2A then hash_crc_loop b (Suc i) c else Inr (Suc i, c)
           else Inl OutOfBounds
      else Inl OutOfBounds)"
  by pat_completeness auto
termination
  by (relation "measure (\<lambda>(b, i, c). length b - i)") auto

declare hash_crc_loop.simps [simp del]

text \<open>\<open>n\<close> turns of \<^verbatim>\<open>crcRx = (crcRx << 4) | semp_util_asciiToNibble(*data++)\<close>\<close>

fun hash_crc_rx :: "nat \<Rightarrow> u8 list \<Rightarrow> nat \<Rightarrow> u32 \<Rightarrow> u32 res" where
  "hash_crc_rx 0 b i c = Inr c"
| "hash_crc_rx (Suc n) b i c =
     (case at b (int i) of
        Inl e \<Rightarrow> Inl e
      | Inr d \<Rightarrow>
          hash_crc_rx n b (Suc i) (push_bit 4 c OR word_of_int (semp_util_asciiToNibble (uint d))))"

definition sempUnicoreHashValidateCrc :: "parse \<Rightarrow> parse res" where
  "sempUnicoreHashValidateCrc p =
     rbind (hash_crc_loop (buffer p) 1 0) (\<lambda>(star, crc).
     rbind (hash_crc_rx 8 (buffer p) (Suc star) 0) (\<lambda>crcRx.
       if crc \<noteq> crcRx then Inr (sempPrintf (printDebug p) HashBadCrc p)
       else if unat (msg_length p) + UNICORE_HASH_BUFFER_OVERHEAD > unat (buffer_length p)
       then Inr ((sempPrintf (printDebug p) HashSentenceTooLong p)\<lparr>state := FirstByte\<rparr>)
       else
         rbind (buffer_push p 0x0D) (\<lambda>p.
         rbind (buffer_push p 0x0A) (\<lambda>p.
         rbind (buffer_put p 0) (\<lambda>p.
           call_eom p)))))"

definition sempUnicoreHashValidateChecksum :: "parse \<Rightarrow> parse res" where
  "sempUnicoreHashValidateChecksum p =
     (if unicoreHash_checksumBytes p > 2 then sempUnicoreHashValidateCrc p
      else
        rbind (buffer_back p 2) (\<lambda>c1.
        rbind (buffer_back p 1) (\<lambda>c2.
          let checksum = push_bit 4 (semp_util_asciiToNibble (uint c1))
                           OR semp_util_asciiToNibble (uint c2);
              (p, accepted) = crc_accepted (word_of_int checksum = crc p) p
          in if accepted then
               rbind (buffer_push p 0x0D) (\<lambda>p.
               rbind (buffer_push p 0x0A) (\<lambda>p.
               rbind (buffer_put p 0) (\<lambda>p.
                 call_eom p)))
             else Inr (sempPrintf (printDebug p) HashBadChecksum p))))"

definition sempUnicoreHashLineFeed :: "parse \<Rightarrow> u8 \<Rightarrow> (parse \<times> bool) res" where
  "sempUnicoreHashLineFeed p data =
     (let p = p\<lparr>msg_length := msg_length p - 1\<rparr>
      in if data = 0x0A
         then rbind (sempUnicoreHashValidateChecksum p) (\<lambda>p. Inr (p\<lparr>state := FirstByte\<rparr>, True))
         else rbind (sempUnicoreHashValidateChecksum p) (\<lambda>p. sempFirstByte p data))"

definition sempUnicoreHashCarriageReturn :: "parse \<Rightarrow> u8 \<Rightarrow> (parse \<times> bool) res" where
  "sempUnicoreHashCarriageReturn p data =
     (let p = p\<lparr>msg_length := msg_length p - 1\<rparr>
      in if data = 0x0D
         then rbind (sempUnicoreHashValidateChecksum p) (\<lambda>p. Inr (p\<lparr>state := FirstByte\<rparr>, True))
         else rbind (sempUnicoreHashValidateChecksum p) (\<lambda>p. sempFirstByte p data))"

definition sempUnicoreHashLineTermination :: "parse \<Rightarrow> u8 \<Rightarrow> (parse \<times> bool) res" where
  "sempUnicoreHashLineTermination p data =
     (let p = p\<lparr>msg_length := msg_length p - 1\<rparr>
      in if data = 0x0D then Inr (p\<lparr>state := UnicoreHashLineFeed\<rparr>, True)
         else if data = 0x0A then Inr (p\<lparr>state := UnicoreHashCarriageReturn\<rparr>, True)
         else rbind (sempUnicoreHashValidateChecksum p) (\<lambda>p. sempFirstByte p data))"

definition sempUnicoreHashChecksumByte :: "parse \<Rightarrow> u8 \<Rightarrow> (parse \<times> bool) res" where
  "sempUnicoreHashChecksumByte p data =
     (let p = set_unicoreHash_bytesRemaining (unicoreHash_bytesRemaining p - 1) p
      in rbind (buffer_back p 1) (\<lambda>c.
           if semp_util_asciiToNibble (uint c) < 0
           then sempFirstByte (sempPrintf (printDebug p) HashInvalidChecksumCharacter p) data
           else if unicoreHash_bytesRemaining p = 0
           then Inr (p\<lparr>state := UnicoreHashLineTermination\<rparr>, True)
           else Inr (p, True)))"

definition sempUnicoreHashFindAsterisk :: "parse \<Rightarrow> u8 \<Rightarrow> (parse \<times> bool) res" where
  "sempUnicoreHashFindAsterisk p data =
     (if data = 0x2A
      then
        let p = set_unicoreHash_bytesRemaining (unicoreHash_checksumBytes p) p
        in Inr (p\<lparr>state := UnicoreHashChecksumByte\<rparr>, True)
      else
        let p = p\<lparr>crc := crc p XOR ucast data\<rparr>
        in if unat (msg_length p) + UNICORE_HASH_BUFFER_OVERHEAD > unat (buffer_length p)
           then sempFirstByte (sempPrintf (printDebug p) HashSentenceTooLong p) data
           else Inr (p, True))"

definition hash_store_name :: "u8 \<Rightarrow> parse \<Rightarrow> parse res" where
  "hash_store_name data p =
     (if unat (unicoreHash_sentenceNameLength p) < 16
      then Inr (set_unicoreHash_sentenceName (unat (unicoreHash_sentenceNameLength p)) data p)
      else Inl OutOfBounds)"

text \<open>
  \<^verbatim>\<open>strstr\<close> on the sentence name: the C string in the array, and whether the needle
  occurs in it.
\<close>

fun occurs_in :: "u8 list \<Rightarrow> u8 list \<Rightarrow> bool" where
  "occurs_in needle [] \<longleftrightarrow> needle = []"
| "occurs_in needle (x # xs) \<longleftrightarrow> take (length needle) (x # xs) = needle \<or> occurs_in needle xs"

definition hash_name :: "parse \<Rightarrow> u8 list" where
  "hash_name p = takeWhile (\<lambda>c. c \<noteq> 0) (map (unicoreHash_sentenceName p) [0..<16])"

definition sempUnicoreHashFindFirstComma :: "parse \<Rightarrow> u8 \<Rightarrow> (parse \<times> bool) res" where
  "sempUnicoreHashFindFirstComma p data =
     (let p = p\<lparr>crc := crc p XOR ucast data\<rparr>
      in if data \<noteq> 0x2C \<or> unicoreHash_sentenceNameLength p = 0
         then
           let upper = data AND NOT 0x20
           in if (upper < 0x41 \<or> upper > 0x5A) \<and> (data < 0x30 \<or> data > 0x39)
              then sempFirstByte (sempPrintf (printDebug p) HashInvalidNameCharacter p) data
              else if unicoreHash_sentenceNameLength p = 15
              then sempFirstByte (sempPrintf (printDebug p) HashNameTooLong p) data
              else rbind (hash_store_name data p) (\<lambda>q.
                     Inr (set_unicoreHash_sentenceNameLength
                            (unicoreHash_sentenceNameLength p + 1) q, True))
         else
           rbind (hash_store_name 0 p) (\<lambda>p.
             let p = set_unicoreHash_checksumBytes
                       (if occurs_in [0x4D, 0x4F, 0x44, 0x45] (hash_name p) then 2 else 8) p
             in Inr (p\<lparr>state := UnicoreHashFindAsterisk\<rparr>, True)))"

end
