(* ===== verification/Message_Step.thy ===== *)
theory Message_Step
  imports Parse_NMEA Parse_RTCM Parse_UBLOX Parse_Custom Parse_Unicore_Binary Parse_Unicore_Hash
    "HOL-Library.Sublist"
begin

text \<open>
  The state machine of my_parser as a whole: the call through \<^verbatim>\<open>parse->state\<close> and
  \<^verbatim>\<open>sempParseNextByte\<close> of Message_Parser.c, and the contract between the framework and a
  protocol file (locale \<open>protocol\<close>): from what a protocol promises of its own routines
  follows what the parser does with every byte.
\<close>

section \<open>One byte\<close>

fun call_state :: "SEMP_PARSE_ROUTINE \<Rightarrow> parse \<Rightarrow> u8 \<Rightarrow> (parse \<times> bool) res" where
  "call_state NullRoutine = (\<lambda>_ _. Inl NullPointer)"
| "call_state FirstByte = sempFirstByte"
| "call_state NmeaFindFirstComma = sempNmeaFindFirstComma"
| "call_state NmeaFindAsterisk = sempNmeaFindAsterisk"
| "call_state NmeaChecksumByte1 = sempNmeaChecksumByte1"
| "call_state NmeaChecksumByte2 = sempNmeaChecksumByte2"
| "call_state NmeaLineTermination = sempNmeaLineTermination"
| "call_state NmeaCarriageReturn = sempNmeaCarriageReturn"
| "call_state NmeaLineFeed = sempNmeaLineFeed"
| "call_state RtcmReadLength1 = sempRtcmReadLength1"
| "call_state RtcmReadLength2 = sempRtcmReadLength2"
| "call_state RtcmReadMessage1 = sempRtcmReadMessage1"
| "call_state RtcmReadMessage2 = sempRtcmReadMessage2"
| "call_state RtcmReadData = sempRtcmReadData"
| "call_state RtcmReadCrc = sempRtcmReadCrc"
| "call_state UbloxSync2 = sempUbloxSync2"
| "call_state UbloxClass = sempUbloxClass"
| "call_state UbloxId = sempUbloxId"
| "call_state UbloxLength1 = sempUbloxLength1"
| "call_state UbloxLength2 = sempUbloxLength2"
| "call_state UbloxPayload = sempUbloxPayload"
| "call_state UbloxCkA = sempUbloxCkA"
| "call_state UbloxCkB = sempUbloxCkB"
| "call_state CustomSync2 = sempCustomSync2"
| "call_state CustomSync3 = sempCustomSync3"
| "call_state CustomReadHeader = sempCustomReadHeader"
| "call_state CustomReadData = sempCustomReadData"
| "call_state CustomReadCrc = sempCustomReadCrc"
| "call_state UnicoreBinarySync2 = sempUnicoreBinarySync2"
| "call_state UnicoreBinarySync3 = sempUnicoreBinarySync3"
| "call_state UnicoreBinaryReadHeader = sempUnicoreBinaryReadHeader"
| "call_state UnicoreBinaryReadData = sempUnicoreBinaryReadData"
| "call_state UnicoreBinaryReadCrc = sempUnicoreBinaryReadCrc"
| "call_state UnicoreHashFindFirstComma = sempUnicoreHashFindFirstComma"
| "call_state UnicoreHashFindAsterisk = sempUnicoreHashFindAsterisk"
| "call_state UnicoreHashChecksumByte = sempUnicoreHashChecksumByte"
| "call_state UnicoreHashLineTermination = sempUnicoreHashLineTermination"
| "call_state UnicoreHashCarriageReturn = sempUnicoreHashCarriageReturn"
| "call_state UnicoreHashLineFeed = sempUnicoreHashLineFeed"

text \<open>Saving the byte and updating the CRC, the common start of every byte.\<close>

definition feed :: "parse \<Rightarrow> u8 \<Rightarrow> parse res" where
  "feed p data =
     rbind (buffer_push p data) (\<lambda>p.
       case computeCrc p of
         None \<Rightarrow> Inr p
       | Some routine \<Rightarrow> rbind (call_computeCrc routine p data) (\<lambda>c. Inr (p\<lparr>crc := c\<rparr>)))"

definition sempParseNextByte :: "parse \<Rightarrow> u8 \<Rightarrow> parse res" where
  "sempParseNextByte p data =
     (if msg_length p \<ge> buffer_length p
      then rbind (sempFirstByte (sempPrintf (printError p) MessageTooLong p) data)
             (\<lambda>(p, _). Inr p)
      else rbind (feed p data) (\<lambda>p. rbind (call_state (state p) p data) (\<lambda>(p, _). Inr p)))"

text \<open>A null parser is ignored.\<close>

fun sempParseNextByte_ptr :: "parse option \<Rightarrow> u8 \<Rightarrow> parse option res" where
  "sempParseNextByte_ptr None data = Inr None"
| "sempParseNextByte_ptr (Some p) data = rbind (sempParseNextByte p data) (\<lambda>q. Inr (Some q))"

section \<open>What a byte does to the common part of the state\<close>

definition next_crc :: "parse \<Rightarrow> u8 \<Rightarrow> u32" where
  "next_crc p d =
     (case computeCrc p of
        Some RtcmComputeCrc24q \<Rightarrow> crc24q_step (crc p) d
      | Some CustomComputeCrc \<Rightarrow> crc32_step semp_crc32Table (crc p) d
      | _ \<Rightarrow> crc p)"

lemma feed_eq:
  assumes wf: "wf_parse p" and "unat (msg_length p) < length (buffer p)"
    and "computeCrc p \<noteq> Some UnicoreBinaryComputeCrc"
  shows "\<exists>q. feed p d = Inr q \<and> wf_parse q \<and> message q = message p @ [d]
    \<and> unat (msg_length q) = Suc (unat (msg_length p))
    \<and> q = p\<lparr>buffer := buffer q, msg_length := msg_length q, crc := next_crc p d\<rparr>"
proof -
  obtain q where q: "buffer_push p d = Inr q" "wf_parse q" "message q = message p @ [d]"
      "unat (msg_length q) = Suc (unat (msg_length p))"
      "q = p\<lparr>buffer := buffer q, msg_length := msg_length q\<rparr>"
    using buffer_push_eq [OF assms(1,2)] by blast
  define b n where "b = buffer q" and "n = msg_length q"
  have eq: "q = p\<lparr>buffer := b, msg_length := n\<rparr>" unfolding b_def n_def by (rule q(5))
  have cq: "computeCrc q = computeCrc p" "crc q = crc p" by (simp_all add: eq)
  have "feed p d = Inr (q\<lparr>crc := next_crc p d\<rparr>)"
  proof (cases "computeCrc p")
    case None
    then show ?thesis using q(1) cq by (simp add: feed_def next_crc_def)
  next
    case (Some f)
    then show ?thesis
      using q(1) cq assms(3)
      by (cases f) (simp_all add: feed_def next_crc_def sempRtcmComputeCrc24q_def
          sempCustomComputeCrc_def)
  qed
  moreover have "wf_parse (q\<lparr>crc := next_crc p d\<rparr>)" "message (q\<lparr>crc := next_crc p d\<rparr>) = message p @ [d]"
    using q(2,3) by simp_all
  ultimately show ?thesis
    using q(4) by (intro exI [of _ "q\<lparr>crc := next_crc p d\<rparr>"] conjI) (simp_all add: eq)
qed

section \<open>The contract between the framework and a protocol\<close>

text \<open>
  What a routine may do with the parser: it keeps the configuration and reports at most
  one message, which is \<open>valid\<close> when no bad-CRC callback is there to accept others.
\<close>

definition unchanged :: "parse \<Rightarrow> parse \<Rightarrow> bool" where
  "unchanged p q \<longleftrightarrow>
     wf_parse q \<and> buffer_length q = buffer_length p \<and> parsers_table q = parsers_table p
     \<and> parsers_count q = parsers_count p \<and> badCrc q = badCrc p \<and> parser_type q = parser_type p
     \<and> computeCrc q = computeCrc p"

definition reports :: "(u8 list \<Rightarrow> bool) \<Rightarrow> parse \<Rightarrow> parse \<Rightarrow> bool" where
  "reports valid p q \<longleftrightarrow> unchanged p q
     \<and> (\<exists>ms. delivered q = delivered p @ map (Pair (ucast (parser_type p))) ms \<and> length ms \<le> 1
           \<and> (badCrc p = None \<longrightarrow> list_all valid ms))"

lemma unchanged_refl: "wf_parse p \<Longrightarrow> unchanged p p"
  by (simp add: unchanged_def)

lemma unchanged_trans: "unchanged p q \<Longrightarrow> unchanged q r \<Longrightarrow> unchanged p r"
  by (simp add: unchanged_def)

lemma unchanged_length: "wf_parse p \<Longrightarrow> unchanged p q \<Longrightarrow> length (buffer q) = length (buffer p)"
  by (simp add: unchanged_def wf_parse_def)

lemma unchanged_idle:
  "unchanged p q \<Longrightarrow> unchanged p (q\<lparr>state := s\<rparr>)"
  "unchanged p q \<Longrightarrow> unchanged p (q\<lparr>msg_length := 0, state := s\<rparr>)"
  using wf_parse_clear [of q] by (simp_all add: unchanged_def)

lemma reports_quiet: "unchanged p q \<Longrightarrow> delivered q = delivered p \<Longrightarrow> reports valid p q"
  by (auto simp: reports_def intro: exI [of _ "[]"])

lemma reports_one:
  "unchanged p q \<Longrightarrow> delivered q = delivered p @ [(ucast (parser_type p), m)] \<Longrightarrow>
    (badCrc p = None \<Longrightarrow> valid m) \<Longrightarrow> reports valid p q"
  by (auto simp: reports_def intro!: exI [of _ "[m]"])

lemma reports_finish:
  "unchanged p q \<Longrightarrow>
    delivered q = delivered p @ (if acc then [(ucast (parser_type p), m)] else []) \<Longrightarrow>
    badCrc p = None \<longrightarrow> acc = valid m \<Longrightarrow> reports valid p q"
  by (cases acc) (auto intro: reports_one reports_quiet)

lemma sempPrintf_simps [simp]:
  "buffer (sempPrintf cb m p) = buffer p" "msg_length (sempPrintf cb m p) = msg_length p"
  "buffer_length (sempPrintf cb m p) = buffer_length p" "crc (sempPrintf cb m p) = crc p"
  "parser_type (sempPrintf cb m p) = parser_type p"
  "parsers_count (sempPrintf cb m p) = parsers_count p"
  "scratchPad (sempPrintf cb m p) = scratchPad p" "state (sempPrintf cb m p) = state p"
  "parsers_table (sempPrintf cb m p) = parsers_table p" "badCrc (sempPrintf cb m p) = badCrc p"
  "eomCallback (sempPrintf cb m p) = eomCallback p" "computeCrc (sempPrintf cb m p) = computeCrc p"
  "delivered (sempPrintf cb m p) = delivered p" "message (sempPrintf cb m p) = message p"
  "wf_parse (sempPrintf cb m p) = wf_parse p" "printDebug (sempPrintf cb m p) = printDebug p"
  by (simp_all add: sempPrintf_def message_def wf_parse_def split: option.split)

lemma feedD:
  assumes "wf_parse p" and "unat (msg_length p) < length (buffer p)"
    and "computeCrc p \<noteq> Some UnicoreBinaryComputeCrc" and "feed p d = Inr p'"
  shows "unchanged p p'" "message p' = message p @ [d]" "state p' = state p"
    "scratchPad p' = scratchPad p" "crc p' = next_crc p d" "log p' = log p"
    "computeCrc p' = computeCrc p" "buffer_length p' = buffer_length p" "wf_parse p'"
    "parser_type p' = parser_type p"  "badCrc p' = badCrc p"
proof -
  obtain q where q: "feed p d = Inr q" "wf_parse q" "message q = message p @ [d]"
    "q = p\<lparr>buffer := buffer q, msg_length := msg_length q, crc := next_crc p d\<rparr>"
    using feed_eq [OF assms(1-3)] by blast
  define b n where "b = buffer q" and "n = msg_length q"
  have eq: "q = p\<lparr>buffer := b, msg_length := n, crc := next_crc p d\<rparr>"
    unfolding b_def n_def by (rule q(4))
  have "p' = q" using q(1) assms(4) by simp
  then show "unchanged p p'" "message p' = message p @ [d]" "state p' = state p"
    "scratchPad p' = scratchPad p" "crc p' = next_crc p d" "log p' = log p"
    "computeCrc p' = computeCrc p" "buffer_length p' = buffer_length p" "wf_parse p'"
    "parser_type p' = parser_type p"  "badCrc p' = badCrc p"
    using q(2,3) by (simp_all only: unchanged_def) (simp_all add: eq)
qed

text \<open>
  After the check of a complete message (\<open>ok\<close> is the protocol's own check) the
  message is delivered, or a diagnostic is printed.
\<close>

lemma crc_accepted_cases:
  assumes "crc_accepted ok p = (q, b)"
  obtains es where "q = p\<lparr>log := log p @ es\<rparr>" "eoms es = []" "badCrc p = None \<longrightarrow> b = ok" "ok \<longrightarrow> b"
proof (cases "ok \<or> badCrc p = None")
  case True
  then show thesis
    using assms by (intro that [of "[]"]) (auto simp: crc_accepted_def split: if_splits)
next
  case False
  then show thesis
    using assms by (intro that [of "[BadCrcCall (parser_type p) (message p)]"])
      (auto simp: crc_accepted_def)
qed

lemma call_eom_eq:
  assumes "wf_parse p"
  obtains a where "call_eom p = Inr (p\<lparr>log := log p @ [Eom a (ucast (parser_type p)) (message p)]\<rparr>)"
  using wf_parseD(5) [OF assms] by (auto simp: call_eom_def)

text \<open>
  The four ways a routine can treat a byte: go on with the message, end it (\<open>m\<close> is what
  is delivered if the check succeeds or the callback accepts it), or hand the byte to the
  table walk, possibly after delivering a message; the fourth is a fault.
\<close>

definition continues ::
  "(parse \<Rightarrow> bool) \<Rightarrow> (parse \<Rightarrow> u8 list) \<Rightarrow> parse \<Rightarrow> u8 \<Rightarrow> (parse \<times> bool) res \<Rightarrow> bool" where
  "continues pinv seen p d res \<longleftrightarrow>
     (\<exists>q b. res = Inr (q, b) \<and> unchanged p q \<and> pinv q \<and> seen q = seen p @ [d]
            \<and> delivered q = delivered p)"

definition finishes ::
  "(u8 list \<Rightarrow> bool) \<Rightarrow> parse \<Rightarrow> u8 list \<Rightarrow> (parse \<times> bool) res \<Rightarrow> bool" where
  "finishes valid p m res \<longleftrightarrow>
     (\<exists>q b acc. res = Inr (q, b) \<and> unchanged p q \<and> state q = FirstByte
        \<and> (badCrc p = None \<longrightarrow> acc = valid m) \<and> (valid m \<longrightarrow> acc)
        \<and> delivered q = delivered p @ (if acc then [(ucast (parser_type p), m)] else []))"

definition restarts :: "(u8 list \<Rightarrow> bool) \<Rightarrow> parse \<Rightarrow> u8 \<Rightarrow> (parse \<times> bool) res \<Rightarrow> bool" where
  "restarts valid p d res \<longleftrightarrow> (\<exists>q. res = sempFirstByte q d \<and> reports valid p q)"

lemma finish_cases:
  assumes "wf_parse p" and "reject = (\<lambda>p. Inr (sempPrintf (printDebug p) m p))"
  obtains q acc where
    "(let (p, accepted) = crc_accepted ok p
      in rbind (if accepted then call_eom p else reject p) K) = K q"
    "unchanged p q" "badCrc p = None \<longrightarrow> acc = ok" "ok \<longrightarrow> acc"
    "delivered q = delivered p @ (if acc then [(ucast (parser_type p), message p)] else [])"
proof -
  obtain p1 acc where c: "crc_accepted ok p = (p1, acc)" by fastforce
  then obtain es where es: "p1 = p\<lparr>log := log p @ es\<rparr>" "eoms es = []"
      "badCrc p = None \<longrightarrow> acc = ok" "ok \<longrightarrow> acc"
    by (rule crc_accepted_cases)
  have wf: "wf_parse p1" using assms(1) es(1) by simp
  show thesis
  proof (cases acc)
    case True
    obtain a where "call_eom p1 = Inr (p1\<lparr>log := log p1 @ [Eom a (ucast (parser_type p1)) (message p1)]\<rparr>)"
      by (rule call_eom_eq [OF wf])
    with True c es wf assms(1) show thesis
      by (intro that [of "p1\<lparr>log := log p1 @ [Eom a (ucast (parser_type p1)) (message p1)]\<rparr>" acc])
        (simp_all add: unchanged_def)
  next
    case False
    with c es wf assms show thesis
      by (intro that [of "sempPrintf (printDebug p1) m p1" acc]) (simp_all add: unchanged_def)
  qed
qed

lemma finishesI:
  assumes res: "res = (let (p, accepted) = crc_accepted ok p'
      in rbind (if accepted then call_eom p else Inr (sempPrintf (printDebug p) m p))
           (\<lambda>p. Inr (idle p, b)))"
    and p: "unchanged p p'" "wf_parse p'" "delivered p' = delivered p" "message p' = f" "valid f = ok"
    and idle: "\<And>p q. unchanged p q \<Longrightarrow> unchanged p (idle q)" "\<And>q. state (idle q) = FirstByte"
      "\<And>q. delivered (idle q) = delivered q"
  shows "finishes valid p f res"
proof -
  define K :: "parse \<Rightarrow> (parse \<times> bool) res" where "K = (\<lambda>p. Inr (idle p, b))"
  obtain q acc where "(let (p, accepted) = crc_accepted ok p'
      in rbind (if accepted then call_eom p else Inr (sempPrintf (printDebug p) m p)) K) = K q"
    and q: "unchanged p' q" "badCrc p' = None \<longrightarrow> acc = ok" "ok \<longrightarrow> acc"
    "delivered q = delivered p' @ (if acc then [(ucast (parser_type p'), message p')] else [])"
    by (rule finish_cases [OF p(2) refl])
  then have res_eq: "res = Inr (idle q, b)" by (simp add: res K_def)
  have "unchanged p (idle q)" by (intro idle unchanged_trans [OF p(1) q(1)])
  moreover have "badCrc p' = badCrc p" "parser_type p' = parser_type p"
    using p(1) by (simp_all add: unchanged_def)
  ultimately show ?thesis
    unfolding finishes_def using res_eq q p idle(2,3)
    by (intro exI [of _ "idle q"] exI [of _ b] exI [of _ acc]) simp
qed

lemma finishes_unchanged:
  assumes "finishes valid q m res" and "unchanged p q" and "delivered q = delivered p"
  shows "finishes valid p m res"
proof -
  have "badCrc q = badCrc p" "parser_type q = parser_type p"
    using assms(2) by (simp_all add: unchanged_def)
  then show ?thesis
    using assms(1,3) unchanged_trans [OF assms(2)] by (auto simp: finishes_def)
qed

lemma continuesI:
  "res = Inr (q, b) \<Longrightarrow> unchanged p q \<Longrightarrow> pinv q \<Longrightarrow> seen q = seen p @ [d] \<Longrightarrow> log q = log p \<Longrightarrow>
    continues pinv seen p d res"
  by (auto simp: continues_def)

lemma finishes_reports:
  assumes "finishes valid p m res"
  obtains q b where "res = Inr (q, b)" "reports valid p q" "state q = FirstByte"
proof -
  obtain q b acc where "res = Inr (q, b) \<and> unchanged p q \<and> state q = FirstByte
      \<and> (badCrc p = None \<longrightarrow> acc = valid m) \<and> (valid m \<longrightarrow> acc)
      \<and> delivered q = delivered p @ (if acc then [(ucast (parser_type p), m)] else [])"
    using assms unfolding finishes_def by (elim exE)
  then have q: "res = Inr (q, b)" "unchanged p q" "state q = FirstByte"
      "badCrc p = None \<longrightarrow> acc = valid m"
      "delivered q = delivered p @ (if acc then [(ucast (parser_type p), m)] else [])"
    by simp_all
  have "reports valid p q"
    using reports_finish [where valid = valid and m = m and acc = acc, OF q(2,5,4)] .
  then show thesis by (rule that [OF q(1) _ q(3)])
qed

text \<open>
  The contract of a protocol file.
  \<^item> \<open>pinv\<close> holds of the parser while the protocol reads a message and \<open>seen\<close> are the
    bytes of the message it has taken. \<open>shape\<close> are the byte strings that look like a
    message of the protocol, \<open>valid\<close> those of them whose checksum is right, and \<open>fits\<close>
    says that a buffer of that length is long enough for one. \<open>hazard\<close> are the states in which the
    protocol may access memory it does not own.
  \<^item> \<open>start\<close>: a byte that the preamble routine takes establishes \<open>pinv\<close>.
  \<^item> \<open>step\<close>: the next byte keeps \<open>pinv\<close>, or ends the message, or is handed to the table
    walk as the start of another message; there is no fault outside \<open>hazard\<close>, and what is
    delivered is valid.
  \<^item> \<open>complete\<close>: on the bytes of something that has the shape of a message the protocol
    stays in \<open>pinv\<close>, and with the last byte it decides by the checksum.
\<close>

locale protocol =
  fixes r :: SEMP_PREAMBLE
    and pinv :: "parse \<Rightarrow> bool"
    and seen :: "parse \<Rightarrow> u8 list"
    and shape :: "u8 list \<Rightarrow> bool"
    and valid :: "u8 list \<Rightarrow> bool"
    and fits :: "nat \<Rightarrow> u8 list \<Rightarrow> bool"
    and hazard :: "parse \<Rightarrow> bool"
  assumes start: "wf_parse p \<Longrightarrow> d \<in> first_bytes r \<Longrightarrow> message p = [d] \<Longrightarrow> crc p = 0 \<Longrightarrow>
      computeCrc p = None \<Longrightarrow> \<exists>q. call_preamble r p d = Inr (q, True) \<and> pinv q \<and> seen q = [d]"
    and pinv_type: "pinv (p\<lparr>parser_type := t\<rparr>) = pinv p"
    and seen_type: "seen (p\<lparr>parser_type := t\<rparr>) = seen p"
    and pinv_crc: "pinv p \<Longrightarrow> computeCrc p \<noteq> Some UnicoreBinaryComputeCrc"
    and seen_length: "pinv p \<Longrightarrow> length (message p) \<le> length (seen p)"
    and fits_length: "fits n f \<Longrightarrow> length f \<le> n"
    and valid_shape: "valid f \<Longrightarrow> shape f"
    and shape_length: "shape f \<Longrightarrow> 2 \<le> length f"
    and step: "wf_parse p \<Longrightarrow> pinv p \<Longrightarrow> unat (msg_length p) < length (buffer p) \<Longrightarrow>
      feed p d = Inr p' \<Longrightarrow> res = call_state (state p') p' d \<Longrightarrow>
      continues pinv seen p d res \<or> (\<exists>m. finishes valid p m res) \<or> restarts valid p d res
      \<or> (hazard p \<and> (\<exists>e. res = Inl e))"
    and complete: "wf_parse p \<Longrightarrow> pinv p \<Longrightarrow> unat (msg_length p) < length (buffer p) \<Longrightarrow>
      feed p d = Inr p' \<Longrightarrow> res = call_state (state p') p' d \<Longrightarrow>
      shape f \<Longrightarrow> fits (length (buffer p)) f \<Longrightarrow> prefix (seen p @ [d]) f \<Longrightarrow>
      (if seen p @ [d] = f then finishes valid p f res else continues pinv seen p d res)"
begin

lemma parse_step:
  assumes "wf_parse p" and "pinv p"
  shows "(\<exists>q. sempParseNextByte p d = Inr q \<and> reports valid p q \<and> (pinv q \<or> state q = FirstByte))
    \<or> (\<exists>q. sempParseNextByte p d = rbind (sempFirstByte q d) (\<lambda>(q, _). Inr q) \<and> reports valid p q)
    \<or> (hazard p \<and> (\<exists>e. sempParseNextByte p d = Inl e))"
proof (cases "buffer_length p \<le> msg_length p")
  case True
  define q where "q = sempPrintf (printError p) MessageTooLong p"
  have "sempParseNextByte p d = rbind (sempFirstByte q d) (\<lambda>(q, _). Inr q)"
    using True by (simp add: sempParseNextByte_def q_def)
  moreover have "reports valid p q"
    using assms(1) by (intro reports_quiet) (simp_all add: unchanged_def q_def)
  ultimately show ?thesis by blast
next
  case False
  then have room: "unat (msg_length p) < length (buffer p)"
    using assms(1) by (simp add: wf_parse_def word_le_nat_alt)
  obtain p' where f: "feed p d = Inr p'"
    using feed_eq [OF assms(1) room pinv_crc [OF assms(2)]] by blast
  define res where "res = call_state (state p') p' d"
  have eq: "sempParseNextByte p d = rbind res (\<lambda>(p, _). Inr p)"
    using False f by (simp add: sempParseNextByte_def res_def)
  consider "continues pinv seen p d res" | m where "finishes valid p m res"
    | "restarts valid p d res" | e where "hazard p" "res = Inl e"
    using step [OF assms room f res_def] by blast
  then show ?thesis
  proof cases
    case 1
    then obtain q b where q: "res = Inr (q, b)" "unchanged p q" "pinv q" "delivered q = delivered p"
      unfolding continues_def by blast
    then have "reports valid p q" by (intro reports_quiet)
    then show ?thesis using q(1,3) eq by simp
  next
    case 2
    then show ?thesis by (rule finishes_reports) (use eq in simp)
  next
    case 3
    then show ?thesis using eq unfolding restarts_def by blast
  next
    case 4
    then show ?thesis using eq by simp
  qed
qed

lemma frame_rest:
  assumes "wf_parse p" and "pinv p" and "shape f" and "fits (length (buffer p)) f"
    and "seen p @ bs = f" and "bs \<noteq> []"
  shows "\<exists>res q. finishes valid p f res \<and> (\<exists>b. res = Inr (q, b))
    \<and> run sempParseNextByte p bs = Inr q"
  using assms
proof (induction bs arbitrary: p)
  case Nil
  then show ?case by simp
next
  case (Cons d bs)
  have "length (message p) < length f"
    using seen_length [OF Cons.prems(2)] Cons.prems(5) by auto
  then have room: "unat (msg_length p) < length (buffer p)"
    using fits_length [OF Cons.prems(4)] Cons.prems(1) by (simp add: length_message)
  obtain p' where f: "feed p d = Inr p'"
    using feed_eq [OF Cons.prems(1) room pinv_crc [OF Cons.prems(2)]] by blast
  define res where "res = call_state (state p') p' d"
  have st: "sempParseNextByte p d = rbind res (\<lambda>(p, _). Inr p)"
    using room Cons.prems(1) f
    by (simp add: sempParseNextByte_def wf_parse_def word_le_nat_alt res_def)
  have "prefix (seen p @ [d]) f" using Cons.prems(5) by (auto simp: prefix_def)
  note c = complete [OF Cons.prems(1,2) room f res_def Cons.prems(3,4) this]
  show ?case
  proof (cases "bs = []")
    case True
    then have fin: "finishes valid p f res" using c Cons.prems(5) by simp
    then obtain q b where "res = Inr (q, b)" by (rule finishes_reports)
    then show ?thesis using fin st True by auto
  next
    case False
    then have "continues pinv seen p d res" using c Cons.prems(5) by (auto split: if_splits)
    then obtain q b where q: "res = Inr (q, b)" "unchanged p q" "pinv q" "seen q = seen p @ [d]"
        "delivered q = delivered p"
      unfolding continues_def by blast
    have wq: "wf_parse q" "length (buffer q) = length (buffer p)"
      using q(2) unchanged_length [OF Cons.prems(1)] by (auto simp: unchanged_def)
    have "fits (length (buffer q)) f" "seen q @ bs = f"
      using Cons.prems(4,5) wq(2) q(4) by simp_all
    then obtain res' q' b' where q': "finishes valid q f res'" "res' = Inr (q', b')"
        "run sempParseNextByte q bs = Inr q'"
      using Cons.IH [OF wq(1) q(3) Cons.prems(3)] False by blast
    have "finishes valid p f res'" by (rule finishes_unchanged [OF q'(1) q(2,5)])
    then show ?thesis using st q(1) q'(2,3) by auto
  qed
qed

end

end
