(* ===== verification/Protocol_UBLOX.thy ===== *)
theory Protocol_UBLOX
  imports Message_Step
begin

text \<open>
  The u-blox protocol against its specification: what a UBX message is, the invariant
  that links the parser's registers to the bytes read so far, and the contract of
  \<open>protocol\<close> for Parse_UBLOX.c.
\<close>

section \<open>UBX messages\<close>

definition fletcher :: "u8 list \<Rightarrow> u8 \<times> u8" where
  "fletcher = foldl (\<lambda>(a, b) d. (a + d, b + (a + d))) (0, 0)"

definition ublox_body :: "u8 \<Rightarrow> u8 \<Rightarrow> u8 list \<Rightarrow> u8 list" where
  "ublox_body cls mid payload =
     [cls, mid, byte_of 0 (of_nat (length payload) :: u16), byte_of 1 (of_nat (length payload) :: u16)]
     @ payload"

definition ublox_frame :: "u8 \<Rightarrow> u8 \<Rightarrow> u8 list \<Rightarrow> u8 list" where
  "ublox_frame cls mid payload =
     (let body = ublox_body cls mid payload; (ck_a, ck_b) = fletcher body
      in [0xb5, 0x62] @ body @ [ck_a, ck_b])"

text \<open>The same messages, described by what a receiver can check.\<close>

definition ublox_shape :: "u8 list \<Rightarrow> bool" where
  "ublox_shape f \<longleftrightarrow>
     8 \<le> length f \<and> f ! 0 = 0xb5 \<and> f ! 1 = 0x62
     \<and> length f = 8 + unat (le16 (f ! 4) (f ! 5))"

definition ublox_valid :: "u8 list \<Rightarrow> bool" where
  "ublox_valid f \<longleftrightarrow> ublox_shape f
     \<and> fletcher (take (length f - 4) (drop 2 f)) = (f ! (length f - 2), f ! (length f - 1))"

lemma fletcher_snoc [simp]:
  "fletcher (xs @ [d]) = (fst (fletcher xs) + d, snd (fletcher xs) + (fst (fletcher xs) + d))"
  by (simp add: fletcher_def case_prod_unfold)

lemma fletcher_single [simp]: "fletcher [d] = (d, d)"
  by (simp add: fletcher_def)

section \<open>The invariant of the protocol\<close>

definition ublox_sum :: "parse \<Rightarrow> u8 \<times> u8" where
  "ublox_sum p = (ublox_ck_a p, ublox_ck_b p)"

definition ublox_inv :: "parse \<Rightarrow> bool" where
  "ublox_inv p \<longleftrightarrow>
     computeCrc p = None \<and>
     (let m = message p
      in (case state p of
            UbloxSync2 \<Rightarrow> m = [0xb5]
          | UbloxClass \<Rightarrow> m = [0xb5, 0x62]
          | UbloxId \<Rightarrow> length m = 3 \<and> m ! 0 = 0xb5 \<and> m ! 1 = 0x62 \<and> fletcher (drop 2 m) = ublox_sum p
          | UbloxLength1 \<Rightarrow>
              length m = 4 \<and> m ! 0 = 0xb5 \<and> m ! 1 = 0x62 \<and> fletcher (drop 2 m) = ublox_sum p
          | UbloxLength2 \<Rightarrow>
              length m = 5 \<and> m ! 0 = 0xb5 \<and> m ! 1 = 0x62 \<and> fletcher (drop 2 m) = ublox_sum p
              \<and> ublox_bytesRemaining p = ucast (m ! 4)
          | UbloxPayload \<Rightarrow>
              6 \<le> length m \<and> m ! 0 = 0xb5 \<and> m ! 1 = 0x62 \<and> fletcher (drop 2 m) = ublox_sum p
              \<and> length m + unat (ublox_bytesRemaining p) = 6 + unat (le16 (m ! 4) (m ! 5))
          | UbloxCkB \<Rightarrow>
              7 \<le> length m \<and> m ! 0 = 0xb5 \<and> m ! 1 = 0x62
              \<and> fletcher (butlast (drop 2 m)) = ublox_sum p
              \<and> length m = 7 + unat (le16 (m ! 4) (m ! 5))
          | _ \<Rightarrow> False))"

lemma ublox_inv_type: "ublox_inv (p\<lparr>parser_type := t\<rparr>) = ublox_inv p"
  by (cases "state p") (simp_all add: ublox_inv_def ublox_sum_def scratch_defs)

lemmas ublox_routines =
  sempUbloxSync2_def sempUbloxClass_def sempUbloxId_def sempUbloxLength1_def
  sempUbloxLength2_def sempUbloxPayload_def sempUbloxCkA_def ublox_checksum_def

lemmas ublox_regs = ublox_inv_def ublox_sum_def scratch_defs layout_simps

lemma ublox_computeCrc: "ublox_inv p \<Longrightarrow> computeCrc p \<noteq> Some UnicoreBinaryComputeCrc"
  by (simp add: ublox_inv_def)

lemma ublox_continues:
  assumes "wf_parse p" and "ublox_inv p" and "unat (msg_length p) < length (buffer p)"
    and "feed p d = Inr p'" and "state p \<noteq> UbloxCkB" and "state p = UbloxSync2 \<Longrightarrow> d = 0x62"
  shows "continues ublox_inv message p d (call_state (state p') p' d)"
proof -
  note f = feedD [OF assms(1,3) ublox_computeCrc [OF assms(2)] assms(4)]
  show ?thesis
    using assms(2,5,6) f
    by (cases "state p"; force simp: continues_def ublox_regs ublox_routines Let_def unchanged_def
        nth_append le16_def unat_dec unat_eq_zero [symmetric] del: unat_eq_zero)
qed

lemma ublox_restarts:
  assumes "wf_parse p" and "ublox_inv p" and "unat (msg_length p) < length (buffer p)"
    and "feed p d = Inr p'" and "state p = UbloxSync2" and "d \<noteq> 0x62"
  shows "restarts ublox_valid p d (call_state (state p') p' d)"
proof -
  note f = feedD [OF assms(1,3) ublox_computeCrc [OF assms(2)] assms(4)]
  have "reports ublox_valid p (sempPrintf (printDebug p') UbloxInvalidSync2 p')"
    using f by (intro reports_quiet) (simp_all add: unchanged_def)
  then show ?thesis
    using assms(5,6) f(3) by (simp add: restarts_def sempUbloxSync2_def) blast
qed

lemma ublox_finishes:
  assumes "wf_parse p" and "ublox_inv p" and "unat (msg_length p) < length (buffer p)"
    and "feed p d = Inr p'" and "state p = UbloxCkB"
  shows "finishes ublox_valid p (message p @ [d]) (call_state (state p') p' d)"
proof -
  define m where "m = message p"
  have inv: "7 \<le> length m" "m ! 0 = 0xb5" "m ! 1 = 0x62"
      "length m = 7 + unat (le16 (m ! 4) (m ! 5))"
      "fletcher (butlast (drop 2 m)) = ublox_sum p"
    using assms(2,5) by (simp_all add: ublox_inv_def m_def Let_def)
  note f = feedD [OF assms(1,3) ublox_computeCrc [OF assms(2)] assms(4)]
  define ok where "ok \<longleftrightarrow> \<not> (last m \<noteq> ublox_ck_a p \<or> d \<noteq> ublox_ck_b p)"
  have "m = butlast m @ [last m]" using inv(1) by (intro append_butlast_last_id [symmetric]) auto
  then have "message p' = butlast m @ [last m, d]" using f(2) by (simp add: m_def)
  then have rx: "buffer_back p' 2 = Inr (last m)" "buffer_back p' 1 = Inr d"
    using f(9) buffer_back_last(1) [of p' "butlast m @ [last m]" d]
      buffer_back_last(2) [of p' "butlast m"] by simp_all
  have l: "last m = m ! (length m - 1)" using inv(1) by (intro last_conv_nth) auto
  have valid: "ublox_valid (m @ [d]) = ok"
    using inv l by (auto simp: ublox_valid_def ublox_shape_def ok_def nth_append ublox_sum_def butlast_conv_take)
  have "call_state (state p') p' d =
      (let (p, accepted) = crc_accepted ok p'
       in rbind (if accepted then call_eom p else Inr (sempPrintf (printDebug p) UbloxBadChecksum p))
            (\<lambda>p. Inr (p\<lparr>msg_length := 0, state := FirstByte\<rparr>, False)))"
    using rx f assms(5) by (simp add: sempUbloxCkB_def ok_def scratch_defs)
  then show ?thesis
    unfolding m_def [symmetric]
    by (rule finishesI) (use f valid unchanged_idle(2) in \<open>simp_all add: m_def\<close>)
qed

lemma ublox_prefix:
  assumes "ublox_inv p" and "ublox_shape f" and "prefix (message p @ [d]) f"
  shows "state p = UbloxCkB \<longleftrightarrow> message p @ [d] = f" and "state p = UbloxSync2 \<Longrightarrow> d = 0x62"
proof -
  obtain zs where f: "f = message p @ d # zs" using assms(3) by (auto simp: prefix_def)
  show "state p = UbloxCkB \<longleftrightarrow> message p @ [d] = f"
    using assms(1,2)
    by (cases "state p") (auto simp: ublox_inv_def ublox_shape_def f nth_append Let_def)
  show "state p = UbloxSync2 \<Longrightarrow> d = 0x62"
    using assms(1,2) by (simp add: ublox_inv_def ublox_shape_def f Let_def)
qed

interpretation ubx: protocol UbloxPreamble ublox_inv message ublox_shape ublox_valid "\<lambda>n f. length f \<le> n" "\<lambda>_. False"
proof unfold_locales
  fix p :: parse and d p' res f
  assume p: "wf_parse p" "ublox_inv p" "unat (msg_length p) < length (buffer p)" "feed p d = Inr p'"
    and res: "res = call_state (state p') p' d"
  show "continues ublox_inv message p d res \<or> (\<exists>m. finishes ublox_valid p m res)
      \<or> restarts ublox_valid p d res \<or> (False \<and> (\<exists>e. res = Inl e))"
    using ublox_continues [OF p] ublox_restarts [OF p] ublox_finishes [OF p] unfolding res by blast
  assume f: "ublox_shape f" "prefix (message p @ [d]) f"
  show "if message p @ [d] = f then finishes ublox_valid p f res
        else continues ublox_inv message p d res"
    using ublox_prefix [OF p(2) f] ublox_continues [OF p] ublox_finishes [OF p]
    unfolding res by auto
qed (simp_all add: ublox_inv_type ublox_computeCrc, auto simp: sempUbloxPreamble_def ublox_inv_def ublox_valid_def ublox_shape_def)

end
