(* ===== verification/Protocol_RTCM.thy ===== *)
theory Protocol_RTCM
  imports Message_Step
begin

text \<open>
  The RTCM protocol against its specification: messages of at least three data bytes, the
  invariant of the routines of Parse_RTCM.c and their contract. Shorter messages, which
  the length field can announce, are never delivered: the counter wraps.
\<close>

section \<open>RTCM messages\<close>

definition rtcm_length :: "u8 list \<Rightarrow> u16" where
  "rtcm_length m = le16 (m ! 2) (m ! 1)"

definition rtcm_crc24 :: "u8 list \<Rightarrow> u32" where
  "rtcm_crc24 m = foldl crc24q_step 0 m"

definition rtcm_shape :: "u8 list \<Rightarrow> bool" where
  "rtcm_shape f \<longleftrightarrow>
     9 \<le> length f \<and> f ! 0 = 0xd3 \<and> f ! 1 AND NOT 3 = 0 \<and> length f = 6 + unat (rtcm_length f)"

definition rtcm_valid :: "u8 list \<Rightarrow> bool" where
  "rtcm_valid f \<longleftrightarrow> rtcm_shape f \<and> rtcm_crc24 f = 0"

lemma rtcm_crc24_snoc [simp]:
  "rtcm_crc24 (m @ [d]) = crc24q_step (rtcm_crc24 m) d"
  "rtcm_crc24 [a, d] = crc24q_step (rtcm_crc24 [a]) d"
  by (simp_all add: rtcm_crc24_def)

section \<open>The invariant of the protocol\<close>

definition rtcm_header :: "u8 list \<Rightarrow> bool" where
  "rtcm_header m \<longleftrightarrow> m ! 0 = 0xd3 \<and> m ! 1 AND NOT 3 = 0"

definition rtcm_inv :: "parse \<Rightarrow> bool" where
  "rtcm_inv p \<longleftrightarrow>
     computeCrc p = Some RtcmComputeCrc24q \<and> crc p = rtcm_crc24 (message p) \<and>
     (let m = message p; n = length m; br = rtcm_bytesRemaining p; len = rtcm_length m
      in (case state p of
            RtcmReadLength1 \<Rightarrow> m = [0xd3]
          | RtcmReadLength2 \<Rightarrow> n = 2 \<and> rtcm_header m \<and> br = push_bit 8 (ucast (m ! 1))
          | RtcmReadMessage1 \<Rightarrow> n = 3 \<and> rtcm_header m \<and> br = len
          | RtcmReadMessage2 \<Rightarrow> n = 4 \<and> rtcm_header m \<and> br = len - 1
          | RtcmReadData \<Rightarrow>
              5 \<le> n \<and> rtcm_header m \<and> br = len - of_nat (n - 3) \<and> (3 \<le> unat len \<longrightarrow> n < 3 + unat len)
          | RtcmReadCrc \<Rightarrow>
              6 \<le> n \<and> rtcm_header m \<and> 3 + unat len \<le> n \<and> n < 6 + unat len \<and> 3 \<le> unat len
              \<and> br = of_nat (6 + unat len - n)
          | _ \<Rightarrow> False))"

lemma rtcm_inv_type: "rtcm_inv (p\<lparr>parser_type := t\<rparr>) = rtcm_inv p"
  by (cases "state p") (simp_all add: rtcm_inv_def scratch_defs Let_def)

lemma rtcm_computeCrc: "rtcm_inv p \<Longrightarrow> computeCrc p \<noteq> Some UnicoreBinaryComputeCrc"
  by (simp add: rtcm_inv_def)

lemma rtcm_append:
  "2 \<le> length m \<Longrightarrow> rtcm_header (m @ [d]) = rtcm_header m"
  "3 \<le> length m \<Longrightarrow> rtcm_length (m @ [d]) = rtcm_length m"
  by (auto simp: rtcm_header_def rtcm_length_def nth_append)

lemmas rtcm_routines =
  sempRtcmReadLength1_def sempRtcmReadLength2_def sempRtcmReadMessage1_def
  sempRtcmReadMessage2_def

lemmas rtcm_regs = rtcm_inv_def scratch_defs layout_simps

lemma rtcm_continues_header:
  assumes "wf_parse p" and "rtcm_inv p" and "unat (msg_length p) < length (buffer p)"
    and "feed p d = Inr p'" and "state p \<in> {RtcmReadLength1, RtcmReadLength2, RtcmReadMessage1, RtcmReadMessage2}"
    and "state p = RtcmReadLength1 \<Longrightarrow> d AND NOT 3 = 0"
  shows "continues rtcm_inv message p d (call_state (state p') p' d)"
proof -
  note f = feedD [OF assms(1,3) rtcm_computeCrc [OF assms(2)] assms(4)]
  show ?thesis
    using assms(2,5,6) f
    by (cases "state p"; simp add: continues_def rtcm_regs rtcm_routines rtcm_append next_crc_def
        rtcm_header_def rtcm_length_def nth_append le16_def or.commute ex_bool_eq Let_def unchanged_def)
qed

text \<open>
  The decrement of the counter in \<^verbatim>\<open>sempRtcmReadData\<close> reaches zero exactly when the
  data is complete: the buffer is too short for a counter that has wrapped to do so.
\<close>

lemma rtcm_continues_data:
  assumes "wf_parse p" and "rtcm_inv p" and "unat (msg_length p) < length (buffer p)"
    and "feed p d = Inr p'" and "state p = RtcmReadData"
  shows "continues rtcm_inv message p d (call_state (state p') p' d)"
proof -
  note f = feedD [OF assms(1,3) rtcm_computeCrc [OF assms(2)] assms(4)]
  define n where "n = length (message p)"
  define len where "len = rtcm_length (message p)"
  have n: "5 \<le> n" "n < 65536" "rtcm_bytesRemaining p = len - of_nat (n - 3)"
      "3 \<le> unat len \<longrightarrow> n < 3 + unat len" "rtcm_header (message p)"
    using assms length_buffer_16 [OF assms(1)]
    by (simp_all add: rtcm_inv_def n_def len_def Let_def length_message)
  have dec: "rtcm_bytesRemaining p - 1 = 0 \<longleftrightarrow> n = 2 + unat len"
    unfolding n(3) using n(1,2) dec_complete [of "n - 3" len] by auto
  have next_br: "len - of_nat (n - 3) - 1 = len - of_nat (Suc n - 3)"
    using n(1) by (simp add: of_nat_diff)
  show ?thesis
  proof (cases "n = 2 + unat len")
    case True
    then have "rtcm_bytesRemaining p - 1 = 0" using dec by simp
    then show ?thesis
      using assms(2,5) f n True
      by (auto simp: continues_def sempRtcmReadData_def rtcm_regs Let_def unchanged_def next_crc_def
          rtcm_append n_def [symmetric] len_def [symmetric])
  next
    case False
    then have "rtcm_bytesRemaining p - 1 \<noteq> 0" using dec by simp
    then show ?thesis
      using assms(2,5) f n False next_br
      by (auto simp: continues_def sempRtcmReadData_def rtcm_regs Let_def unchanged_def next_crc_def
          rtcm_append n_def [symmetric] len_def [symmetric])
  qed
qed

lemma rtcm_crc_state:
  assumes "rtcm_inv p" and "state p = RtcmReadCrc"
  defines "n \<equiv> length (message p)" and "len \<equiv> unat (rtcm_length (message p))"
  shows "6 \<le> n" "rtcm_header (message p)" "3 \<le> len" "crc p = rtcm_crc24 (message p)"
    "rtcm_bytesRemaining p - 1 = of_nat (5 + len - n)" "3 + len \<le> n" "n < 6 + len"
    "rtcm_bytesRemaining p - 1 > 0 \<longleftrightarrow> Suc n < 6 + len"
proof -
  show *: "6 \<le> n" "rtcm_header (message p)" "3 \<le> len" "crc p = rtcm_crc24 (message p)"
    "3 + len \<le> n" "n < 6 + len"
    using assms by (simp_all add: rtcm_inv_def Let_def)
  have "rtcm_bytesRemaining p = of_nat (6 + len - n)" using assms by (simp add: rtcm_inv_def Let_def)
  also have "6 + len - n = Suc (5 + len - n)" using * by simp
  finally show dec: "rtcm_bytesRemaining p - 1 = of_nat (5 + len - n)" by simp
  have "unat (of_nat (5 + len - n) :: u16) = 5 + len - n" using * by (intro unat_of_nat_16) simp
  then show "rtcm_bytesRemaining p - 1 > 0 \<longleftrightarrow> Suc n < 6 + len"
    unfolding dec using * by (simp only: word_less_nat_alt) auto
qed

lemma rtcm_continues_crc:
  assumes "wf_parse p" and "rtcm_inv p" and "unat (msg_length p) < length (buffer p)"
    and "feed p d = Inr p'" and "state p = RtcmReadCrc"
    and "Suc (length (message p)) < 6 + unat (rtcm_length (message p))"
  shows "continues rtcm_inv message p d (call_state (state p') p' d)"
proof -
  note f = feedD [OF assms(1,3) rtcm_computeCrc [OF assms(2)] assms(4)]
  note c = rtcm_crc_state [OF assms(2,5)]
  define q where "q = set_rtcm_bytesRemaining (rtcm_bytesRemaining p - 1) p'"
  have "call_state (state p') p' d = Inr (q, True)"
    using f c(8) assms(5,6) by (simp add: sempRtcmReadCrc_def q_def scratch_defs)
  moreover have "rtcm_inv q"
    using f c assms(2,5,6)
    by (auto simp: rtcm_inv_def q_def scratch_defs rtcm_append next_crc_def Let_def Suc_diff_le)
  moreover have "unchanged p q" "message q = message p @ [d]" "log q = log p"
    using f by (simp_all add: q_def unchanged_def scratch_defs)
  ultimately show ?thesis by (simp add: continues_def ex_bool_eq)
qed

lemma rtcm_finishes:
  assumes "wf_parse p" and "rtcm_inv p" and "unat (msg_length p) < length (buffer p)"
    and "feed p d = Inr p'" and "state p = RtcmReadCrc"
    and "Suc (length (message p)) = 6 + unat (rtcm_length (message p))"
  shows "finishes rtcm_valid p (message p @ [d]) (call_state (state p') p' d)"
proof -
  note f = feedD [OF assms(1,3) rtcm_computeCrc [OF assms(2)] assms(4)]
  note c = rtcm_crc_state [OF assms(2,5)]
  define q where "q = set_rtcm_bytesRemaining (rtcm_bytesRemaining p - 1) p'"
  have q: "unchanged p q" "wf_parse q" "message q = message p @ [d]" "log q = log p"
      "crc q = rtcm_crc24 (message p @ [d])"
    using f c assms(2) by (simp_all add: q_def unchanged_def scratch_defs next_crc_def rtcm_inv_def)
  have valid: "rtcm_valid (message p @ [d]) = (crc q = 0)"
    using c assms(6) q(5) rtcm_append [of "message p" d]
    by (simp add: rtcm_valid_def rtcm_shape_def rtcm_header_def)
  have "call_state (state p') p' d = (let (p, accepted) = crc_accepted (crc q = 0) q
      in rbind (if accepted then call_eom p else Inr (sempPrintf (printDebug p) RtcmBadCrc p))
           (\<lambda>p. Inr (p\<lparr>state := FirstByte\<rparr>, False)))"
    using f c(8) assms(5,6) by (simp add: sempRtcmReadCrc_def q_def scratch_defs)
  then show ?thesis
    by (rule finishesI) (use q valid unchanged_idle(1) in simp_all)
qed

lemma rtcm_restarts:
  assumes "wf_parse p" and "rtcm_inv p" and "unat (msg_length p) < length (buffer p)"
    and "feed p d = Inr p'" and "state p = RtcmReadLength1" and "d AND NOT 3 \<noteq> 0"
  shows "restarts rtcm_valid p d (call_state (state p') p' d)"
proof -
  note f = feedD [OF assms(1,3) rtcm_computeCrc [OF assms(2)] assms(4)]
  have "reports rtcm_valid p p'" using f by (intro reports_quiet) simp_all
  then show ?thesis
    using assms(5,6) f(3) by (simp add: restarts_def sempRtcmReadLength1_def) blast
qed

lemma rtcm_cases:
  assumes "rtcm_inv p"
  obtains "state p \<in> {RtcmReadLength1, RtcmReadLength2, RtcmReadMessage1, RtcmReadMessage2}"
      "state p = RtcmReadLength1 \<Longrightarrow> d AND NOT 3 = 0"
    | "state p = RtcmReadLength1" "d AND NOT 3 \<noteq> 0"
    | "state p = RtcmReadData"
    | "state p = RtcmReadCrc" "Suc (length (message p)) < 6 + unat (rtcm_length (message p))"
    | "state p = RtcmReadCrc" "Suc (length (message p)) = 6 + unat (rtcm_length (message p))"
proof -
  have "state p \<in> {RtcmReadLength1, RtcmReadLength2, RtcmReadMessage1, RtcmReadMessage2,
      RtcmReadData, RtcmReadCrc}"
    using assms by (cases "state p") (simp_all add: rtcm_inv_def)
  moreover have "Suc (length (message p)) < 6 + unat (rtcm_length (message p))
      \<or> Suc (length (message p)) = 6 + unat (rtcm_length (message p))" if "state p = RtcmReadCrc"
    using rtcm_crc_state(7) [OF assms that] by linarith
  ultimately show thesis using that by blast
qed

lemma rtcm_prefix:
  assumes "rtcm_inv p" and "rtcm_shape f" and "prefix (message p @ [d]) f"
  shows "state p = RtcmReadLength1 \<Longrightarrow> d AND NOT 3 = 0"
    and "message p @ [d] = f \<longleftrightarrow>
      state p = RtcmReadCrc \<and> Suc (length (message p)) = 6 + unat (rtcm_length (message p))"
proof -
  obtain zs where f: "f = message p @ d # zs" using assms(3) by (auto simp: prefix_def)
  show "state p = RtcmReadLength1 \<Longrightarrow> d AND NOT 3 = 0"
    using assms(1,2) by (simp add: rtcm_inv_def rtcm_shape_def f Let_def)
  have len: "3 \<le> length (message p) \<Longrightarrow> rtcm_length f = rtcm_length (message p)"
    by (auto simp: rtcm_length_def f nth_append)
  have eq: "message p @ [d] = f \<longleftrightarrow> Suc (length (message p)) = length f" by (auto simp: f)
  show "message p @ [d] = f \<longleftrightarrow>
      state p = RtcmReadCrc \<and> Suc (length (message p)) = 6 + unat (rtcm_length (message p))"
    unfolding eq using assms(1,2) len
    by (cases "state p") (auto simp: rtcm_inv_def rtcm_shape_def Let_def)
qed

interpretation rtcm3: protocol RtcmPreamble rtcm_inv message rtcm_shape rtcm_valid "\<lambda>n f. length f \<le> n" "\<lambda>_. False"
proof unfold_locales
  fix p :: parse and d p' res f
  assume p: "wf_parse p" "rtcm_inv p" "unat (msg_length p) < length (buffer p)" "feed p d = Inr p'"
    and res: "res = call_state (state p') p' d"
  note steps = rtcm_continues_header [OF p] rtcm_continues_data [OF p] rtcm_continues_crc [OF p]
    rtcm_finishes [OF p] rtcm_restarts [OF p]
  show "continues rtcm_inv message p d res \<or> (\<exists>m. finishes rtcm_valid p m res)
      \<or> restarts rtcm_valid p d res \<or> (False \<and> (\<exists>e. res = Inl e))"
    using steps unfolding res by (cases rule: rtcm_cases [OF p(2), of d]) blast+
  assume f: "rtcm_shape f" "prefix (message p @ [d]) f"
  show "if message p @ [d] = f then finishes rtcm_valid p f res
        else continues rtcm_inv message p d res"
    using steps rtcm_prefix [OF p(2) f] unfolding res
    by (cases rule: rtcm_cases [OF p(2), of d]) auto
qed (simp_all add: rtcm_inv_type rtcm_computeCrc,
  auto simp: sempRtcmPreamble_def rtcm_inv_def rtcm_valid_def rtcm_shape_def Let_def rtcm_crc24_def sempRtcmComputeCrc24q_def)

end
