(* ===== verification/Protocol_Custom.thy ===== *)
theory Protocol_Custom
  imports Message_Step
begin

text \<open>
  The custom protocol against its specification: messages with at least one data byte,
  the invariant of the routines of Parse_Custom.c and their contract. A header that
  announces no data is never delivered: the counter wraps.
\<close>

section \<open>Custom messages\<close>

definition custom_length :: "u8 list \<Rightarrow> u16" where
  "custom_length m = le16 (m ! 12) (m ! 13)"

definition custom_crc32 :: "u8 list \<Rightarrow> u32" where
  "custom_crc32 m = foldl (crc32_step semp_crc32Table) 0xFFFFFFFF m"

definition custom_header :: "u8 list \<Rightarrow> bool" where
  "custom_header m \<longleftrightarrow> m ! 0 = 0xAA \<and> m ! 1 = 0x44 \<and> m ! 2 = 0x18"

definition custom_shape :: "u8 list \<Rightarrow> bool" where
  "custom_shape f \<longleftrightarrow>
     25 \<le> length f \<and> custom_header f \<and> length f = 24 + unat (custom_length f)"

definition custom_valid :: "u8 list \<Rightarrow> bool" where
  "custom_valid f \<longleftrightarrow>
     (let n = length f
      in custom_shape f
         \<and> custom_crc32 (take (n - 4) f) XOR 0xFFFFFFFF
             = le32 (f ! (n - 4)) (f ! (n - 3)) (f ! (n - 2)) (f ! (n - 1)))"

lemma custom_crc32_snoc [simp]:
  "custom_crc32 (m @ [d]) = crc32_step semp_crc32Table (custom_crc32 m) d"
  "custom_crc32 [a, d] = crc32_step semp_crc32Table (custom_crc32 [a]) d"
  "custom_crc32 [a, b, d] = crc32_step semp_crc32Table (custom_crc32 [a, b]) d"
  by (simp_all add: custom_crc32_def)

text \<open>The register after the data and part of the CRC bytes.\<close>

definition custom_register :: "u8 list \<Rightarrow> u32" where
  "custom_register m =
     (let k = 20 + unat (custom_length m)
      in foldl (crc32_step semp_crc32Table) (custom_crc32 (take k m) XOR 0xFFFFFFFF) (drop k m))"

section \<open>The invariant of the protocol\<close>

definition custom_inv :: "parse \<Rightarrow> bool" where
  "custom_inv p \<longleftrightarrow>
     computeCrc p = Some CustomComputeCrc \<and>
     (let m = message p; n = length m; br = custom_bytesRemaining p; len = custom_length m
      in (case state p of
            CustomSync2 \<Rightarrow> m = [0xAA] \<and> crc p = custom_crc32 m
          | CustomSync3 \<Rightarrow> m = [0xAA, 0x44] \<and> crc p = custom_crc32 m
          | CustomReadHeader \<Rightarrow> 3 \<le> n \<and> n < 20 \<and> custom_header m \<and> crc p = custom_crc32 m
          | CustomReadData \<Rightarrow>
              20 \<le> n \<and> custom_header m \<and> crc p = custom_crc32 m
              \<and> br = len - of_nat (n - 20) \<and> (1 \<le> unat len \<longrightarrow> n < 20 + unat len)
          | CustomReadCrc \<Rightarrow>
              custom_header m \<and> 1 \<le> unat len \<and> 20 + unat len \<le> n \<and> n < 24 + unat len
              \<and> br = of_nat (24 + unat len - n) \<and> crc p = custom_register m
          | _ \<Rightarrow> False))"

lemma custom_inv_type: "custom_inv (p\<lparr>parser_type := t\<rparr>) = custom_inv p"
  by (cases "state p") (simp_all add: custom_inv_def scratch_defs Let_def)

lemma custom_computeCrc: "custom_inv p \<Longrightarrow> computeCrc p \<noteq> Some UnicoreBinaryComputeCrc"
  by (simp add: custom_inv_def)

lemma custom_append:
  "3 \<le> length m \<Longrightarrow> custom_header (m @ [d]) = custom_header m"
  "14 \<le> length m \<Longrightarrow> custom_length (m @ [d]) = custom_length m"
  by (auto simp: custom_header_def custom_length_def nth_append)

lemma custom_register_snoc:
  "20 + unat (custom_length m) \<le> length m \<Longrightarrow>
    custom_register (m @ [d]) = crc32_step semp_crc32Table (custom_register m) d"
  by (simp add: custom_register_def custom_append Let_def)

lemma custom_next_crc:
  "custom_inv p \<Longrightarrow> next_crc p d = crc32_step semp_crc32Table (crc p) d"
  by (simp add: custom_inv_def next_crc_def)

lemma custom_continues_sync:
  assumes "wf_parse p" and "custom_inv p" and "unat (msg_length p) < length (buffer p)"
    and "feed p d = Inr p'"
    and "state p = CustomSync2 \<and> d = 0x44 \<or> state p = CustomSync3 \<and> d = 0x18"
  shows "continues custom_inv message p d (call_state (state p') p' d)"
proof -
  note f = feedD [OF assms(1,3) custom_computeCrc [OF assms(2)] assms(4)]
  show ?thesis
    using assms(2,5) f
    by (auto simp: continues_def sempCustomSync2_def sempCustomSync3_def custom_next_crc
        custom_inv_def custom_header_def Let_def unchanged_def)
qed

lemma custom_continues_header:
  assumes "wf_parse p" and "custom_inv p" and "unat (msg_length p) < length (buffer p)"
    and "feed p d = Inr p'" and "state p = CustomReadHeader"
  shows "continues custom_inv message p d (call_state (state p') p' d)"
proof -
  note f = feedD [OF assms(1,3) custom_computeCrc [OF assms(2)] assms(4)]
  define m where "m = message p @ [d]"
  have c: "3 \<le> length (message p)" "length (message p) < 20" "custom_header (message p)"
      "crc p = custom_crc32 (message p)" "computeCrc p = Some CustomComputeCrc"
    using assms(2,5) by (simp_all add: custom_inv_def Let_def)
  have n: "unat (msg_length p') = length m" using f(2,9) by (simp add: m_def flip: length_message)
  show ?thesis
  proof (cases "length m = 20")
    case True
    define q where "q = (set_custom_bytesRemaining (custom_length m) p')\<lparr>state := CustomReadData\<rparr>"
    have "custom_messageLength p' = Inr (custom_length m)"
      using buffer_at [OF f(9), of 12] buffer_at [OF f(9), of 13] True f(2)
      by (simp add: custom_messageLength_def custom_length_def m_def)
    then have "call_state (state p') p' d = Inr (q, True)"
      using f(3) n True assms(5)
      by (simp add: sempCustomReadHeader_def sizeof_SEMP_CUSTOM_HEADER_def q_def)
    moreover have "custom_inv q"
      using f c True custom_append [of "message p" d] custom_next_crc [OF assms(2)]
      by (auto simp: custom_inv_def q_def scratch_defs Let_def m_def)
    moreover have "unchanged p q" "message q = message p @ [d]" "log q = log p"
      using f by (simp_all add: q_def unchanged_def scratch_defs)
    ultimately show ?thesis by (simp add: continues_def ex_bool_eq)
  next
    case False
    then have "length m < 20" using c(2) by (simp add: m_def)
    then have "call_state (state p') p' d = Inr (p', True)"
      using f(3) n assms(5) by (simp add: sempCustomReadHeader_def sizeof_SEMP_CUSTOM_HEADER_def)
    moreover have "custom_inv p'"
      using f c \<open>length m < 20\<close> assms(5) custom_append [of "message p" d] custom_next_crc [OF assms(2)]
      by (auto simp: custom_inv_def Let_def m_def)
    ultimately show ?thesis using f by (simp add: continues_def ex_bool_eq)
  qed
qed

lemma custom_continues_data:
  assumes "wf_parse p" and "custom_inv p" and "unat (msg_length p) < length (buffer p)"
    and "feed p d = Inr p'" and "state p = CustomReadData"
  shows "continues custom_inv message p d (call_state (state p') p' d)"
proof -
  note f = feedD [OF assms(1,3) custom_computeCrc [OF assms(2)] assms(4)]
  define m where "m = message p"
  define n where "n = length m"
  define len where "len = custom_length m"
  have c: "20 \<le> n" "n < 65536" "custom_bytesRemaining p = len - of_nat (n - 20)"
      "1 \<le> unat len \<longrightarrow> n < 20 + unat len" "custom_header m" "crc p = custom_crc32 m"
      "computeCrc p = Some CustomComputeCrc"
    using assms length_buffer_16 [OF assms(1)]
    by (simp_all add: custom_inv_def m_def n_def len_def Let_def length_message)
  have m: "message p' = m @ [d]" "custom_header (m @ [d])" "custom_length (m @ [d]) = len"
      "crc p' = custom_crc32 (m @ [d])"
    using f c custom_append [of m d] custom_next_crc [OF assms(2)]
    by (simp_all add: m_def n_def len_def)
  have dec: "custom_bytesRemaining p - 1 = 0 \<longleftrightarrow> unat len = Suc (n - 20)"
    unfolding c(3) using c(1,2) by (intro dec_complete) simp
  have next_br: "custom_bytesRemaining p - 1 = len - of_nat (Suc n - 20)"
    unfolding c(3) using c(1) by (simp add: of_nat_diff)
  show ?thesis
  proof (cases "unat len = Suc (n - 20)")
    case True
    then have "custom_bytesRemaining p - 1 = 0" using dec by simp
    moreover have "custom_register (m @ [d]) = custom_crc32 (m @ [d]) XOR 0xFFFFFFFF"
      using True c(1) m(3) by (simp add: custom_register_def n_def Let_def)
    ultimately show ?thesis
      using assms(5) f c m True
      by (auto simp: continues_def sempCustomReadData_def custom_inv_def scratch_defs layout_simps
          Let_def unchanged_def n_def m_def [symmetric])
  next
    case False
    then have "custom_bytesRemaining p - 1 \<noteq> 0" using dec by simp
    then show ?thesis
      using assms(5) f c m False next_br
      by (auto simp: continues_def sempCustomReadData_def custom_inv_def scratch_defs layout_simps
          Let_def unchanged_def n_def m_def [symmetric])
  qed
qed

lemma custom_crc_state:
  assumes "custom_inv p" and "state p = CustomReadCrc"
  defines "n \<equiv> length (message p)" and "len \<equiv> unat (custom_length (message p))"
  shows "custom_header (message p)" "1 \<le> len" "crc p = custom_register (message p)"
    "custom_bytesRemaining p - 1 = of_nat (23 + len - n)" "20 + len \<le> n" "n < 24 + len"
    "custom_bytesRemaining p - 1 \<noteq> 0 \<longleftrightarrow> Suc n < 24 + len"
proof -
  show *: "custom_header (message p)" "1 \<le> len" "crc p = custom_register (message p)"
    "20 + len \<le> n" "n < 24 + len"
    using assms by (simp_all add: custom_inv_def Let_def)
  have "custom_bytesRemaining p = of_nat (24 + len - n)"
    using assms by (simp add: custom_inv_def Let_def)
  also have "24 + len - n = Suc (23 + len - n)" using * by simp
  finally show dec: "custom_bytesRemaining p - 1 = of_nat (23 + len - n)" by simp
  have "unat (of_nat (23 + len - n) :: u16) = 23 + len - n" using * by (intro unat_of_nat_16) simp
  then show "custom_bytesRemaining p - 1 \<noteq> 0 \<longleftrightarrow> Suc n < 24 + len"
    unfolding dec using * by (simp only: word_unat_eq_iff) auto
qed

lemma custom_continues_crc:
  assumes "wf_parse p" and "custom_inv p" and "unat (msg_length p) < length (buffer p)"
    and "feed p d = Inr p'" and "state p = CustomReadCrc"
    and "Suc (length (message p)) < 24 + unat (custom_length (message p))"
  shows "continues custom_inv message p d (call_state (state p') p' d)"
proof -
  note f = feedD [OF assms(1,3) custom_computeCrc [OF assms(2)] assms(4)]
  note c = custom_crc_state [OF assms(2,5)]
  define q where "q = set_custom_bytesRemaining (custom_bytesRemaining p - 1) p'"
  have "call_state (state p') p' d = Inr (q, True)"
    using f c(7) assms(5,6) by (simp add: sempCustomReadCrc_def q_def scratch_defs)
  moreover have "crc q = custom_register (message p @ [d])"
    using f c custom_next_crc [OF assms(2), of d]
    by (simp add: custom_register_snoc q_def scratch_defs)
  then have "custom_inv q"
    using f c assms(2,5,6)
    by (auto simp: custom_inv_def q_def scratch_defs custom_append Let_def Suc_diff_le)
  moreover have "unchanged p q" "message q = message p @ [d]" "log q = log p"
    using f by (simp_all add: q_def unchanged_def scratch_defs)
  ultimately show ?thesis by (simp add: continues_def ex_bool_eq)
qed

text \<open>The register is zero after the CRC bytes exactly when they are the CRC of the rest.\<close>

lemma custom_valid_iff:
  assumes "1 \<le> unat (custom_length f)" and "length f = 24 + unat (custom_length f)"
    and "custom_header f"
  shows "custom_valid f \<longleftrightarrow> custom_register f = 0"
proof -
  define k where "k = 20 + unat (custom_length f)"
  have k: "length f = k + 4" using assms(2) by (simp add: k_def)
  have "drop k f = [f ! k, f ! (k + 1), f ! (k + 2), f ! (k + 3)]" by (rule drop_last_4 [OF k])
  moreover have "length f = 24 + unat (custom_length f)" "25 \<le> length f" "k + 4 - 3 = k + 1"
      "k + 4 - 2 = k + 2" "k + 4 - 1 = k + 3"
    using assms by simp_all
  ultimately show ?thesis
    using assms(3) unfolding custom_valid_def custom_shape_def custom_register_def Let_def k_def [symmetric]
      semp_crc32.foldl_spec by (simp only: crc32_residue k) simp
qed

lemma custom_print_bad_crc_eq:
  assumes "wf_parse p" and "4 \<le> length (message p)"
  shows "custom_print_bad_crc p = Inr (sempPrintf (printDebug p) CustomBadCrc p)"
  using assms(2) buffer_back_eq [OF assms(1), of 4] buffer_back_eq [OF assms(1), of 3]
    buffer_back_eq [OF assms(1), of 2] buffer_back_eq [OF assms(1), of 1]
  by (simp add: custom_print_bad_crc_def)

lemma custom_finishes:
  assumes "wf_parse p" and "custom_inv p" and "unat (msg_length p) < length (buffer p)"
    and "feed p d = Inr p'" and "state p = CustomReadCrc"
    and "Suc (length (message p)) = 24 + unat (custom_length (message p))"
  shows "finishes custom_valid p (message p @ [d]) (call_state (state p') p' d)"
proof -
  note f = feedD [OF assms(1,3) custom_computeCrc [OF assms(2)] assms(4)]
  note c = custom_crc_state [OF assms(2,5)]
  define q where "q = set_custom_bytesRemaining (custom_bytesRemaining p - 1) p'"
  have q: "unchanged p q" "wf_parse q" "message q = message p @ [d]" "log q = log p"
      "crc q = custom_register (message p @ [d])"
    using f c custom_next_crc [OF assms(2), of d]
    by (simp_all add: q_def unchanged_def scratch_defs custom_register_snoc)
  have valid: "custom_valid (message p @ [d]) = (crc q = 0)"
    unfolding q(5) using c assms(6) custom_append [of "message p" d] by (intro custom_valid_iff) simp_all
  obtain p1 acc where a: "crc_accepted (crc q = 0) q = (p1, acc)" by fastforce
  then obtain es where "p1 = q\<lparr>log := log q @ es\<rparr>" by (rule crc_accepted_cases)
  then have "custom_print_bad_crc p1 = Inr (sempPrintf (printDebug p1) CustomBadCrc p1)"
    using q(2,3) c(5) by (intro custom_print_bad_crc_eq) simp_all
  then have "call_state (state p') p' d = (let (p, accepted) = crc_accepted (crc q = 0) q
      in rbind (if accepted then call_eom p else Inr (sempPrintf (printDebug p) CustomBadCrc p))
           (\<lambda>p. Inr (p\<lparr>state := FirstByte\<rparr>, False)))"
    using f c(7) assms(5,6) a by (simp add: sempCustomReadCrc_def q_def scratch_defs)
  then show ?thesis
    by (rule finishesI) (use q valid unchanged_idle(1) in simp_all)
qed

lemma custom_restarts:
  assumes "wf_parse p" and "custom_inv p" and "unat (msg_length p) < length (buffer p)"
    and "feed p d = Inr p'"
    and "state p = CustomSync2 \<and> d \<noteq> 0x44 \<or> state p = CustomSync3 \<and> d \<noteq> 0x18"
  shows "restarts custom_valid p d (call_state (state p') p' d)"
proof -
  note f = feedD [OF assms(1,3) custom_computeCrc [OF assms(2)] assms(4)]
  have "reports custom_valid p p'" using f by (intro reports_quiet) simp_all
  moreover have "call_state (state p') p' d = sempFirstByte p' d"
    using assms(5) f(3) by (auto simp: sempCustomSync2_def sempCustomSync3_def)
  ultimately show ?thesis unfolding restarts_def by blast
qed

lemma custom_cases:
  assumes "custom_inv p"
  obtains "state p = CustomSync2 \<and> d = 0x44 \<or> state p = CustomSync3 \<and> d = 0x18"
    | "state p = CustomSync2 \<and> d \<noteq> 0x44 \<or> state p = CustomSync3 \<and> d \<noteq> 0x18"
    | "state p = CustomReadHeader"
    | "state p = CustomReadData"
    | "state p = CustomReadCrc" "Suc (length (message p)) < 24 + unat (custom_length (message p))"
    | "state p = CustomReadCrc" "Suc (length (message p)) = 24 + unat (custom_length (message p))"
proof -
  have "state p \<in> {CustomSync2, CustomSync3, CustomReadHeader, CustomReadData, CustomReadCrc}"
    using assms by (cases "state p") (simp_all add: custom_inv_def)
  moreover have "Suc (length (message p)) < 24 + unat (custom_length (message p))
      \<or> Suc (length (message p)) = 24 + unat (custom_length (message p))" if "state p = CustomReadCrc"
    using custom_crc_state(6) [OF assms that] by linarith
  ultimately show thesis using that by blast
qed

lemma custom_prefix:
  assumes "custom_inv p" and "custom_shape f" and "prefix (message p @ [d]) f"
  shows "state p = CustomSync2 \<Longrightarrow> d = 0x44" and "state p = CustomSync3 \<Longrightarrow> d = 0x18"
    and "message p @ [d] = f \<longleftrightarrow>
      state p = CustomReadCrc \<and> Suc (length (message p)) = 24 + unat (custom_length (message p))"
proof -
  obtain zs where f: "f = message p @ d # zs" using assms(3) by (auto simp: prefix_def)
  show "state p = CustomSync2 \<Longrightarrow> d = 0x44" "state p = CustomSync3 \<Longrightarrow> d = 0x18"
    using assms(1,2) by (simp_all add: custom_inv_def custom_shape_def custom_header_def f Let_def)
  have len: "14 \<le> length (message p) \<Longrightarrow> custom_length f = custom_length (message p)"
    by (auto simp: custom_length_def f nth_append)
  have eq: "message p @ [d] = f \<longleftrightarrow> Suc (length (message p)) = length f" by (auto simp: f)
  show "message p @ [d] = f \<longleftrightarrow>
      state p = CustomReadCrc \<and> Suc (length (message p)) = 24 + unat (custom_length (message p))"
    unfolding eq using assms(1,2) len
    by (cases "state p") (auto simp: custom_inv_def custom_shape_def Let_def)
qed

interpretation custom_message:
  protocol CustomPreamble custom_inv message custom_shape custom_valid "\<lambda>n f. length f \<le> n" "\<lambda>_. False"
proof unfold_locales
  fix p :: parse and d p' res f
  assume p: "wf_parse p" "custom_inv p" "unat (msg_length p) < length (buffer p)" "feed p d = Inr p'"
    and res: "res = call_state (state p') p' d"
  note steps = custom_continues_sync [OF p] custom_continues_header [OF p]
    custom_continues_data [OF p] custom_continues_crc [OF p] custom_finishes [OF p]
    custom_restarts [OF p]
  show "continues custom_inv message p d res \<or> (\<exists>m. finishes custom_valid p m res)
      \<or> restarts custom_valid p d res \<or> (False \<and> (\<exists>e. res = Inl e))"
    using steps unfolding res by (cases rule: custom_cases [OF p(2), of d]) blast+
  assume f: "custom_shape f" "prefix (message p @ [d]) f"
  show "if message p @ [d] = f then finishes custom_valid p f res
        else continues custom_inv message p d res"
    using steps custom_prefix [OF p(2) f] unfolding res
    by (cases rule: custom_cases [OF p(2), of d]) auto
qed (simp_all add: custom_inv_type custom_computeCrc,
  auto simp: sempCustomPreamble_def custom_inv_def custom_valid_def custom_shape_def Let_def custom_crc32_def
    sempCustomComputeCrc_def)

end
