(* ===== verification/Line_Protocols.thy ===== *)
theory Line_Protocols
  imports Message_Step
begin

text \<open>
  What the two sentence protocols (NMEA and Unicore) share: the end of a sentence, which
  appends a line end and a zero to the buffer and delivers it, the characters of a
  sentence name, the exclusive-or checksum, and the place of the first asterisk.
\<close>

section \<open>Delivering a sentence\<close>

lemma push_unchanged:
  assumes "wf_parse p" and "length (message p) < length (buffer p)"
  obtains q where "buffer_push p d = Inr q" "unchanged p q" "message q = message p @ [d]"
    "log q = log p"
proof -
  obtain q where q: "buffer_push p d = Inr q" "wf_parse q" "message q = message p @ [d]"
      "q = p\<lparr>buffer := buffer q, msg_length := msg_length q\<rparr>"
    using buffer_push_eq [of p d] assms by (auto simp: length_message)
  define b n where "b = buffer q" and "n = msg_length q"
  have eq: "q = p\<lparr>buffer := b, msg_length := n\<rparr>" unfolding b_def n_def by (rule q(4))
  show thesis using q(1,2,3) by (intro that [of q]) (simp_all add: unchanged_def eq)
qed

lemma put_unchanged:
  assumes "wf_parse p" and "length (message p) < length (buffer p)"
  obtains q where "buffer_put p d = Inr q" "unchanged p q" "message q = message p" "log q = log p"
proof
  let ?q = "p\<lparr>buffer := (buffer p)[unat (msg_length p) := d]\<rparr>"
  show "buffer_put p d = Inr ?q"
    using assms by (simp add: buffer_put_def upd_word length_message)
  show "unchanged p ?q" "message ?q = message p" "log ?q = log p"
    using assms(1) by (simp_all add: unchanged_def wf_parse_def message_def)
qed

lemma deliver_line:
  assumes "wf_parse p" and "length (message p) + 3 \<le> length (buffer p)"
  obtains q where "rbind (buffer_push p 0x0D) (\<lambda>p. rbind (buffer_push p 0x0A) (\<lambda>p.
      rbind (buffer_put p 0) (\<lambda>p. call_eom p))) = Inr q"
    "unchanged p q" "delivered q = delivered p @ [(ucast (parser_type p), message p @ [0x0D, 0x0A])]"
proof -
  have "length (message p) < length (buffer p)" using assms(2) by simp
  then obtain q1 where q1: "buffer_push p 0x0D = Inr q1" "unchanged p q1"
      "message q1 = message p @ [0x0D]" "log q1 = log p"
    by (rule push_unchanged [OF assms(1)])
  have l1: "length (buffer q1) = length (buffer p)" and wf1: "wf_parse q1"
    using unchanged_length [OF assms(1) q1(2)] q1(2) by (simp_all add: unchanged_def)
  then have "length (message q1) < length (buffer q1)" using assms(2) q1(3) by simp
  then obtain q2 where q2: "buffer_push q1 0x0A = Inr q2" "unchanged q1 q2"
      "message q2 = message q1 @ [0x0A]" "log q2 = log q1"
    by (rule push_unchanged [OF wf1])
  have l2: "length (buffer q2) = length (buffer p)" and wf2: "wf_parse q2"
    using unchanged_length [OF wf1 q2(2)] q2(2) l1 by (simp_all add: unchanged_def)
  then have "length (message q2) < length (buffer q2)" using assms(2) q1(3) q2(3) by simp
  then obtain q3 where q3: "buffer_put q2 0 = Inr q3" "unchanged q2 q3" "message q3 = message q2"
      "log q3 = log q2"
    by (rule put_unchanged [OF wf2])
  have wf3: "wf_parse q3" using q3(2) by (simp add: unchanged_def)
  obtain a where e: "call_eom q3 =
      Inr (q3\<lparr>log := log q3 @ [Eom a (ucast (parser_type q3)) (message q3)]\<rparr>)"
    by (rule call_eom_eq [OF wf3])
  show thesis
    using q1 q2 q3 e
    by (intro that [of "q3\<lparr>log := log q3 @ [Eom a (ucast (parser_type q3)) (message q3)]\<rparr>"])
      (auto simp: unchanged_def)
qed

lemma deliver_line_overflow:
  assumes "wf_parse p" and "length (buffer p) < length (message p) + 3"
  shows "rbind (buffer_push p 0x0D) (\<lambda>p. rbind (buffer_push p 0x0A) (\<lambda>p.
      rbind (buffer_put p 0) (\<lambda>p. call_eom p))) = Inl OutOfBounds"
proof (cases "length (message p) < length (buffer p)")
  case False
  then show ?thesis using buffer_push_overflow [of p] assms(1) by (simp add: length_message)
next
  case True
  obtain q1 where q1: "buffer_push p 0x0D = Inr q1" "unchanged p q1" "message q1 = message p @ [0x0D]"
    by (rule push_unchanged [OF assms(1) True])
  have l1: "length (buffer q1) = length (buffer p)" and wf1: "wf_parse q1"
    using unchanged_length [OF assms(1) q1(2)] q1(2) by (simp_all add: unchanged_def)
  show ?thesis
  proof (cases "length (message q1) < length (buffer q1)")
    case False
    then show ?thesis using buffer_push_overflow [of q1] wf1 q1(1) by (simp add: length_message)
  next
    case True
    obtain q2 where q2: "buffer_push q1 0x0A = Inr q2" "unchanged q1 q2" "message q2 = message q1 @ [0x0A]"
      by (rule push_unchanged [OF wf1 True])
    have "length (buffer q2) = length (buffer p)" and wf2: "wf_parse q2"
      using unchanged_length [OF wf1 q2(2)] q2(2) l1 by (simp_all add: unchanged_def)
    then have "\<not> unat (msg_length q2) < length (buffer q2)"
      using assms(2) q1(3) q2(3) length_message [OF wf2] by simp
    then show ?thesis using q1(1) q2(1) by (simp add: buffer_put_def upd_word)
  qed
qed

text \<open>\<^verbatim>\<open>parse->msg_length -= 1\<close>: the last byte is taken back.\<close>

lemma unget:
  assumes "wf_parse p" and "message p = m @ [d]"
  shows "unchanged p (p\<lparr>msg_length := msg_length p - 1\<rparr>)"
    and "message (p\<lparr>msg_length := msg_length p - 1\<rparr>) = m"
proof -
  have n: "unat (msg_length p) = Suc (length m)"
    using assms length_message [OF assms(1)] by simp
  then have "msg_length p \<noteq> 0" by auto
  then have dec: "unat (msg_length p - 1) = length m" using n by (simp add: unat_dec)
  then show "unchanged p (p\<lparr>msg_length := msg_length p - 1\<rparr>)"
    using assms(1) n by (simp add: unchanged_def wf_parse_def)
  have "take (length m) (take (Suc (length m)) (buffer p)) = m"
    using assms(2) n by (simp add: message_def)
  then show "message (p\<lparr>msg_length := msg_length p - 1\<rparr>) = m" by (simp add: message_def dec min_def)
qed

section \<open>Sentences\<close>

definition name_char :: "u8 \<Rightarrow> bool" where
  "name_char c \<longleftrightarrow>
     \<not> ((c AND NOT 0x20 < 0x41 \<or> c AND NOT 0x20 > 0x5A) \<and> (c < 0x30 \<or> c > 0x39))"

definition xor_sum :: "u8 list \<Rightarrow> u32" where
  "xor_sum = foldl (\<lambda>c d. c XOR ucast d) 0"

lemma xor_sum_snoc [simp]: "xor_sum (m @ [d]) = xor_sum m XOR ucast d" "xor_sum [] = 0"
  by (simp_all add: xor_sum_def)

definition hex_digit :: "u8 \<Rightarrow> bool" where
  "hex_digit c \<longleftrightarrow> 0 \<le> semp_util_asciiToNibble (uint c)"

text \<open>The value of two checksum digits.\<close>

definition line_checksum :: "u8 \<Rightarrow> u8 \<Rightarrow> u32" where
  "line_checksum x y =
     word_of_int (push_bit 4 (semp_util_asciiToNibble (uint x)) OR semp_util_asciiToNibble (uint y))"

text \<open>The sentence before the asterisk.\<close>

definition sentence :: "u8 set \<Rightarrow> u8 list \<Rightarrow> bool" where
  "sentence firsts h \<longleftrightarrow>
     (\<exists>s name body. h = s # name @ 0x2C # body \<and> s \<in> firsts \<and> name \<noteq> [] \<and> length name \<le> 15
        \<and> list_all name_char name \<and> 0x2A \<notin> set body)"

lemma sentence_start:
  "s \<in> firsts \<Longrightarrow> name \<noteq> [] \<Longrightarrow> length name \<le> 15 \<Longrightarrow> list_all name_char name \<Longrightarrow>
    sentence firsts (s # name @ [0x2C])"
  unfolding sentence_def by fastforce

lemma sentence_snoc: "sentence firsts h \<Longrightarrow> d \<noteq> 0x2A \<Longrightarrow> sentence firsts (h @ [d])"
  unfolding sentence_def by fastforce

lemma sentence_nonempty: "sentence firsts h \<Longrightarrow> h \<noteq> [] \<and> tl (h @ t) = tl h @ t"
  unfolding sentence_def by auto

lemma name_char_not: "\<not> name_char 0x2C" "\<not> name_char 0x2A"
  by (simp_all add: name_char_def)

lemma first_split:
  assumes "x \<notin> set a" and "x \<notin> set b" and "a @ x # u = b @ x # v"
  shows "a = b \<and> u = v"
  using assms
proof (induction a arbitrary: b)
  case Nil
  then show ?case by (cases b) auto
next
  case (Cons y a)
  then show ?case by (cases b) auto
qed

lemma first_before:
  assumes "x \<notin> set a" and "a @ w = b @ x # v"
  shows "length a \<le> length b \<and> a = take (length a) b"
  using assms
proof (induction a arbitrary: b)
  case Nil
  then show ?case by simp
next
  case (Cons y a)
  then show ?case by (cases b) auto
qed

text \<open>Where the bytes read so far stand in a complete sentence.\<close>

lemma sentence_no_star:
  assumes "sentence firsts h" and "0x2A \<notin> firsts"
  shows "0x2A \<notin> set h"
  using assms name_char_not(2) by (auto simp: sentence_def list_all_iff)

lemma sentence_name_prefix:
  assumes "sentence firsts h" and "s # name @ d # zs = h @ w" and "list_all name_char name"
  shows "length (s # name) < length h"
    and "name_char d \<and> length name < 15 \<or> d = 0x2C \<and> name \<noteq> []"
proof -
  obtain name' body where h: "h = s # name' @ 0x2C # body" "name' \<noteq> []" "length name' \<le> 15"
      "list_all name_char name'"
    using assms(1,2) unfolding sentence_def by auto
  have n: "0x2C \<notin> set name" using assms(3) name_char_not(1) by (auto simp: list_all_iff)
  have eq: "name @ d # zs = name' @ 0x2C # body @ w" using assms(2) h(1) by simp
  have le: "length name \<le> length name'" "name = take (length name) name'"
    using first_before [OF n eq] by simp_all
  then show "length (s # name) < length h" by (simp add: h(1))
  have d: "d = (name' @ 0x2C # body @ w) ! length name" using eq by (metis nth_append_length)
  show "name_char d \<and> length name < 15 \<or> d = 0x2C \<and> name \<noteq> []"
  proof (cases "length name < length name'")
    case True
    then show ?thesis using d h(3,4) by (auto simp: nth_append list_all_length)
  next
    case False
    then show ?thesis using d le h(2) by (auto simp: nth_append)
  qed
qed

lemma sentence_body_prefix:
  assumes "sentence firsts h'" and "sentence firsts h" and "0x2A \<notin> firsts"
    and "h' @ d # zs = h @ 0x2A # w"
  shows "length h' < length h \<or> d = 0x2A \<and> h' = h"
proof -
  have "length h' \<le> length h \<and> h' = take (length h') h"
    using first_before [OF sentence_no_star [OF assms(1,3)] assms(4)] .
  then show ?thesis using assms(4) by (cases "length h' < length h") auto
qed

end
