(* ===== verification/Protocol_NMEA.thy ===== *)
theory Protocol_NMEA
  imports Line_Protocols
begin

text \<open>
  The NMEA protocol against its specification: sentences with a name of one to fifteen
  characters, a body without asterisk and a two-digit checksum, the invariant of the
  routines of Parse_NMEA.c and their contract.
\<close>

section \<open>NMEA sentences\<close>

abbreviation nmea_sentence :: "u8 list \<Rightarrow> bool" where
  "nmea_sentence \<equiv> sentence {0x24, 0x21}"

definition nmea_shape :: "u8 list \<Rightarrow> bool" where
  "nmea_shape f \<longleftrightarrow>
     (\<exists>h x y. f = h @ [0x2A, x, y, 0x0D, 0x0A] \<and> nmea_sentence h \<and> hex_digit x \<and> hex_digit y)"

definition nmea_valid :: "u8 list \<Rightarrow> bool" where
  "nmea_valid f \<longleftrightarrow>
     (\<exists>h x y. f = h @ [0x2A, x, y, 0x0D, 0x0A] \<and> nmea_sentence h \<and> hex_digit x \<and> hex_digit y
        \<and> line_checksum x y = xor_sum (tl h))"

lemma nmea_valid_line:
  "nmea_valid (h @ [0x2A, x, y, 0x0D, 0x0A]) \<longleftrightarrow>
     nmea_sentence h \<and> hex_digit x \<and> hex_digit y \<and> line_checksum x y = xor_sum (tl h)"
  by (auto simp: nmea_valid_def)

section \<open>The invariant of the protocol\<close>

text \<open>A sentence in progress whose asterisk has been found; \<open>t\<close> is what follows it.\<close>

definition nmea_tail :: "u8 list \<Rightarrow> parse \<Rightarrow> bool" where
  "nmea_tail t p \<longleftrightarrow>
     (\<exists>h. message p = h @ 0x2A # t \<and> nmea_sentence h \<and> crc p = xor_sum (tl h)
        \<and> length h + NMEA_BUFFER_OVERHEAD \<le> unat (buffer_length p) \<and> list_all hex_digit t)"

definition nmea_inv :: "parse \<Rightarrow> bool" where
  "nmea_inv p \<longleftrightarrow>
     computeCrc p = None \<and>
     (case state p of
        NmeaFindFirstComma \<Rightarrow>
          (\<exists>s name. message p = s # name \<and> s \<in> {0x24, 0x21} \<and> list_all name_char name
             \<and> length name = unat (nmea_sentenceNameLength p) \<and> length name \<le> 15
             \<and> crc p = xor_sum name)
      | NmeaFindAsterisk \<Rightarrow>
          nmea_sentence (message p) \<and> crc p = xor_sum (tl (message p))
          \<and> length (message p) + NMEA_BUFFER_OVERHEAD \<le> unat (buffer_length p)
      | NmeaChecksumByte1 \<Rightarrow> nmea_tail [] p
      | NmeaChecksumByte2 \<Rightarrow> (\<exists>x. nmea_tail [x] p)
      | NmeaLineTermination \<Rightarrow> (\<exists>x y. nmea_tail [x, y] p)
      | NmeaLineFeed \<Rightarrow> (\<exists>x y. nmea_tail [x, y] p)
      | NmeaCarriageReturn \<Rightarrow> (\<exists>x y. nmea_tail [x, y] p)
      | _ \<Rightarrow> False)"

text \<open>A line end character is taken back from the buffer but remembered by the state.\<close>

definition nmea_seen :: "parse \<Rightarrow> u8 list" where
  "nmea_seen p =
     message p @ (case state p of NmeaLineFeed \<Rightarrow> [0x0D] | NmeaCarriageReturn \<Rightarrow> [0x0A] | _ \<Rightarrow> [])"

lemma nmea_inv_type: "nmea_inv (p\<lparr>parser_type := t\<rparr>) = nmea_inv p"
  by (cases "state p") (simp_all add: nmea_inv_def nmea_tail_def scratch_defs)

lemma nmea_computeCrc: "nmea_inv p \<Longrightarrow> computeCrc p \<noteq> Some UnicoreBinaryComputeCrc"
  by (simp add: nmea_inv_def)

lemma nmea_crc_fed:
  assumes "wf_parse p" and "nmea_inv p" and "unat (msg_length p) < length (buffer p)"
    and "feed p d = Inr p'"
  shows "crc p' = crc p"
  using feedD(5) [OF assms(1,3) nmea_computeCrc [OF assms(2)] assms(4)] assms(2)
  by (simp add: next_crc_def nmea_inv_def)

lemma nmea_name:
  assumes "wf_parse p" and "nmea_inv p" and "unat (msg_length p) < length (buffer p)"
    and "feed p d = Inr p'" and "state p = NmeaFindFirstComma"
    and "name_char d" and "length (message p) \<le> 15"
  shows "continues nmea_inv nmea_seen p d (call_state (state p') p' d)"
proof -
  note f = feedD [OF assms(1,3) nmea_computeCrc [OF assms(2)] assms(4)]
  obtain s name where c: "message p = s # name" "s \<in> {0x24, 0x21}" "list_all name_char name"
      "length name = unat (nmea_sentenceNameLength p)" "crc p = xor_sum name" "computeCrc p = None"
    using assms(2,5) by (auto simp: nmea_inv_def)
  define k where "k = nmea_sentenceNameLength p"
  define q where "q = set_nmea_sentenceNameLength (k + 1)
      (set_nmea_sentenceName (unat k) d (p'\<lparr>crc := crc p XOR ucast d\<rparr>))"
  have k: "unat k < 15" "nmea_sentenceNameLength p' = k" "k \<noteq> 15" "unat (k + 1) = Suc (unat k)"
    using c(1,4) assms(7) f(4) unat_Suc_below [of k 15] by (auto simp: k_def scratch_defs)
  have "d \<noteq> 0x2C" using assms(6) name_char_not by auto
  then have "call_state (state p') p' d = Inr (q, True)"
    using assms(5,6) f(3) k nmea_crc_fed [OF assms(1-4)]
    by (auto simp: sempNmeaFindFirstComma_def name_char_def nmea_store_name_def q_def scratch_defs
        Let_def)
  moreover have "nmea_inv q" "nmea_seen q = nmea_seen p @ [d]"
    using c f k assms(5,6) by (auto simp: nmea_inv_def nmea_seen_def q_def scratch_defs k_def)
  moreover have "unchanged p q" "log q = log p"
    using f by (simp_all add: q_def unchanged_def scratch_defs)
  ultimately show ?thesis by (intro continuesI)
qed

lemma nmea_comma:
  assumes "wf_parse p" and "nmea_inv p" and "unat (msg_length p) < length (buffer p)"
    and "feed p d = Inr p'" and "state p = NmeaFindFirstComma"
    and "d = 0x2C" and "1 < length (message p)"
  shows "continues nmea_inv nmea_seen p d (call_state (state p') p' d)"
proof -
  note f = feedD [OF assms(1,3) nmea_computeCrc [OF assms(2)] assms(4)]
  obtain s name where c: "message p = s # name" "s \<in> {0x24, 0x21}" "list_all name_char name"
      "length name = unat (nmea_sentenceNameLength p)" "length name \<le> 15" "crc p = xor_sum name"
      "computeCrc p = None"
    using assms(2,5) by (auto simp: nmea_inv_def)
  define k where "k = nmea_sentenceNameLength p"
  define q where "q = (set_nmea_sentenceName (unat k) 0 (p'\<lparr>crc := crc p XOR ucast d\<rparr>))
      \<lparr>state := NmeaFindAsterisk\<rparr>"
  have k: "unat k \<le> 15" "nmea_sentenceNameLength p' = k" "k \<noteq> 0"
    using c(1,4,5) assms(7) f(4) by (auto simp: k_def scratch_defs)
  then have "call_state (state p') p' d = Inr (q, True)"
    using assms(5,6) f(3) nmea_crc_fed [OF assms(1-4)]
    by (simp add: sempNmeaFindFirstComma_def nmea_store_name_def q_def scratch_defs Let_def)
  moreover have "nmea_sentence (message p @ [d])"
    using c assms(6,7) by (auto intro!: sentence_start)
  then have "nmea_inv q" "nmea_seen q = nmea_seen p @ [d]"
    using c f k assms(5,6) wf_parseD(1,2) [OF assms(1)]
    by (auto simp: nmea_inv_def nmea_seen_def q_def scratch_defs NMEA_BUFFER_OVERHEAD_def)
  moreover have "unchanged p q" "log q = log p"
    using f by (simp_all add: q_def unchanged_def scratch_defs)
  ultimately show ?thesis by (intro continuesI)
qed

lemma nmea_name_restarts:
  assumes "wf_parse p" and "nmea_inv p" and "unat (msg_length p) < length (buffer p)"
    and "feed p d = Inr p'" and "state p = NmeaFindFirstComma"
    and "\<not> (name_char d \<and> length (message p) \<le> 15)" and "\<not> (d = 0x2C \<and> 1 < length (message p))"
  shows "restarts nmea_valid p d (call_state (state p') p' d)"
proof -
  note f = feedD [OF assms(1,3) nmea_computeCrc [OF assms(2)] assms(4)]
  obtain s name where c: "message p = s # name" "length name = unat (nmea_sentenceNameLength p)"
      "length name \<le> 15"
    using assms(2,5) by (auto simp: nmea_inv_def)
  have z: "nmea_sentenceNameLength p = 0 \<longleftrightarrow> length (message p) = 1"
    using c(1,2) by (simp add: unat_eq_0)
  have k: "nmea_sentenceNameLength p = 15 \<longleftrightarrow> \<not> length (message p) \<le> 15"
    using c by (auto simp: word_unat_eq_iff)
  define p1 where "p1 = p'\<lparr>crc := crc p XOR ucast d\<rparr>"
  define m where "m = (if name_char d then NmeaNameTooLong else NmeaInvalidNameCharacter)"
  have "call_state (state p') p' d = sempFirstByte (sempPrintf (printDebug p1) m p1) d"
    using assms(5-7) f(3,4) k z nmea_crc_fed [OF assms(1-4)] c(1)
    by (auto simp: sempNmeaFindFirstComma_def name_char_def p1_def m_def scratch_defs Let_def)
  moreover have "reports nmea_valid p (sempPrintf (printDebug p1) m p1)"
    using f by (intro reports_quiet) (simp_all add: unchanged_def p1_def)
  ultimately show ?thesis unfolding restarts_def by blast
qed

lemma nmea_body:
  assumes "wf_parse p" and "nmea_inv p" and "unat (msg_length p) < length (buffer p)"
    and "feed p d = Inr p'" and "state p = NmeaFindAsterisk"
    and "d = 0x2A \<or> Suc (length (message p)) + NMEA_BUFFER_OVERHEAD \<le> length (buffer p)"
  shows "continues nmea_inv nmea_seen p d (call_state (state p') p' d)"
proof -
  note f = feedD [OF assms(1,3) nmea_computeCrc [OF assms(2)] assms(4)]
  have c: "nmea_sentence (message p)" "crc p = xor_sum (tl (message p))" "computeCrc p = None"
      "length (message p) + NMEA_BUFFER_OVERHEAD \<le> unat (buffer_length p)"
    using assms(2,5) by (simp_all add: nmea_inv_def)
  have n: "unat (msg_length p') = Suc (length (message p))"
    using f(2,9) by (simp flip: length_message)
  define q where "q = (if d = 0x2A then p'\<lparr>state := NmeaChecksumByte1\<rparr>
      else p'\<lparr>crc := crc p XOR ucast d\<rparr>)"
  have "call_state (state p') p' d = Inr (q, True)"
    using assms(5,6) f(3,8) n nmea_crc_fed [OF assms(1-4)] wf_parseD(1) [OF assms(1)]
    by (auto simp: sempNmeaFindAsterisk_def q_def Let_def)
  moreover have "nmea_inv q"
    using c f assms(5,6) sentence_snoc [OF c(1), of d] sentence_nonempty [OF c(1), of "[d]"]
      wf_parseD(1) [OF assms(1)] nmea_crc_fed [OF assms(1-4)]
    by (auto simp: nmea_inv_def nmea_tail_def q_def)
  moreover have "nmea_seen q = nmea_seen p @ [d]" "unchanged p q" "log q = log p"
    using f assms(5) by (simp_all add: q_def unchanged_def nmea_seen_def)
  ultimately show ?thesis by (intro continuesI)
qed

lemma nmea_body_restarts:
  assumes "wf_parse p" and "nmea_inv p" and "unat (msg_length p) < length (buffer p)"
    and "feed p d = Inr p'" and "state p = NmeaFindAsterisk"
    and "d \<noteq> 0x2A" and "length (buffer p) < Suc (length (message p)) + NMEA_BUFFER_OVERHEAD"
  shows "restarts nmea_valid p d (call_state (state p') p' d)"
proof -
  note f = feedD [OF assms(1,3) nmea_computeCrc [OF assms(2)] assms(4)]
  have n: "unat (msg_length p') = Suc (length (message p))"
    using f(2,9) by (simp flip: length_message)
  define p1 where "p1 = p'\<lparr>crc := crc p XOR ucast d\<rparr>"
  have "call_state (state p') p' d =
      sempFirstByte (sempPrintf (printDebug p1) NmeaSentenceTooLong p1) d"
    using assms(5-7) f(3,8) n nmea_crc_fed [OF assms(1-4)] wf_parseD(1) [OF assms(1)]
    by (auto simp: sempNmeaFindAsterisk_def p1_def Let_def)
  moreover have "reports nmea_valid p (sempPrintf (printDebug p1) NmeaSentenceTooLong p1)"
    using f by (intro reports_quiet) (simp_all add: unchanged_def p1_def)
  ultimately show ?thesis unfolding restarts_def by blast
qed

lemma nmea_digit:
  assumes "wf_parse p" and "nmea_inv p" and "unat (msg_length p) < length (buffer p)"
    and "feed p d = Inr p'" and "state p \<in> {NmeaChecksumByte1, NmeaChecksumByte2}"
  shows "if hex_digit d then continues nmea_inv nmea_seen p d (call_state (state p') p' d)
    else restarts nmea_valid p d (call_state (state p') p' d)"
proof -
  note f = feedD [OF assms(1,3) nmea_computeCrc [OF assms(2)] assms(4)]
  have rx: "buffer_back p' 1 = Inr d" using buffer_back_last(1) [OF f(9,2)] .
  have crc: "crc p' = crc p" by (rule nmea_crc_fed [OF assms(1-4)])
  define s where "s = (if state p = NmeaChecksumByte1 then NmeaChecksumByte2 else NmeaLineTermination)"
  define m where "m = (if state p = NmeaChecksumByte1 then NmeaInvalidFirstChecksum
      else NmeaInvalidSecondChecksum)"
  have eq: "call_state (state p') p' d =
      (if hex_digit d then Inr (p'\<lparr>state := s\<rparr>, True)
       else sempFirstByte (sempPrintf (printDebug p') m p') d)"
    using assms(5) f(3) rx
    by (auto simp: sempNmeaChecksumByte1_def sempNmeaChecksumByte2_def hex_digit_def s_def m_def)
  show ?thesis
  proof (cases "hex_digit d")
    case True
    then have "nmea_inv (p'\<lparr>state := s\<rparr>)"
      using assms(2,5) f crc by (fastforce simp: nmea_inv_def nmea_tail_def s_def)
    moreover have "nmea_seen (p'\<lparr>state := s\<rparr>) = nmea_seen p @ [d]" "unchanged p (p'\<lparr>state := s\<rparr>)"
        "log (p'\<lparr>state := s\<rparr>) = log p"
      using f assms(5) by (auto simp: unchanged_def nmea_seen_def s_def)
    ultimately show ?thesis using True eq by (simp add: continuesI)
  next
    case False
    moreover have "reports nmea_valid p (sempPrintf (printDebug p') m p')"
      using f by (intro reports_quiet) (simp_all add: unchanged_def)
    ultimately show ?thesis using eq unfolding restarts_def by auto
  qed
qed

section \<open>The end of a sentence\<close>

lemma nmea_validate:
  assumes "wf_parse p" and "message p = h @ [0x2A, x, y]" and "nmea_sentence h"
    and "crc p = xor_sum (tl h)" and "length h + NMEA_BUFFER_OVERHEAD \<le> unat (buffer_length p)"
    and "hex_digit x" and "hex_digit y"
  obtains q acc where "sempNmeaValidateChecksum p = Inr q" "unchanged p q"
    "badCrc p = None \<longrightarrow> acc = nmea_valid (h @ [0x2A, x, y, 0x0D, 0x0A])"
    "nmea_valid (h @ [0x2A, x, y, 0x0D, 0x0A]) \<longrightarrow> acc"
    "delivered q = delivered p
       @ (if acc then [(ucast (parser_type p), h @ [0x2A, x, y, 0x0D, 0x0A])] else [])"
proof -
  have rx: "buffer_back p 2 = Inr x" "buffer_back p 1 = Inr y"
    using buffer_back_last(2) [OF assms(1), of "h @ [0x2A]" x y]
      buffer_back_last(1) [OF assms(1), of "h @ [0x2A, x]" y] assms(2) by simp_all
  have valid: "nmea_valid (h @ [0x2A, x, y, 0x0D, 0x0A]) \<longleftrightarrow> line_checksum x y = crc p"
    using assms by (simp add: nmea_valid_line)
  obtain p1 acc where a: "crc_accepted (line_checksum x y = crc p) p = (p1, acc)" by fastforce
  then obtain es where es: "p1 = p\<lparr>log := log p @ es\<rparr>" "eoms es = []"
      "badCrc p = None \<longrightarrow> acc = (line_checksum x y = crc p)" "line_checksum x y = crc p \<longrightarrow> acc"
    by (rule crc_accepted_cases)
  have p1: "wf_parse p1" "length (message p1) + 3 \<le> length (buffer p1)" "unchanged p p1"
    using assms es(1) wf_parseD(1) [OF assms(1)] by (simp_all add: unchanged_def NMEA_BUFFER_OVERHEAD_def)
  obtain q where q: "rbind (buffer_push p1 0x0D) (\<lambda>p. rbind (buffer_push p 0x0A) (\<lambda>p.
      rbind (buffer_put p 0) (\<lambda>p. call_eom p))) = Inr q" "unchanged p1 q"
    "delivered q = delivered p1 @ [(ucast (parser_type p1), message p1 @ [0x0D, 0x0A])]"
    by (rule deliver_line [OF p1(1,2)])
  define r where "r = (if acc then q else sempPrintf (printDebug p1) NmeaBadChecksum p1)"
  have "sempNmeaValidateChecksum p = Inr r"
    using rx a q(1) by (simp add: sempNmeaValidateChecksum_def line_checksum_def Let_def r_def)
  moreover have "unchanged p r"
    using unchanged_trans [OF p1(3) q(2)] p1 by (simp add: r_def unchanged_def)
  ultimately show thesis
    using es valid q(3) assms(2) by (intro that [of r acc]) (simp_all add: r_def)
qed

lemma nmea_tail_fed:
  assumes "wf_parse p" and "nmea_inv p" and "unat (msg_length p) < length (buffer p)"
    and "feed p d = Inr p'" and "nmea_tail [x, y] p"
  defines "u \<equiv> p'\<lparr>msg_length := msg_length p' - 1\<rparr>"
  obtains h where "message p = h @ [0x2A, x, y]" "wf_parse u" "unchanged p u" "message u = message p"
    "log u = log p" "crc u = xor_sum (tl h)" "nmea_sentence h" "nmea_tail [x, y] u"
    "length h + NMEA_BUFFER_OVERHEAD \<le> unat (buffer_length u)" "hex_digit x" "hex_digit y"
proof -
  note f = feedD [OF assms(1,3) nmea_computeCrc [OF assms(2)] assms(4)]
  obtain h where h: "message p = h @ [0x2A, x, y]" "nmea_sentence h" "crc p = xor_sum (tl h)"
      "length h + NMEA_BUFFER_OVERHEAD \<le> unat (buffer_length p)" "hex_digit x" "hex_digit y"
    using assms(5) by (auto simp: nmea_tail_def)
  have u: "unchanged p' u" "message u = message p" using unget [OF f(9,2)] by (simp_all add: u_def)
  then have "unchanged p u" using unchanged_trans [OF f(1)] by blast
  moreover have "wf_parse u" "buffer_length u = buffer_length p" "log u = log p" "crc u = crc p"
    using u(1) f nmea_crc_fed [OF assms(1-4)] by (auto simp: unchanged_def u_def)
  ultimately show thesis using h u(2) by (intro that [of h]) (simp_all add: nmea_tail_def)
qed

lemma nmea_line_restarts:
  assumes "wf_parse p" and "nmea_inv p" and "unat (msg_length p) < length (buffer p)"
    and "feed p d = Inr p'"
    and "state p = NmeaLineTermination \<and> d \<noteq> 0x0D \<and> d \<noteq> 0x0A
      \<or> state p = NmeaLineFeed \<and> d \<noteq> 0x0A \<or> state p = NmeaCarriageReturn \<and> d \<noteq> 0x0D"
  shows "restarts nmea_valid p d (call_state (state p') p' d)"
proof -
  note f = feedD [OF assms(1,3) nmea_computeCrc [OF assms(2)] assms(4)]
  define u where "u = p'\<lparr>msg_length := msg_length p' - 1\<rparr>"
  obtain x y where t: "nmea_tail [x, y] p" using assms(2,5) by (auto simp: nmea_inv_def)
  obtain h where h: "wf_parse u" "unchanged p u" "message u = h @ [0x2A, x, y]"
    "log u = log p" "crc u = xor_sum (tl h)" "nmea_sentence h"
    "length h + NMEA_BUFFER_OVERHEAD \<le> unat (buffer_length u)" "hex_digit x" "hex_digit y"
    by (rule nmea_tail_fed [OF assms(1-4) t]) (simp add: u_def)
  obtain q acc where q: "sempNmeaValidateChecksum u = Inr q" "unchanged u q"
    "badCrc u = None \<longrightarrow> acc = nmea_valid (h @ [0x2A, x, y, 0x0D, 0x0A])"
    "delivered q = delivered u
       @ (if acc then [(ucast (parser_type u), h @ [0x2A, x, y, 0x0D, 0x0A])] else [])"
    by (rule nmea_validate [OF h(1,3,6,5,7,8,9)])
  have "unchanged p q" by (rule unchanged_trans [OF h(2) q(2)])
  moreover have "badCrc u = badCrc p" "parser_type u = parser_type p"
    using h(2) by (simp_all add: unchanged_def)
  ultimately have "reports nmea_valid p q"
    using q(3,4) h(4) by (intro reports_finish [where m = "h @ [0x2A, x, y, 0x0D, 0x0A]" and acc = acc]) simp_all
  moreover have "call_state (state p') p' d = sempFirstByte q d"
    using assms(5) f(3) q(1)
    by (auto simp: sempNmeaLineTermination_def sempNmeaLineFeed_def sempNmeaCarriageReturn_def
        u_def Let_def)
  ultimately show ?thesis unfolding restarts_def by blast
qed

lemma nmea_line_continues:
  assumes "wf_parse p" and "nmea_inv p" and "unat (msg_length p) < length (buffer p)"
    and "feed p d = Inr p'" and "state p = NmeaLineTermination" and "d = 0x0D \<or> d = 0x0A"
  shows "continues nmea_inv nmea_seen p d (call_state (state p') p' d)"
proof -
  note f = feedD [OF assms(1,3) nmea_computeCrc [OF assms(2)] assms(4)]
  define u where "u = p'\<lparr>msg_length := msg_length p' - 1\<rparr>"
  define q where "q = u\<lparr>state := (if d = 0x0D then NmeaLineFeed else NmeaCarriageReturn)\<rparr>"
  obtain x y where t: "nmea_tail [x, y] p" using assms(2,5) by (auto simp: nmea_inv_def)
  have u: "unchanged p u" "message u = message p" "log u = log p" "nmea_tail [x, y] u"
    by (rule nmea_tail_fed [OF assms(1-4) t], simp add: u_def)+
  have "call_state (state p') p' d = Inr (q, True)"
    using assms(5,6) f(3) by (auto simp: sempNmeaLineTermination_def u_def q_def Let_def)
  moreover have "computeCrc u = None" using u(1) assms(2) by (simp add: unchanged_def nmea_inv_def)
  then have "nmea_inv q" using u(4) by (auto simp: nmea_inv_def nmea_tail_def q_def)
  moreover have "nmea_seen q = nmea_seen p @ [d]" "unchanged p q" "log q = log p"
    using u assms(5,6) by (auto simp: q_def unchanged_def nmea_seen_def)
  ultimately show ?thesis by (intro continuesI)
qed

lemma nmea_line_finishes:
  assumes "wf_parse p" and "nmea_inv p" and "unat (msg_length p) < length (buffer p)"
    and "feed p d = Inr p'"
    and "state p = NmeaLineFeed \<and> d = 0x0A \<or> state p = NmeaCarriageReturn \<and> d = 0x0D"
  shows "finishes nmea_valid p (message p @ [0x0D, 0x0A]) (call_state (state p') p' d)"
proof -
  note f = feedD [OF assms(1,3) nmea_computeCrc [OF assms(2)] assms(4)]
  define u where "u = p'\<lparr>msg_length := msg_length p' - 1\<rparr>"
  obtain x y where t: "nmea_tail [x, y] p" using assms(2,5) by (auto simp: nmea_inv_def)
  obtain h where h: "message p = h @ [0x2A, x, y]" "wf_parse u" "unchanged p u"
    "message u = h @ [0x2A, x, y]" "log u = log p" "crc u = xor_sum (tl h)" "nmea_sentence h"
    "length h + NMEA_BUFFER_OVERHEAD \<le> unat (buffer_length u)" "hex_digit x" "hex_digit y"
    by (rule nmea_tail_fed [OF assms(1-4) t]) (simp add: u_def)
  obtain q acc where q: "sempNmeaValidateChecksum u = Inr q" "unchanged u q"
    "badCrc u = None \<longrightarrow> acc = nmea_valid (h @ [0x2A, x, y, 0x0D, 0x0A])"
    "nmea_valid (h @ [0x2A, x, y, 0x0D, 0x0A]) \<longrightarrow> acc"
    "delivered q = delivered u
       @ (if acc then [(ucast (parser_type u), h @ [0x2A, x, y, 0x0D, 0x0A])] else [])"
    by (rule nmea_validate [OF h(2,4,7,6,8,9,10)])
  have "unchanged p (q\<lparr>state := FirstByte\<rparr>)"
    by (intro unchanged_idle unchanged_trans [OF h(3) q(2)])
  moreover have "badCrc u = badCrc p" "parser_type u = parser_type p"
    using h(3) by (simp_all add: unchanged_def)
  moreover have "call_state (state p') p' d = Inr (q\<lparr>state := FirstByte\<rparr>, True)"
    using assms(5) f(3) q(1)
    by (auto simp: sempNmeaLineFeed_def sempNmeaCarriageReturn_def u_def Let_def)
  ultimately show ?thesis
    unfolding finishes_def using q(3-5) h(1,5)
    by (intro exI [of _ "q\<lparr>state := FirstByte\<rparr>"] exI [of _ True] exI [of _ acc]) simp
qed

lemma nmea_cases:
  assumes "nmea_inv p"
  obtains "state p = NmeaFindFirstComma" "name_char d" "length (message p) \<le> 15"
    | "state p = NmeaFindFirstComma" "d = 0x2C" "1 < length (message p)"
    | "state p = NmeaFindFirstComma" "\<not> (name_char d \<and> length (message p) \<le> 15)"
        "\<not> (d = 0x2C \<and> 1 < length (message p))"
    | "state p = NmeaFindAsterisk"
        "d = 0x2A \<or> Suc (length (message p)) + NMEA_BUFFER_OVERHEAD \<le> length (buffer p)"
    | "state p = NmeaFindAsterisk" "d \<noteq> 0x2A"
        "length (buffer p) < Suc (length (message p)) + NMEA_BUFFER_OVERHEAD"
    | "state p \<in> {NmeaChecksumByte1, NmeaChecksumByte2}"
    | "state p = NmeaLineTermination" "d = 0x0D \<or> d = 0x0A"
    | "state p = NmeaLineTermination \<and> d \<noteq> 0x0D \<and> d \<noteq> 0x0A
        \<or> state p = NmeaLineFeed \<and> d \<noteq> 0x0A \<or> state p = NmeaCarriageReturn \<and> d \<noteq> 0x0D"
    | "state p = NmeaLineFeed \<and> d = 0x0A \<or> state p = NmeaCarriageReturn \<and> d = 0x0D"
proof -
  have "state p \<in> {NmeaFindFirstComma, NmeaFindAsterisk, NmeaChecksumByte1, NmeaChecksumByte2,
      NmeaLineTermination, NmeaLineFeed, NmeaCarriageReturn}"
    using assms by (cases "state p") (simp_all add: nmea_inv_def)
  then show thesis using that not_less by blast
qed

section \<open>The contract\<close>

lemma nmea_tail_prefix:
  assumes "nmea_tail t p" and "nmea_sentence h" and "message p @ us = h @ 0x2A # w"
  shows "t @ us = w" and "message p = h @ 0x2A # t"
proof -
  obtain h' where h': "message p = h' @ 0x2A # t" "nmea_sentence h'"
    using assms(1) by (auto simp: nmea_tail_def)
  have "h' = h \<and> t @ us = w"
    using sentence_no_star [OF h'(2)] sentence_no_star [OF assms(2)] assms(3) h'(1)
    by (intro first_split) simp_all
  then show "t @ us = w" "message p = h @ 0x2A # t" using h'(1) by simp_all
qed

lemma nmea_prefix:
  assumes "wf_parse p" and "nmea_inv p" and "nmea_shape f" and "length f < length (buffer p)"
    and "prefix (nmea_seen p @ [d]) f"
  shows "if nmea_seen p @ [d] = f then state p = NmeaLineFeed \<and> d = 0x0A \<and> f = message p @ [0x0D, 0x0A]
    else state p = NmeaFindFirstComma \<and> (name_char d \<and> length (message p) \<le> 15 \<or> d = 0x2C \<and> 1 < length (message p))
      \<or> state p = NmeaFindAsterisk
         \<and> (d = 0x2A \<or> Suc (length (message p)) + NMEA_BUFFER_OVERHEAD \<le> length (buffer p))
      \<or> state p \<in> {NmeaChecksumByte1, NmeaChecksumByte2} \<and> hex_digit d
      \<or> state p = NmeaLineTermination \<and> d = 0x0D"
proof -
  obtain zs where f: "f = nmea_seen p @ d # zs" using assms(5) by (auto simp: prefix_def)
  obtain h x y where h: "f = h @ [0x2A, x, y, 0x0D, 0x0A]" "nmea_sentence h" "hex_digit x" "hex_digit y"
    using assms(3) by (auto simp: nmea_shape_def)
  have len: "length h + NMEA_BUFFER_OVERHEAD \<le> length (buffer p)"
    using assms(4) h(1) by (simp add: NMEA_BUFFER_OVERHEAD_def)
  have fin: "nmea_seen p @ [d] = f \<longleftrightarrow> zs = []" by (auto simp: f)
  have eq: "nmea_seen p @ d # zs = h @ 0x2A # [x, y, 0x0D, 0x0A]" using f h(1) by simp
  have tail: "t @ us = [x, y, 0x0D, 0x0A] \<and> message p = h @ 0x2A # t"
    if "nmea_tail t p" "nmea_seen p = message p @ vs" "us = vs @ d # zs" for t us vs
    using nmea_tail_prefix [OF that(1) h(2), of us] eq that(2,3) by simp
  have "state p = NmeaFindFirstComma \<and> zs \<noteq> []
        \<and> (name_char d \<and> length (message p) \<le> 15 \<or> d = 0x2C \<and> 1 < length (message p))
      \<or> state p = NmeaFindAsterisk \<and> zs \<noteq> []
         \<and> (d = 0x2A \<or> Suc (length (message p)) + NMEA_BUFFER_OVERHEAD \<le> length (buffer p))
      \<or> state p \<in> {NmeaChecksumByte1, NmeaChecksumByte2} \<and> zs \<noteq> [] \<and> hex_digit d
      \<or> state p = NmeaLineTermination \<and> zs \<noteq> [] \<and> d = 0x0D
      \<or> state p = NmeaLineFeed \<and> zs = [] \<and> d = 0x0A \<and> message p = h @ [0x2A, x, y]"
  proof (cases "state p")
    case NmeaFindFirstComma
    then obtain s name where n: "message p = s # name" "list_all name_char name"
      using assms(2) by (auto simp: nmea_inv_def)
    then have e: "s # name @ d # zs = h @ [0x2A, x, y, 0x0D, 0x0A]"
      using eq NmeaFindFirstComma by (simp add: nmea_seen_def)
    note pre = sentence_name_prefix [OF h(2) e n(2)]
    have "zs \<noteq> []" using arg_cong [OF e, of length] pre(1) by auto
    then show ?thesis using pre n(1) NmeaFindFirstComma by auto
  next
    case NmeaFindAsterisk
    then have e: "message p @ d # zs = h @ 0x2A # [x, y, 0x0D, 0x0A]" and s: "nmea_sentence (message p)"
      using eq assms(2) by (simp_all add: nmea_seen_def nmea_inv_def)
    have pre: "length (message p) < length h \<or> d = 0x2A \<and> message p = h"
      by (rule sentence_body_prefix [OF s h(2) _ e]) simp
    then have "zs \<noteq> []" using arg_cong [OF e, of length] by auto
    then show ?thesis using pre NmeaFindAsterisk len by auto
  next
    case NmeaChecksumByte1
    then show ?thesis using tail [of "[]" "[]"] assms(2) h(3) by (simp add: nmea_inv_def nmea_seen_def)
  next
    case NmeaChecksumByte2
    then obtain a where "nmea_tail [a] p" using assms(2) by (auto simp: nmea_inv_def)
    then show ?thesis using tail [of "[a]" "[]"] h(4) NmeaChecksumByte2 by (simp add: nmea_seen_def)
  next
    case NmeaLineTermination
    then obtain a b where "nmea_tail [a, b] p" using assms(2) by (auto simp: nmea_inv_def)
    then show ?thesis using tail [of "[a, b]" "[]"] NmeaLineTermination by (simp add: nmea_seen_def)
  next
    case NmeaLineFeed
    then obtain a b where "nmea_tail [a, b] p" using assms(2) by (auto simp: nmea_inv_def)
    then show ?thesis using tail [of "[a, b]" "[0x0D]"] NmeaLineFeed by (simp add: nmea_seen_def)
  next
    case NmeaCarriageReturn
    then obtain a b where "nmea_tail [a, b] p" using assms(2) by (auto simp: nmea_inv_def)
    then show ?thesis using tail [of "[a, b]" "[0x0A]"] NmeaCarriageReturn by (simp add: nmea_seen_def)
  qed (use assms(2) in \<open>simp_all add: nmea_inv_def\<close>)
  then show ?thesis unfolding fin using h(1) by auto
qed

interpretation nmea0183:
  protocol NmeaPreamble nmea_inv nmea_seen nmea_shape nmea_valid "\<lambda>n f. length f < n" "\<lambda>_. False"
proof unfold_locales
  fix p :: parse and d p' res f
  assume p: "wf_parse p" "nmea_inv p" "unat (msg_length p) < length (buffer p)" "feed p d = Inr p'"
    and res: "res = call_state (state p') p' d"
  show "continues nmea_inv nmea_seen p d res \<or> (\<exists>m. finishes nmea_valid p m res)
      \<or> restarts nmea_valid p d res \<or> (False \<and> (\<exists>e. res = Inl e))"
  proof (cases rule: nmea_cases [OF p(2), of d])
    case 1 then show ?thesis using nmea_name [OF p] unfolding res by blast
  next
    case 2 then show ?thesis using nmea_comma [OF p] unfolding res by blast
  next
    case 3 then show ?thesis using nmea_name_restarts [OF p] unfolding res by blast
  next
    case 4 then show ?thesis using nmea_body [OF p] unfolding res by blast
  next
    case 5 then show ?thesis using nmea_body_restarts [OF p] unfolding res by blast
  next
    case 6 then show ?thesis using nmea_digit [OF p 6] unfolding res by presburger
  next
    case 7 then show ?thesis using nmea_line_continues [OF p] unfolding res by blast
  next
    case 8 then show ?thesis using nmea_line_restarts [OF p] unfolding res by blast
  next
    case 9 then show ?thesis using nmea_line_finishes [OF p] unfolding res by blast
  qed
  assume f: "nmea_shape f" "length f < length (buffer p)" "prefix (nmea_seen p @ [d]) f"
  note pre = nmea_prefix [OF p(1,2) f]
  show "if nmea_seen p @ [d] = f then finishes nmea_valid p f res
        else continues nmea_inv nmea_seen p d res"
  proof (cases "nmea_seen p @ [d] = f")
    case True
    then show ?thesis using nmea_line_finishes [OF p] pre unfolding res by simp
  next
    case False
    have "continues nmea_inv nmea_seen p d res"
      if "state p \<in> {NmeaChecksumByte1, NmeaChecksumByte2}" "hex_digit d"
      using nmea_digit [OF p that(1)] that(2) unfolding res by simp
    then show ?thesis
      using False pre nmea_name [OF p] nmea_comma [OF p] nmea_body [OF p] nmea_line_continues [OF p]
      unfolding res by (simp only: if_False) (elim disjE conjE; simp)
  qed
qed (simp_all add: nmea_inv_type nmea_computeCrc,
  auto simp: sempNmeaPreamble_def nmea_inv_def nmea_seen_def scratch_defs nmea_valid_def nmea_shape_def)

end
