(* ===== verification/Protocol_Unicore_Hash.thy ===== *)
theory Protocol_Unicore_Hash
  imports Line_Protocols
begin

text \<open>
  The Unicore sentence protocol against its specification. The sentence name selects the
  check: two digits of an exclusive or when it contains \<^verbatim>\<open>MODE\<close>, otherwise the eight
  digits of a CRC-32. The contract has a hazard: with the two-digit check
  Parse_Unicore_Hash.c appends the line end without looking at the space that is left.
\<close>

section \<open>Unicore sentences\<close>

abbreviation hash_sentence :: "u8 list \<Rightarrow> bool" where
  "hash_sentence \<equiv> sentence {0x23}"

definition hash_name_of :: "u8 list \<Rightarrow> u8 list" where
  "hash_name_of h = takeWhile (\<lambda>c. c \<noteq> 0x2C) (tl h)"

definition hash_digits :: "u8 list \<Rightarrow> nat" where
  "hash_digits h = (if occurs_in [0x4D, 0x4F, 0x44, 0x45] (hash_name_of h) then 2 else 8)"

definition hex_value :: "u8 list \<Rightarrow> u32" where
  "hex_value t =
     foldl (\<lambda>c d. push_bit 4 c OR word_of_int (semp_util_asciiToNibble (uint d))) 0 t"

definition hash_check :: "u8 list \<Rightarrow> u8 list \<Rightarrow> bool" where
  "hash_check h t \<longleftrightarrow>
     (if hash_digits h = 2 then line_checksum (t ! 0) (t ! 1) = xor_sum (tl h)
      else foldl (crc32_step semp_crc32Table) 0 (tl h) = hex_value t)"

definition hash_shape :: "u8 list \<Rightarrow> bool" where
  "hash_shape f \<longleftrightarrow>
     (\<exists>h t. f = h @ 0x2A # t @ [0x0D, 0x0A] \<and> hash_sentence h \<and> length t = hash_digits h
        \<and> list_all hex_digit t)"

definition hash_valid :: "u8 list \<Rightarrow> bool" where
  "hash_valid f \<longleftrightarrow>
     (\<exists>h t. f = h @ 0x2A # t @ [0x0D, 0x0A] \<and> hash_sentence h \<and> length t = hash_digits h
        \<and> list_all hex_digit t \<and> hash_check h t)"

lemma hash_name_of_eq:
  "list_all name_char name \<Longrightarrow> hash_name_of (s # name @ 0x2C # body) = name"
  unfolding hash_name_of_def list.sel
  by (subst takeWhile_append2) (auto simp: list_all_iff name_char_not)

lemma hash_name_of_append:
  "hash_sentence h \<Longrightarrow> hash_name_of (h @ t) = hash_name_of h"
  by (auto simp: sentence_def hash_name_of_eq)

lemma hash_digits_append: "hash_sentence h \<Longrightarrow> hash_digits (h @ t) = hash_digits h"
  by (simp add: hash_digits_def hash_name_of_append)

lemma hash_digits_cases: "hash_digits h = 2 \<or> hash_digits h = 8"
  by (simp add: hash_digits_def)

section \<open>The invariant of the protocol\<close>

definition hash_tail :: "u8 list \<Rightarrow> parse \<Rightarrow> bool" where
  "hash_tail t p \<longleftrightarrow>
     (\<exists>h. message p = h @ 0x2A # t \<and> hash_sentence h \<and> crc p = xor_sum (tl h)
        \<and> length h + UNICORE_HASH_BUFFER_OVERHEAD \<le> unat (buffer_length p) \<and> list_all hex_digit t
        \<and> unicoreHash_checksumBytes p = of_nat (hash_digits h) \<and> length t \<le> hash_digits h)"

definition hash_inv :: "parse \<Rightarrow> bool" where
  "hash_inv p \<longleftrightarrow>
     computeCrc p = None \<and>
     (case state p of
        UnicoreHashFindFirstComma \<Rightarrow>
          (\<exists>name. message p = 0x23 # name \<and> list_all name_char name
             \<and> length name = unat (unicoreHash_sentenceNameLength p) \<and> length name \<le> 15
             \<and> (\<forall>i < length name. unicoreHash_sentenceName p i = name ! i)
             \<and> crc p = xor_sum name)
      | UnicoreHashFindAsterisk \<Rightarrow>
          hash_sentence (message p) \<and> crc p = xor_sum (tl (message p))
          \<and> length (message p) + UNICORE_HASH_BUFFER_OVERHEAD \<le> unat (buffer_length p)
          \<and> unicoreHash_checksumBytes p = of_nat (hash_digits (message p))
      | UnicoreHashChecksumByte \<Rightarrow>
          (\<exists>t. hash_tail t p \<and> unicoreHash_bytesRemaining p \<noteq> 0
             \<and> unat (unicoreHash_checksumBytes p) = length t + unat (unicoreHash_bytesRemaining p))
      | UnicoreHashLineTermination \<Rightarrow> (\<exists>t. hash_tail t p \<and> unat (unicoreHash_checksumBytes p) = length t)
      | UnicoreHashLineFeed \<Rightarrow> (\<exists>t. hash_tail t p \<and> unat (unicoreHash_checksumBytes p) = length t)
      | UnicoreHashCarriageReturn \<Rightarrow> (\<exists>t. hash_tail t p \<and> unat (unicoreHash_checksumBytes p) = length t)
      | _ \<Rightarrow> False)"

definition hash_seen :: "parse \<Rightarrow> u8 list" where
  "hash_seen p =
     message p @ (case state p of UnicoreHashLineFeed \<Rightarrow> [0x0D] | UnicoreHashCarriageReturn \<Rightarrow> [0x0A]
                  | _ \<Rightarrow> [])"

text \<open>The states from which the line end may be written behind the buffer.\<close>

definition hash_hazard :: "parse \<Rightarrow> bool" where
  "hash_hazard p \<longleftrightarrow>
     state p \<in> {UnicoreHashLineTermination, UnicoreHashLineFeed, UnicoreHashCarriageReturn}
     \<and> unicoreHash_checksumBytes p = 2 \<and> length (buffer p) < length (message p) + 3"

lemma hash_inv_type: "hash_inv (p\<lparr>parser_type := t\<rparr>) = hash_inv p"
  by (cases "state p") (simp_all add: hash_inv_def hash_tail_def scratch_defs)

lemma hash_computeCrc: "hash_inv p \<Longrightarrow> computeCrc p \<noteq> Some UnicoreBinaryComputeCrc"
  by (simp add: hash_inv_def)

lemma hash_crc_fed:
  assumes "wf_parse p" and "hash_inv p" and "unat (msg_length p) < length (buffer p)"
    and "feed p d = Inr p'"
  shows "crc p' = crc p"
  using feedD(5) [OF assms(1,3) hash_computeCrc [OF assms(2)] assms(4)] assms(2)
  by (simp add: next_crc_def hash_inv_def)

lemma hash_name_step:
  assumes "wf_parse p" and "hash_inv p" and "unat (msg_length p) < length (buffer p)"
    and "feed p d = Inr p'" and "state p = UnicoreHashFindFirstComma"
    and "name_char d" and "length (message p) \<le> 15"
  shows "continues hash_inv hash_seen p d (call_state (state p') p' d)"
proof -
  note f = feedD [OF assms(1,3) hash_computeCrc [OF assms(2)] assms(4)]
  obtain name where c: "message p = 0x23 # name" "list_all name_char name"
      "length name = unat (unicoreHash_sentenceNameLength p)"
      "\<forall>i < length name. unicoreHash_sentenceName p i = name ! i"
      "crc p = xor_sum name" "computeCrc p = None"
    using assms(2,5) by (auto simp: hash_inv_def)
  define k where "k = unicoreHash_sentenceNameLength p"
  define q where "q = set_unicoreHash_sentenceNameLength (k + 1)
      (set_unicoreHash_sentenceName (unat k) d (p'\<lparr>crc := crc p XOR ucast d\<rparr>))"
  have k: "unat k < 15" "unicoreHash_sentenceNameLength p' = k" "k \<noteq> 15" "unat (k + 1) = Suc (unat k)"
    using c(1,3) assms(7) f(4) unat_Suc_below [of k 15] by (auto simp: k_def scratch_defs)
  have "d \<noteq> 0x2C" using assms(6) name_char_not by auto
  then have "call_state (state p') p' d = Inr (q, True)"
    using assms(5,6) f(3) k hash_crc_fed [OF assms(1-4)]
    by (auto simp: sempUnicoreHashFindFirstComma_def name_char_def hash_store_name_def q_def scratch_defs
        Let_def)
  moreover have "length name = unat k" using c(3) by (simp add: k_def)
  then have "\<forall>i < length (name @ [d]). unicoreHash_sentenceName q i = (name @ [d]) ! i"
    using c(4) f(4) k(1) by (auto simp: q_def scratch_defs nth_append less_Suc_eq)
  then have "hash_inv q" "hash_seen q = hash_seen p @ [d]"
    using c f k assms(5,6) by (auto simp: hash_inv_def hash_seen_def q_def scratch_defs k_def)
  moreover have "unchanged p q" "log q = log p"
    using f by (simp_all add: q_def unchanged_def scratch_defs)
  ultimately show ?thesis by (intro continuesI)
qed

lemma hash_name_eq:
  assumes "\<forall>i < length name. unicoreHash_sentenceName p i = name ! i" and "list_all name_char name"
    and "length name \<le> 15"
  shows "hash_name (set_unicoreHash_sentenceName (length name) 0 p) = name"
proof -
  let ?q = "set_unicoreHash_sentenceName (length name) 0 p"
  have 1: "map (unicoreHash_sentenceName ?q) [0..<length name] = name"
    using assms(1) by (intro nth_equalityI) (auto simp: scratch_defs)
  have "[0..<16] = [0..<length name] @ [length name..<16]"
    using assms(3) upt_add_eq_append [of 0 "length name" "16 - length name"] by simp
  moreover have "[length name..<16] = length name # [Suc (length name)..<16]"
    using assms(3) by (simp add: upt_conv_Cons)
  ultimately have "map (unicoreHash_sentenceName ?q) [0..<16]
      = name @ 0 # map (unicoreHash_sentenceName ?q) [Suc (length name)..<16]"
    using 1 by (simp add: scratch_defs)
  moreover have "\<not> name_char 0" by (simp add: name_char_def)
  then have "\<forall>c \<in> set name. c \<noteq> 0" using assms(2) by (auto simp: list_all_iff)
  ultimately show ?thesis by (simp add: hash_name_def takeWhile_append2)
qed

lemma hash_comma:
  assumes "wf_parse p" and "hash_inv p" and "unat (msg_length p) < length (buffer p)"
    and "feed p d = Inr p'" and "state p = UnicoreHashFindFirstComma"
    and "d = 0x2C" and "1 < length (message p)"
  shows "continues hash_inv hash_seen p d (call_state (state p') p' d)"
proof -
  note f = feedD [OF assms(1,3) hash_computeCrc [OF assms(2)] assms(4)]
  obtain name where c: "message p = 0x23 # name" "list_all name_char name"
      "length name = unat (unicoreHash_sentenceNameLength p)" "length name \<le> 15"
      "\<forall>i < length name. unicoreHash_sentenceName p i = name ! i"
      "crc p = xor_sum name" "computeCrc p = None"
    using assms(2,5) by (auto simp: hash_inv_def)
  define q where "q = set_unicoreHash_sentenceName (length name) 0 (p'\<lparr>crc := crc p XOR ucast d\<rparr>)"
  define r where "r = (set_unicoreHash_checksumBytes (of_nat (hash_digits (message p @ [d]))) q)
      \<lparr>state := UnicoreHashFindAsterisk\<rparr>"
  have k: "unicoreHash_sentenceNameLength p \<noteq> 0" "unicoreHash_sentenceNameLength p' = unicoreHash_sentenceNameLength p"
    using c(1,3,4) assms(7) f(4) by (auto simp: scratch_defs)
  have "hash_name q = name"
    unfolding q_def using c f(4) by (intro hash_name_eq) (simp_all add: scratch_defs)
  then have n: "of_nat (hash_digits (message p @ [d]))
      = (if occurs_in [0x4D, 0x4F, 0x44, 0x45] (hash_name q) then 2 else 8 :: u8)"
    using c(1) assms(6) hash_name_of_eq [OF c(2), where s = "0x23" and body = "[]"] by (simp add: hash_digits_def)
  have "call_state (state p') p' d = Inr (r, True)"
    unfolding r_def n using assms(5,6) f(3) k c(3,4) hash_crc_fed [OF assms(1-4)]
    by (simp add: sempUnicoreHashFindFirstComma_def hash_store_name_def q_def scratch_defs Let_def)
  moreover have "hash_sentence (message p @ [d])"
    using c assms(6,7) by (auto intro!: sentence_start)
  then have "hash_inv r" "hash_seen r = hash_seen p @ [d]"
    using c f assms(5,6) wf_parseD(1,2) [OF assms(1)]
    by (auto simp: hash_inv_def hash_seen_def q_def r_def scratch_defs UNICORE_HASH_BUFFER_OVERHEAD_def)
  moreover have "unchanged p r" "log r = log p"
    using f by (simp_all add: q_def r_def unchanged_def scratch_defs)
  ultimately show ?thesis by (intro continuesI)
qed

lemma hash_name_restarts:
  assumes "wf_parse p" and "hash_inv p" and "unat (msg_length p) < length (buffer p)"
    and "feed p d = Inr p'" and "state p = UnicoreHashFindFirstComma"
    and "\<not> (name_char d \<and> length (message p) \<le> 15)" and "\<not> (d = 0x2C \<and> 1 < length (message p))"
  shows "restarts hash_valid p d (call_state (state p') p' d)"
proof -
  note f = feedD [OF assms(1,3) hash_computeCrc [OF assms(2)] assms(4)]
  obtain name where c: "message p = 0x23 # name" "length name = unat (unicoreHash_sentenceNameLength p)"
      "length name \<le> 15"
    using assms(2,5) by (auto simp: hash_inv_def)
  have z: "unicoreHash_sentenceNameLength p = 0 \<longleftrightarrow> length (message p) = 1"
    using c(1,2) by (simp add: unat_eq_0)
  have k: "unicoreHash_sentenceNameLength p = 15 \<longleftrightarrow> \<not> length (message p) \<le> 15"
    using c by (auto simp: word_unat_eq_iff)
  define p1 where "p1 = p'\<lparr>crc := crc p XOR ucast d\<rparr>"
  define m where "m = (if name_char d then HashNameTooLong else HashInvalidNameCharacter)"
  have "call_state (state p') p' d = sempFirstByte (sempPrintf (printDebug p1) m p1) d"
    using assms(5-7) f(3,4) k z hash_crc_fed [OF assms(1-4)] c(1)
    by (auto simp: sempUnicoreHashFindFirstComma_def name_char_def p1_def m_def scratch_defs Let_def)
  moreover have "reports hash_valid p (sempPrintf (printDebug p1) m p1)"
    using f by (intro reports_quiet) (simp_all add: unchanged_def p1_def)
  ultimately show ?thesis unfolding restarts_def by blast
qed

lemma hash_body:
  assumes "wf_parse p" and "hash_inv p" and "unat (msg_length p) < length (buffer p)"
    and "feed p d = Inr p'" and "state p = UnicoreHashFindAsterisk"
    and "d = 0x2A \<or> Suc (length (message p)) + UNICORE_HASH_BUFFER_OVERHEAD \<le> length (buffer p)"
  shows "continues hash_inv hash_seen p d (call_state (state p') p' d)"
proof -
  note f = feedD [OF assms(1,3) hash_computeCrc [OF assms(2)] assms(4)]
  have c: "hash_sentence (message p)" "crc p = xor_sum (tl (message p))" "computeCrc p = None"
      "length (message p) + UNICORE_HASH_BUFFER_OVERHEAD \<le> unat (buffer_length p)"
      "unicoreHash_checksumBytes p = of_nat (hash_digits (message p))"
    using assms(2,5) by (simp_all add: hash_inv_def)
  have n: "unat (msg_length p') = Suc (length (message p))"
    using f(2,9) by (simp flip: length_message)
  have dg: "of_nat (hash_digits (message p)) \<noteq> (0 :: u8)" using hash_digits_cases [of "message p"] by auto
  define q where "q = (if d = 0x2A
      then (set_unicoreHash_bytesRemaining (unicoreHash_checksumBytes p) p')\<lparr>state := UnicoreHashChecksumByte\<rparr>
      else p'\<lparr>crc := crc p XOR ucast d\<rparr>)"
  have "call_state (state p') p' d = Inr (q, True)"
    using assms(5,6) f(3,4,8) n hash_crc_fed [OF assms(1-4)] wf_parseD(1) [OF assms(1)]
    by (auto simp: sempUnicoreHashFindAsterisk_def q_def Let_def scratch_defs)
  moreover have "hash_inv q"
    using c f assms(5,6) dg sentence_snoc [OF c(1), of d] sentence_nonempty [OF c(1), of "[d]"]
      hash_digits_append [OF c(1), of "[d]"] wf_parseD(1) [OF assms(1)] hash_crc_fed [OF assms(1-4)]
    by (auto simp: hash_inv_def hash_tail_def q_def scratch_defs)
  moreover have "hash_seen q = hash_seen p @ [d]" "unchanged p q" "log q = log p"
    using f assms(5) by (simp_all add: q_def unchanged_def hash_seen_def scratch_defs)
  ultimately show ?thesis by (intro continuesI)
qed

lemma hash_body_restarts:
  assumes "wf_parse p" and "hash_inv p" and "unat (msg_length p) < length (buffer p)"
    and "feed p d = Inr p'" and "state p = UnicoreHashFindAsterisk" and "d \<noteq> 0x2A"
    and "length (buffer p) < Suc (length (message p)) + UNICORE_HASH_BUFFER_OVERHEAD"
  shows "restarts hash_valid p d (call_state (state p') p' d)"
proof -
  note f = feedD [OF assms(1,3) hash_computeCrc [OF assms(2)] assms(4)]
  have n: "unat (msg_length p') = Suc (length (message p))"
    using f(2,9) by (simp flip: length_message)
  define p1 where "p1 = p'\<lparr>crc := crc p XOR ucast d\<rparr>"
  have "call_state (state p') p' d =
      sempFirstByte (sempPrintf (printDebug p1) HashSentenceTooLong p1) d"
    using assms(5-7) f(3,8) n hash_crc_fed [OF assms(1-4)] wf_parseD(1) [OF assms(1)]
    by (auto simp: sempUnicoreHashFindAsterisk_def p1_def Let_def)
  moreover have "reports hash_valid p (sempPrintf (printDebug p1) HashSentenceTooLong p1)"
    using f by (intro reports_quiet) (simp_all add: unchanged_def p1_def)
  ultimately show ?thesis unfolding restarts_def by blast
qed

lemma hash_digit:
  assumes "wf_parse p" and "hash_inv p" and "unat (msg_length p) < length (buffer p)"
    and "feed p d = Inr p'" and "state p = UnicoreHashChecksumByte"
  shows "if hex_digit d then continues hash_inv hash_seen p d (call_state (state p') p' d)
    else restarts hash_valid p d (call_state (state p') p' d)"
proof -
  note f = feedD [OF assms(1,3) hash_computeCrc [OF assms(2)] assms(4)]
  have crc: "crc p' = crc p" by (rule hash_crc_fed [OF assms(1-4)])
  define br where "br = unicoreHash_bytesRemaining p"
  define u where "u = set_unicoreHash_bytesRemaining (br - 1) p'"
  define q where "q = (if br - 1 = 0 then u\<lparr>state := UnicoreHashLineTermination\<rparr> else u)"
  have u: "wf_parse u" "message u = message p @ [d]" "unicoreHash_bytesRemaining u = br - 1"
    using f by (simp_all add: u_def scratch_defs)
  have rx: "buffer_back u 1 = Inr d" using buffer_back_last(1) [OF u(1,2)] .
  have st: "call_state (state p') p' d = sempUnicoreHashChecksumByte p' d"
    using assms(5) f(3) by simp
  have br: "unicoreHash_bytesRemaining p' = br" using f(4) by (simp add: br_def scratch_defs)
  have eq: "call_state (state p') p' d =
      (if hex_digit d then Inr (q, True)
       else sempFirstByte (sempPrintf (printDebug u) HashInvalidChecksumCharacter u) d)"
    unfolding st sempUnicoreHashChecksumByte_def Let_def br u_def [symmetric]
    using rx u(3) by (simp add: hex_digit_def q_def)
  show ?thesis
  proof (cases "hex_digit d")
    case True
    obtain t h where t: "message p = h @ 0x2A # t" "hash_sentence h" "crc p = xor_sum (tl h)"
        "length h + UNICORE_HASH_BUFFER_OVERHEAD \<le> unat (buffer_length p)" "list_all hex_digit t"
        "unicoreHash_checksumBytes p = of_nat (hash_digits h)" "length t \<le> hash_digits h"
        "br \<noteq> 0" "unat (unicoreHash_checksumBytes p) = length t + unat br"
      using assms(2,5) by (auto simp: hash_inv_def hash_tail_def br_def)
    have un: "unat (of_nat (hash_digits h) :: u8) = hash_digits h"
      using hash_digits_cases [of h] by auto
    have dec: "unat (br - 1) = unat br - 1" "0 < unat br"
      using t(8) by (simp_all add: unat_dec unat_gt_0)
    have len: "length (t @ [d]) \<le> hash_digits h" using t(6,9) un dec(2) by simp
    have "hash_tail (t @ [d]) q"
      unfolding hash_tail_def using t f crc True len
      by (intro exI [of _ h]) (auto simp: q_def u_def scratch_defs)
    moreover have "unat (unicoreHash_checksumBytes q) = length (t @ [d]) + unat (br - 1)"
      using t(9) dec f(4) by (simp add: q_def u_def scratch_defs)
    moreover have "computeCrc q = None" "unicoreHash_bytesRemaining q = br - 1"
        "state q = (if br - 1 = 0 then UnicoreHashLineTermination else UnicoreHashChecksumByte)"
      using assms(2,5) f(3,7) by (simp_all add: hash_inv_def q_def u_def scratch_defs)
    ultimately have "hash_inv q" by (auto simp: hash_inv_def split: if_splits)
    moreover have "hash_seen q = hash_seen p @ [d]" "unchanged p q" "log q = log p"
      using f assms(5) by (auto simp: unchanged_def hash_seen_def q_def u_def scratch_defs)
    ultimately show ?thesis using True eq by (simp add: continuesI)
  next
    case False
    moreover have "reports hash_valid p (sempPrintf (printDebug u) HashInvalidChecksumCharacter u)"
      using f by (intro reports_quiet) (simp_all add: unchanged_def u_def scratch_defs)
    ultimately show ?thesis using eq unfolding restarts_def by auto
  qed
qed

section \<open>The end of a sentence\<close>

lemma hash_crc_loop_eq:
  assumes "b = pre @ xs @ 0x2A # rest" and "xs \<noteq> []" and "0x2A \<notin> set xs"
  shows "hash_crc_loop b (length pre) c
    = Inr (length pre + length xs, foldl (crc32_step semp_crc32Table) c xs)"
  using assms
proof (induction xs arbitrary: pre c)
  case Nil
  then show ?case by simp
next
  case (Cons x xs)
  show ?case
  proof (cases xs)
    case Nil
    then show ?thesis
      using Cons.prems by (subst hash_crc_loop.simps) (simp add: nth_append Let_def)
  next
    case (Cons y ys)
    have "hash_crc_loop b (length (pre @ [x])) (crc32_step semp_crc32Table c x)
        = Inr (length (pre @ [x]) + length xs,
               foldl (crc32_step semp_crc32Table) (crc32_step semp_crc32Table c x) xs)"
      using Cons.prems Cons by (intro Cons.IH) auto
    then show ?thesis
      using Cons.prems Cons by (subst hash_crc_loop.simps) (simp add: nth_append Let_def)
  qed
qed

lemma hash_crc_rx_eq:
  assumes "b = pre @ t @ rest"
  shows "hash_crc_rx (length t) b (length pre) c
    = Inr (foldl (\<lambda>c d. push_bit 4 c OR word_of_int (semp_util_asciiToNibble (uint d))) c t)"
  using assms
proof (induction t arbitrary: pre c)
  case Nil
  then show ?case by simp
next
  case (Cons x t)
  then have "at b (int (length pre)) = Inr x" by (simp add: at_nat nth_append)
  then show ?case using Cons.IH [of "pre @ [x]"] Cons.prems by simp
qed

lemma buffer_split: "buffer p = message p @ drop (unat (msg_length p)) (buffer p)"
  by (simp add: message_def)

text \<open>The facts about a complete sentence that its check starts from.\<close>

definition hash_line :: "u8 list \<Rightarrow> u8 list \<Rightarrow> parse \<Rightarrow> bool" where
  "hash_line h t p \<longleftrightarrow>
     wf_parse p \<and> message p = h @ 0x2A # t \<and> hash_sentence h \<and> crc p = xor_sum (tl h)
     \<and> list_all hex_digit t \<and> length t = hash_digits h
     \<and> unicoreHash_checksumBytes p = of_nat (hash_digits h)"

lemma hash_valid_line:
  "hash_line h t p \<Longrightarrow> hash_valid (message p @ [0x0D, 0x0A]) \<longleftrightarrow> hash_check h t"
proof
  assume l: "hash_line h t p"
  show "hash_check h t \<Longrightarrow> hash_valid (message p @ [0x0D, 0x0A])"
    using l by (auto simp: hash_line_def hash_valid_def)
  assume "hash_valid (message p @ [0x0D, 0x0A])"
  then obtain h' t' where v: "message p @ [0x0D, 0x0A] = h' @ 0x2A # t' @ [0x0D, 0x0A]"
      "hash_sentence h'" "hash_check h' t'"
    unfolding hash_valid_def by blast
  have "h = h' \<and> t @ [0x0D, 0x0A] = t' @ [0x0D, 0x0A]"
    using v(1,2) l by (intro first_split) (auto simp: hash_line_def dest: sentence_no_star)
  then show "hash_check h t" using v(3) by simp
qed

lemma hash_validate_crc:
  assumes "hash_line h t p" and "hash_digits h = 8"
  obtains q acc where "sempUnicoreHashValidateCrc p = Inr q" "unchanged p q"
    "acc \<longleftrightarrow> hash_check h t \<and> length (message p) + 3 \<le> length (buffer p)"
    "delivered q = delivered p
       @ (if acc then [(ucast (parser_type p), message p @ [0x0D, 0x0A])] else [])"
proof -
  have l: "wf_parse p" "message p = h @ 0x2A # t" "hash_sentence h" "length t = 8"
    using assms by (simp_all add: hash_line_def)
  obtain x xs where h: "h = x # xs" "xs \<noteq> []" using l(3) by (auto simp: sentence_def)
  define rest where "rest = drop (unat (msg_length p)) (buffer p)"
  have b: "buffer p = h @ 0x2A # t @ rest" using buffer_split [of p] l(2) by (simp add: rest_def)
  have "0x2A \<notin> set xs" using sentence_no_star [OF l(3)] h by simp
  then have loop: "hash_crc_loop (buffer p) 1 0 = Inr (length h, foldl (crc32_step semp_crc32Table) 0 xs)"
    using hash_crc_loop_eq [of "buffer p" "[x]" xs "t @ rest" 0] h b by simp
  have rx: "hash_crc_rx 8 (buffer p) (Suc (length h)) 0 = Inr (hex_value t)"
    using hash_crc_rx_eq [of "buffer p" "h @ [0x2A]" t rest 0] b l(4) by (simp add: hex_value_def)
  have check: "hash_check h t \<longleftrightarrow> foldl (crc32_step semp_crc32Table) 0 xs = hex_value t"
    using assms(2) h(1) by (simp add: hash_check_def)
  have room: "unat (msg_length p) + UNICORE_HASH_BUFFER_OVERHEAD > unat (buffer_length p)
      \<longleftrightarrow> \<not> length (message p) + 3 \<le> length (buffer p)"
    using l(1) by (auto simp: UNICORE_HASH_BUFFER_OVERHEAD_def length_message wf_parseD(1))
  show thesis
  proof (cases "hash_check h t \<and> length (message p) + 3 \<le> length (buffer p)")
    case True
    then obtain q where "rbind (buffer_push p 0x0D) (\<lambda>p. rbind (buffer_push p 0x0A) (\<lambda>p.
        rbind (buffer_put p 0) (\<lambda>p. call_eom p))) = Inr q" "unchanged p q"
      "delivered q = delivered p @ [(ucast (parser_type p), message p @ [0x0D, 0x0A])]"
      using deliver_line [OF l(1)] by blast
    then show thesis
      using True loop rx check room
      by (intro that [of q True]) (simp_all add: sempUnicoreHashValidateCrc_def)
  next
    case False
    define q where "q = (if hash_check h t
        then (sempPrintf (printDebug p) HashSentenceTooLong p)\<lparr>state := FirstByte\<rparr>
        else sempPrintf (printDebug p) HashBadCrc p)"
    then show thesis
      using False loop rx check room l(1)
      by (intro that [of q False]) (auto simp: sempUnicoreHashValidateCrc_def unchanged_def)
  qed
qed

lemma hash_validate:
  assumes "hash_line h t p"
  obtains (checked) q acc where "sempUnicoreHashValidateChecksum p = Inr q" "unchanged p q"
      "badCrc p = None \<longrightarrow> acc \<longrightarrow> hash_check h t"
      "hash_check h t \<and> (hash_digits h = 2 \<or> length (message p) + 3 \<le> length (buffer p)) \<longrightarrow> acc"
      "acc \<longrightarrow> length (message p) + 3 \<le> length (buffer p)"
      "delivered q = delivered p
         @ (if acc then [(ucast (parser_type p), message p @ [0x0D, 0x0A])] else [])"
    | (overflow) "sempUnicoreHashValidateChecksum p = Inl OutOfBounds" "hash_digits h = 2"
      "length (buffer p) < length (message p) + 3"
proof (cases "hash_digits h = 8")
  case True
  obtain q acc where q: "sempUnicoreHashValidateCrc p = Inr q" "unchanged p q"
    "acc \<longleftrightarrow> hash_check h t \<and> length (message p) + 3 \<le> length (buffer p)"
    "delivered q = delivered p
       @ (if acc then [(ucast (parser_type p), message p @ [0x0D, 0x0A])] else [])"
    by (rule hash_validate_crc [OF assms True])
  moreover have "sempUnicoreHashValidateChecksum p = sempUnicoreHashValidateCrc p"
    using assms True by (simp add: sempUnicoreHashValidateChecksum_def hash_line_def)
  ultimately show thesis using True by (intro checked [of q acc]) simp_all
next
  case False
  then have two: "hash_digits h = 2" using hash_digits_cases [of h] by simp
  have l: "wf_parse p" "message p = h @ 0x2A # t" "crc p = xor_sum (tl h)" "length t = 2"
      "unicoreHash_checksumBytes p = 2"
    using assms two by (simp_all add: hash_line_def)
  then obtain x y where t: "t = [x, y]" by (auto simp: numeral_2_eq_2 length_Suc_conv)
  have rx: "buffer_back p 2 = Inr x" "buffer_back p 1 = Inr y"
    using buffer_back_last(2) [OF l(1), of "h @ [0x2A]" x y]
      buffer_back_last(1) [OF l(1), of "h @ [0x2A, x]" y] l(2) t by simp_all
  have check: "hash_check h t \<longleftrightarrow> line_checksum x y = crc p"
    using two l(3) t by (simp add: hash_check_def)
  obtain p1 acc where a: "crc_accepted (line_checksum x y = crc p) p = (p1, acc)" by fastforce
  then obtain es where es: "p1 = p\<lparr>log := log p @ es\<rparr>" "eoms es = []"
      "badCrc p = None \<longrightarrow> acc = (line_checksum x y = crc p)" "line_checksum x y = crc p \<longrightarrow> acc"
    by (rule crc_accepted_cases)
  have p1: "wf_parse p1" "message p1 = message p" "buffer p1 = buffer p" "unchanged p p1"
    using l(1) es(1) by (simp_all add: unchanged_def)
  have eq: "sempUnicoreHashValidateChecksum p =
      (if acc then rbind (buffer_push p1 0x0D) (\<lambda>p. rbind (buffer_push p 0x0A) (\<lambda>p.
         rbind (buffer_put p 0) (\<lambda>p. call_eom p)))
       else Inr (sempPrintf (printDebug p1) HashBadChecksum p1))"
    using rx a l(5) by (simp add: sempUnicoreHashValidateChecksum_def line_checksum_def Let_def)
  consider "\<not> acc" | "acc" "length (message p) + 3 \<le> length (buffer p)"
    | "acc" "length (buffer p) < length (message p) + 3" by fastforce
  then show thesis
  proof cases
    case 1
    then show thesis
      using eq es check p1 by (intro checked [of "sempPrintf (printDebug p1) HashBadChecksum p1" False])
        (simp_all add: unchanged_def)
  next
    case 2
    then have room: "length (message p1) + 3 \<le> length (buffer p1)" using p1(2,3) by simp
    obtain q where q: "rbind (buffer_push p1 0x0D) (\<lambda>p. rbind (buffer_push p 0x0A) (\<lambda>p.
        rbind (buffer_put p 0) (\<lambda>p. call_eom p))) = Inr q" "unchanged p1 q"
      "delivered q = delivered p1 @ [(ucast (parser_type p1), message p1 @ [0x0D, 0x0A])]"
      by (rule deliver_line [OF p1(1) room])
    then show thesis
      using 2 eq es check p1(2) unchanged_trans [OF p1(4) q(2)] by (intro checked [of q True]) simp_all
  next
    case 3
    then show thesis
      using eq deliver_line_overflow [OF p1(1)] p1(2,3) two by (intro overflow) simp_all
  qed
qed

lemma hash_line_fed:
  assumes "wf_parse p" and "hash_inv p" and "unat (msg_length p) < length (buffer p)"
    and "feed p d = Inr p'"
    and "state p \<in> {UnicoreHashLineTermination, UnicoreHashLineFeed, UnicoreHashCarriageReturn}"
  defines "u \<equiv> p'\<lparr>msg_length := msg_length p' - 1\<rparr>"
  obtains h t where "hash_line h t u" "unchanged p u" "message u = message p" "log u = log p"
    "hash_tail t u" "unicoreHash_checksumBytes u = unicoreHash_checksumBytes p"
    "unat (unicoreHash_checksumBytes p) = length t" "hash_tail t p" "message p = h @ 0x2A # t"
proof -
  note f = feedD [OF assms(1,3) hash_computeCrc [OF assms(2)] assms(4)]
  obtain t h where h: "message p = h @ 0x2A # t" "hash_sentence h" "crc p = xor_sum (tl h)"
      "length h + UNICORE_HASH_BUFFER_OVERHEAD \<le> unat (buffer_length p)" "list_all hex_digit t"
      "unicoreHash_checksumBytes p = of_nat (hash_digits h)" "length t \<le> hash_digits h"
      "unat (unicoreHash_checksumBytes p) = length t"
    using assms(2,5) by (auto simp: hash_inv_def hash_tail_def)
  have len: "length t = hash_digits h" using h(6,8) hash_digits_cases [of h] by auto
  have u: "unchanged p' u" "message u = message p" using unget [OF f(9,2)] by (simp_all add: u_def)
  then have "unchanged p u" using unchanged_trans [OF f(1)] by blast
  moreover have "wf_parse u" "buffer_length u = buffer_length p" "log u = log p" "crc u = crc p"
      "unicoreHash_checksumBytes u = unicoreHash_checksumBytes p"
    using u(1) f hash_crc_fed [OF assms(1-4)] by (auto simp: unchanged_def u_def scratch_defs)
  ultimately show thesis
    using h u(2) len by (intro that [of h t]) (auto simp: hash_tail_def hash_line_def)
qed

lemma hash_not_valid_Nil: "\<not> hash_valid []"
  by (simp add: hash_valid_def)

lemma hash_line_continues:
  assumes "wf_parse p" and "hash_inv p" and "unat (msg_length p) < length (buffer p)"
    and "feed p d = Inr p'" and "state p = UnicoreHashLineTermination" and "d = 0x0D \<or> d = 0x0A"
  shows "continues hash_inv hash_seen p d (call_state (state p') p' d)"
proof -
  note f = feedD [OF assms(1,3) hash_computeCrc [OF assms(2)] assms(4)]
  define u where "u = p'\<lparr>msg_length := msg_length p' - 1\<rparr>"
  define q where "q = u\<lparr>state := (if d = 0x0D then UnicoreHashLineFeed else UnicoreHashCarriageReturn)\<rparr>"
  obtain t where u: "unchanged p u" "message u = message p" "log u = log p" "hash_tail t u"
      "unicoreHash_checksumBytes u = unicoreHash_checksumBytes p"
      "unat (unicoreHash_checksumBytes p) = length t"
    by (rule hash_line_fed [OF assms(1-4)]) (simp_all add: u_def assms(5))
  have "call_state (state p') p' d = Inr (q, True)"
    using assms(5,6) f(3) by (auto simp: sempUnicoreHashLineTermination_def u_def q_def Let_def)
  moreover have "computeCrc u = None" using u(1) assms(2) by (simp add: unchanged_def hash_inv_def)
  then have "hash_inv q" using u(4-6) by (auto simp: hash_inv_def hash_tail_def q_def scratch_defs)
  moreover have "hash_seen q = hash_seen p @ [d]" "unchanged p q" "log q = log p"
    using u assms(5,6) by (auto simp: q_def unchanged_def hash_seen_def)
  ultimately show ?thesis by (intro continuesI)
qed

text \<open>The check of the sentence that the last byte, taken back, has ended.\<close>

lemma hash_line_checked:
  assumes "wf_parse p" and "hash_inv p" and "unat (msg_length p) < length (buffer p)"
    and "feed p d = Inr p'"
    and "state p \<in> {UnicoreHashLineTermination, UnicoreHashLineFeed, UnicoreHashCarriageReturn}"
  defines "u \<equiv> p'\<lparr>msg_length := msg_length p' - 1\<rparr>"
    and "m \<equiv> message p @ [0x0D, 0x0A]"
  obtains (checked) q acc where "sempUnicoreHashValidateChecksum u = Inr q" "unchanged p q"
      "badCrc p = None \<longrightarrow> acc \<longrightarrow> hash_valid m"
      "hash_valid m \<and> length (message p) + 3 \<le> length (buffer p) \<longrightarrow> acc"
      "delivered q = delivered p @ (if acc then [(ucast (parser_type p), m)] else [])"
    | (overflow) "sempUnicoreHashValidateChecksum u = Inl OutOfBounds" "hash_hazard p"
proof -
  obtain h t where u: "hash_line h t u" "unchanged p u" "message u = message p" "log u = log p"
      "unicoreHash_checksumBytes u = unicoreHash_checksumBytes p"
    by (rule hash_line_fed [OF assms(1-5)]) (simp add: u_def)
  have v: "hash_valid m \<longleftrightarrow> hash_check h t" using hash_valid_line [OF u(1)] u(3) by (simp add: m_def)
  have same: "badCrc u = badCrc p" "parser_type u = parser_type p" "length (buffer u) = length (buffer p)"
    using u(2) unchanged_length [OF assms(1) u(2)] by (simp_all add: unchanged_def)
  show thesis
  proof (rule hash_validate [OF u(1)])
    fix q acc
    assume q: "sempUnicoreHashValidateChecksum u = Inr q" "unchanged u q"
      "badCrc u = None \<longrightarrow> acc \<longrightarrow> hash_check h t"
      "hash_check h t \<and> (hash_digits h = 2 \<or> length (message u) + 3 \<le> length (buffer u)) \<longrightarrow> acc"
      "delivered q = delivered u
         @ (if acc then [(ucast (parser_type u), message u @ [0x0D, 0x0A])] else [])"
    show thesis
      using q v same u(3,4) unchanged_trans [OF u(2) q(2)] by (intro checked [of q acc]) (simp_all add: m_def)
  next
    assume o: "sempUnicoreHashValidateChecksum u = Inl OutOfBounds" "hash_digits h = 2"
      "length (buffer u) < length (message u) + 3"
    have "unicoreHash_checksumBytes p = 2" using u(1,5) o(2) by (simp add: hash_line_def)
    then show thesis using o same(3) u(3) assms(5) by (intro overflow) (simp_all add: hash_hazard_def)
  qed
qed

lemma hash_line_restarts:
  assumes "wf_parse p" and "hash_inv p" and "unat (msg_length p) < length (buffer p)"
    and "feed p d = Inr p'"
    and "state p = UnicoreHashLineTermination \<and> d \<noteq> 0x0D \<and> d \<noteq> 0x0A
      \<or> state p = UnicoreHashLineFeed \<and> d \<noteq> 0x0A \<or> state p = UnicoreHashCarriageReturn \<and> d \<noteq> 0x0D"
  shows "restarts hash_valid p d (call_state (state p') p' d)
    \<or> hash_hazard p \<and> (\<exists>e. call_state (state p') p' d = Inl e)"
proof -
  note f = feedD [OF assms(1,3) hash_computeCrc [OF assms(2)] assms(4)]
  define u where "u = p'\<lparr>msg_length := msg_length p' - 1\<rparr>"
  have eq: "call_state (state p') p' d = rbind (sempUnicoreHashValidateChecksum u) (\<lambda>p. sempFirstByte p d)"
    using assms(5) f(3)
    by (auto simp: sempUnicoreHashLineTermination_def sempUnicoreHashLineFeed_def
        sempUnicoreHashCarriageReturn_def u_def Let_def)
  show ?thesis
  proof (rule hash_line_checked [OF assms(1-4)], unfold u_def [symmetric])
    fix q acc
    assume q: "sempUnicoreHashValidateChecksum u = Inr q" "unchanged p q"
      "badCrc p = None \<longrightarrow> acc \<longrightarrow> hash_valid (message p @ [0x0D, 0x0A])"
      "delivered q = delivered p
         @ (if acc then [(ucast (parser_type p), message p @ [0x0D, 0x0A])] else [])"
    have "reports hash_valid p q"
      using q(2-4) by (cases acc) (auto intro: reports_one reports_quiet)
    then show ?thesis using eq q(1) by (auto simp: restarts_def)
  qed (use assms(5) eq in auto)
qed

lemma hash_line_finishes:
  assumes "wf_parse p" and "hash_inv p" and "unat (msg_length p) < length (buffer p)"
    and "feed p d = Inr p'"
    and "state p = UnicoreHashLineFeed \<and> d = 0x0A \<or> state p = UnicoreHashCarriageReturn \<and> d = 0x0D"
  defines "m \<equiv> message p @ [0x0D, 0x0A]"
  shows "(\<exists>m. finishes hash_valid p m (call_state (state p') p' d))
      \<or> hash_hazard p \<and> (\<exists>e. call_state (state p') p' d = Inl e)"
    and "length (message p) + 3 \<le> length (buffer p) \<Longrightarrow> finishes hash_valid p m (call_state (state p') p' d)"
proof -
  note f = feedD [OF assms(1,3) hash_computeCrc [OF assms(2)] assms(4)]
  define u where "u = p'\<lparr>msg_length := msg_length p' - 1\<rparr>"
  have eq: "call_state (state p') p' d
      = rbind (sempUnicoreHashValidateChecksum u) (\<lambda>p. Inr (p\<lparr>state := FirstByte\<rparr>, True))"
    using assms(5) f(3)
    by (auto simp: sempUnicoreHashLineFeed_def sempUnicoreHashCarriageReturn_def u_def Let_def)
  have st: "state p \<in> {UnicoreHashLineTermination, UnicoreHashLineFeed, UnicoreHashCarriageReturn}"
    using assms(5) by auto
  consider (checked) q acc where "sempUnicoreHashValidateChecksum u = Inr q" "unchanged p q"
      "badCrc p = None \<longrightarrow> acc \<longrightarrow> hash_valid m"
      "hash_valid m \<and> length (message p) + 3 \<le> length (buffer p) \<longrightarrow> acc"
      "delivered q = delivered p @ (if acc then [(ucast (parser_type p), m)] else [])"
    | (overflow) "sempUnicoreHashValidateChecksum u = Inl OutOfBounds" "hash_hazard p"
    unfolding u_def m_def by (rule hash_line_checked [OF assms(1-4) st])
  then have *: "(\<exists>m. finishes hash_valid p m (call_state (state p') p' d))
        \<and> (length (message p) + 3 \<le> length (buffer p) \<longrightarrow>
             finishes hash_valid p m (call_state (state p') p' d))
      \<or> hash_hazard p \<and> (\<exists>e. call_state (state p') p' d = Inl e)"
  proof cases
    case checked
    have un: "unchanged p (q\<lparr>state := FirstByte\<rparr>)" by (rule unchanged_idle(1) [OF checked(2)])
    have res: "call_state (state p') p' d = Inr (q\<lparr>state := FirstByte\<rparr>, True)" using eq checked(1) by simp
    have fin: "finishes hash_valid p n (call_state (state p') p' d)"
      if "acc \<Longrightarrow> n = m" "badCrc p = None \<longrightarrow> acc = hash_valid n" "hash_valid n \<longrightarrow> acc" for n
      unfolding finishes_def res using that un checked(5)
      by (intro exI [of _ "q\<lparr>state := FirstByte\<rparr>"] exI [of _ True] exI [of _ acc]) auto
    show ?thesis
    proof (cases "hash_valid m \<longrightarrow> acc")
      case True
      then have "finishes hash_valid p m (call_state (state p') p' d)"
        using checked(3) by (intro fin) auto
      then show ?thesis by blast
    next
      case False
      then have "finishes hash_valid p [] (call_state (state p') p' d)"
        by (intro fin) (auto simp: hash_not_valid_Nil)
      then show ?thesis using False checked(4) by blast
    qed
  next
    case overflow
    then show ?thesis using eq by simp
  qed
  then show "(\<exists>m. finishes hash_valid p m (call_state (state p') p' d))
      \<or> hash_hazard p \<and> (\<exists>e. call_state (state p') p' d = Inl e)" by blast
  show "length (message p) + 3 \<le> length (buffer p) \<Longrightarrow> finishes hash_valid p m (call_state (state p') p' d)"
    using * by (auto simp: hash_hazard_def)
qed

section \<open>The contract\<close>

lemma hash_cases:
  assumes "hash_inv p"
  obtains "state p = UnicoreHashFindFirstComma" "name_char d" "length (message p) \<le> 15"
    | "state p = UnicoreHashFindFirstComma" "d = 0x2C" "1 < length (message p)"
    | "state p = UnicoreHashFindFirstComma" "\<not> (name_char d \<and> length (message p) \<le> 15)"
        "\<not> (d = 0x2C \<and> 1 < length (message p))"
    | "state p = UnicoreHashFindAsterisk"
        "d = 0x2A \<or> Suc (length (message p)) + UNICORE_HASH_BUFFER_OVERHEAD \<le> length (buffer p)"
    | "state p = UnicoreHashFindAsterisk" "d \<noteq> 0x2A"
        "length (buffer p) < Suc (length (message p)) + UNICORE_HASH_BUFFER_OVERHEAD"
    | "state p = UnicoreHashChecksumByte"
    | "state p = UnicoreHashLineTermination" "d = 0x0D \<or> d = 0x0A"
    | "state p = UnicoreHashLineTermination \<and> d \<noteq> 0x0D \<and> d \<noteq> 0x0A
        \<or> state p = UnicoreHashLineFeed \<and> d \<noteq> 0x0A \<or> state p = UnicoreHashCarriageReturn \<and> d \<noteq> 0x0D"
    | "state p = UnicoreHashLineFeed \<and> d = 0x0A \<or> state p = UnicoreHashCarriageReturn \<and> d = 0x0D"
proof -
  have "state p \<in> {UnicoreHashFindFirstComma, UnicoreHashFindAsterisk, UnicoreHashChecksumByte,
      UnicoreHashLineTermination, UnicoreHashLineFeed, UnicoreHashCarriageReturn}"
    using assms by (cases "state p") (simp_all add: hash_inv_def)
  then show thesis using that not_less by blast
qed

lemma hash_tail_prefix:
  assumes "hash_tail t p" and "hash_sentence h" and "message p @ us = h @ 0x2A # w"
  shows "t @ us = w" and "message p = h @ 0x2A # t"
proof -
  obtain h' where h': "message p = h' @ 0x2A # t" "hash_sentence h'"
    using assms(1) by (auto simp: hash_tail_def)
  have "h' = h \<and> t @ us = w"
    using sentence_no_star [OF h'(2)] sentence_no_star [OF assms(2)] assms(3) h'(1)
    by (intro first_split) simp_all
  then show "t @ us = w" "message p = h @ 0x2A # t" using h'(1) by simp_all
qed

lemma hash_tail_digits:
  assumes "hash_tail t p" and "message p = h @ 0x2A # t" and "hash_sentence h"
  shows "unat (unicoreHash_checksumBytes p) = hash_digits h"
proof -
  obtain h' where h': "message p = h' @ 0x2A # t" "unicoreHash_checksumBytes p = of_nat (hash_digits h')"
    using assms(1) by (auto simp: hash_tail_def)
  then have "h' = h" using assms(2) by simp
  then show ?thesis using h'(2) hash_digits_cases [of h] by auto
qed

lemma hash_prefix:
  assumes "wf_parse p" and "hash_inv p" and "hash_shape f" and "length f \<le> length (buffer p) + 1"
    and "prefix (hash_seen p @ [d]) f"
  shows "if hash_seen p @ [d] = f
    then state p = UnicoreHashLineFeed \<and> d = 0x0A \<and> f = message p @ [0x0D, 0x0A]
    else state p = UnicoreHashFindFirstComma \<and> (name_char d \<and> length (message p) \<le> 15 \<or> d = 0x2C \<and> 1 < length (message p))
      \<or> state p = UnicoreHashFindAsterisk
         \<and> (d = 0x2A \<or> Suc (length (message p)) + UNICORE_HASH_BUFFER_OVERHEAD \<le> length (buffer p))
      \<or> state p = UnicoreHashChecksumByte \<and> hex_digit d
      \<or> state p = UnicoreHashLineTermination \<and> d = 0x0D"
proof -
  obtain zs where f: "f = hash_seen p @ d # zs" using assms(5) by (auto simp: prefix_def)
  obtain h c where h: "f = h @ 0x2A # c @ [0x0D, 0x0A]" "hash_sentence h" "length c = hash_digits h"
      "list_all hex_digit c"
    using assms(3) unfolding hash_shape_def by blast
  have len: "length h + UNICORE_HASH_BUFFER_OVERHEAD \<le> length (buffer p)"
    using assms(4) h(1,3) hash_digits_cases [of h] by (auto simp: UNICORE_HASH_BUFFER_OVERHEAD_def)
  have fin: "hash_seen p @ [d] = f \<longleftrightarrow> zs = []" by (auto simp: f)
  have eq: "hash_seen p @ d # zs = h @ 0x2A # c @ [0x0D, 0x0A]" using f h(1) by simp
  have tail: "t @ vs @ d # zs = c @ [0x0D, 0x0A] \<and> message p = h @ 0x2A # t
      \<and> unat (unicoreHash_checksumBytes p) = length c"
    if "hash_tail t p" "hash_seen p = message p @ vs" for t vs
    using hash_tail_prefix [OF that(1) h(2), of "vs @ d # zs"] hash_tail_digits [OF that(1) _ h(2)]
      eq that(2) h(3) by simp
  have ends: "t = c \<and> vs @ d # zs = [0x0D, 0x0A] \<and> message p = h @ 0x2A # c"
    if "hash_tail t p" "unat (unicoreHash_checksumBytes p) = length t" "hash_seen p = message p @ vs" for t vs
    using tail [OF that(1,3)] that(2) append_eq_append_conv [of t c] by auto
  have "state p = UnicoreHashFindFirstComma \<and> zs \<noteq> []
        \<and> (name_char d \<and> length (message p) \<le> 15 \<or> d = 0x2C \<and> 1 < length (message p))
      \<or> state p = UnicoreHashFindAsterisk \<and> zs \<noteq> []
         \<and> (d = 0x2A \<or> Suc (length (message p)) + UNICORE_HASH_BUFFER_OVERHEAD \<le> length (buffer p))
      \<or> state p = UnicoreHashChecksumByte \<and> zs \<noteq> [] \<and> hex_digit d
      \<or> state p = UnicoreHashLineTermination \<and> zs \<noteq> [] \<and> d = 0x0D
      \<or> state p = UnicoreHashLineFeed \<and> zs = [] \<and> d = 0x0A \<and> message p = h @ 0x2A # c"
  proof (cases "state p")
    case UnicoreHashFindFirstComma
    then obtain name where n: "message p = 0x23 # name" "list_all name_char name"
      using assms(2) by (auto simp: hash_inv_def)
    then have e: "0x23 # name @ d # zs = h @ 0x2A # c @ [0x0D, 0x0A]"
      using eq UnicoreHashFindFirstComma by (simp add: hash_seen_def)
    note pre = sentence_name_prefix [OF h(2) e n(2)]
    have "zs \<noteq> []" using arg_cong [OF e, of length] pre(1) by auto
    then show ?thesis using pre n(1) UnicoreHashFindFirstComma by auto
  next
    case UnicoreHashFindAsterisk
    then have e: "message p @ d # zs = h @ 0x2A # c @ [0x0D, 0x0A]" and s: "hash_sentence (message p)"
      using eq assms(2) by (simp_all add: hash_seen_def hash_inv_def)
    have pre: "length (message p) < length h \<or> d = 0x2A \<and> message p = h"
      by (rule sentence_body_prefix [OF s h(2) _ e]) simp
    then have "zs \<noteq> []" using arg_cong [OF e, of length] by auto
    then show ?thesis using pre UnicoreHashFindAsterisk len by auto
  next
    case UnicoreHashChecksumByte
    then obtain t where t: "hash_tail t p" "unicoreHash_bytesRemaining p \<noteq> 0"
        "unat (unicoreHash_checksumBytes p) = length t + unat (unicoreHash_bytesRemaining p)"
      using assms(2) by (auto simp: hash_inv_def)
    have "0 < unat (unicoreHash_bytesRemaining p)" using t(2) by (simp add: unat_gt_0)
    then have e: "t @ d # zs = c @ [0x0D, 0x0A]" "length t < length c"
      using tail [OF t(1), of "[]"] t(3) UnicoreHashChecksumByte by (auto simp: hash_seen_def)
    have "d = (c @ [0x0D, 0x0A]) ! length t" using e(1) by (metis nth_append_length)
    then have "d = c ! length t" using e(2) by (simp add: nth_append)
    moreover have "zs \<noteq> []" using arg_cong [OF e(1), of length] e(2) by auto
    ultimately have "d = c ! length t" "zs \<noteq> []" by simp_all
    then show ?thesis using h(4) e(2) UnicoreHashChecksumByte by (simp add: list_all_length)
  next
    case UnicoreHashLineTermination
    then obtain t where "hash_tail t p" "unat (unicoreHash_checksumBytes p) = length t"
      using assms(2) by (auto simp: hash_inv_def)
    then show ?thesis using ends [of t "[]"] UnicoreHashLineTermination by (simp add: hash_seen_def)
  next
    case UnicoreHashLineFeed
    then obtain t where "hash_tail t p" "unat (unicoreHash_checksumBytes p) = length t"
      using assms(2) by (auto simp: hash_inv_def)
    then show ?thesis using ends [of t "[0x0D]"] UnicoreHashLineFeed by (simp add: hash_seen_def)
  next
    case UnicoreHashCarriageReturn
    then obtain t where "hash_tail t p" "unat (unicoreHash_checksumBytes p) = length t"
      using assms(2) by (auto simp: hash_inv_def)
    then show ?thesis using ends [of t "[0x0A]"] UnicoreHashCarriageReturn by (simp add: hash_seen_def)
  qed (use assms(2) in \<open>simp_all add: hash_inv_def\<close>)
  then show ?thesis unfolding fin using h(1) assms(4) by auto
qed

lemma hash_prefix_continues:
  assumes p: "wf_parse p" "hash_inv p" "unat (msg_length p) < length (buffer p)" "feed p d = Inr p'"
    and f: "hash_shape f" "length f \<le> length (buffer p) + 1" "prefix (hash_seen p @ [d]) f" "hash_seen p @ [d] \<noteq> f"
  shows "continues hash_inv hash_seen p d (call_state (state p') p' d)"
proof -
  have "continues hash_inv hash_seen p d (call_state (state p') p' d)"
    if "state p = UnicoreHashChecksumByte" "hex_digit d"
    using hash_digit [OF p that(1)] that(2) by simp
  then show ?thesis
    using f(4) hash_prefix [OF p(1,2) f(1-3)] hash_name_step [OF p] hash_comma [OF p] hash_body [OF p]
      hash_line_continues [OF p]
    by (simp only: if_False) (elim disjE conjE; simp)
qed

text \<open>
  A sentence with a two-digit checksum that fills the buffer: the line end is written behind
  the end of the buffer.
\<close>

lemma hash_overflow_last:
  assumes p: "wf_parse p" "hash_inv p" "unat (msg_length p) < length (buffer p)" "feed p d = Inr p'"
    and l: "state p = UnicoreHashLineFeed" "d = 0x0A" "hash_valid (message p @ [0x0D, 0x0A])"
      "hash_digits (message p) = 2" "length (buffer p) < length (message p) + 3"
  shows "call_state (state p') p' d = Inl OutOfBounds"
proof -
  note f = feedD [OF p(1,3) hash_computeCrc [OF p(2)] p(4)]
  define u where "u = p'\<lparr>msg_length := msg_length p' - 1\<rparr>"
  have eq: "call_state (state p') p' d
      = rbind (sempUnicoreHashValidateChecksum u) (\<lambda>p. Inr (p\<lparr>state := FirstByte\<rparr>, True))"
    using l(1,2) f(3) by (simp add: sempUnicoreHashLineFeed_def u_def Let_def)
  obtain h t where u: "hash_line h t u" "unchanged p u" "message u = message p"
    by (rule hash_line_fed [OF p]) (simp_all add: u_def l(1))
  have "hash_check h t" using hash_valid_line [OF u(1)] u(3) l(3) by simp
  moreover have "hash_digits h = 2" using u(1,3) l(4) hash_digits_append [of h] by (auto simp: hash_line_def)
  moreover have "length (buffer u) < length (message u) + 3"
    using l(5) u(3) unchanged_length [OF p(1) u(2)] by simp
  ultimately have "sempUnicoreHashValidateChecksum u = Inl OutOfBounds"
    by (cases rule: hash_validate [OF u(1)]) auto
  then show ?thesis using eq by simp
qed

interpretation unicore_sentence:
  protocol UnicoreHashPreamble hash_inv hash_seen hash_shape hash_valid "\<lambda>n f. length f < n" hash_hazard
proof unfold_locales
  fix p :: parse and d p' res f
  assume p: "wf_parse p" "hash_inv p" "unat (msg_length p) < length (buffer p)" "feed p d = Inr p'"
    and res: "res = call_state (state p') p' d"
  show "continues hash_inv hash_seen p d res \<or> (\<exists>m. finishes hash_valid p m res)
      \<or> restarts hash_valid p d res \<or> (hash_hazard p \<and> (\<exists>e. res = Inl e))"
  proof (cases rule: hash_cases [OF p(2), of d])
    case 1 then show ?thesis using hash_name_step [OF p] unfolding res by blast
  next
    case 2 then show ?thesis using hash_comma [OF p] unfolding res by blast
  next
    case 3 then show ?thesis using hash_name_restarts [OF p] unfolding res by blast
  next
    case 4 then show ?thesis using hash_body [OF p] unfolding res by blast
  next
    case 5 then show ?thesis using hash_body_restarts [OF p] unfolding res by blast
  next
    case 6 then show ?thesis using hash_digit [OF p 6] unfolding res by presburger
  next
    case 7 then show ?thesis using hash_line_continues [OF p] unfolding res by blast
  next
    case 8 then show ?thesis using hash_line_restarts [OF p] unfolding res by blast
  next
    case 9 then show ?thesis using hash_line_finishes(1) [OF p] unfolding res by blast
  qed
  assume f: "hash_shape f" "length f < length (buffer p)" "prefix (hash_seen p @ [d]) f"
  show "if hash_seen p @ [d] = f then finishes hash_valid p f res
        else continues hash_inv hash_seen p d res"
  proof (cases "hash_seen p @ [d] = f")
    case True
    then show ?thesis
      using hash_line_finishes(2) [OF p] hash_prefix [OF p(1,2) f(1) _ f(3)] f(2) unfolding res by auto
  next
    case False
    then show ?thesis using hash_prefix_continues [OF p f(1) _ f(3)] f(2) unfolding res by simp
  qed
qed (simp_all add: hash_inv_type hash_computeCrc,
  auto simp: sempUnicoreHashPreamble_def hash_inv_def hash_seen_def scratch_defs hash_valid_def hash_shape_def)

lemma hash_overflow:
  assumes "wf_parse p" and "hash_inv p" and "hash_valid f" and "hash_digits f = 2"
    and "length (buffer p) \<le> length f" and "length f \<le> length (buffer p) + 1"
    and "hash_seen p @ bs = f" and "bs \<noteq> []"
  shows "run sempParseNextByte p bs = Inl OutOfBounds"
  using assms
proof (induction bs arbitrary: p)
  case Nil
  then show ?case by simp
next
  case (Cons d bs)
  note sh = unicore_sentence.valid_shape [OF Cons.prems(3)]
  have pre: "prefix (hash_seen p @ [d]) f" using Cons.prems(7) by (auto simp: prefix_def)
  note st = hash_prefix [OF Cons.prems(1,2) sh Cons.prems(6) pre]
  have len: "length (message p) + 2 \<le> length f"
  proof (cases "bs = []")
    case True
    then show ?thesis using st Cons.prems(7) by simp
  next
    case False
    then have "hash_seen p = message p" using st Cons.prems(7) by (auto simp: hash_seen_def split: if_splits)
    then show ?thesis using False arg_cong [OF Cons.prems(7), of length] by (cases bs) auto
  qed
  then have room: "unat (msg_length p) < length (buffer p)"
    using Cons.prems(1,6) by (simp add: length_message)
  obtain p' where p': "feed p d = Inr p'"
    using feed_eq [OF Cons.prems(1) room hash_computeCrc [OF Cons.prems(2)]] by blast
  have eq: "sempParseNextByte p d = rbind (call_state (state p') p' d) (\<lambda>(p, _). Inr p)"
    using room Cons.prems(1) p' by (simp add: sempParseNextByte_def wf_parse_def word_le_nat_alt)
  note p = Cons.prems(1,2) room p'
  show ?case
  proof (cases "bs = []")
    case True
    then have l: "state p = UnicoreHashLineFeed" "d = 0x0A" "f = message p @ [0x0D, 0x0A]"
      using st Cons.prems(7) by simp_all
    obtain h t where "message p = h @ 0x2A # t" "hash_sentence h"
      using Cons.prems(2) l(1) by (auto simp: hash_inv_def hash_tail_def)
    then have "hash_digits (message p) = hash_digits f"
      unfolding l(3) using hash_digits_append [of h] by simp
    then have "call_state (state p') p' d = Inl OutOfBounds"
      using l Cons.prems(3-5) by (intro hash_overflow_last [OF p]) simp_all
    then show ?thesis using eq True by simp
  next
    case False
    then obtain q b where q: "call_state (state p') p' d = Inr (q, b)" "unchanged p q" "hash_inv q"
        "hash_seen q = hash_seen p @ [d]"
      using hash_prefix_continues [OF p sh Cons.prems(6) pre] Cons.prems(7) unfolding continues_def by auto
    have "wf_parse q" "length (buffer q) = length (buffer p)"
      using unchanged_length [OF Cons.prems(1) q(2)] q(2) by (simp_all add: unchanged_def)
    then have "run sempParseNextByte q bs = Inl OutOfBounds"
      using Cons.IH [of q] q(3,4) Cons.prems(3-7) False by simp
    then show ?thesis using eq q(1) by simp
  qed
qed

end
