(* ===== verification/Message_Correct.thy ===== *)
theory Message_Correct
  imports Protocol_UBLOX Protocol_RTCM Protocol_Custom Protocol_NMEA Protocol_Unicore_Hash
begin

text \<open>
  The parser as a whole: from the contracts of the five protocols follow, for every table
  of them and every byte stream, the invariant of the parser, the absence of faults, that
  only messages of the protocols are delivered, and that all of them are.
\<close>

section \<open>The contract of a table entry\<close>

fun pinv_of :: "SEMP_PREAMBLE \<Rightarrow> parse \<Rightarrow> bool" where
  "pinv_of NmeaPreamble = nmea_inv"
| "pinv_of RtcmPreamble = rtcm_inv"
| "pinv_of UbloxPreamble = ublox_inv"
| "pinv_of UnicoreBinaryPreamble = (\<lambda>_. False)"
| "pinv_of UnicoreHashPreamble = hash_inv"
| "pinv_of CustomPreamble = custom_inv"

fun seen_of :: "SEMP_PREAMBLE \<Rightarrow> parse \<Rightarrow> u8 list" where
  "seen_of NmeaPreamble = nmea_seen"
| "seen_of UnicoreHashPreamble = hash_seen"
| "seen_of _ = message"

fun valid_of :: "SEMP_PREAMBLE \<Rightarrow> u8 list \<Rightarrow> bool" where
  "valid_of NmeaPreamble = nmea_valid"
| "valid_of RtcmPreamble = rtcm_valid"
| "valid_of UbloxPreamble = ublox_valid"
| "valid_of UnicoreBinaryPreamble = (\<lambda>_. False)"
| "valid_of UnicoreHashPreamble = hash_valid"
| "valid_of CustomPreamble = custom_valid"

fun shape_of :: "SEMP_PREAMBLE \<Rightarrow> u8 list \<Rightarrow> bool" where
  "shape_of NmeaPreamble = nmea_shape"
| "shape_of RtcmPreamble = rtcm_shape"
| "shape_of UbloxPreamble = ublox_shape"
| "shape_of UnicoreBinaryPreamble = (\<lambda>_. False)"
| "shape_of UnicoreHashPreamble = hash_shape"
| "shape_of CustomPreamble = custom_shape"

text \<open>The sentence protocols need one byte more than the sentence, for the zero.\<close>

fun fits_of :: "SEMP_PREAMBLE \<Rightarrow> nat \<Rightarrow> u8 list \<Rightarrow> bool" where
  "fits_of NmeaPreamble = (\<lambda>n f. length f < n)"
| "fits_of UnicoreHashPreamble = (\<lambda>n f. length f < n)"
| "fits_of _ = (\<lambda>n f. length f \<le> n)"

fun hazard_of :: "SEMP_PREAMBLE \<Rightarrow> parse \<Rightarrow> bool" where
  "hazard_of UnicoreHashPreamble = hash_hazard"
| "hazard_of _ = (\<lambda>_. False)"

lemma protocol_entry:
  "r \<noteq> UnicoreBinaryPreamble \<Longrightarrow>
    protocol r (pinv_of r) (seen_of r) (shape_of r) (valid_of r) (fits_of r) (hazard_of r)"
  by (cases r) (simp_all add: ubx.protocol_axioms rtcm3.protocol_axioms
      custom_message.protocol_axioms nmea0183.protocol_axioms unicore_sentence.protocol_axioms)

section \<open>The invariant of the parser\<close>

definition selected :: "SEMP_PREAMBLE \<Rightarrow> parse \<Rightarrow> bool" where
  "selected r p \<longleftrightarrow>
     unat (parser_type p) < length (parsers_table p)
     \<and> parsers_table p ! unat (parser_type p) = r"

definition parser_ready :: "parse \<Rightarrow> bool" where
  "parser_ready p \<longleftrightarrow>
     wf_parse p \<and> UnicoreBinaryPreamble \<notin> set (parsers_table p)
     \<and> computeCrc p \<noteq> Some UnicoreBinaryComputeCrc"

definition parser_inv :: "parse \<Rightarrow> bool" where
  "parser_inv p \<longleftrightarrow>
     parser_ready p \<and> (state p = FirstByte \<or> (\<exists>r. selected r p \<and> pinv_of r p))"

text \<open>
  A delivery is genuine when the message is one of the protocol at the reported index;
  \<open>sound\<close> says that all deliveries since an earlier state are.
\<close>

definition genuine :: "SEMP_PREAMBLE list \<Rightarrow> u16 \<times> u8 list \<Rightarrow> bool" where
  "genuine tab = (\<lambda>(t, m). unat t < length tab \<and> valid_of (tab ! unat t) m)"

definition sound :: "parse \<Rightarrow> parse \<Rightarrow> bool" where
  "sound p q \<longleftrightarrow>
     parsers_table q = parsers_table p \<and> badCrc q = badCrc p \<and> buffer_length q = buffer_length p
     \<and> (\<exists>ds. delivered q = delivered p @ ds \<and> (badCrc p = None \<longrightarrow> list_all (genuine (parsers_table p)) ds))"

lemma sound_quiet:
  "parsers_table q = parsers_table p \<Longrightarrow> badCrc q = badCrc p \<Longrightarrow> buffer_length q = buffer_length p \<Longrightarrow>
    delivered q = delivered p \<Longrightarrow> sound p q"
  by (simp add: sound_def)

lemma sound_trans: "sound p q \<Longrightarrow> sound q r \<Longrightarrow> sound p r"
  by (auto simp: sound_def)

lemma unat_u8_less: "unat (w :: u8) < 256"
  using unsigned_less [of w] by simp

lemma unat_ucast_8_16: "unat (ucast (w :: u8) :: u16) = unat w"
proof -
  have "unat w < 2 ^ 16" by (rule less_trans [OF unat_u8_less]) simp
  then show ?thesis by (simp add: unsigned_ucast_eq take_bit_nat_eq_self_iff)
qed

lemma sound_reports:
  assumes "selected r p" and "reports (valid_of r) p q"
  shows "sound p q"
proof -
  have "\<exists>ms. delivered q = delivered p @ map (Pair (ucast (parser_type p))) ms
      \<and> (badCrc p = None \<longrightarrow> list_all (valid_of r) ms)" and u: "unchanged p q"
    using assms(2) by (auto simp: reports_def)
  then obtain ms where ms: "delivered q = delivered p @ map (Pair (ucast (parser_type p))) ms"
      "badCrc p = None \<longrightarrow> list_all (valid_of r) ms" by (elim exE conjE)
  have "genuine (parsers_table p) (ucast (parser_type p), m) = valid_of r m" for m
    using assms(1) by (simp add: genuine_def selected_def unat_ucast_8_16)
  then have "badCrc p = None \<longrightarrow>
      list_all (genuine (parsers_table p)) (map (Pair (ucast (parser_type p))) ms)"
    using ms(2) by (simp add: list_all_iff)
  then show ?thesis using ms(1) u by (simp add: sound_def unchanged_def)
qed

section \<open>The first byte of a message\<close>

lemma unat_of_nat_8: "n < 256 \<Longrightarrow> unat (of_nat n :: u8) = n"
  by (simp add: unat_of_nat take_bit_eq_mod)

text \<open>\<open>started\<close> is the parser after the byte has been offered to the table.\<close>

definition started :: "parse \<Rightarrow> u8 \<Rightarrow> parse \<Rightarrow> bool" where
  "started p d q \<longleftrightarrow>
     parser_ready q \<and> log q = log p \<and> buffer_length q = buffer_length p
     \<and> parsers_table q = parsers_table p \<and> parsers_count q = parsers_count p \<and> badCrc q = badCrc p
     \<and> (case first_match (parsers_table p) d of
          None \<Rightarrow> state q = FirstByte
        | Some k \<Rightarrow> parser_type q = of_nat k \<and> selected (parsers_table p ! k) q
            \<and> pinv_of (parsers_table p ! k) q \<and> seen_of (parsers_table p ! k) q = [d])"

lemma sempFirstByte_started:
  assumes "parser_ready p"
  obtains q b where "sempFirstByte p d = Inr (q, b)" "started p d q"
proof (cases "first_match (parsers_table p) d")
  case None
  have wf: "wf_parse p" using assms by (simp add: parser_ready_def)
  show thesis
    using None assms sempFirstByte_eq [OF wf, of d]
    by (intro that [of "(restart p d)\<lparr>state := FirstByte\<rparr>" False])
      (simp_all add: started_def parser_ready_def)
next
  case (Some k)
  have wf: "wf_parse p" using assms by (simp add: parser_ready_def)
  define r where "r = parsers_table p ! k"
  have k: "k < length (parsers_table p)" "d \<in> first_bytes r"
    using first_match_Some [OF Some] by (simp_all add: r_def)
  have "r \<in> set (parsers_table p)" using k(1) by (simp add: r_def)
  then have "r \<noteq> UnicoreBinaryPreamble" using assms by (auto simp: parser_ready_def)
  then have pr: "protocol r (pinv_of r) (seen_of r) (shape_of r) (valid_of r) (fits_of r) (hazard_of r)"
    by (rule protocol_entry)
  obtain q where q: "call_preamble r (restart p d) d = Inr (q, True)" "pinv_of r q" "seen_of r q = [d]"
    using protocol.start [OF pr wf_parse_restart [OF wf] k(2) message_restart [OF wf]] by auto
  have frame: "same_frame (restart p d) q" using entry.taken [OF q(1)] by simp
  note same = same_frameD [OF frame]
  have "wf_parse q" using wf_parse_restart [OF wf, of d] same by (simp add: wf_parse_def)
  moreover have "computeCrc q \<noteq> Some UnicoreBinaryComputeCrc" by (rule protocol.pinv_crc [OF pr q(2)])
  moreover have "unat (of_nat k :: u8) = k"
    using k(1) wf unat_u8_less [of "parsers_count p"] by (intro unat_of_nat_8) (simp add: wf_parse_def)
  ultimately have "started p d (q\<lparr>parser_type := of_nat k\<rparr>)"
    using Some k(1) q(2,3) same assms protocol.pinv_type [OF pr] protocol.seen_type [OF pr]
    by (simp add: started_def parser_ready_def selected_def r_def [symmetric])
  moreover have "sempFirstByte p d = Inr (q\<lparr>parser_type := of_nat k\<rparr>, True)"
    using sempFirstByte_eq [OF wf, of d] Some q(1) by (simp add: r_def)
  ultimately show thesis using that by blast
qed

lemma started_inv: "started p d q \<Longrightarrow> parser_inv q \<and> sound p q"
  by (auto simp: started_def parser_inv_def sound_def split: option.splits)

section \<open>One byte\<close>

definition hazard_state :: "parse \<Rightarrow> bool" where
  "hazard_state p \<longleftrightarrow> selected UnicoreHashPreamble p \<and> hash_hazard p"

lemma reports_ready:
  assumes "parser_ready p" and "reports valid p q"
  shows "parser_ready q"
  using assms by (simp add: parser_ready_def reports_def unchanged_def)

text \<open>A parser that waits for a message offers every byte to the table.\<close>

lemma idle_step:
  assumes "parser_ready p" and "state p = FirstByte"
  obtains q p0 where "sempParseNextByte p d = Inr q" "started p0 d q" "parser_ready p0"
    "delivered p0 = delivered p" "parsers_table p0 = parsers_table p" "badCrc p0 = badCrc p"
    "buffer_length p0 = buffer_length p" "parsers_count p0 = parsers_count p"
proof (cases "buffer_length p \<le> msg_length p")
  case True
  define p0 where "p0 = sempPrintf (printError p) MessageTooLong p"
  have r: "parser_ready p0" using assms(1) by (simp add: parser_ready_def p0_def)
  obtain q b where "sempFirstByte p0 d = Inr (q, b)" "started p0 d q"
    by (rule sempFirstByte_started [OF r])
  then show thesis
    using True r by (intro that [of q p0]) (simp_all add: sempParseNextByte_def p0_def)
next
  case False
  have wf: "wf_parse p" and c: "computeCrc p \<noteq> Some UnicoreBinaryComputeCrc"
    using assms(1) by (simp_all add: parser_ready_def)
  have room: "unat (msg_length p) < length (buffer p)"
    using False wf by (simp add: wf_parse_def word_le_nat_alt)
  obtain p0 where p0: "feed p d = Inr p0" using feed_eq [OF wf room c] by blast
  note f = feedD [OF wf room c p0]
  have r: "parser_ready p0" using assms(1) f by (simp add: parser_ready_def unchanged_def)
  obtain q b where "sempFirstByte p0 d = Inr (q, b)" "started p0 d q"
    by (rule sempFirstByte_started [OF r])
  then show thesis
    using False r p0 f assms(2)
    by (intro that [of q p0]) (simp_all add: sempParseNextByte_def unchanged_def)
qed

theorem parser_step:
  assumes "parser_inv p"
  shows "(\<exists>q. sempParseNextByte p d = Inr q \<and> parser_inv q \<and> sound p q)
    \<or> (hazard_state p \<and> (\<exists>e. sempParseNextByte p d = Inl e))"
proof (cases "state p = FirstByte")
  case True
  have r: "parser_ready p" using assms by (simp add: parser_inv_def)
  obtain q p0 where q: "sempParseNextByte p d = Inr q" "started p0 d q"
    "delivered p0 = delivered p" "parsers_table p0 = parsers_table p" "badCrc p0 = badCrc p"
    "buffer_length p0 = buffer_length p"
    by (rule idle_step [OF r True])
  have "sound p p0" using q(3-6) by (intro sound_quiet)
  then show ?thesis using q(1) started_inv [OF q(2)] sound_trans by blast
next
  case False
  then obtain r where r: "selected r p" "pinv_of r p" and ready: "parser_ready p"
    using assms by (auto simp: parser_inv_def)
  then have "r \<in> set (parsers_table p)" by (auto simp: selected_def)
  then have "r \<noteq> UnicoreBinaryPreamble" using ready by (auto simp: parser_ready_def)
  then have pr: "protocol r (pinv_of r) (seen_of r) (shape_of r) (valid_of r) (fits_of r) (hazard_of r)"
    by (rule protocol_entry)
  have wf: "wf_parse p" using ready by (simp add: parser_ready_def)
  consider q where "sempParseNextByte p d = Inr q" "reports (valid_of r) p q"
      "pinv_of r q \<or> state q = FirstByte"
    | q where "sempParseNextByte p d = rbind (sempFirstByte q d) (\<lambda>(q, _). Inr q)"
      "reports (valid_of r) p q"
    | e where "hazard_of r p" "sempParseNextByte p d = Inl e"
    using protocol.parse_step [OF pr wf r(2), of d] by blast
  then show ?thesis
  proof cases
    case 1
    have "selected r q" using r(1) 1(2) by (simp add: selected_def reports_def unchanged_def)
    then have "parser_inv q" using 1(3) reports_ready [OF ready 1(2)] by (auto simp: parser_inv_def)
    then show ?thesis using 1(1) sound_reports [OF r(1) 1(2)] by blast
  next
    case 2
    obtain q' b where "sempFirstByte q d = Inr (q', b)" "started q d q'"
      by (rule sempFirstByte_started [OF reports_ready [OF ready 2(2)]])
    then show ?thesis
      using 2(1) started_inv [of q d q'] sound_trans [OF sound_reports [OF r(1) 2(2)]] by auto
  next
    case 3
    then have "r = UnicoreHashPreamble" by (cases r) simp_all
    then show ?thesis using 3 r(1) by (auto simp: hazard_state_def)
  qed
qed

section \<open>Byte streams\<close>

text \<open>
  Without the Unicore sentence protocol there is no hazard: the parser is a
  \<open>byte_machine\<close>.
\<close>

definition safe_inv :: "parse \<Rightarrow> bool" where
  "safe_inv p \<longleftrightarrow> parser_inv p \<and> UnicoreHashPreamble \<notin> set (parsers_table p)"

lemma hazard_state_table: "hazard_state p \<Longrightarrow> UnicoreHashPreamble \<in> set (parsers_table p)"
  using nth_mem [of "unat (parser_type p)" "parsers_table p"]
  by (auto simp: hazard_state_def selected_def)

lemma safe_step:
  assumes "safe_inv p"
  shows "\<exists>q. sempParseNextByte p d = Inr q \<and> safe_inv q"
  using parser_step [of p d] assms hazard_state_table [of p]
  by (auto simp: safe_inv_def sound_def)

interpretation safe_parser: byte_machine sempParseNextByte safe_inv
  using safe_step by unfold_locales

lemma run_sound:
  assumes "parser_inv p" and "run sempParseNextByte p bs = Inr q"
  shows "parser_inv q \<and> sound p q"
  using assms
proof (induction bs arbitrary: p)
  case Nil
  then show ?case by (simp add: sound_quiet)
next
  case (Cons b bs)
  then obtain p1 where p1: "sempParseNextByte p b = Inr p1" "run sempParseNextByte p1 bs = Inr q"
    by (auto simp: rbind_Inr_iff)
  then have "parser_inv p1" "sound p p1" using parser_step [OF Cons.prems(1), of b] by auto
  with Cons.IH [OF _ p1(2)] show ?case using sound_trans by blast
qed

text \<open>With it, the only way to a fault is through a hazard state.\<close>

lemma run_fault:
  assumes "parser_inv p" and "run sempParseNextByte p bs = Inl e"
  shows "\<exists>as b cs q. bs = as @ b # cs \<and> run sempParseNextByte p as = Inr q \<and> hazard_state q
    \<and> sempParseNextByte q b = Inl e"
  using assms
proof (induction bs arbitrary: p)
  case Nil
  then show ?case by simp
next
  case (Cons b bs)
  show ?case
  proof (cases "sempParseNextByte p b")
    case (Inl e')
    then have "hazard_state p" "e' = e" using parser_step [OF Cons.prems(1), of b] Cons.prems(2) by auto
    then show ?thesis using Inl by (intro exI [of _ "[]"] exI [of _ b] exI [of _ bs] exI [of _ p]) simp
  next
    case (Inr p1)
    then have "parser_inv p1" "run sempParseNextByte p1 bs = Inl e"
      using parser_step [OF Cons.prems(1), of b] Cons.prems(2) by auto
    then obtain as c cs q where "bs = as @ c # cs" "run sempParseNextByte p1 as = Inr q"
        "hazard_state q" "sempParseNextByte q c = Inl e"
      using Cons.IH by blast
    then show ?thesis
      using Inr by (intro exI [of _ "b # as"] exI [of _ c] exI [of _ cs] exI [of _ q]) simp
  qed
qed

section \<open>Streams of messages\<close>

text \<open>
  What a sender puts on the line: bytes that no protocol of the table starts with, and
  messages of the protocols, some of them corrupted in a way that leaves their shape. A
  message is found when the first entry of the table that takes its first byte is the
  entry of its protocol, and when the buffer is long enough. It is delivered exactly when
  its checksum is right.
\<close>

datatype item = Noise u8 | Frame nat "u8 list"

fun item_bytes :: "item \<Rightarrow> u8 list" where
  "item_bytes (Noise b) = [b]"
| "item_bytes (Frame k f) = f"

fun item_deliveries :: "SEMP_PREAMBLE list \<Rightarrow> item \<Rightarrow> (u16 \<times> u8 list) list" where
  "item_deliveries tab (Noise b) = []"
| "item_deliveries tab (Frame k f) = (if valid_of (tab ! k) f then [(of_nat k, f)] else [])"

fun item_ok :: "SEMP_PREAMBLE list \<Rightarrow> nat \<Rightarrow> item \<Rightarrow> bool" where
  "item_ok tab n (Noise b) \<longleftrightarrow> first_match tab b = None"
| "item_ok tab n (Frame k f) \<longleftrightarrow>
     f \<noteq> [] \<and> first_match tab (hd f) = Some k \<and> shape_of (tab ! k) f \<and> fits_of (tab ! k) n f"

definition waiting :: "SEMP_PREAMBLE list \<Rightarrow> nat \<Rightarrow> parse \<Rightarrow> bool" where
  "waiting tab n p \<longleftrightarrow>
     parser_ready p \<and> state p = FirstByte \<and> parsers_table p = tab \<and> length (buffer p) = n
     \<and> badCrc p = None"

lemma ucast_of_nat_8_16: "k < 256 \<Longrightarrow> (ucast (of_nat k :: u8) :: u16) = of_nat k"
  by (simp add: word_unat_eq_iff unat_ucast_8_16 unat_of_nat_8 unat_of_nat_16)

text \<open>The first byte of a message puts the parser in the hands of its protocol.\<close>

lemma frame_started:
  assumes "waiting tab n p" and "first_match tab d = Some k"
  obtains q where "sempParseNextByte p d = Inr q" "pinv_of (tab ! k) q" "seen_of (tab ! k) q = [d]"
    "(ucast (parser_type q) :: u16) = of_nat k" "delivered q = delivered p" "parser_ready q"
    "parsers_table q = tab" "length (buffer q) = n" "badCrc q = None" "wf_parse q"
    "tab ! k \<noteq> UnicoreBinaryPreamble"
proof -
  have p: "parser_ready p" "state p = FirstByte" "parsers_table p = tab" "length (buffer p) = n"
      "badCrc p = None"
    using assms(1) by (simp_all add: waiting_def)
  obtain q p0 where q: "sempParseNextByte p d = Inr q" "started p0 d q" "delivered p0 = delivered p"
      "parsers_table p0 = parsers_table p" "buffer_length p0 = buffer_length p" "badCrc p0 = badCrc p"
    by (rule idle_step [OF p(1,2)])
  have s: "pinv_of (tab ! k) q" "seen_of (tab ! k) q = [d]" "parser_type q = of_nat k" "log q = log p0"
      "parser_ready q" "parsers_table q = tab" "buffer_length q = buffer_length p" "badCrc q = None"
    using q(2,4,5,6) p(3,5) assms(2) by (simp_all add: started_def)
  have k: "k < length tab" using first_match_Some [OF assms(2)] by simp
  have "tab ! k \<noteq> UnicoreBinaryPreamble"
    using p(1,3) nth_mem [OF k] by (auto simp: parser_ready_def)
  moreover have "wf_parse q" "length (buffer q) = n"
    using s(5,7) p(1,4) by (simp_all add: parser_ready_def wf_parse_def)
  moreover have "k < 256"
    using k p(1,3) unat_u8_less [of "parsers_count p"] by (simp add: parser_ready_def wf_parse_def)
  ultimately show thesis using q(1,3) s by (intro that [of q]) (simp_all add: ucast_of_nat_8_16)
qed

lemma frame_decided:
  assumes "waiting tab n p" and "item_ok tab n (Frame k f)"
  shows "\<exists>q. run sempParseNextByte p f = Inr q \<and> waiting tab n q
    \<and> delivered q = delivered p @ item_deliveries tab (Frame k f)"
proof -
  obtain d ds where f: "f = d # ds" "first_match tab d = Some k" "shape_of (tab ! k) f"
      "fits_of (tab ! k) n f"
    using assms(2) by (cases f) auto
  obtain q where q: "sempParseNextByte p d = Inr q" "pinv_of (tab ! k) q" "seen_of (tab ! k) q = [d]"
    "(ucast (parser_type q) :: u16) = of_nat k" "delivered q = delivered p" "parser_ready q"
    "parsers_table q = tab" "length (buffer q) = n" "badCrc q = None" "wf_parse q"
    and r: "tab ! k \<noteq> UnicoreBinaryPreamble"
    by (rule frame_started [OF assms(1) f(2)])
  note pr = protocol_entry [OF r]
  have "ds \<noteq> []" using protocol.shape_length [OF pr f(3)] f(1) by auto
  then obtain res q' b where q': "finishes (valid_of (tab ! k)) q f res" "res = Inr (q', b)"
      "run sempParseNextByte q ds = Inr q'"
    using protocol.frame_rest [OF pr q(10,2) f(3), of ds] f(1,4) q(3,8) by auto
  then have "unchanged q q'" "state q' = FirstByte"
      "delivered q' = delivered q @ (if valid_of (tab ! k) f then [(of_nat k, f)] else [])"
    using q(4,9) by (auto simp: finishes_def)
  then show ?thesis
    using q q'(3) f(1) unchanged_length [OF q(10), of q']
    by (simp add: waiting_def parser_ready_def unchanged_def)
qed

lemma noise_ignored:
  assumes "waiting tab n p" and "first_match tab b = None"
  shows "\<exists>q. sempParseNextByte p b = Inr q \<and> waiting tab n q \<and> delivered q = delivered p"
proof -
  have p: "parser_ready p" "state p = FirstByte" "parsers_table p = tab" "length (buffer p) = n"
      "badCrc p = None"
    using assms(1) by (simp_all add: waiting_def)
  obtain q p0 where q: "sempParseNextByte p b = Inr q" "started p0 b q" "delivered p0 = delivered p"
      "parsers_table p0 = parsers_table p" "buffer_length p0 = buffer_length p" "badCrc p0 = badCrc p"
    by (rule idle_step [OF p(1,2)])
  then show ?thesis
    using assms(2) p by (auto simp: started_def waiting_def parser_ready_def wf_parse_def)
qed

interpretation item_stream:
  framed_machine sempParseNextByte "waiting tab n" "item_ok tab n" item_bytes
    "item_deliveries tab" "\<lambda>p. delivered p" for tab n
proof unfold_locales
  fix p m
  assume "waiting tab n p" "item_ok tab n m"
  then show "\<exists>t. run sempParseNextByte p (item_bytes m) = Inr t \<and> waiting tab n t
      \<and> delivered t = delivered p @ item_deliveries tab m"
    using frame_decided noise_ignored [of tab n p]
    by (cases m) (simp_all del: item_ok.simps(2) item_deliveries.simps(2), metis rbind_simps(2))
qed

end
