(* ===== verification/Message_Setup.thy ===== *)
theory Message_Setup
  imports Message_Correct
begin

text \<open>
  The life of a parser in my_parser/Message_Parser.c: allocation, \<^verbatim>\<open>sempBeginParser\<close>
  with its argument checks, \<^verbatim>\<open>sempStopParser\<close>, names and the output switches. The
  memory allocator is not part of the repository: \<open>malloc\<close> is a parameter that returns
  the bytes of a block or fails, and what is relied on is that a block has the size that
  was asked for. The size of the parse structure depends on the target and is the
  parameter \<open>psize\<close>.
\<close>

section \<open>Output\<close>

definition sempPrintln :: "callback option \<Rightarrow> diag \<Rightarrow> event list \<Rightarrow> event list" where
  "sempPrintln cb m es = (case cb of None \<Rightarrow> es | Some a \<Rightarrow> es @ [Print a m])"

fun sempDisableDebugOutput :: "parse option \<Rightarrow> parse option" where
  "sempDisableDebugOutput None = None"
| "sempDisableDebugOutput (Some p) = Some (p\<lparr>printDebug := None\<rparr>)"

fun sempEnableDebugOutput :: "parse option \<Rightarrow> callback option \<Rightarrow> parse option" where
  "sempEnableDebugOutput None print = None"
| "sempEnableDebugOutput (Some p) print = Some (p\<lparr>printDebug := print\<rparr>)"

fun sempDisableErrorOutput :: "parse option \<Rightarrow> parse option" where
  "sempDisableErrorOutput None = None"
| "sempDisableErrorOutput (Some p) = Some (p\<lparr>printError := None\<rparr>)"

fun sempEnableErrorOutput :: "parse option \<Rightarrow> callback option \<Rightarrow> parse option" where
  "sempEnableErrorOutput None print = None"
| "sempEnableErrorOutput (Some p) print = Some (p\<lparr>printError := print\<rparr>)"

section \<open>Names\<close>

definition semp_getProtocolName :: "parse option \<Rightarrow> u16 \<Rightarrow> string res" where
  "semp_getProtocolName parse protocolIndex =
     (case parse of
        None \<Rightarrow> Inr ''Unknown''
      | Some p \<Rightarrow>
          if protocolIndex \<ge> ucast (parsers_count p) then Inr ''Unknown''
          else case parserNames_table p of
            None \<Rightarrow> Inl NullPointer
          | Some names \<Rightarrow> at names (uint protocolIndex))"

definition semp_getProtocolDescription :: "u16 \<Rightarrow> string" where
  "semp_getProtocolDescription protocolIndex = ''Description Removed''"

definition sempGetTypeName :: "parse option \<Rightarrow> u16 \<Rightarrow> string res" where
  "sempGetTypeName parse type =
     (case parse of
        None \<Rightarrow> Inr ''Unknown parser''
      | Some p \<Rightarrow>
          if type = ucast (parsers_count p) then Inr ''No active parser, scanning for preamble''
          else case parserNames_table p of
            Some names \<Rightarrow>
              if type < ucast (parsers_count p) then at names (uint type) else Inr ''Unknown parser''
          | None \<Rightarrow> Inr ''Unknown parser'')"

definition sempPrintParserConfiguration :: "parse option \<Rightarrow> callback option \<Rightarrow> parse option res" where
  "sempPrintParserConfiguration parse print =
     (case (print, parse) of
        (Some a, Some p) \<Rightarrow>
          rbind (sempGetTypeName parse (ucast (parser_type p))) (\<lambda>name.
            Inr (Some (p\<lparr>log := log p @ map (Print a)
              [ConfigTitle, ConfigName (parserName p), ConfigParsers, ConfigParserNames,
               ConfigParserCount (parsers_count p), ConfigPrintError, ConfigPrintDebug,
               ConfigScratchPad, ConfigComputeCrc, ConfigCrc (crc p),
               ConfigState (state p = FirstByte), ConfigEomCallback,
               ConfigBuffer (buffer_length p), ConfigLength (msg_length p),
               ConfigType (parser_type p) name]\<rparr>)))
      | _ \<Rightarrow> Inr parse)"

section \<open>Allocation\<close>

definition SEMP_ALIGN :: "int \<Rightarrow> int" where
  "SEMP_ALIGN x = (x + 7) AND (NOT 7)"

text \<open>
  \<^verbatim>\<open>sizeof(SEMP_SCRATCH_PAD)\<close>: the largest member has nineteen bytes, the alignment is
  four. The scratch area is a \<^verbatim>\<open>uint16_t\<close>, so storing its aligned size may truncate it.
\<close>

definition sizeof_SEMP_SCRATCH_PAD :: int where
  "sizeof_SEMP_SCRATCH_PAD = 20"

definition scratch_aligned :: "u16 \<Rightarrow> u16" where
  "scratch_aligned n = (if uint n < SEMP_ALIGN (uint n) then word_of_int (SEMP_ALIGN (uint n)) else n)"

definition scratch_bytes :: "u16 \<Rightarrow> u16" where
  "scratch_bytes n =
     (let n = scratch_aligned n; l = SEMP_ALIGN sizeof_SEMP_SCRATCH_PAD
      in if uint n < l then word_of_int l else n)"

definition SEMP_MINIMUM_BUFFER_LENGTH :: u16 where
  "SEMP_MINIMUM_BUFFER_LENGTH = 256"

definition scratch_log :: "callback option \<Rightarrow> u16 \<Rightarrow> event list \<Rightarrow> event list" where
  "scratch_log cb n es =
     (let es = sempPrintln cb (ScratchPadBytes n) es;
          a = scratch_aligned n;
          es = (if uint n < SEMP_ALIGN (uint n) then sempPrintln cb (ScratchPadAligned a) es else es)
      in if uint a < SEMP_ALIGN sizeof_SEMP_SCRATCH_PAD
         then sempPrintln cb (ScratchPadMinimum (scratch_bytes n)) es else es)"

definition sempAllocateParseStructure ::
  "(int \<Rightarrow> u8 list option) \<Rightarrow> int \<Rightarrow> callback option \<Rightarrow> u16 \<Rightarrow> u16 \<Rightarrow> event list
    \<Rightarrow> parse option \<times> event list" where
  "sempAllocateParseStructure malloc psize printDbg scratchPadBytes bufferLength es =
     (let es = scratch_log printDbg scratchPadBytes es;
          scratchPadBytes = scratch_bytes scratchPadBytes;
          parseBytes = SEMP_ALIGN psize;
          es = sempPrintln printDbg (ParseBytes parseBytes) es;
          (bufferLength, es) =
            (if bufferLength < SEMP_MINIMUM_BUFFER_LENGTH
             then (SEMP_MINIMUM_BUFFER_LENGTH, sempPrintln printDbg (IncreasingBufferLength bufferLength) es)
             else (bufferLength, es));
          len = parseBytes + uint scratchPadBytes;
          block = malloc (len + uint bufferLength);
          es = sempPrintln printDbg ParseAddress es
      in case block of
           None \<Rightarrow> (None, es)
         | Some bytes \<Rightarrow>
             let es = sempPrintln printDbg BufferAddress (sempPrintln printDbg ScratchPadAddress es)
             in (Some \<lparr>buffer = take (unat bufferLength) (drop (nat len) bytes), msg_length = 0,
                       buffer_length = bufferLength, crc = 0, parser_type = 0, parsers_count = 0,
                       scratchPad = (\<lambda>_. 0), parserName = '''', parsers_table = [],
                       parserNames_table = None, state = NullRoutine, eomCallback = None,
                       badCrc = None, computeCrc = None, printError = None,
                       printDebug = printDbg, log = es\<rparr>, es))"

section \<open>Beginning and stopping\<close>

definition sempBeginParser ::
  "(int \<Rightarrow> u8 list option) \<Rightarrow> int \<Rightarrow> string option \<Rightarrow> SEMP_PREAMBLE list option \<Rightarrow> u8
    \<Rightarrow> string list option \<Rightarrow> u8 \<Rightarrow> u16 \<Rightarrow> u16 \<Rightarrow> callback option \<Rightarrow> callback option
    \<Rightarrow> callback option \<Rightarrow> (parse_view \<Rightarrow> bool) option \<Rightarrow> event list
    \<Rightarrow> (parse option \<times> event list) res" where
  "sempBeginParser malloc psize pname parsersTable parsersCount parserNamesTable parserNamesCount
       scratchPadBytes bufferLength eom printErr printDbg badCrcCallback es =
     (if parsersCount \<noteq> parserNamesCount then Inr (None, sempPrintln printErr ParserCountMismatch es)
      else case parsersTable of
        None \<Rightarrow> Inr (None, sempPrintln printErr NoParserTable es)
      | Some table \<Rightarrow>
      (if parserNamesTable = None then Inr (None, sempPrintln printErr NoParserNameTable es)
       else if eom = None then Inr (None, sempPrintln printErr NoEomCallback es)
       else case pname of
         None \<Rightarrow> Inr (None, sempPrintln printErr NoParserName es)
       | Some name \<Rightarrow>
       (if length name = 0 then Inr (None, sempPrintln printErr NoParserName es)
        else if parsersCount = 0 then Inr (None, sempPrintln printErr NoParsers es)
        else case sempAllocateParseStructure malloc psize printDbg scratchPadBytes bufferLength es of
          (None, es) \<Rightarrow> Inr (None, sempPrintln printErr AllocationFailed es)
        | (Some parse, es) \<Rightarrow>
            let parse = parse\<lparr>printError := printErr, parsers_table := table,
                  parsers_count := parsersCount, parserNames_table := parserNamesTable,
                  state := FirstByte, eomCallback := eom, parserName := name,
                  badCrc := badCrcCallback\<rparr>
            in rbind (sempPrintParserConfiguration (Some parse) (printDebug parse)) (\<lambda>parse.
                 Inr (parse, case parse of None \<Rightarrow> es | Some p \<Rightarrow> log p)))))"

text \<open>
  \<^verbatim>\<open>sempStopParser\<close> gets the address of the application's pointer. The second result are
  the structures given back to the allocator.
\<close>

definition sempStopParser :: "parse option option \<Rightarrow> parse option option \<times> parse list" where
  "sempStopParser parse =
     (case parse of Some (Some p) \<Rightarrow> (Some None, [p]) | _ \<Rightarrow> (parse, []))"

section \<open>Alignment\<close>

lemma SEMP_ALIGN_eq: "SEMP_ALIGN x = 8 * ((x + 7) div 8)"
proof -
  have "(x + 7) AND NOT (mask 3) = push_bit 3 (drop_bit 3 (x + 7))"
    by (rule bit_eqI) (auto simp: bit_simps)
  then show ?thesis by (simp add: SEMP_ALIGN_def mask_eq_exp_minus_1 push_bit_eq_mult drop_bit_eq_div)
qed

lemma SEMP_ALIGN_bounds: "x \<le> SEMP_ALIGN x" "SEMP_ALIGN x < x + 8" "8 dvd SEMP_ALIGN x"
  unfolding SEMP_ALIGN_eq by presburger+

lemma scratch_aligned_cases:
  "uint n \<le> 65528 \<Longrightarrow> uint (scratch_aligned n) = SEMP_ALIGN (uint n)"
  "65528 < uint n \<Longrightarrow> scratch_aligned n = 0"
proof -
  assume n: "uint n \<le> 65528"
  have "SEMP_ALIGN (uint n) \<le> 65528" unfolding SEMP_ALIGN_eq using n by presburger
  moreover have "0 \<le> SEMP_ALIGN (uint n)" using SEMP_ALIGN_bounds(1) [of "uint n"] by (meson order_trans uint_ge_0)
  ultimately have "SEMP_ALIGN (uint n) mod 65536 = SEMP_ALIGN (uint n)" by simp
  then show "uint (scratch_aligned n) = SEMP_ALIGN (uint n)"
    using SEMP_ALIGN_bounds(1) [of "uint n"]
    by (auto simp: scratch_aligned_def uint_word_of_int take_bit_eq_mod)
next
  assume n: "65528 < uint n"
  moreover have "uint n < 65536" using uint_lt2p [of n] by simp
  ultimately have "SEMP_ALIGN (uint n) = 65536" unfolding SEMP_ALIGN_eq by presburger
  then show "scratch_aligned n = 0" using \<open>uint n < 65536\<close> by (simp add: scratch_aligned_def)
qed

lemma scratch_bytes_eq:
  "scratch_bytes n = (if uint (scratch_aligned n) < 24 then 24 else scratch_aligned n)"
  by (simp add: scratch_bytes_def SEMP_ALIGN_eq sizeof_SEMP_SCRATCH_PAD_def Let_def)

lemma scratch_bytes_cases:
  "uint n \<le> 65528 \<Longrightarrow> uint (scratch_bytes n) = max 24 (SEMP_ALIGN (uint n))"
  "65528 < uint n \<Longrightarrow> scratch_bytes n = 24"
  by (auto simp: scratch_bytes_eq scratch_aligned_cases)

section \<open>A parser that has begun\<close>

text \<open>What \<^verbatim>\<open>malloc\<close> promises: a block of the size asked for, or failure.\<close>

definition malloc_ok :: "(int \<Rightarrow> u8 list option) \<Rightarrow> bool" where
  "malloc_ok malloc \<longleftrightarrow> (\<forall>n bytes. malloc n = Some bytes \<longrightarrow> int (length bytes) = n)"

lemma sempPrintln_eoms [simp]: "eoms (sempPrintln cb m es) = eoms es"
  by (simp add: sempPrintln_def split: option.split)

lemma scratch_log_eoms [simp]: "eoms (scratch_log cb n es) = eoms es"
  by (simp add: scratch_log_def Let_def)

lemma allocate_Some:
  assumes "malloc_ok malloc" and "0 \<le> psize"
    and "sempAllocateParseStructure malloc psize cb scratch len es = (Some p, es')"
  shows "length (buffer p) = unat (buffer_length p)" "256 \<le> unat (buffer_length p)"
    "unat (buffer_length p) = max 256 (unat len)" "msg_length p = 0" "computeCrc p = None"
    "log p = es'" "eoms es' = eoms es" "parser_type p = 0" "scratchPad p = (\<lambda>_. 0)" "crc p = 0"
proof -
  define bl where "bl = (if len < SEMP_MINIMUM_BUFFER_LENGTH then SEMP_MINIMUM_BUFFER_LENGTH else len)"
  define n where "n = SEMP_ALIGN psize + uint (scratch_bytes scratch)"
  have "0 \<le> n" using SEMP_ALIGN_bounds(1) [of psize] assms(2) by (simp add: n_def)
  obtain bytes where m: "malloc (n + uint bl) = Some bytes"
      and p: "buffer p = take (unat bl) (drop (nat n) bytes)" "buffer_length p = bl"
      "msg_length p = 0" "computeCrc p = None" "log p = es'" "eoms es' = eoms es" "parser_type p = 0"
      "scratchPad p = (\<lambda>_. 0)" "crc p = 0"
    using assms(3)
    by (auto simp: sempAllocateParseStructure_def bl_def n_def Let_def split: option.splits if_splits)
  have "int (length bytes) = n + uint bl" using assms(1) m by (simp add: malloc_ok_def)
  then have "int (length bytes) = int (nat n + unat bl)" using \<open>0 \<le> n\<close> by simp
  then have "length bytes = nat n + unat bl" by (simp only: of_nat_eq_iff)
  moreover have "unat bl = max 256 (unat len)"
    by (auto simp: bl_def SEMP_MINIMUM_BUFFER_LENGTH_def word_less_nat_alt)
  ultimately show "length (buffer p) = unat (buffer_length p)" "256 \<le> unat (buffer_length p)"
    "unat (buffer_length p) = max 256 (unat len)" "msg_length p = 0" "computeCrc p = None"
    "log p = es'" "eoms es' = eoms es" "parser_type p = 0" "scratchPad p = (\<lambda>_. 0)" "crc p = 0"
    using p by simp_all
qed

lemma print_configuration_log:
  assumes "sempPrintParserConfiguration (Some p) cb = Inr r"
  obtains es where "r = Some (p\<lparr>log := es\<rparr>)" "eoms es = delivered p"
proof (cases cb)
  case None
  then show thesis
    using assms by (intro that [of "log p"]) (simp_all add: sempPrintParserConfiguration_def)
next
  case (Some a)
  then obtain es where "r = Some (p\<lparr>log := log p @ es\<rparr>)" "eoms es = []"
    using assms by (auto simp: sempPrintParserConfiguration_def rbind_Inr_iff)
  then show thesis by (intro that [of "log p @ es"]) simp_all
qed

lemma begin_Some:
  assumes "malloc_ok malloc" and "0 \<le> psize" and "length table = unat count" and "length names = unat count"
    and "sempBeginParser malloc psize pname (Some table) count (Some names) ncount scratch len eom
      err dbg bad es = Inr (Some p, es')"
  shows "wf_parse p" "state p = FirstByte" "parsers_table p = table" "computeCrc p = None"
    "badCrc p = bad" "delivered p = eoms es" "length (buffer p) = max 256 (unat len)"
    "scratchPad p = (\<lambda>_. 0)" "msg_length p = 0" "crc p = 0" "parser_type p = 0"
proof -
  obtain q es1 name where a: "sempAllocateParseStructure malloc psize dbg scratch len es = (Some q, es1)"
      and eom: "eom \<noteq> None"
      and p: "rbind (sempPrintParserConfiguration (Some (q\<lparr>printError := err, parsers_table := table,
        parsers_count := count, parserNames_table := Some names, state := FirstByte,
        eomCallback := eom, parserName := name, badCrc := bad\<rparr>)) (printDebug q))
        (\<lambda>parse. Inr (parse, case parse of None \<Rightarrow> es1 | Some p \<Rightarrow> log p)) = Inr (Some p, es')"
    using assms(5)
    by (auto simp: sempBeginParser_def Let_def split: if_splits option.splits prod.splits)
  note q = allocate_Some [OF assms(1,2) a]
  define q1 where "q1 = q\<lparr>printError := err, parsers_table := table,
        parsers_count := count, parserNames_table := Some names, state := FirstByte,
        eomCallback := eom, parserName := name, badCrc := bad\<rparr>"
  have "sempPrintParserConfiguration (Some q1) (printDebug q) = Inr (Some p)"
    using p unfolding q1_def [symmetric] by (auto simp: rbind_Inr_iff)
  then obtain es2 where "p = q1\<lparr>log := es2\<rparr>" "eoms es2 = delivered q1"
    by (rule print_configuration_log) simp
  then show "wf_parse p" "state p = FirstByte" "parsers_table p = table" "computeCrc p = None"
      "badCrc p = bad" "delivered p = eoms es" "length (buffer p) = max 256 (unat len)"
    "scratchPad p = (\<lambda>_. 0)" "msg_length p = 0" "crc p = 0" "parser_type p = 0"
    using q eom assms(3) by (simp_all add: wf_parse_def q1_def)
qed

text \<open>The printing of the configuration reads the name table at the parser type, which is zero.\<close>

lemma print_configuration_total:
  assumes "parserNames_table p = Some names" and "length names = unat (parsers_count p)"
    and "parsers_count p \<noteq> 0" and "parser_type p = 0"
  shows "\<exists>q. sempPrintParserConfiguration (Some p) cb = Inr (Some q)"
proof -
  have "0 < length names" using assms(2,3) by (simp add: unat_gt_0)
  then have "\<exists>name. sempGetTypeName (Some p) 0 = Inr name"
    using assms(1) by (auto simp: sempGetTypeName_def at_def)
  then show ?thesis
    using assms(4) by (auto simp: sempPrintParserConfiguration_def split: option.split)
qed

text \<open>
  \<^verbatim>\<open>sempBeginParser\<close> as a decision: the first check that fails is reported and no parser
  is returned; when all arguments are good, only the allocator can refuse.
\<close>

definition begin_check ::
  "string option \<Rightarrow> 'a option \<Rightarrow> u8 \<Rightarrow> 'b option \<Rightarrow> u8 \<Rightarrow> callback option \<Rightarrow> diag option" where
  "begin_check pname table count names ncount eom =
     (if count \<noteq> ncount then Some ParserCountMismatch
      else if table = None then Some NoParserTable
      else if names = None then Some NoParserNameTable
      else if eom = None then Some NoEomCallback
      else if pname = None \<or> pname = Some [] then Some NoParserName
      else if count = 0 then Some NoParsers
      else None)"

lemma begin_rejects:
  assumes "begin_check pname table count names ncount eom = Some m"
  shows "sempBeginParser malloc psize pname table count names ncount scratch len eom err dbg bad es =
    Inr (None, sempPrintln err m es)"
  using assms
  by (cases table; cases pname)
    (auto simp: begin_check_def sempBeginParser_def split: if_splits)

lemma allocate_None:
  "(\<exists>es'. sempAllocateParseStructure malloc psize cb scratch len es = (None, es')) \<longleftrightarrow>
     malloc (SEMP_ALIGN psize + uint (scratch_bytes scratch) + max 256 (uint len)) = None"
proof -
  have "uint (if len < SEMP_MINIMUM_BUFFER_LENGTH then SEMP_MINIMUM_BUFFER_LENGTH else len) = max 256 (uint len)"
    by (auto simp: SEMP_MINIMUM_BUFFER_LENGTH_def word_less_def)
  then show ?thesis
    unfolding sempAllocateParseStructure_def by (auto simp: Let_def split: option.splits if_splits)
qed

lemma begin_accepts:
  assumes "begin_check pname (Some table) count (Some names) ncount eom = None"
    and "malloc_ok malloc" and "0 \<le> psize" and "length names = unat count"
    and "malloc (SEMP_ALIGN psize + uint (scratch_bytes scratch) + max 256 (uint len)) \<noteq> None"
  shows "\<exists>p es'. sempBeginParser malloc psize pname (Some table) count (Some names) ncount scratch len eom
    err dbg bad es = Inr (Some p, es')"
proof -
  obtain name where c: "count = ncount" "eom \<noteq> None" "pname = Some name" "name \<noteq> []" "count \<noteq> 0"
    using assms(1) by (auto simp: begin_check_def split: if_splits)
  obtain q es1 where a: "sempAllocateParseStructure malloc psize dbg scratch len es = (Some q, es1)"
    using assms(5) allocate_None [of malloc psize dbg scratch len es]
    by (cases "sempAllocateParseStructure malloc psize dbg scratch len es") (metis option.exhaust)
  define q1 where "q1 = q\<lparr>printError := err, parsers_table := table, parsers_count := count,
    parserNames_table := Some names, state := FirstByte, eomCallback := eom, parserName := name,
    badCrc := bad\<rparr>"
  have "\<exists>p. sempPrintParserConfiguration (Some q1) (printDebug q) = Inr (Some p)"
    using allocate_Some(8) [OF assms(2,3) a] assms(4) c(5)
    by (intro print_configuration_total) (simp_all add: q1_def)
  then show ?thesis
    using a c unfolding sempBeginParser_def by (auto simp: Let_def q1_def)
qed

lemma begin_out_of_memory:
  assumes "begin_check pname (Some table) count (Some names) ncount eom = None"
    and "malloc (SEMP_ALIGN psize + uint (scratch_bytes scratch) + max 256 (uint len)) = None"
  shows "\<exists>es'. sempBeginParser malloc psize pname (Some table) count (Some names) ncount scratch len eom
    err dbg bad es = Inr (None, sempPrintln err AllocationFailed es')"
proof -
  obtain name where c: "count = ncount" "eom \<noteq> None" "pname = Some name" "name \<noteq> []" "count \<noteq> 0"
    using assms(1) by (auto simp: begin_check_def split: if_splits)
  obtain es1 where "sempAllocateParseStructure malloc psize dbg scratch len es = (None, es1)"
    using allocate_None [of malloc psize dbg scratch len es] assms(2) by blast
  then show ?thesis using c by (auto simp: sempBeginParser_def)
qed

section \<open>Parsers the library hands out\<close>

text \<open>
  \<open>begun table bad len p\<close>: some call of \<^verbatim>\<open>sempBeginParser\<close> with this parser table, bad-CRC
  callback and buffer length returned \<open>p\<close>, with an allocator that keeps its promise and
  counts that agree with the tables.
\<close>

definition begun :: "SEMP_PREAMBLE list \<Rightarrow> (parse_view \<Rightarrow> bool) option \<Rightarrow> u16 \<Rightarrow> parse \<Rightarrow> bool" where
  "begun table bad len p \<longleftrightarrow>
     (\<exists>malloc psize pname count names ncount scratch eom err dbg es.
        malloc_ok malloc \<and> 0 \<le> psize \<and> length table = unat count \<and> length names = unat count
        \<and> sempBeginParser malloc psize pname (Some table) count (Some names) ncount scratch len eom
            err dbg bad [] = Inr (Some p, es))"

lemma begunD:
  assumes "begun table bad len p"
  shows "wf_parse p" "state p = FirstByte" "parsers_table p = table" "computeCrc p = None"
    "badCrc p = bad" "delivered p = []" "length (buffer p) = max 256 (unat len)"
    "scratchPad p = (\<lambda>_. 0)" "msg_length p = 0" "crc p = 0" "parser_type p = 0"
proof -
  obtain malloc psize pname count names ncount scratch eom err dbg es where
    "malloc_ok malloc" "0 \<le> psize" "length table = unat count" "length names = unat count"
    "sempBeginParser malloc psize pname (Some table) count (Some names) ncount scratch len eom
       err dbg bad [] = Inr (Some p, es)"
    using assms unfolding begun_def by (elim exE conjE)
  note b = begin_Some [OF this]
  show "wf_parse p" "state p = FirstByte" "parsers_table p = table" "computeCrc p = None"
    "badCrc p = bad" "delivered p = []" "length (buffer p) = max 256 (unat len)"
    "scratchPad p = (\<lambda>_. 0)" "msg_length p = 0" "crc p = 0" "parser_type p = 0"
    using b by simp_all
qed

lemma begunI:
  assumes "malloc_ok malloc" and "0 \<le> psize" and "length table = unat count" and "length names = unat count"
    and "sempBeginParser malloc psize pname (Some table) count (Some names) ncount scratch len eom
       err dbg bad [] = Inr (Some p, es)"
  shows "begun table bad len p"
  unfolding begun_def by (intro exI conjI) (rule assms)+

lemma begun_exists:
  assumes "table \<noteq> []" and "length table < 256"
  shows "\<exists>p. begun table bad len p"
proof -
  define names where "names = map (\<lambda>_. ''P'') table"
  define psize :: int where "psize = 112"
  define m where "m n = (if 0 \<le> n then Some (replicate (nat n) (0 :: u8)) else None)" for n :: int
  have m: "malloc_ok m" by (simp add: malloc_ok_def m_def)
  have c: "unat (of_nat (length table) :: u8) = length table" by (rule unat_of_nat_8 [OF assms(2)])
  then have nz: "(of_nat (length table) :: u8) \<noteq> 0" using assms(1) by (metis length_0_conv unat_0)
  have "0 \<le> SEMP_ALIGN psize + uint (scratch_bytes 0) + max 256 (uint len)"
    using SEMP_ALIGN_bounds(1) [of psize] by (simp add: psize_def)
  then obtain p es where p: "sempBeginParser m psize (Some ''parser'') (Some table) (of_nat (length table)) (Some names)
      (of_nat (length table)) 0 len (Some 0) None None bad [] = Inr (Some p, es)"
    using begin_accepts [of "Some ''parser''" table "of_nat (length table)" names "of_nat (length table)"
        "Some 0" m psize 0 len None None bad "[]"] m nz c
    by (auto simp: begin_check_def names_def m_def psize_def)
  then have "begun table bad len p"
    using m c by (intro begunI [OF _ _ _ _ p]) (simp_all add: names_def psize_def)
  then show ?thesis by blast
qed

lemma begun_inv:
  assumes "begun table bad len p" and "UnicoreBinaryPreamble \<notin> set table"
  shows "parser_inv p"
  using begunD [OF assms(1)] assms(2) by (simp add: parser_inv_def parser_ready_def)

lemma begun_waiting:
  assumes "begun table None len p" and "UnicoreBinaryPreamble \<notin> set table"
  shows "waiting table (max 256 (unat len)) p"
  using begunD [OF assms(1)] assms(2) by (simp add: waiting_def parser_ready_def)

text \<open>A frame decides what a new parser delivers.\<close>

lemma begun_frame:
  assumes "begun table None len p" and "UnicoreBinaryPreamble \<notin> set table"
    and "item_ok table (max 256 (unat len)) (Frame k f)"
  shows "\<exists>q. run sempParseNextByte p f = Inr q \<and> state q = FirstByte
    \<and> delivered q = (if valid_of (table ! k) f then [(of_nat k, f)] else [])"
  using frame_decided [OF begun_waiting [OF assms(1,2)] assms(3)] begunD(6) [OF assms(1)]
  by (auto simp: waiting_def)

lemma first_match_entry: "first_match table d = Some k \<Longrightarrow> d \<in> first_bytes (table ! k)"
  by (simp add: first_match_Some)

lemma first_match_protocol:
  "first_match table 0x24 = Some k \<Longrightarrow> table ! k = NmeaPreamble"
  "first_match table 0xd3 = Some k \<Longrightarrow> table ! k = RtcmPreamble"
  "first_match table 0xb5 = Some k \<Longrightarrow> table ! k = UbloxPreamble"
  "first_match table 0x23 = Some k \<Longrightarrow> table ! k = UnicoreHashPreamble"
  by (drule first_match_entry, cases "table ! k"; simp)+

lemma first_match_custom:
  "first_match table 0xAA = Some k \<Longrightarrow> UnicoreBinaryPreamble \<notin> set table \<Longrightarrow> table ! k = CustomPreamble"
  using first_match_Some [of table "0xAA" k] nth_mem [of k table] by (cases "table ! k") auto

lemma begun_sentence_overflow:
  assumes "begun table None len p" and "UnicoreBinaryPreamble \<notin> set table"
    and "first_match table 0x23 = Some k" and "hash_valid f" and "hash_digits f = 2"
    and "max 256 (unat len) \<le> length f" and "length f \<le> max 256 (unat len) + 1"
  shows "run sempParseNextByte p f = Inl OutOfBounds"
proof -
  obtain h t where "f = h @ 0x2A # t @ [0x0D, 0x0A]" "hash_sentence h"
    using assms(4) unfolding hash_valid_def by blast
  then obtain ds where f: "f = 0x23 # ds" "ds \<noteq> []" by (cases h) (auto simp: sentence_def)
  obtain q where q: "sempParseNextByte p 0x23 = Inr q" "pinv_of (table ! k) q"
      "seen_of (table ! k) q = [0x23]" "length (buffer q) = max 256 (unat len)" "wf_parse q"
    by (rule frame_started [OF begun_waiting [OF assms(1,2)] assms(3)])
  then have "run sempParseNextByte q ds = Inl OutOfBounds"
    using first_match_protocol(4) [OF assms(3)] assms(4-7) f by (intro hash_overflow [of q f]) simp_all
  then show ?thesis using q(1) f(1) by simp
qed

end
