(* ===== verification/Encoders.thy ===== *)
theory Encoders
  imports Message_Setup
begin

text \<open>
  Messages as a sender builds them, for each of the protocols, with the checksums of the
  protocol documents (the CRCs bit by bit). The messages the parser accepts are exactly
  these for the binary protocols; for the sentence protocols these are among the accepted
  ones.
\<close>

section \<open>Encoders\<close>

definition rtcm_frame :: "u8 list \<Rightarrow> u8 list" where
  "rtcm_frame payload =
     (let n = of_nat (length payload) :: u16;
          h = [0xd3, byte_of 1 n, byte_of 0 n] @ payload;
          c = foldl crc24_spec 0 h
      in h @ [byte_of 2 c, byte_of 1 c, byte_of 0 c])"

text \<open>\<open>a\<close> and \<open>b\<close> are the header fields before and behind the message length.\<close>

definition custom_frame :: "u8 list \<Rightarrow> u8 list \<Rightarrow> u8 list \<Rightarrow> u8 list" where
  "custom_frame a b payload =
     (let n = of_nat (length payload) :: u16;
          h = [0xAA, 0x44, 0x18] @ a @ [byte_of 0 n, byte_of 1 n] @ b @ payload;
          c = NOT (foldl crc32_spec 0xFFFFFFFF h)
      in h @ [byte_of 0 c, byte_of 1 c, byte_of 2 c, byte_of 3 c])"

definition xor_bytes :: "u8 list \<Rightarrow> u8" where
  "xor_bytes = foldl (XOR) 0"

definition nmea_line :: "u8 list \<Rightarrow> u8 list \<Rightarrow> u8 list" where
  "nmea_line name body =
     (let s = name @ 0x2C # body
      in 0x24 # s @ 0x2A # hex_text (xor_bytes s) @ [0x0D, 0x0A])"

definition hash_crc_text :: "u32 \<Rightarrow> u8 list" where
  "hash_crc_text c = concat (map hex_text [byte_of 3 c, byte_of 2 c, byte_of 1 c, byte_of 0 c])"

definition unicore_line :: "u8 list \<Rightarrow> u8 list \<Rightarrow> u8 list" where
  "unicore_line name body =
     (let s = name @ 0x2C # body
      in 0x23 # s @ 0x2A #
         (if occurs_in [0x4D, 0x4F, 0x44, 0x45] name then hex_text (xor_bytes s)
          else hash_crc_text (foldl crc32_spec 0 s)) @ [0x0D, 0x0A])"

definition sentence_parts :: "u8 list \<Rightarrow> u8 list \<Rightarrow> bool" where
  "sentence_parts name body \<longleftrightarrow>
     name \<noteq> [] \<and> length name \<le> 15 \<and> list_all name_char name \<and> list_all (\<lambda>c. c \<noteq> 0x2A) body"

section \<open>UBX\<close>

lemma frame_split:
  assumes "k + j \<le> length f"
  obtains h m t where "f = h @ m @ t" "length h = k" "length t = j"
proof
  show "f = take k f @ take (length f - k - j) (drop k f) @ drop (length f - j) f"
  proof -
    have "drop (length f - j) f = drop (length f - k - j) (drop k f)"
      using assms by (simp add: diff_add_assoc2 [symmetric] diff_right_commute)
    then show ?thesis by (simp del: drop_drop)
  qed
qed (use assms in auto)

lemma list_of_length:
  "length xs = 2 \<Longrightarrow> \<exists>a b. xs = [a, b]"
  "length xs = 3 \<Longrightarrow> \<exists>a b c. xs = [a, b, c]"
  "length xs = 4 \<Longrightarrow> \<exists>a b c d. xs = [a, b, c, d]"
  by (auto simp: length_Suc_conv numeral_eq_Suc)

lemma of_nat_length_16: "length xs = unat (w :: u16) \<Longrightarrow> of_nat (length xs) = w"
  by simp

lemma ublox_frame_valid:
  assumes "length payload < 65536"
  shows "ublox_valid (ublox_frame cls mid payload)"
  using assms
  by (simp add: ublox_valid_def ublox_shape_def ublox_frame_def ublox_body_def Let_def case_prod_unfold
      nth_append unat_of_nat_16)

lemma ublox_valid_frame:
  assumes "ublox_valid f"
  shows "\<exists>cls mid payload. length payload < 65536 \<and> f = ublox_frame cls mid payload"
proof -
  have "6 + 2 \<le> length f" using assms by (simp add: ublox_valid_def ublox_shape_def)
  then obtain h m t where "f = h @ m @ t" "length h = 6" "length t = 2" by (rule frame_split)
  then obtain a b c d e g x y where f: "f = [a, b, c, d, e, g] @ m @ [x, y]"
    by (auto simp: length_Suc_conv numeral_eq_Suc)
  then have s: "a = 0xb5" "b = 0x62" "length m = unat (le16 e g)"
      "fletcher ([c, d, e, g] @ m) = (x, y)"
    using assms by (simp_all add: ublox_valid_def ublox_shape_def nth_append)
  have "length m < 65536" using s(3) unsigned_less [of "le16 e g"] by simp
  moreover have "f = ublox_frame c d m"
    using s(1,2,4) f of_nat_length_16 [OF s(3)] by (simp add: ublox_frame_def ublox_body_def Let_def)
  ultimately show ?thesis by blast
qed

section \<open>RTCM\<close>

lemma rtcm_crc24_eq: "rtcm_crc24 m = 0 \<longleftrightarrow> foldl crc24_spec 0 m = 0"
proof -
  have "rtcm_crc24 m = ucast (foldl crc24_spec 0 m)"
    using foldl_crc24q [of 0 m] by (simp add: rtcm_crc24_def)
  moreover have "(ucast c :: u32) = 0 \<longleftrightarrow> c = 0" for c :: u24
    by (simp add: bit_eq_iff bit_simps) (use bit_imp_le_length [of c] in force)
  ultimately show ?thesis by simp
qed

lemma unat_high_byte: "unat (byte_of 1 (v :: u16)) = unat v div 256"
proof -
  have "unat v < 65536" using unsigned_less [of v] by simp
  then have "unat v div 256 mod 256 = unat v div 256" by simp
  then show ?thesis
    by (simp add: byte_of_def unsigned_ucast_eq drop_bit_eq_div take_bit_eq_mod unat_div_distrib)
qed

lemma rtcm_high_bits: "(b :: u8) AND NOT 3 = 0 \<longleftrightarrow> unat b < 4"
proof -
  have "b AND NOT (mask 2) = 0 \<longleftrightarrow> take_bit 2 b = b"
    by (auto simp: bit_eq_iff bit_simps dest: bit_imp_le_length)
  moreover have "take_bit 2 b = b \<longleftrightarrow> unat b < 4"
    by (simp add: word_unat_eq_iff unsigned_take_bit_eq take_bit_nat_eq_self_iff)
  ultimately show ?thesis by (simp add: mask_eq_exp_minus_1)
qed

lemma rtcm_length_byte: "byte_of 1 (n :: u16) AND NOT 3 = 0 \<longleftrightarrow> unat n < 1024"
  unfolding rtcm_high_bits unat_high_byte by (simp add: div_less_iff_less_mult)

lemma rtcm_frame_valid:
  assumes "3 \<le> length payload" and "length payload < 1024"
  shows "rtcm_valid (rtcm_frame payload)"
proof -
  define n where "n = (of_nat (length payload) :: u16)"
  define h where "h = [0xd3, byte_of 1 n, byte_of 0 n] @ payload"
  define c where "c = foldl crc24_spec 0 h"
  have f: "rtcm_frame payload = h @ [byte_of 2 c, byte_of 1 c, byte_of 0 c]"
    by (simp add: rtcm_frame_def h_def c_def n_def Let_def)
  have "foldl crc24_spec c [byte_of 2 c, byte_of 1 c, byte_of 0 c] = 0"
    unfolding crc24_residue by simp
  then have "rtcm_crc24 (rtcm_frame payload) = 0" by (simp add: f rtcm_crc24_eq c_def)
  moreover have "rtcm_length (rtcm_frame payload) = n" by (simp add: f h_def rtcm_length_def)
  moreover have "unat n = length payload" using assms by (simp add: n_def unat_of_nat_16)
  moreover have "rtcm_frame payload ! 1 = byte_of 1 n" by (simp add: f h_def)
  moreover have "byte_of 1 n AND NOT 3 = 0" 
    unfolding rtcm_length_byte using assms(2) by (simp add: n_def unat_of_nat_16)
  ultimately show ?thesis using assms by (simp add: rtcm_valid_def rtcm_shape_def f h_def)
qed

lemma rtcm_valid_frame:
  assumes "rtcm_valid f"
  shows "\<exists>payload. 3 \<le> length payload \<and> length payload < 1024 \<and> f = rtcm_frame payload"
proof -
  have "3 + 3 \<le> length f" using assms by (simp add: rtcm_valid_def rtcm_shape_def)
  then obtain h m t where "f = h @ m @ t" "length h = 3" "length t = 3" by (rule frame_split)
  then obtain a b c x y z where f: "f = [a, b, c] @ m @ [x, y, z]"
    by (auto simp: length_Suc_conv numeral_eq_Suc)
  define h where "h = [a, b, c] @ m"
  have s: "a = 0xd3" "b AND NOT 3 = 0" "length m = unat (le16 c b)" "3 \<le> length m"
      "rtcm_crc24 (h @ [x, y, z]) = 0"
    using assms unfolding f rtcm_valid_def rtcm_shape_def rtcm_length_def h_def by (simp_all, elim conjE, simp)
  have n: "of_nat (length m) = le16 c b" by (rule of_nat_length_16 [OF s(3)])
  have "[x, y, z] = [byte_of 2 (foldl crc24_spec 0 h), byte_of 1 (foldl crc24_spec 0 h), byte_of 0 (foldl crc24_spec 0 h)]"
    using s(5) crc24_residue [of "foldl crc24_spec 0 h" x y z] by (simp add: rtcm_crc24_eq)
  then have "f = rtcm_frame m"
    unfolding rtcm_frame_def n Let_def using f s(1) by (simp add: h_def)
  moreover have "unat (le16 c b) < 1024" using rtcm_length_byte [of "le16 c b"] s(2) by simp
  ultimately show ?thesis using s(3,4) by (intro exI [of _ m]) simp
qed

section \<open>Custom messages\<close>

lemma custom_crc32_eq: "custom_crc32 m = foldl crc32_spec 0xFFFFFFFF m"
  by (simp add: custom_crc32_def semp_crc32.foldl_spec)

lemma xor_ones: "(c :: u32) XOR 0xFFFFFFFF = NOT c"
proof -
  have "(0xFFFFFFFF :: u32) = - 1" by simp
  then show ?thesis using bit.xor_one_right [of c] by (simp only:)
qed

lemma custom_valid_append:
  "custom_valid (h @ [t0, t1, t2, t3]) \<longleftrightarrow>
     custom_shape (h @ [t0, t1, t2, t3]) \<and> NOT (foldl crc32_spec 0xFFFFFFFF h) = le32 t0 t1 t2 t3"
  by (simp add: custom_valid_def Let_def nth_append custom_crc32_eq xor_ones)

lemma custom_frame_valid:
  assumes "length a = 9" and "length b = 6" and "0 < length payload" and "length payload < 65536"
  shows "custom_valid (custom_frame a b payload)"
proof -
  define n where "n = (of_nat (length payload) :: u16)"
  define h where "h = [0xAA, 0x44, 0x18] @ a @ [byte_of 0 n, byte_of 1 n] @ b @ payload"
  define c where "c = NOT (foldl crc32_spec 0xFFFFFFFF h)"
  have f: "custom_frame a b payload = h @ [byte_of 0 c, byte_of 1 c, byte_of 2 c, byte_of 3 c]"
    by (simp add: custom_frame_def h_def c_def n_def Let_def)
  have l: "length h = 20 + length payload" using assms by (simp add: h_def)
  have "custom_length (custom_frame a b payload) = n"
    using assms by (simp add: f h_def custom_length_def nth_append)
  moreover have "unat n = length payload" using assms by (simp add: n_def unat_of_nat_16)
  moreover have "custom_header (custom_frame a b payload)" by (simp add: f h_def custom_header_def)
  ultimately have "custom_shape (custom_frame a b payload)"
    using assms(3) l by (simp add: custom_shape_def f Suc_le_eq)
  then show ?thesis
    unfolding f custom_valid_append c_def by simp
qed

lemma custom_valid_frame:
  assumes "custom_valid f"
  shows "\<exists>a b payload. length a = 9 \<and> length b = 6 \<and> 0 < length payload \<and> length payload < 65536
    \<and> f = custom_frame a b payload"
proof -
  have n: "25 \<le> length f" using assms by (simp add: custom_valid_def custom_shape_def Let_def)
  then have "20 + 4 \<le> length f" by simp
  then obtain h m t where f1: "f = h @ m @ t" "length h = 20" "length t = 4" by (rule frame_split)
  have "3 + 6 \<le> length h" using f1(2) by simp
  then obtain s g b where h: "h = s @ g @ b" "length s = 3" "length b = 6" by (rule frame_split)
  then have "9 + 2 \<le> length g" using f1(2) by simp
  then obtain a g' l where g: "g = a @ g' @ l" "length a = 9" "length l = 2" by (rule frame_split)
  then have "g' = []" using f1(2) h by simp
  then obtain s0 s1 s2 l0 l1 t0 t1 t2 t3 where
    f: "f = [s0, s1, s2] @ a @ [l0, l1] @ b @ m @ [t0, t1, t2, t3]"
    using list_of_length(1) [OF g(3)] list_of_length(2) [OF h(2)] list_of_length(3) [OF f1(3)]
    unfolding f1(1) h(1) g(1) by auto
  define h' where "h' = [s0, s1, s2] @ a @ [l0, l1] @ b @ m"
  have f': "f = h' @ [t0, t1, t2, t3]" "length h' = 20 + length m" using f g(2) h(3) by (simp_all add: h'_def)
  have hd: "f ! 0 = s0" "f ! 1 = s1" "f ! 2 = s2" unfolding f by simp_all
  have lf: "length f = 24 + length m" using f'(2) unfolding f'(1) by simp
  have "custom_length f = le16 l0 l1" using f g(2) by (simp add: custom_length_def nth_append)
  moreover have sh: "custom_shape f" and crc: "NOT (foldl crc32_spec 0xFFFFFFFF h') = le32 t0 t1 t2 t3"
    using assms unfolding f'(1) custom_valid_append by simp_all
  ultimately have s: "s0 = 0xAA" "s1 = 0x44" "s2 = 0x18" "length m = unat (le16 l0 l1)" "0 < length m"
    using sh hd lf n by (simp_all add: custom_shape_def custom_header_def)
  define w where "w = (of_nat (length m) :: u16)"
  have "w = le16 l0 l1" unfolding w_def by (rule of_nat_length_16 [OF s(4)])
  then have "[0xAA, 0x44, 0x18] @ a @ [byte_of 0 w, byte_of 1 w] @ b @ m = h'"
    using s(1-3) by (simp add: h'_def)
  then have "f = custom_frame a b m"
    unfolding custom_frame_def Let_def w_def [symmetric] f'(1) by (simp only: crc) simp
  moreover have "length m < 65536" using s(4) unsigned_less [of "le16 l0 l1"] by simp
  ultimately show ?thesis using s(5) g(2) h(3) by blast
qed

section \<open>Sentences\<close>

lemma xor_sum_bytes: "xor_sum m = ucast (xor_bytes m)"
proof -
  have "foldl (\<lambda>c d. c XOR ucast d) (ucast a) m = (ucast (foldl (XOR) a m) :: u32)" for a :: u8
    by (induction m arbitrary: a) (simp_all flip: ucast_xor)
  from this [of 0] show ?thesis by (simp add: xor_sum_def xor_bytes_def)
qed

lemma nibble_less: "drop_bit 4 (d :: u8) < 16" "take_bit 4 (d :: u8) < 16"
proof -
  have "unat (drop_bit 4 d) < 16" "unat (take_bit 4 d) < 16"
    using unat_u8_less [of d] take_bit_nat_less_exp [of 4 "unat d"]
    by (simp_all add: drop_bit_eq_div unat_div_distrib unsigned_take_bit_eq less_mult_imp_div_less)
  then show "drop_bit 4 d < 16" "take_bit 4 d < 16" by (simp_all add: word_less_nat_alt)
qed

lemma hex_text_digits: "list_all hex_digit (hex_text d)"
  using nibble_hex_upper [OF nibble_less(1)] nibble_hex_upper [OF nibble_less(2)]
  by (simp add: hex_text_def hex_digit_def)

lemma byte_nibbles: "push_bit 4 (ucast (drop_bit 4 d)) OR ucast (take_bit 4 d) = (ucast d :: 'a::len word)"
  for d :: u8
proof (rule bit_word_eqI)
  fix n :: nat
  have "4 \<le> n \<Longrightarrow> 4 + (n - 4) = n" by simp
  then show "n < LENGTH('a) \<Longrightarrow> bit (push_bit 4 (ucast (drop_bit 4 d)) OR ucast (take_bit 4 d) :: 'a word) n =
      bit (ucast d :: 'a word) n"
    by (cases "n < 4") (auto simp: bit_simps dest: bit_imp_le_length)
qed

lemma line_checksum_hex_text: "line_checksum (hex_text d ! 0) (hex_text d ! 1) = ucast d"
proof -
  have "line_checksum (hex_text d ! 0) (hex_text d ! 1) =
      word_of_int (push_bit 4 (uint (drop_bit 4 d)) OR uint (take_bit 4 d))"
    using nibble_hex_upper [OF nibble_less(1)] nibble_hex_upper [OF nibble_less(2)]
    by (simp add: line_checksum_def hex_text_def)
  also have "\<dots> = push_bit 4 (ucast (drop_bit 4 d)) OR ucast (take_bit 4 d)"
    by (rule bit_word_eqI) (auto simp: bit_simps dest: bit_imp_le_length)
  finally show ?thesis by (simp only: byte_nibbles)
qed

lemma sentence_parts_sentence: "sentence_parts name body \<Longrightarrow> s \<in> firsts \<Longrightarrow> sentence firsts (s # name @ 0x2C # body)"
  unfolding sentence_parts_def sentence_def by (auto simp: list_all_iff)

lemma nmea_line_valid:
  assumes "sentence_parts name body"
  shows "nmea_valid (nmea_line name body)"
proof -
  define s where "s = name @ 0x2C # body"
  define d where "d = xor_bytes s"
  have t: "hex_text d = [hex_text d ! 0, hex_text d ! 1]" by (simp add: hex_text_def)
  have f: "nmea_line name body = (0x24 # s) @ [0x2A, hex_text d ! 0, hex_text d ! 1, 0x0D, 0x0A]"
    using t by (simp add: nmea_line_def s_def d_def Let_def)
  have "nmea_sentence (0x24 # s)" unfolding s_def by (rule sentence_parts_sentence [OF assms]) simp
  moreover have "hex_digit (hex_text d ! 0)" "hex_digit (hex_text d ! 1)"
    using hex_text_digits [of d] by (simp_all add: hex_text_def)
  ultimately show ?thesis
    unfolding f nmea_valid_line using line_checksum_hex_text [of d] by (simp add: xor_sum_bytes d_def)
qed

lemma hex_value_append: "hex_value (t @ [c]) = push_bit 4 (hex_value t) OR word_of_int (semp_util_asciiToNibble (uint c))"
  by (simp add: hex_value_def)

lemma hex_value_hex_text: "hex_value (t @ hex_text d) = push_bit 8 (hex_value t) OR ucast d"
proof -
  have u: "word_of_int (uint e) = (ucast e :: u32)" for e :: u8 by simp
  have "hex_value (t @ hex_text d) =
      push_bit 4 (push_bit 4 (hex_value t) OR ucast (drop_bit 4 d)) OR ucast (take_bit 4 d)"
    using hex_value_append [of "t @ [hex_upper (drop_bit 4 d)]" "hex_upper (take_bit 4 d)"]
      hex_value_append [of t "hex_upper (drop_bit 4 d)"]
      nibble_hex_upper [OF nibble_less(1), of d] nibble_hex_upper [OF nibble_less(2), of d]
    by (simp add: hex_text_def u)
  also have "\<dots> = push_bit 8 (hex_value t) OR (push_bit 4 (ucast (drop_bit 4 d)) OR ucast (take_bit 4 d))"
    by (simp add: push_bit_or or.assoc)
  finally show ?thesis by (simp only: byte_nibbles)
qed

lemma hex_value_crc_text: "hex_value (hash_crc_text c) = c"
proof -
  have "hex_value (hash_crc_text c) =
      push_bit 8 (push_bit 8 (push_bit 8 (ucast (byte_of 3 c)) OR ucast (byte_of 2 c)) OR ucast (byte_of 1 c))
        OR ucast (byte_of 0 c)"
    using hex_value_hex_text [of "[]" "byte_of 3 c"]
      hex_value_hex_text [of "hex_text (byte_of 3 c)" "byte_of 2 c"]
      hex_value_hex_text [of "hex_text (byte_of 3 c) @ hex_text (byte_of 2 c)" "byte_of 1 c"]
      hex_value_hex_text [of "hex_text (byte_of 3 c) @ hex_text (byte_of 2 c) @ hex_text (byte_of 1 c)" "byte_of 0 c"]
    by (simp add: hash_crc_text_def hex_value_def [of "[]"])
  also have "\<dots> = le32 (byte_of 0 c) (byte_of 1 c) (byte_of 2 c) (byte_of 3 c)"
    by (simp add: le32_def push_bit_or ac_simps)
  finally show ?thesis by simp
qed

lemma unicore_line_valid:
  assumes "sentence_parts name body"
  shows "hash_valid (unicore_line name body)"
proof -
  define s where "s = name @ 0x2C # body"
  define t where "t = (if occurs_in [0x4D, 0x4F, 0x44, 0x45] name then hex_text (xor_bytes s)
    else hash_crc_text (foldl crc32_spec 0 s))"
  have f: "unicore_line name body = (0x23 # s) @ 0x2A # t @ [0x0D, 0x0A]"
    by (simp add: unicore_line_def s_def t_def Let_def)
  have n: "hash_digits (0x23 # s) = (if occurs_in [0x4D, 0x4F, 0x44, 0x45] name then 2 else 8)"
    using assms unfolding s_def by (simp add: hash_digits_def hash_name_of_eq sentence_parts_def)
  have "hash_sentence (0x23 # s)" unfolding s_def by (rule sentence_parts_sentence [OF assms]) simp
  moreover have "length t = hash_digits (0x23 # s)" unfolding n t_def by (simp add: hash_crc_text_def)
  moreover have "list_all hex_digit t" unfolding t_def by (simp add: hash_crc_text_def hex_text_digits)
  moreover have "hash_check (0x23 # s) t"
    unfolding hash_check_def n using line_checksum_hex_text [of "xor_bytes s"]
    by (simp add: t_def xor_sum_bytes semp_crc32.foldl_spec hex_value_crc_text)
  ultimately show ?thesis unfolding f hash_valid_def by blast
qed

lemma unicore_line_digits:
  "sentence_parts name body \<Longrightarrow>
    hash_digits (unicore_line name body) = (if occurs_in [0x4D, 0x4F, 0x44, 0x45] name then 2 else 8)"
  by (simp add: unicore_line_def Let_def hash_digits_def hash_name_of_eq sentence_parts_def)

lemma length_lines:
  "length (nmea_line name body) = length name + length body + 7"
  "length (unicore_line name body) =
     length name + length body + (if occurs_in [0x4D, 0x4F, 0x44, 0x45] name then 7 else 13)"
  by (simp_all add: nmea_line_def unicore_line_def Let_def hash_crc_text_def)

lemma length_frames:
  "length (ublox_frame cls mid payload) = length payload + 8"
  "length (rtcm_frame payload) = length payload + 6"
  "length (custom_frame a b payload) = length a + length b + length payload + 9"
  by (simp_all add: ublox_frame_def ublox_body_def rtcm_frame_def custom_frame_def Let_def case_prod_unfold)

lemma hd_frames:
  "hd (ublox_frame cls mid payload) = 0xb5" "hd (rtcm_frame payload) = 0xd3"
  "hd (custom_frame a b payload) = 0xAA" "hd (nmea_line name body) = 0x24"
  "hd (unicore_line name body) = 0x23"
  by (simp_all add: ublox_frame_def ublox_body_def rtcm_frame_def custom_frame_def nmea_line_def
      unicore_line_def Let_def case_prod_unfold)

text \<open>An encoded message that fits the buffer is delivered.\<close>

lemma begun_delivers:
  assumes "begun table None len p" and "UnicoreBinaryPreamble \<notin> set table"
    and "first_match table (hd f) = Some k" and "f \<noteq> []" and "valid_of (table ! k) f"
    and "fits_of (table ! k) (max 256 (unat len)) f"
  shows "\<exists>q. run sempParseNextByte p f = Inr q \<and> delivered q = [(of_nat k, f)]"
proof -
  have "table ! k \<noteq> UnicoreBinaryPreamble"
    using assms(2) first_match_Some [OF assms(3)] nth_mem by metis
  then have "shape_of (table ! k) f" using protocol.valid_shape [OF protocol_entry assms(5)] by blast
  then show ?thesis using begun_frame [OF assms(1,2), of k f] assms(3-6) by auto
qed

end
