(* ===== verification/Error_Detection.thy ===== *)
theory Error_Detection
  imports Encoders
begin

text \<open>
  What the checksums are for: a message of a binary protocol in which one byte has been
  changed is not a message of the protocol, and the parser rejects it.
\<close>

section \<open>The register of a CRC\<close>

lemma xor_cancel: "a XOR c = b XOR c \<longleftrightarrow> a = b" "c XOR a = c XOR b \<longleftrightarrow> a = b"
  for a b c :: "'a::len word"
  by (auto simp: bit_eq_iff bit_simps)

lemma crc24_spec_inj: "crc24_spec c d = crc24_spec c' d \<longleftrightarrow> c = c'"
  by (simp add: crc24_spec_def crc24.pow_inj xor_cancel)

lemma crc32_spec_inj: "crc32_spec c d = crc32_spec c' d \<longleftrightarrow> c = c'"
  by (simp add: crc32_spec_def crc32.pow_inj xor_cancel)

lemma crc24_byte_inj: "crc24_spec c d = crc24_spec c d' \<longleftrightarrow> d = d'"
proof -
  have "push_bit 16 (ucast d :: u24) = push_bit 16 (ucast d') \<longleftrightarrow> d = d'"
  proof
    assume "push_bit 16 (ucast d :: u24) = push_bit 16 (ucast d')"
    then have "byte_of 2 (push_bit 16 (ucast d) :: u24) = byte_of 2 (push_bit 16 (ucast d') :: u24)" by simp
    moreover have "byte_of 2 (push_bit 16 (ucast e) :: u24) = e" for e :: u8
      by (rule bit_word_eqI) (auto simp: bit_byte_of bit_simps)
    ultimately show "d = d'" by simp
  qed simp
  then show ?thesis by (simp add: crc24_spec_def crc24.pow_inj xor_cancel)
qed

lemma crc32_byte_inj: "crc32_spec c d = crc32_spec c d' \<longleftrightarrow> d = d'"
proof -
  have "(ucast d :: u32) = ucast d' \<longleftrightarrow> d = d'"
  proof
    assume "(ucast d :: u32) = ucast d'"
    then have "byte_of 0 (ucast d :: u32) = byte_of 0 (ucast d' :: u32)" by simp
    moreover have "byte_of 0 (ucast e :: u32) = e" for e :: u8
      by (rule bit_word_eqI) (auto simp: bit_byte_of bit_simps)
    ultimately show "d = d'" by simp
  qed simp
  then show ?thesis by (simp add: crc32_spec_def crc32.pow_inj xor_cancel)
qed

text \<open>An update that loses nothing keeps two different registers apart.\<close>

lemma foldl_update_differs:
  assumes "\<And>c c' d. f c d = f c' d \<longleftrightarrow> c = c'" and "\<And>c d d'. f c d = f c d' \<longleftrightarrow> d = d'"
    and "i < length ds" and "x \<noteq> ds ! i"
  shows "foldl f c (ds[i := x]) \<noteq> foldl f c ds"
proof -
  have inj: "foldl f a es = foldl f b es \<longleftrightarrow> a = b" for a b es
    by (induction es arbitrary: a b) (simp_all add: assms(1))
  have "foldl f c ds = foldl f (f (foldl f c (take i ds)) (ds ! i)) (drop (Suc i) ds)"
    by (subst id_take_nth_drop [OF assms(3)]) simp
  moreover have "foldl f c (ds[i := x]) = foldl f (f (foldl f c (take i ds)) x) (drop (Suc i) ds)"
    by (simp add: upd_conv_take_nth_drop [OF assms(3)])
  ultimately show ?thesis using assms(2,4) by (simp add: inj)
qed

section \<open>The protocols\<close>

lemma rtcm_change_detected:
  assumes "rtcm_valid f" and "i < length f" and "x \<noteq> f ! i"
  shows "\<not> rtcm_valid (f[i := x])"
  using assms foldl_update_differs [where f = crc24_spec, OF crc24_spec_inj crc24_byte_inj assms(2,3), of 0]
  by (simp add: rtcm_valid_def rtcm_crc24_eq)

lemma fletcher_sum: "fst (fletcher ds) = sum_list ds"
proof (induction ds rule: rev_induct)
  case (snoc d ds)
  then show ?case by simp
qed (simp add: fletcher_def)

lemma sum_list_update_differs:
  fixes ds :: "u8 list"
  assumes "i < length ds" and "x \<noteq> ds ! i"
  shows "sum_list (ds[i := x]) \<noteq> sum_list ds"
proof -
  have "sum_list ds = sum_list (take i ds) + (ds ! i + sum_list (drop (Suc i) ds))"
    by (subst id_take_nth_drop [OF assms(1)]) simp
  then show ?thesis using assms(2) by (simp add: upd_conv_take_nth_drop [OF assms(1)])
qed

lemma ublox_validD:
  assumes "ublox_valid g"
  shows "8 \<le> length g" "g ! 0 = 0xb5" "g ! 1 = 0x62"
    "sum_list (take (length g - 4) (drop 2 g)) = g ! (length g - 2)"
    "snd (fletcher (take (length g - 4) (drop 2 g))) = g ! (length g - 1)"
  using assms unfolding ublox_valid_def ublox_shape_def
  by (blast, blast, blast, metis fletcher_sum fst_conv, metis snd_conv)

lemma ublox_change_detected:
  assumes "ublox_valid f" and "i < length f" and "x \<noteq> f ! i"
  shows "\<not> ublox_valid (f[i := x])"
proof
  assume v: "ublox_valid (f[i := x])"
  define n where "n = length f"
  have n: "8 \<le> n" using ublox_validD(1) [OF assms(1)] by (simp add: n_def)
  have s: "f ! 0 = 0xb5" "f ! 1 = 0x62" "f[i := x] ! 0 = 0xb5" "f[i := x] ! 1 = 0x62"
    and a: "sum_list (take (n - 4) (drop 2 f)) = f ! (n - 2)"
      "sum_list (take (n - 4) (drop 2 (f[i := x]))) = f[i := x] ! (n - 2)"
    and b: "snd (fletcher (take (n - 4) (drop 2 f))) = f ! (n - 1)"
      "snd (fletcher (take (n - 4) (drop 2 (f[i := x])))) = f[i := x] ! (n - 1)"
    using ublox_validD [OF assms(1)] ublox_validD [OF v] by (simp_all add: n_def)
  have i: "i \<noteq> 0" "i \<noteq> 1" using s assms(2,3) by (metis nth_list_update_eq)+
  show False
  proof (cases "i < n - 2")
    case True
    have "take (n - 4) (drop 2 (f[i := x])) = (take (n - 4) (drop 2 f))[i - 2 := x]"
      using i by (simp add: drop_update_swap take_update_swap)
    moreover have "Suc (Suc (i - 2)) = i" using i by simp
    then have "x \<noteq> take (n - 4) (drop 2 f) ! (i - 2)" "i - 2 < length (take (n - 4) (drop 2 f))"
      using True i n assms(2,3) by (simp_all add: n_def)
    ultimately have "sum_list (take (n - 4) (drop 2 (f[i := x]))) \<noteq> sum_list (take (n - 4) (drop 2 f))"
      using sum_list_update_differs by metis
    then show False using a True by simp
  next
    case False
    then have "take (n - 4) (drop 2 (f[i := x])) = take (n - 4) (drop 2 f)"
      using n by (simp add: take_drop n_def)
    moreover have "i = n - 2 \<or> i = n - 1" using False assms(2) by (auto simp: n_def)
    ultimately have "f[i := x] ! i = f ! i" using a b by metis
    then show False using assms(2,3) by simp
  qed
qed

lemma le32_inj: "le32 a b c d = le32 a' b' c' d' \<longleftrightarrow> [a, b, c, d] = [a', b', c', d']"
  by (metis byte_of_le32 list.inject)

lemma custom_change_detected:
  assumes "custom_valid f" and "i < length f" and "x \<noteq> f ! i"
  shows "\<not> custom_valid (f[i := x])"
proof
  assume v: "custom_valid (f[i := x])"
  have "0 + 4 \<le> length f" using assms(1) by (simp add: custom_valid_def custom_shape_def Let_def)
  then obtain e h t where f: "f = e @ h @ t" "length e = 0" "length t = 4" by (rule frame_split)
  obtain t0 t1 t2 t3 where t: "t = [t0, t1, t2, t3]" using list_of_length(3) [OF f(3)] by blast
  have c: "NOT (foldl crc32_spec 0xFFFFFFFF h) = le32 t0 t1 t2 t3"
    using assms(1) f(1,2) by (simp add: t custom_valid_append)
  show False
  proof (cases "i < length h")
    case True
    then have "foldl crc32_spec 0xFFFFFFFF (h[i := x]) \<noteq> foldl crc32_spec 0xFFFFFFFF h"
      using assms(3) f(1,2)
      by (intro foldl_update_differs [OF crc32_spec_inj crc32_byte_inj]) (simp_all add: nth_append)
    moreover have "f[i := x] = h[i := x] @ [t0, t1, t2, t3]" using True f(1,2) by (simp add: t list_update_append)
    then have "NOT (foldl crc32_spec 0xFFFFFFFF (h[i := x])) = le32 t0 t1 t2 t3"
      using v by (simp add: custom_valid_append)
    ultimately show False using c by (metis bit.double_compl)
  next
    case False
    define j where "j = i - length h"
    have j: "j < 4" "x \<noteq> t ! j" using False assms(2,3) f by (simp_all add: j_def nth_append)
    have "f[i := x] = h @ t[j := x]" using False f(1,2) by (simp add: list_update_append j_def)
    moreover have "length (t[j := x]) = 4" using f(3) by simp
    then obtain s0 s1 s2 s3 where s: "t[j := x] = [s0, s1, s2, s3]" using list_of_length(3) by blast
    ultimately have "NOT (foldl crc32_spec 0xFFFFFFFF h) = le32 s0 s1 s2 s3"
      using v by (simp add: custom_valid_append)
    then have "t[j := x] = t" using c s t le32_inj by metis
    then show False using j f(3) by (metis nth_list_update_eq)
  qed
qed

end
