(* ===== verification/Semp_Parser.thy ===== *)
theory Semp_Parser
  imports Encoders
begin

text \<open>
  single_parser/semp_parser.c: the parser for the custom protocol alone, one static
  structure fed by \<^verbatim>\<open>sempProcessByte\<close> or \<^verbatim>\<open>sempProcessBuffer\<close>. The fields of the structure
  carry the prefix \<open>sp\<close> and functions whose name another file of the repository has as well
  the suffix \<open>sp\<close>. Function pointers are values of a datatype; \<open>sp_log\<close> records
  what the application is told.
\<close>

section \<open>Constants and types\<close>

definition semp_crc32Table_sp :: "u32 list" where
  "semp_crc32Table_sp = [
     0x00000000, 0x77073096, 0xEE0E612C, 0x990951BA, 0x076DC419, 0x706AF48F,
     0xE963A535, 0x9E6495A3, 0x0EDB8832, 0x79DCB8A4, 0xE0D5E91E, 0x97D2D988,
     0x09B64C2B, 0x7EB17CBD, 0xE7B82D07, 0x90BF1D91, 0x1DB71064, 0x6AB020F2,
     0xF3B97148, 0x84BE41DE, 0x1ADAD47D, 0x6DDDE4EB, 0xF4D4B551, 0x83D385C7,
     0x136C9856, 0x646BA8C0, 0xFD62F97A, 0x8A65C9EC, 0x14015C4F, 0x63066CD9,
     0xFA0F3D63, 0x8D080DF5, 0x3B6E20C8, 0x4C69105E, 0xD56041E4, 0xA2677172,
     0x3C03E4D1, 0x4B04D447, 0xD20D85FD, 0xA50AB56B, 0x35B5A8FA, 0x42B2986C,
     0xDBBBC9D6, 0xACBCF940, 0x32D86CE3, 0x45DF5C75, 0xDCD60DCF, 0xABD13D59,
     0x26D930AC, 0x51DE003A, 0xC8D75180, 0xBFD06116, 0x21B4F4B5, 0x56B3C423,
     0xCFBA9599, 0xB8BDA50F, 0x2802B89E, 0x5F058808, 0xC60CD9B2, 0xB10BE924,
     0x2F6F7C87, 0x58684C11, 0xC1611DAB, 0xB6662D3D, 0x76DC4190, 0x01DB7106,
     0x98D220BC, 0xEFD5102A, 0x71B18589, 0x06B6B51F, 0x9FBFE4A5, 0xE8B8D433,
     0x7807C9A2, 0x0F00F934, 0x9609A88E, 0xE10E9818, 0x7F6A0DBB, 0x086D3D2D,
     0x91646C97, 0xE6635C01, 0x6B6B51F4, 0x1C6C6162, 0x856530D8, 0xF262004E,
     0x6C0695ED, 0x1B01A57B, 0x8208F4C1, 0xF50FC457, 0x65B0D9C6, 0x12B7E950,
     0x8BBEB8EA, 0xFCB9887C, 0x62DD1DDF, 0x15DA2D49, 0x8CD37CF3, 0xFBD44C65,
     0x4DB26158, 0x3AB551CE, 0xA3BC0074, 0xD4BB30E2, 0x4ADFA541, 0x3DD895D7,
     0xA4D1C46D, 0xD3D6F4FB, 0x4369E96A, 0x346ED9FC, 0xAD678846, 0xDA60B8D0,
     0x44042D73, 0x33031DE5, 0xAA0A4C5F, 0xDD0D7CC9, 0x5005713C, 0x270241AA,
     0xBE0B1010, 0xC90C2086, 0x5768B525, 0x206F85B3, 0xB966D409, 0xCE61E49F,
     0x5EDEF90E, 0x29D9C998, 0xB0D09822, 0xC7D7A8B4, 0x59B33D17, 0x2EB40D81,
     0xB7BD5C3B, 0xC0BA6CAD, 0xEDB88320, 0x9ABFB3B6, 0x03B6E20C, 0x74B1D29A,
     0xEAD54739, 0x9DD277AF, 0x04DB2615, 0x73DC1683, 0xE3630B12, 0x94643B84,
     0x0D6D6A3E, 0x7A6A5AA8, 0xE40ECF0B, 0x9309FF9D, 0x0A00AE27, 0x7D079EB1,
     0xF00F9344, 0x8708A3D2, 0x1E01F268, 0x6906C2FE, 0xF762575D, 0x806567CB,
     0x196C3671, 0x6E6B06E7, 0xFED41B76, 0x89D32BE0, 0x10DA7A5A, 0x67DD4ACC,
     0xF9B9DF6F, 0x8EBEEFF9, 0x17B7BE43, 0x60B08ED5, 0xD6D6A3E8, 0xA1D1937E,
     0x38D8C2C4, 0x4FDFF252, 0xD1BB67F1, 0xA6BC5767, 0x3FB506DD, 0x48B2364B,
     0xD80D2BDA, 0xAF0A1B4C, 0x36034AF6, 0x41047A60, 0xDF60EFC3, 0xA867DF55,
     0x316E8EEF, 0x4669BE79, 0xCB61B38C, 0xBC66831A, 0x256FD2A0, 0x5268E236,
     0xCC0C7795, 0xBB0B4703, 0x220216B9, 0x5505262F, 0xC5BA3BBE, 0xB2BD0B28,
     0x2BB45A92, 0x5CB36A04, 0xC2D7FFA7, 0xB5D0CF31, 0x2CD99E8B, 0x5BDEAE1D,
     0x9B64C2B0, 0xEC63F226, 0x756AA39C, 0x026D930A, 0x9C0906A9, 0xEB0E363F,
     0x72076785, 0x05005713, 0x95BF4A82, 0xE2B87A14, 0x7BB12BAE, 0x0CB61B38,
     0x92D28E9B, 0xE5D5BE0D, 0x7CDCEFB7, 0x0BDBDF21, 0x86D3D2D4, 0xF1D4E242,
     0x68DDB3F8, 0x1FDA836E, 0x81BE16CD, 0xF6B9265B, 0x6FB077E1, 0x18B74777,
     0x88085AE6, 0xFF0F6A70, 0x66063BCA, 0x11010B5C, 0x8F659EFF, 0xF862AE69,
     0x616BFFD3, 0x166CCF45, 0xA00AE278, 0xD70DD2EE, 0x4E048354, 0x3903B3C2,
     0xA7672661, 0xD06016F7, 0x4969474D, 0x3E6E77DB, 0xAED16A4A, 0xD9D65ADC,
     0x40DF0B66, 0x37D83BF0, 0xA9BCAE53, 0xDEBB9EC5, 0x47B2CF7F, 0x30B5FFE9,
     0xBDBDF21C, 0xCABAC28A, 0x53B39330, 0x24B4A3A6, 0xBAD03605, 0xCDD70693,
     0x54DE5729, 0x23D967BF, 0xB3667A2E, 0xC4614AB8, 0x5D681B02, 0x2A6F2B94,
     0xB40BBE37, 0xC30C8EA1, 0x5A05DF1B, 0x2D02EF8D]"

definition SEMP_SYNC_BYTE_1 :: u8 where "SEMP_SYNC_BYTE_1 = 0xAA"

definition SEMP_SYNC_BYTE_2 :: u8 where "SEMP_SYNC_BYTE_2 = 0x44"

definition SEMP_SYNC_BYTE_3 :: u8 where "SEMP_SYNC_BYTE_3 = 0x18"

definition SEMP_HEADER_LENGTH :: u8 where "SEMP_HEADER_LENGTH = 0x14"

definition SEMP_CRC_SIZE :: u16 where "SEMP_CRC_SIZE = 4"

definition sizeof_SEMP_MESSAGE_HEADER :: nat where "sizeof_SEMP_MESSAGE_HEADER = 20"

lemmas semp_constants = SEMP_SYNC_BYTE_1_def SEMP_SYNC_BYTE_2_def SEMP_SYNC_BYTE_3_def
  SEMP_HEADER_LENGTH_def SEMP_CRC_SIZE_def sizeof_SEMP_MESSAGE_HEADER_def

datatype sempStateFunction = SpFirstByte | SpSync2 | SpSync3 | SpReadHeader | SpReadData | SpReadCrc

datatype sempCrcFunction = SpComputeCrc

datatype sp_output = SpBadHeaderLength u8 | SpBadCrc "u8 list" u32

datatype sp_event = SpEom callback u8 "u8 list" | SpBadCrcCall "u8 list" | SpPrint sp_output

text \<open>The members a callback can read, and the structure.\<close>

record SP_VIEW =
  sp_buffer :: "u8 list"
  sp_length :: u16
  sp_maxLength :: u16
  sp_crc :: u32
  sp_type :: u8
  sp_name :: "string option"
  sp_scratch_crc :: u32
  sp_bytesRemaining :: u16

record SP_STATE = SP_VIEW +
  sp_state :: "sempStateFunction option"
  sp_computeCrc :: "sempCrcFunction option"
  sp_eomCallback :: "callback option"
  sp_badCrc :: "(SP_VIEW \<Rightarrow> bool) option"
  sp_printDebug :: bool
  sp_log :: "sp_event list"

definition sp_message :: "SP_STATE \<Rightarrow> u8 list" where
  "sp_message p = take (unat (sp_length p)) (sp_buffer p)"

section \<open>Operations\<close>

definition sempPrintf_sp :: "bool \<Rightarrow> sp_output \<Rightarrow> SP_STATE \<Rightarrow> SP_STATE" where
  "sempPrintf_sp enabled m p = (if enabled then p\<lparr>sp_log := sp_log p @ [SpPrint m]\<rparr> else p)"

definition sempBluetoothComputeCrc :: "SP_STATE \<Rightarrow> u8 \<Rightarrow> u32" where
  "sempBluetoothComputeCrc p data = crc32_step semp_crc32Table_sp (sp_crc p) data"

text \<open>\<^verbatim>\<open>parse->crc = parse->computeCrc(parse, data)\<close>\<close>

definition sp_update_crc :: "SP_STATE \<Rightarrow> u8 \<Rightarrow> SP_STATE res" where
  "sp_update_crc p data =
     (case sp_computeCrc p of
        None \<Rightarrow> Inl NullPointer
      | Some SpComputeCrc \<Rightarrow> Inr (p\<lparr>sp_crc := sempBluetoothComputeCrc p data\<rparr>))"

text \<open>\<^verbatim>\<open>if (parse->length < parse->maxLength) parse->buffer[parse->length++] = data\<close>\<close>

definition sp_store :: "SP_STATE \<Rightarrow> u8 \<Rightarrow> SP_STATE res" where
  "sp_store p data =
     (if sp_length p < sp_maxLength p
      then rbind (upd (sp_buffer p) (uint (sp_length p)) data) (\<lambda>b.
             Inr (p\<lparr>sp_buffer := b, sp_length := sp_length p + 1\<rparr>))
      else Inr p)"

definition sempBluetoothPreamble :: "SP_STATE \<Rightarrow> u8 \<Rightarrow> (SP_STATE \<times> bool) res" where
  "sempBluetoothPreamble p data =
     (if data \<noteq> SEMP_SYNC_BYTE_1 then Inr (p, False)
      else rbind (sp_update_crc (p\<lparr>sp_crc := 0xFFFFFFFF, sp_computeCrc := Some SpComputeCrc\<rparr>) data) (\<lambda>p.
           rbind (sp_store p data) (\<lambda>p. Inr (p\<lparr>sp_state := Some SpSync2\<rparr>, True))))"

definition sempFirstByte_sp :: "SP_STATE \<Rightarrow> u8 \<Rightarrow> (SP_STATE \<times> bool) res" where
  "sempFirstByte_sp p data = sempBluetoothPreamble (p\<lparr>sp_length := 0, sp_crc := 0\<rparr>) data"

definition sempBluetoothSync2 :: "SP_STATE \<Rightarrow> u8 \<Rightarrow> (SP_STATE \<times> bool) res" where
  "sempBluetoothSync2 p data =
     (if data \<noteq> SEMP_SYNC_BYTE_2 then sempFirstByte_sp p data
      else rbind (sp_update_crc p data) (\<lambda>p.
           rbind (sp_store p data) (\<lambda>p. Inr (p\<lparr>sp_state := Some SpSync3\<rparr>, True))))"

definition sempBluetoothSync3 :: "SP_STATE \<Rightarrow> u8 \<Rightarrow> (SP_STATE \<times> bool) res" where
  "sempBluetoothSync3 p data =
     (if data \<noteq> SEMP_SYNC_BYTE_3 then sempFirstByte_sp p data
      else rbind (sp_update_crc p data) (\<lambda>p.
           rbind (sp_store p data) (\<lambda>p. Inr (p\<lparr>sp_state := Some SpReadHeader\<rparr>, True))))"

text \<open>
  \<^verbatim>\<open>scratchPad->bluetooth.bytesRemaining = SEMP_CRC_SIZE\<close> and the statements after it: the
  register is complemented and kept, the CRC bytes follow.
\<close>

definition sp_expect_crc :: "SP_STATE \<Rightarrow> SP_STATE" where
  "sp_expect_crc p =
     p\<lparr>sp_bytesRemaining := SEMP_CRC_SIZE, sp_crc := sp_crc p XOR 0xFFFFFFFF,
       sp_scratch_crc := sp_crc p XOR 0xFFFFFFFF, sp_state := Some SpReadCrc\<rparr>"

definition sempBluetoothReadHeader :: "SP_STATE \<Rightarrow> u8 \<Rightarrow> (SP_STATE \<times> bool) res" where
  "sempBluetoothReadHeader p data =
     rbind (sp_update_crc p data) (\<lambda>p.
     rbind (sp_store p data) (\<lambda>p.
       if unat (sp_length p) \<ge> sizeof_SEMP_MESSAGE_HEADER
       then rbind (at (sp_buffer p) 3) (\<lambda>headerLength.
            if headerLength \<noteq> SEMP_HEADER_LENGTH
            then Inr ((sempPrintf_sp (sp_printDebug p) (SpBadHeaderLength headerLength) p)
                        \<lparr>sp_state := Some SpFirstByte\<rparr>, False)
            else rbind (at (sp_buffer p) 12) (\<lambda>lo. rbind (at (sp_buffer p) 13) (\<lambda>hi.
                 rbind (at (sp_buffer p) 17) (\<lambda>messageType.
                   let p = p\<lparr>sp_bytesRemaining := le16 lo hi, sp_type := messageType\<rparr>
                   in if sp_bytesRemaining p = 0 then Inr (sp_expect_crc p, True)
                      else Inr (p\<lparr>sp_state := Some SpReadData\<rparr>, True)))))
       else Inr (p, True)))"

definition sempBluetoothReadData :: "SP_STATE \<Rightarrow> u8 \<Rightarrow> (SP_STATE \<times> bool) res" where
  "sempBluetoothReadData p data =
     rbind (sp_update_crc p data) (\<lambda>p.
     rbind (sp_store p data) (\<lambda>p.
       let p = p\<lparr>sp_bytesRemaining := sp_bytesRemaining p - 1\<rparr>
       in if sp_bytesRemaining p = 0 then Inr (sp_expect_crc p, True) else Inr (p, True)))"

text \<open>The last four bytes of the buffer, read with a signed index.\<close>

definition sp_last4 :: "SP_STATE \<Rightarrow> (u8 \<times> u8 \<times> u8 \<times> u8) res" where
  "sp_last4 p =
     (let n = uint (sp_length p)
      in rbind (at (sp_buffer p) (n - 4)) (\<lambda>a. rbind (at (sp_buffer p) (n - 3)) (\<lambda>b.
         rbind (at (sp_buffer p) (n - 2)) (\<lambda>c. rbind (at (sp_buffer p) (n - 1)) (\<lambda>d.
           Inr (a, b, c, d))))))"

text \<open>The end of \<^verbatim>\<open>sempBluetoothReadCrc\<close>, when all CRC bytes have been read.\<close>

definition sp_check_crc :: "SP_STATE \<Rightarrow> (SP_STATE \<times> bool) res" where
  "sp_check_crc p =
     rbind (if sp_length p \<ge> SEMP_CRC_SIZE
            then rbind (sp_last4 p) (\<lambda>(a, b, c, d). Inr (le32 a b c d)) else Inr 0) (\<lambda>crcRead.
     rbind (if crcRead = sp_scratch_crc p
            then case sp_eomCallback p of
                   None \<Rightarrow> Inr p
                 | Some cb \<Rightarrow> Inr (p\<lparr>sp_log := sp_log p @ [SpEom cb (sp_type p) (sp_message p)]\<rparr>)
            else
              let (p, quiet) =
                (case sp_badCrc p of
                   None \<Rightarrow> (p, False)
                 | Some f \<Rightarrow> (p\<lparr>sp_log := sp_log p @ [SpBadCrcCall (sp_message p)]\<rparr>,
                              f (SP_VIEW.truncate p)))
              in if quiet then Inr p
                 else rbind (sp_last4 p) (\<lambda>(a, b, c, d).
                      Inr (sempPrintf_sp (sp_printDebug p) (SpBadCrc [a, b, c, d] (sp_scratch_crc p)) p)))
       (\<lambda>p. Inr (p\<lparr>sp_state := Some SpFirstByte\<rparr>, False)))"

definition sempBluetoothReadCrc :: "SP_STATE \<Rightarrow> u8 \<Rightarrow> (SP_STATE \<times> bool) res" where
  "sempBluetoothReadCrc p data =
     rbind (sp_store p data) (\<lambda>p.
       let p = p\<lparr>sp_bytesRemaining := sp_bytesRemaining p - 1\<rparr>
       in if sp_bytesRemaining p \<noteq> 0 then Inr (p, True) else sp_check_crc p)"

fun call_sempState :: "sempStateFunction \<Rightarrow> SP_STATE \<Rightarrow> u8 \<Rightarrow> (SP_STATE \<times> bool) res" where
  "call_sempState SpFirstByte = sempFirstByte_sp"
| "call_sempState SpSync2 = sempBluetoothSync2"
| "call_sempState SpSync3 = sempBluetoothSync3"
| "call_sempState SpReadHeader = sempBluetoothReadHeader"
| "call_sempState SpReadData = sempBluetoothReadData"
| "call_sempState SpReadCrc = sempBluetoothReadCrc"

definition sempInitParser ::
  "u8 list \<Rightarrow> u16 \<Rightarrow> callback option \<Rightarrow> (SP_VIEW \<Rightarrow> bool) option \<Rightarrow> string option \<Rightarrow> SP_STATE" where
  "sempInitParser buf maxLength eom bad pname =
     \<lparr>sp_buffer = buf, sp_length = 0, sp_maxLength = maxLength, sp_crc = 0, sp_type = 0, sp_name = pname,
      sp_scratch_crc = 0, sp_bytesRemaining = 0, sp_state = Some SpFirstByte, sp_computeCrc = None,
      sp_eomCallback = eom, sp_badCrc = bad, sp_printDebug = True, sp_log = []\<rparr>"

definition sempProcessByte :: "SP_STATE option \<Rightarrow> u8 \<Rightarrow> (SP_STATE option \<times> bool) res" where
  "sempProcessByte parse data =
     (case parse of
        None \<Rightarrow> Inr (None, False)
      | Some p \<Rightarrow>
          case sp_state p of
            None \<Rightarrow> Inr (parse, False)
          | Some f \<Rightarrow> rbind (call_sempState f p data) (\<lambda>(p, b). Inr (Some p, b)))"

function sempProcessBuffer_loop ::
  "SP_STATE option \<Rightarrow> u8 list \<Rightarrow> u16 \<Rightarrow> u16 \<Rightarrow> u16 \<Rightarrow> (SP_STATE option \<times> u16) res" where
  "sempProcessBuffer_loop parse data len i processed =
     (if i < len
      then rbind (at data (uint i)) (\<lambda>d.
           case sempProcessByte parse d of
             Inl e \<Rightarrow> Inl e
           | Inr (parse, go) \<Rightarrow>
               if go then sempProcessBuffer_loop parse data len (i + 1) (processed + 1)
               else Inr (parse, processed))
      else Inr (parse, processed))"
  by pat_completeness auto
termination
proof (relation "measure (\<lambda>(_, _, len, i, _). unat len - unat i)")
  fix len i :: u16
  assume "i < len"
  then have "unat (i + 1) = Suc (unat i)" "unat i < unat len"
    using unat_Suc_below [of i len] by (simp_all add: word_less_nat_alt)
  then show "((p, d, len, i + 1, n), (p', d', len, i, n')) \<in> measure (\<lambda>(_, _, len, i, _). unat len - unat i)"
    for p p' d d' n n' by simp
qed simp

declare sempProcessBuffer_loop.simps [simp del]

definition sempProcessBuffer :: "SP_STATE option \<Rightarrow> u8 list \<Rightarrow> u16 \<Rightarrow> (SP_STATE option \<times> u16) res" where
  "sempProcessBuffer parse data len = sempProcessBuffer_loop parse data len 0 0"

end
