(* ===== verification/Semp_Correct.thy ===== *)
theory Semp_Correct
  imports Semp_Parser
begin

text \<open>
  Properties of single_parser/semp_parser.c: an invariant that every byte keeps, hence the
  absence of memory faults; which messages are delivered; that every frame is; and the
  frames without leading sync byte that are delivered as well, because a wrong sync byte
  does not reset the state.
\<close>

section \<open>Frames\<close>

text \<open>
  \<open>c\<close> is the initial register of the CRC and \<open>j\<close> the number of leading sync bytes that are
  missing. Frames as the protocol defines them have \<open>c = 0xFFFFFFFF\<close> and \<open>j = 0\<close>.
\<close>

definition bt_crc :: "u32 \<Rightarrow> u8 list \<Rightarrow> u32" where
  "bt_crc c m = foldl crc32_spec c m"

definition bt_sync :: "nat \<Rightarrow> u8 list \<Rightarrow> bool" where
  "bt_sync j m \<longleftrightarrow> take (3 - j) m = take (length m) (drop j [0xAA, 0x44, 0x18])"

definition bt_shape :: "nat \<Rightarrow> u8 list \<Rightarrow> bool" where
  "bt_shape j f \<longleftrightarrow> 24 \<le> length f \<and> bt_sync j f \<and> f ! 3 = 0x14
     \<and> length f = 24 + unat (custom_length f)"

definition bt_valid :: "u32 \<Rightarrow> nat \<Rightarrow> u8 list \<Rightarrow> bool" where
  "bt_valid c j f \<longleftrightarrow> bt_shape j f
     \<and> (let n = length f
        in NOT (bt_crc c (take (n - 4) f)) = le32 (f ! (n - 4)) (f ! (n - 3)) (f ! (n - 2)) (f ! (n - 1)))"

lemma bt_valid_append:
  "bt_valid c j (h @ [t0, t1, t2, t3]) \<longleftrightarrow>
     bt_shape j (h @ [t0, t1, t2, t3]) \<and> NOT (bt_crc c h) = le32 t0 t1 t2 t3"
  by (simp add: bt_valid_def Let_def nth_append)

text \<open>\<open>s\<close>, \<open>a\<close> and \<open>b\<close> are the header fields around the header length and the message length.\<close>

definition bt_frame :: "u32 \<Rightarrow> u8 list \<Rightarrow> u8 list \<Rightarrow> u8 list \<Rightarrow> u8 list \<Rightarrow> u8 list" where
  "bt_frame c s a b payload =
     (let n = of_nat (length payload) :: u16;
          h = s @ 0x14 # a @ [byte_of 0 n, byte_of 1 n] @ b @ payload;
          w = NOT (bt_crc c h)
      in h @ [byte_of 0 w, byte_of 1 w, byte_of 2 w, byte_of 3 w])"

lemma length_bt_frame: "length (bt_frame c s a b payload) = length s + length a + length b + length payload + 7"
  by (simp add: bt_frame_def Let_def)

lemma bt_sync_prefix: "length s = 3 \<Longrightarrow> bt_sync j (s @ f) \<longleftrightarrow> take (3 - j) s = drop j [0xAA, 0x44, 0x18]"
  by (simp add: bt_sync_def)

lemma bt_frame_valid:
  assumes "length s = 3" and "length a = 8" and "length b = 6" and "length payload < 65536"
    and "take (3 - j) s = drop j [0xAA, 0x44, 0x18]"
  shows "bt_valid c j (bt_frame c s a b payload)"
proof -
  define n where "n = (of_nat (length payload) :: u16)"
  define g where "g = 0x14 # a @ [byte_of 0 n, byte_of 1 n] @ b @ payload"
  define w where "w = NOT (bt_crc c (s @ g))"
  have f: "bt_frame c s a b payload = (s @ g) @ [byte_of 0 w, byte_of 1 w, byte_of 2 w, byte_of 3 w]"
    by (simp add: bt_frame_def g_def w_def n_def Let_def)
  have "custom_length (bt_frame c s a b payload) = n"
    using assms(1-3) by (simp add: f g_def custom_length_def nth_append)
  moreover have "unat n = length payload" using assms(4) by (simp add: n_def unat_of_nat_16)
  moreover have "bt_sync j (bt_frame c s a b payload)" using bt_sync_prefix [OF assms(1)] assms(5) by (simp add: f)
  moreover have "bt_frame c s a b payload ! 3 = 0x14" using assms(1) by (simp add: f g_def nth_append)
  ultimately have "bt_shape j (bt_frame c s a b payload)"
    using assms(1-3) by (simp add: bt_shape_def length_bt_frame)
  then show ?thesis unfolding f bt_valid_append w_def by simp
qed

text \<open>Frames with payload are the custom messages of my_parser whose header length is right.\<close>

lemma bt_sync_header: "3 \<le> length f \<Longrightarrow> bt_sync 0 f \<longleftrightarrow> custom_header f"
  by (cases f; cases "tl f"; cases "tl (tl f)") (auto simp: bt_sync_def custom_header_def)

lemma bt_valid_custom:
  "bt_valid 0xFFFFFFFF 0 f \<and> custom_length f \<noteq> 0 \<longleftrightarrow> custom_valid f \<and> f ! 3 = 0x14"
proof -
  have "custom_length f \<noteq> 0 \<longleftrightarrow> 1 \<le> unat (custom_length f)" by (simp add: Suc_le_eq unat_gt_0)
  then have "bt_shape 0 f \<and> custom_length f \<noteq> 0 \<longleftrightarrow> custom_shape f \<and> f ! 3 = 0x14"
    using bt_sync_header [of f] by (auto simp: bt_shape_def custom_shape_def)
  moreover have "custom_crc32 (take (length f - 4) f) XOR 0xFFFFFFFF = NOT (bt_crc 0xFFFFFFFF (take (length f - 4) f))"
    by (simp add: custom_crc32_eq xor_ones bt_crc_def)
  ultimately show ?thesis unfolding bt_valid_def custom_valid_def Let_def by auto
qed

fun sp_eoms :: "sp_event list \<Rightarrow> (u8 \<times> u8 list) list" where
  "sp_eoms [] = []"
| "sp_eoms (SpEom a t m # es) = (t, m) # sp_eoms es"
| "sp_eoms (_ # es) = sp_eoms es"

lemma sp_eoms_append [simp]: "sp_eoms (es @ es') = sp_eoms es @ sp_eoms es'"
  by (induction es rule: sp_eoms.induct) simp_all

abbreviation sp_delivered :: "SP_STATE \<Rightarrow> (u8 \<times> u8 list) list" where
  "sp_delivered p \<equiv> sp_eoms (sp_log p)"

section \<open>The common part of a step\<close>

definition wf_sp :: "SP_STATE \<Rightarrow> bool" where
  "wf_sp p \<longleftrightarrow> unat (sp_maxLength p) \<le> length (sp_buffer p) \<and> sp_length p \<le> sp_maxLength p"

definition sp_same :: "SP_STATE \<Rightarrow> SP_STATE \<Rightarrow> bool" where
  "sp_same p q \<longleftrightarrow> sp_maxLength q = sp_maxLength p \<and> sp_eomCallback q = sp_eomCallback p
     \<and> sp_badCrc q = sp_badCrc p \<and> length (sp_buffer q) = length (sp_buffer p)"

definition stored :: "SP_STATE \<Rightarrow> u8 \<Rightarrow> SP_STATE" where
  "stored p d = p\<lparr>sp_buffer := (sp_buffer p)[unat (sp_length p) := d], sp_length := sp_length p + 1\<rparr>"

lemma stored_simps [simp]:
  "sp_maxLength (stored p d) = sp_maxLength p" "sp_crc (stored p d) = sp_crc p" "sp_type (stored p d) = sp_type p"
  "sp_scratch_crc (stored p d) = sp_scratch_crc p" "sp_bytesRemaining (stored p d) = sp_bytesRemaining p"
  "sp_state (stored p d) = sp_state p" "sp_computeCrc (stored p d) = sp_computeCrc p"
  "sp_eomCallback (stored p d) = sp_eomCallback p" "sp_badCrc (stored p d) = sp_badCrc p"
  "sp_printDebug (stored p d) = sp_printDebug p" "sp_log (stored p d) = sp_log p"
  "length (sp_buffer (stored p d)) = length (sp_buffer p)"
  by (simp_all add: stored_def)

lemma sp_message_simps [simp]:
  "sp_message (p\<lparr>sp_crc := c\<rparr>) = sp_message p" "sp_message (p\<lparr>sp_state := s\<rparr>) = sp_message p"
  "sp_message (p\<lparr>sp_type := t\<rparr>) = sp_message p" "sp_message (p\<lparr>sp_bytesRemaining := n\<rparr>) = sp_message p"
  "sp_message (p\<lparr>sp_scratch_crc := c\<rparr>) = sp_message p" "sp_message (p\<lparr>sp_log := l\<rparr>) = sp_message p"
  "sp_message (p\<lparr>sp_computeCrc := f\<rparr>) = sp_message p"
  by (simp_all add: sp_message_def)

lemma wf_sp_simps [simp]:
  "wf_sp (p\<lparr>sp_crc := c\<rparr>) = wf_sp p" "wf_sp (p\<lparr>sp_state := s\<rparr>) = wf_sp p"
  "wf_sp (p\<lparr>sp_type := t\<rparr>) = wf_sp p" "wf_sp (p\<lparr>sp_bytesRemaining := n\<rparr>) = wf_sp p"
  "wf_sp (p\<lparr>sp_scratch_crc := c\<rparr>) = wf_sp p" "wf_sp (p\<lparr>sp_log := l\<rparr>) = wf_sp p"
  "wf_sp (p\<lparr>sp_computeCrc := f\<rparr>) = wf_sp p"
  by (simp_all add: wf_sp_def)

lemma length_sp_message: "wf_sp p \<Longrightarrow> length (sp_message p) = unat (sp_length p)"
  by (simp add: wf_sp_def sp_message_def word_le_nat_alt)

lemma sp_store_room:
  assumes "wf_sp p" and "sp_length p < sp_maxLength p"
  shows "sp_store p d = Inr (stored p d)" "sp_message (stored p d) = sp_message p @ [d]" "wf_sp (stored p d)"
proof -
  have n: "unat (sp_length p + 1) = Suc (unat (sp_length p))" by (rule unat_Suc_below) (use assms(2) in \<open>simp add: word_less_nat_alt\<close>)
  have lt: "unat (sp_length p) < length (sp_buffer p)"
    using assms by (simp add: wf_sp_def word_less_nat_alt)
  show "sp_store p d = Inr (stored p d)"
    using assms(2) lt by (simp add: sp_store_def upd_word stored_def)
  show "sp_message (stored p d) = sp_message p @ [d]"
    using lt by (simp add: sp_message_def stored_def n take_Suc_update)
  show "wf_sp (stored p d)"
    using assms n by (auto simp: wf_sp_def stored_def word_le_nat_alt word_less_nat_alt)
qed

lemma sp_store_full: "\<not> sp_length p < sp_maxLength p \<Longrightarrow> sp_store p d = Inr p"
  by (simp add: sp_store_def)

lemma sp_store_any:
  assumes "wf_sp p"
  shows "\<exists>q. sp_store p d = Inr q \<and> wf_sp q \<and> sp_state q = sp_state p \<and> sp_computeCrc q = sp_computeCrc p
    \<and> sp_maxLength q = sp_maxLength p \<and> sp_bytesRemaining q = sp_bytesRemaining p
    \<and> sp_same p q \<and> sp_log q = sp_log p"
proof (cases "sp_length p < sp_maxLength p")
  case True
  then show ?thesis using sp_store_room [OF assms True, of d] by (simp add: sp_same_def)
next
  case False
  then show ?thesis using sp_store_full [OF False] assms by (simp add: sp_same_def)
qed

lemma table_sp: "semp_crc32Table_sp = semp_crc32Table"
  by (simp only: semp_crc32Table_sp_def semp_crc32Table_def)

interpretation sp_crc32: crc32_table semp_crc32Table_sp
  unfolding table_sp by (rule semp_crc32.crc32_table_axioms)

lemma sp_update_crc_eq:
  "sp_computeCrc p = Some SpComputeCrc \<Longrightarrow> sp_update_crc p d = Inr (p\<lparr>sp_crc := crc32_spec (sp_crc p) d\<rparr>)"
  by (simp add: sp_update_crc_def sempBluetoothComputeCrc_def sp_crc32.step_spec)

lemma sp_at:
  assumes "wf_sp p" and "i < length (sp_message p)"
  shows "at (sp_buffer p) (int i) = Inr (sp_message p ! i)"
  using assms by (simp add: length_sp_message) (simp add: wf_sp_def sp_message_def word_le_nat_alt at_nat)

section \<open>The invariant\<close>

definition bt_at :: "u32 \<Rightarrow> nat \<Rightarrow> SP_STATE \<Rightarrow> bool" where
  "bt_at c j p \<longleftrightarrow>
     (let m = sp_message p; n = length m; r = unat (sp_bytesRemaining p); l = unat (custom_length m)
      in sp_computeCrc p = Some SpComputeCrc \<and> j \<le> 2 \<and> bt_sync j m \<and>
         (case sp_state p of
            Some SpSync2 \<Rightarrow> n + j = 1 \<and> sp_crc p = bt_crc c m
          | Some SpSync3 \<Rightarrow> n + j = 2 \<and> sp_crc p = bt_crc c m
          | Some SpReadHeader \<Rightarrow> 3 \<le> n + j \<and> n < 20 \<and> sp_crc p = bt_crc c m
          | Some SpReadData \<Rightarrow> 20 \<le> n \<and> m ! 3 = 0x14 \<and> sp_type p = m ! 17 \<and> n + r = 20 + l \<and> 0 < r
              \<and> sp_crc p = bt_crc c m
          | Some SpReadCrc \<Rightarrow> 20 \<le> n \<and> m ! 3 = 0x14 \<and> sp_type p = m ! 17 \<and> n + r = 24 + l \<and> 0 < r \<and> r \<le> 4
              \<and> sp_scratch_crc p = NOT (bt_crc c (take (20 + l) m))
          | _ \<Rightarrow> False))"

lemma bt_sync_append:
  assumes "bt_sync j m" and "length m + j < 3 \<Longrightarrow> d = [0xAA, 0x44, 0x18] ! (length m + j)" and "j \<le> 2"
  shows "bt_sync j (m @ [d])"
proof (cases "length m + j < 3")
  case True
  then show ?thesis
    using assms(1,2) by (simp add: bt_sync_def take_Suc_conv_app_nth add.commute)
next
  case False
  then show ?thesis using assms(1,3) by (simp add: bt_sync_def)
qed

lemma bt_crc_snoc [simp]: "bt_crc c (m @ [d]) = crc32_spec (bt_crc c m) d" "bt_crc c [] = c"
  by (simp_all add: bt_crc_def)

lemma custom_length_snoc: "14 \<le> length m \<Longrightarrow> custom_length (m @ [d]) = custom_length m"
  by (simp add: custom_length_def nth_append)

section \<open>One byte of a frame\<close>

definition sp_continues :: "u32 \<Rightarrow> nat \<Rightarrow> SP_STATE \<Rightarrow> u8 \<Rightarrow> (SP_STATE \<times> bool) res \<Rightarrow> bool" where
  "sp_continues c j p d res \<longleftrightarrow>
     (\<exists>q. res = Inr (q, True) \<and> bt_at c j q \<and> wf_sp q \<and> sp_message q = sp_message p @ [d]
        \<and> sp_same p q \<and> sp_log q = sp_log p)"

definition sp_ends :: "u32 \<Rightarrow> nat \<Rightarrow> SP_STATE \<Rightarrow> u8 \<Rightarrow> (SP_STATE \<times> bool) res \<Rightarrow> bool" where
  "sp_ends c j p d res \<longleftrightarrow>
     (\<exists>q. res = Inr (q, False) \<and> sp_state q = Some SpFirstByte \<and> wf_sp q \<and> sp_same p q
        \<and> sp_delivered q = sp_delivered p
            @ (if bt_valid c j (sp_message p @ [d]) \<and> sp_eomCallback p \<noteq> None
               then [((sp_message p @ [d]) ! 17, sp_message p @ [d])] else []))"

lemma sp_continuesI:
  "res = Inr (q, True) \<Longrightarrow> bt_at c j q \<Longrightarrow> wf_sp q \<Longrightarrow> sp_message q = sp_message p @ [d] \<Longrightarrow>
    sp_same p q \<Longrightarrow> sp_log q = sp_log p \<Longrightarrow> sp_continues c j p d res"
  by (auto simp: sp_continues_def)

text \<open>The byte entered into CRC and buffer\<close>

definition sp_fed :: "SP_STATE \<Rightarrow> u8 \<Rightarrow> SP_STATE" where
  "sp_fed p d = stored (p\<lparr>sp_crc := crc32_spec (sp_crc p) d\<rparr>) d"

lemma sp_fed:
  assumes "wf_sp p" and "sp_length p < sp_maxLength p" and "sp_computeCrc p = Some SpComputeCrc"
  shows "rbind (sp_update_crc p d) (\<lambda>p. rbind (sp_store p d) K) = K (sp_fed p d)"
    "sp_message (sp_fed p d) = sp_message p @ [d]" "wf_sp (sp_fed p d)" "sp_same p (sp_fed p d)"
    "sp_log (sp_fed p d) = sp_log p" "sp_crc (sp_fed p d) = crc32_spec (sp_crc p) d"
    "sp_computeCrc (sp_fed p d) = Some SpComputeCrc" "sp_bytesRemaining (sp_fed p d) = sp_bytesRemaining p"
    "sp_type (sp_fed p d) = sp_type p" "sp_state (sp_fed p d) = sp_state p"
  using assms sp_store_room [of "p\<lparr>sp_crc := crc32_spec (sp_crc p) d\<rparr>" d]
  by (simp_all add: sp_fed_def sp_update_crc_eq sp_same_def)

lemma sp_same_simps [simp]:
  "sp_same p (q\<lparr>sp_state := s\<rparr>) = sp_same p q" "sp_same p (q\<lparr>sp_log := l\<rparr>) = sp_same p q"
  "sp_same p (q\<lparr>sp_bytesRemaining := n\<rparr>) = sp_same p q" "sp_same p (q\<lparr>sp_type := t\<rparr>) = sp_same p q"
  "sp_same p (q\<lparr>sp_crc := c\<rparr>) = sp_same p q" "sp_same p (q\<lparr>sp_scratch_crc := c\<rparr>) = sp_same p q"
  by (simp_all add: sp_same_def)

lemma bt_sync2:
  assumes "wf_sp p" and "bt_at c j p" and "sp_length p < sp_maxLength p" and "sp_state p = Some SpSync2"
  shows "sp_continues c j p 0x44 (sempBluetoothSync2 p 0x44)"
proof -
  have b: "sp_computeCrc p = Some SpComputeCrc" "j \<le> 2" "bt_sync j (sp_message p)" "length (sp_message p) + j = 1"
      "sp_crc p = bt_crc c (sp_message p)"
    using assms(2,4) by (simp_all add: bt_at_def Let_def)
  note f = sp_fed [OF assms(1,3) b(1), where d = "0x44"]
  have "sempBluetoothSync2 p 0x44 = Inr ((sp_fed p 0x44)\<lparr>sp_state := Some SpSync3\<rparr>, True)"
    using f(1) [where K = "\<lambda>p. Inr (p\<lparr>sp_state := Some SpSync3\<rparr>, True)"]
    by (simp add: sempBluetoothSync2_def semp_constants)
  moreover have "bt_sync j (sp_message p @ [0x44])" using b by (intro bt_sync_append) simp_all
  ultimately show ?thesis
    using f(2-) b by (intro sp_continuesI [of _ "(sp_fed p 0x44)\<lparr>sp_state := Some SpSync3\<rparr>"])
      (simp_all add: bt_at_def Let_def)
qed

lemma bt_sync3:
  assumes "wf_sp p" and "bt_at c j p" and "sp_length p < sp_maxLength p" and "sp_state p = Some SpSync3"
  shows "sp_continues c j p 0x18 (sempBluetoothSync3 p 0x18)"
proof -
  have b: "sp_computeCrc p = Some SpComputeCrc" "j \<le> 2" "bt_sync j (sp_message p)" "length (sp_message p) + j = 2"
      "sp_crc p = bt_crc c (sp_message p)"
    using assms(2,4) by (simp_all add: bt_at_def Let_def)
  note f = sp_fed [OF assms(1,3) b(1), where d = "0x18"]
  have "sempBluetoothSync3 p 0x18 = Inr ((sp_fed p 0x18)\<lparr>sp_state := Some SpReadHeader\<rparr>, True)"
    using f(1) [where K = "\<lambda>p. Inr (p\<lparr>sp_state := Some SpReadHeader\<rparr>, True)"]
    by (simp add: sempBluetoothSync3_def semp_constants)
  moreover have "bt_sync j (sp_message p @ [0x18])" using b by (intro bt_sync_append) simp_all
  ultimately show ?thesis
    using f(2-) b by (intro sp_continuesI [of _ "(sp_fed p 0x18)\<lparr>sp_state := Some SpReadHeader\<rparr>"])
      (simp_all add: bt_at_def Let_def)
qed

lemma bt_expect_crc:
  assumes "wf_sp u" and "sp_message u = m" and "sp_computeCrc u = Some SpComputeCrc" and "j \<le> 2" and "bt_sync j m"
    and "20 \<le> length m" and "m ! 3 = 0x14" and "sp_type u = m ! 17"
    and "length m = 20 + unat (custom_length m)" and "sp_crc u = bt_crc c m"
  shows "bt_at c j (sp_expect_crc u)" "wf_sp (sp_expect_crc u)" "sp_message (sp_expect_crc u) = m"
    "sp_same p (sp_expect_crc u) = sp_same p u" "sp_log (sp_expect_crc u) = sp_log u"
  using assms by (simp_all add: sp_expect_crc_def bt_at_def Let_def semp_constants xor_ones)

lemma bt_header:
  assumes "wf_sp p" and "bt_at c j p" and "sp_length p < sp_maxLength p" and "sp_state p = Some SpReadHeader"
  shows "if Suc (length (sp_message p)) = 20 \<and> (sp_message p @ [d]) ! 3 \<noteq> 0x14
    then sp_ends c j p d (sempBluetoothReadHeader p d)
    else sp_continues c j p d (sempBluetoothReadHeader p d)"
proof -
  have b: "sp_computeCrc p = Some SpComputeCrc" "j \<le> 2" "bt_sync j (sp_message p)" "3 \<le> length (sp_message p) + j"
      "length (sp_message p) < 20" "sp_crc p = bt_crc c (sp_message p)"
    using assms(2,4) by (simp_all add: bt_at_def Let_def)
  define u where "u = sp_fed p d"
  define m where "m = sp_message p @ [d]"
  note f = sp_fed [OF assms(1,3) b(1), where d = d, folded u_def m_def]
  have sync: "bt_sync j m" using b unfolding m_def by (intro bt_sync_append) simp_all
  have n: "unat (sp_length u) = length m" using length_sp_message [OF f(3)] f(2) by simp
  have lm: "length m = Suc (length (sp_message p))" by (simp add: m_def)
  show ?thesis
  proof (cases "length m = 20")
    case False
    then have "sempBluetoothReadHeader p d = Inr (u, True)"
      unfolding sempBluetoothReadHeader_def f(1) using n b(5) lm by (simp add: semp_constants)
    then have "sp_continues c j p d (sempBluetoothReadHeader p d)"
      using f(2-) b sync False lm assms(4) by (intro sp_continuesI [of _ u]) (simp_all add: bt_at_def Let_def m_def)
    then show ?thesis using False lm by simp
  next
    case True
    have at: "at (sp_buffer u) 3 = Inr (m ! 3)" "at (sp_buffer u) 12 = Inr (m ! 12)"
        "at (sp_buffer u) 13 = Inr (m ! 13)" "at (sp_buffer u) 17 = Inr (m ! 17)"
      using sp_at [OF f(3), of 3] sp_at [OF f(3), of 12] sp_at [OF f(3), of 13] sp_at [OF f(3), of 17] True f(2)
      by simp_all
    define v where "v = u\<lparr>sp_bytesRemaining := custom_length m, sp_type := m ! 17\<rparr>"
    have eq: "sempBluetoothReadHeader p d =
      (if m ! 3 \<noteq> 0x14 then Inr ((sempPrintf_sp (sp_printDebug u) (SpBadHeaderLength (m ! 3)) u)\<lparr>sp_state := Some SpFirstByte\<rparr>, False)
       else if custom_length m = 0 then Inr (sp_expect_crc v, True)
       else Inr (v\<lparr>sp_state := Some SpReadData\<rparr>, True))"
      unfolding sempBluetoothReadHeader_def f(1) using n True at
      by (simp add: semp_constants custom_length_def v_def Let_def)
    show ?thesis
    proof (cases "m ! 3 = 0x14")
      case False
      have "\<not> bt_valid c j m" using True by (simp add: bt_valid_def bt_shape_def)
      then have "sp_ends c j p d (sempBluetoothReadHeader p d)"
        unfolding sp_ends_def eq using False f(2-) by (simp add: m_def sempPrintf_sp_def)
      then show ?thesis using False True lm by (simp add: m_def)
    next
      case ok: True
      have "sp_continues c j p d (sempBluetoothReadHeader p d)"
      proof (cases "custom_length m = 0")
        case zero: True
        have v: "wf_sp v" "sp_message v = m" "sp_computeCrc v = Some SpComputeCrc" "sp_type v = m ! 17"
            "sp_crc v = bt_crc c m" "sp_same p v" "sp_log v = sp_log p"
          using f(2-) b(6) by (simp_all add: v_def m_def)
        show ?thesis
          using bt_expect_crc [OF v(1-3) b(2) sync _ ok v(4) _ v(5)] True zero ok eq v(6,7)
          by (intro sp_continuesI [of _ "sp_expect_crc v"]) (simp_all add: m_def)
      next
        case False
        then show ?thesis
          using eq ok f(2-) b sync True
          by (intro sp_continuesI [of _ "v\<lparr>sp_state := Some SpReadData\<rparr>"])
            (simp_all add: bt_at_def Let_def v_def m_def unat_gt_0)
      qed
      then show ?thesis using ok by (simp add: m_def)
    qed
  qed
qed

lemma bt_data:
  assumes "wf_sp p" and "bt_at c j p" and "sp_length p < sp_maxLength p" and "sp_state p = Some SpReadData"
  shows "sp_continues c j p d (sempBluetoothReadData p d)"
proof -
  have b: "sp_computeCrc p = Some SpComputeCrc" "j \<le> 2" "bt_sync j (sp_message p)" "20 \<le> length (sp_message p)"
      "sp_message p ! 3 = 0x14" "sp_type p = sp_message p ! 17" "sp_crc p = bt_crc c (sp_message p)"
      "length (sp_message p) + unat (sp_bytesRemaining p) = 20 + unat (custom_length (sp_message p))"
      "0 < unat (sp_bytesRemaining p)"
    using assms(2,4) by (simp_all add: bt_at_def Let_def)
  define u where "u = sp_fed p d"
  define m where "m = sp_message p @ [d]"
  define v where "v = u\<lparr>sp_bytesRemaining := sp_bytesRemaining u - 1\<rparr>"
  note f = sp_fed [OF assms(1,3) b(1), where d = d, folded u_def m_def]
  have sync: "bt_sync j m" using b unfolding m_def by (intro bt_sync_append) simp_all
  have m: "m ! 3 = 0x14" "m ! 17 = sp_message p ! 17" "custom_length m = custom_length (sp_message p)"
      "length m = Suc (length (sp_message p))"
    using b(4,5) by (simp_all add: m_def nth_append custom_length_snoc)
  have r: "unat (sp_bytesRemaining v) = unat (sp_bytesRemaining p) - 1"
    using b(9) f(8) unat_dec [of "sp_bytesRemaining p"] by (auto simp: v_def unat_gt_0)
  have v: "wf_sp v" "sp_message v = m" "sp_computeCrc v = Some SpComputeCrc" "sp_type v = m ! 17"
      "sp_crc v = bt_crc c m" "sp_same p v" "sp_log v = sp_log p" "sp_state v = Some SpReadData"
    using f(2-) b(6,7) m(2) assms(4) by (simp_all add: v_def m_def)
  have eq: "sempBluetoothReadData p d =
      (if sp_bytesRemaining v = 0 then Inr (sp_expect_crc v, True) else Inr (v, True))"
    unfolding sempBluetoothReadData_def f(1) by (simp add: v_def Let_def)
  show ?thesis
  proof (cases "sp_bytesRemaining v = 0")
    case True
    then have "length m = 20 + unat (custom_length m)" using r b(8,9) m(3,4) by auto
    then show ?thesis
      using bt_expect_crc [OF v(1-3) b(2) sync _ m(1) v(4) _ v(5)] True eq v(6,7) b(4) m(4)
      by (intro sp_continuesI [of _ "sp_expect_crc v"]) (simp_all add: m_def)
  next
    case False
    then have "0 < unat (sp_bytesRemaining v)" by (simp add: unat_gt_0)
    moreover have "length m + unat (sp_bytesRemaining v) = 20 + unat (custom_length m)"
      using r b(8,9) m(3,4) by simp
    ultimately have "bt_at c j v"
      unfolding bt_at_def Let_def v(2) using v b(2,4) sync m(1,4) by simp
    then show ?thesis using False eq v by (intro sp_continuesI [of _ v]) (simp_all add: m_def)
  qed
qed

text \<open>The CRC bytes are not entered into the register.\<close>

lemma sp_last4_eq:
  assumes "wf_sp p" and "sp_message p = m @ [a, b, c, d]"
  shows "sp_last4 p = Inr (a, b, c, d)"
proof -
  have n: "unat (sp_length p) = length m + 4" using length_sp_message [OF assms(1)] assms(2) by simp
  have "at (sp_buffer p) (int (length m + k)) = Inr (sp_message p ! (length m + k))" if "k < 4" for k
    using that assms(2) by (intro sp_at [OF assms(1)]) simp
  from this [of 0] this [of 1] this [of 2] this [of 3] show ?thesis
    unfolding sp_last4_def uint_nat n assms(2) by (simp add: nth_append add.commute)
qed

lemma sp_check_crc_eq:
  assumes "wf_sp v" and "sp_message v = h @ [t0, t1, t2, t3]"
  shows "\<exists>q. sp_check_crc v = Inr (q, False) \<and> sp_state q = Some SpFirstByte \<and> wf_sp q \<and> sp_same v q
    \<and> sp_delivered q = sp_delivered v
      @ (if le32 t0 t1 t2 t3 = sp_scratch_crc v \<and> sp_eomCallback v \<noteq> None
         then [(sp_type v, sp_message v)] else [])"
proof -
  obtain w quiet where w: "(case sp_badCrc v of None \<Rightarrow> (v, False)
      | Some f \<Rightarrow> (v\<lparr>sp_log := sp_log v @ [SpBadCrcCall (sp_message v)]\<rparr>, f (SP_VIEW.truncate v))) = (w, quiet)"
    by fastforce
  have w': "wf_sp w" "sp_message w = sp_message v" "sp_same v w" "sp_delivered w = sp_delivered v"
    using w assms(1) by (auto simp: sp_same_def split: option.splits)
  have n: "SEMP_CRC_SIZE \<le> sp_length v"
    using length_sp_message [OF assms(1)] assms(2) by (simp add: semp_constants word_le_nat_alt)
  have last4: "sp_last4 v = Inr (t0, t1, t2, t3)" "sp_last4 w = Inr (t0, t1, t2, t3)"
    using sp_last4_eq [OF assms] sp_last4_eq [OF w'(1)] w'(2) assms(2) by simp_all
  define ok where "ok \<longleftrightarrow> le32 t0 t1 t2 t3 = sp_scratch_crc v"
  have eq: "sp_check_crc v =
      (let q = (if ok
          then case sp_eomCallback v of None \<Rightarrow> v
            | Some cb \<Rightarrow> v\<lparr>sp_log := sp_log v @ [SpEom cb (sp_type v) (sp_message v)]\<rparr>
          else if quiet then w
          else sempPrintf_sp (sp_printDebug w) (SpBadCrc [t0, t1, t2, t3] (sp_scratch_crc w)) w)
       in Inr (q\<lparr>sp_state := Some SpFirstByte\<rparr>, False))"
    unfolding sp_check_crc_def Let_def w using n last4 by (cases "sp_eomCallback v") (simp_all add: ok_def)
  show ?thesis
    unfolding eq Let_def ok_def [symmetric] using assms(1) w'
    by (cases ok; cases "sp_eomCallback v") (simp_all add: sempPrintf_sp_def sp_same_def)
qed

lemma bt_crc_byte:
  assumes "wf_sp p" and "bt_at c j p" and "sp_length p < sp_maxLength p" and "sp_state p = Some SpReadCrc"
  shows "if length (sp_message p) + 1 = 24 + unat (custom_length (sp_message p))
    then sp_ends c j p d (sempBluetoothReadCrc p d)
    else sp_continues c j p d (sempBluetoothReadCrc p d)"
proof -
  define l where "l = unat (custom_length (sp_message p))"
  have b: "sp_computeCrc p = Some SpComputeCrc" "j \<le> 2" "bt_sync j (sp_message p)" "20 \<le> length (sp_message p)"
      "sp_message p ! 3 = 0x14" "sp_type p = sp_message p ! 17"
      "length (sp_message p) + unat (sp_bytesRemaining p) = 24 + l"
      "0 < unat (sp_bytesRemaining p)" "unat (sp_bytesRemaining p) \<le> 4"
      "sp_scratch_crc p = NOT (bt_crc c (take (20 + l) (sp_message p)))"
    using assms(2,4) by (simp_all add: bt_at_def Let_def l_def)
  define m where "m = sp_message p @ [d]"
  define u where "u = stored p d"
  define v where "v = u\<lparr>sp_bytesRemaining := sp_bytesRemaining u - 1\<rparr>"
  note f = sp_store_room [OF assms(1,3), of d, folded u_def m_def]
  have sync: "bt_sync j m" using b unfolding m_def by (intro bt_sync_append) simp_all
  have m: "m ! 3 = 0x14" "m ! 17 = sp_message p ! 17" "custom_length m = custom_length (sp_message p)"
      "length m = Suc (length (sp_message p))" "take (20 + l) m = take (20 + l) (sp_message p)"
    using b(4,5,7-9) by (simp_all add: m_def nth_append custom_length_snoc)
  have r: "unat (sp_bytesRemaining v) = unat (sp_bytesRemaining p) - 1"
    using b(8) unat_dec [of "sp_bytesRemaining p"] by (auto simp: v_def u_def unat_gt_0)
  have v: "wf_sp v" "sp_message v = m" "sp_computeCrc v = Some SpComputeCrc" "sp_type v = m ! 17"
      "sp_scratch_crc v = NOT (bt_crc c (take (20 + l) m))" "sp_same p v" "sp_log v = sp_log p"
      "sp_state v = Some SpReadCrc" "sp_eomCallback v = sp_eomCallback p"
    using f b(1,6,10) m(2,5) assms(4) by (simp_all add: v_def u_def sp_same_def)
  show ?thesis
  proof (cases "length m = 24 + l")
    case False
    have "sp_bytesRemaining v \<noteq> 0" using r b(7,8) False m(4) by (auto simp: word_unat_eq_iff)
    then have "sempBluetoothReadCrc p d = Inr (v, True)"
      unfolding sempBluetoothReadCrc_def f(1) by (simp add: v_def Let_def)
    moreover have "bt_at c j v"
      unfolding bt_at_def Let_def v(2) using v b(2,4,7-9) sync m r False by (simp add: l_def)
    ultimately have "sp_continues c j p d (sempBluetoothReadCrc p d)"
      using v by (intro sp_continuesI [of _ v]) (simp_all add: m_def)
    then show ?thesis using False m(4) by (simp add: l_def)
  next
    case True
    then have z: "sp_bytesRemaining v = 0" using r b(7) m(4) by (simp add: word_unat_eq_iff)
    have "length (drop (20 + l) m) = 4" using True by simp
    then obtain t0 t1 t2 t3 where t: "drop (20 + l) m = [t0, t1, t2, t3]" using list_of_length(3) by blast
    define h where "h = take (20 + l) m"
    have h: "m = h @ [t0, t1, t2, t3]" "length h = 20 + l"
      using append_take_drop_id [of "20 + l" m] True unfolding t h_def by simp_all
    have valid: "bt_valid c j m \<longleftrightarrow> le32 t0 t1 t2 t3 = sp_scratch_crc v"
    proof -
      have "bt_shape j m" using True sync m(1,3) by (simp add: bt_shape_def l_def)
      then show ?thesis using bt_valid_append [of c j h t0 t1 t2 t3] v(5) unfolding h(1) [symmetric] h_def [symmetric]
        by metis
    qed
    obtain q where q: "sp_check_crc v = Inr (q, False)" "sp_state q = Some SpFirstByte" "wf_sp q" "sp_same v q"
      "sp_delivered q = sp_delivered v
        @ (if le32 t0 t1 t2 t3 = sp_scratch_crc v \<and> sp_eomCallback v \<noteq> None
           then [(sp_type v, sp_message v)] else [])"
      using sp_check_crc_eq [OF v(1), of h t0 t1 t2 t3] v(2) h(1) by auto
    have "sempBluetoothReadCrc p d = sp_check_crc v"
      unfolding sempBluetoothReadCrc_def f(1) using z by (simp add: v_def Let_def)
    moreover have "sp_same p q" using q(4) v(6) by (simp add: sp_same_def)
    ultimately have "sp_ends c j p d (sempBluetoothReadCrc p d)"
      unfolding sp_ends_def m_def [symmetric] valid using q v(2,4,7,9) by (intro exI [of _ q]) simp
    then show ?thesis using True m(4) by (simp add: l_def)
  qed
qed

section \<open>The search for a frame\<close>

text \<open>
  A byte that does not continue a sync sequence is offered to the preamble, but the state
  stays where it was: the parser then also takes a frame without its first one or two sync
  bytes, with a register that started at zero.
\<close>

definition sp_starts :: "(u32 \<times> nat) set" where
  "sp_starts = {(0xFFFFFFFF, 0), (0, 1), (0, 2)}"

lemma sp_first_sync:
  assumes "wf_sp p"
  shows "\<exists>q. sempFirstByte_sp p 0xAA = Inr (q, True) \<and> wf_sp q \<and> sp_same p q \<and> sp_log q = sp_log p
    \<and> sp_state q = Some SpSync2 \<and> sp_computeCrc q = Some SpComputeCrc
    \<and> (if sp_maxLength p = 0 then sp_length q = 0 else bt_at 0xFFFFFFFF 0 q \<and> sp_message q = [0xAA])"
proof -
  define p0 where "p0 = p\<lparr>sp_length := 0, sp_crc := 0xFFFFFFFF, sp_computeCrc := Some SpComputeCrc\<rparr>"
  have wf: "wf_sp p0" "sp_message p0 = []" "sp_computeCrc p0 = Some SpComputeCrc" "sp_same p p0"
    using assms by (simp_all add: p0_def wf_sp_def sp_message_def sp_same_def)
  have eq: "sempFirstByte_sp p 0xAA = rbind (sp_update_crc p0 0xAA) (\<lambda>p. rbind (sp_store p 0xAA)
      (\<lambda>p. Inr (p\<lparr>sp_state := Some SpSync2\<rparr>, True)))"
    by (simp add: sempFirstByte_sp_def sempBluetoothPreamble_def semp_constants p0_def)
  show ?thesis
  proof (cases "sp_maxLength p = 0")
    case True
    define q where "q = p0\<lparr>sp_crc := crc32_spec 0xFFFFFFFF 0xAA, sp_state := Some SpSync2\<rparr>"
    have "sempFirstByte_sp p 0xAA = Inr (q, True)"
      unfolding eq using True wf(3) by (simp add: sp_update_crc_eq sp_store_full p0_def q_def)
    then show ?thesis using wf True by (simp add: q_def p0_def sp_same_def)
  next
    case False
    then have room: "sp_length p0 < sp_maxLength p0" by (simp add: p0_def word_gt_0)
    note f = sp_fed [OF wf(1) room wf(3), where d = "0xAA"]
    have "sp_same p (sp_fed p0 0xAA)" using f(4) wf(4) by (simp add: sp_same_def)
    moreover have "bt_at 0xFFFFFFFF 0 ((sp_fed p0 0xAA)\<lparr>sp_state := Some SpSync2\<rparr>)"
      using f(2,6,7) wf(2) by (simp add: bt_at_def Let_def bt_sync_def bt_crc_def p0_def)
    ultimately show ?thesis
      unfolding eq f(1) using f(2,3,5,7) wf(2) False by (simp add: p0_def)
  qed
qed

lemma sp_first_other:
  assumes "wf_sp p" and "d \<noteq> 0xAA"
  shows "sempFirstByte_sp p d = Inr (p\<lparr>sp_length := 0, sp_crc := 0\<rparr>, False)"
  using assms(2) by (simp add: sempFirstByte_sp_def sempBluetoothPreamble_def semp_constants)

text \<open>\<open>sp_full\<close>: the buffer is full and bytes of the message have been dropped.\<close>

definition sp_full :: "SP_STATE \<Rightarrow> bool" where
  "sp_full p \<longleftrightarrow> sp_length p = sp_maxLength p \<and> sp_computeCrc p = Some SpComputeCrc
     \<and> (case sp_state p of
          Some SpSync2 \<Rightarrow> unat (sp_length p) < 20
        | Some SpSync3 \<Rightarrow> unat (sp_length p) < 20
        | Some SpReadHeader \<Rightarrow> unat (sp_length p) < 20
        | Some SpReadData \<Rightarrow> 20 \<le> unat (sp_length p)
        | Some SpReadCrc \<Rightarrow> 20 \<le> unat (sp_length p)
        | _ \<Rightarrow> False)"

definition sp_inv :: "SP_STATE \<Rightarrow> bool" where
  "sp_inv p \<longleftrightarrow> wf_sp p \<and>
     (sp_state p = Some SpFirstByte \<or> (\<exists>(c, j)\<in>sp_starts. bt_at c j p) \<or> sp_full p)"

definition sp_sound :: "SP_STATE \<Rightarrow> SP_STATE \<Rightarrow> bool" where
  "sp_sound p q \<longleftrightarrow> sp_same p q
     \<and> (\<exists>ds. sp_delivered q = sp_delivered p @ ds
          \<and> list_all (\<lambda>(t, m). length m < unat (sp_maxLength p) \<longrightarrow>
              t = m ! 17 \<and> (\<exists>(c, j)\<in>sp_starts. bt_valid c j m)) ds)"

lemma sp_sound_quiet: "sp_same p q \<Longrightarrow> sp_delivered q = sp_delivered p \<Longrightarrow> sp_sound p q"
  by (simp add: sp_sound_def)

lemma sp_sound_trans: "sp_sound p q \<Longrightarrow> sp_sound q r \<Longrightarrow> sp_sound p r"
  by (auto simp: sp_sound_def sp_same_def)

lemma sp_first_inv:
  assumes "wf_sp p" and "sp_state p = Some SpFirstByte \<or> sp_state p = Some SpSync2 \<or> sp_state p = Some SpSync3"
    and "sp_state p = Some SpFirstByte \<or> sp_computeCrc p = Some SpComputeCrc"
  shows "\<exists>q b. sempFirstByte_sp p d = Inr (q, b) \<and> sp_inv q \<and> sp_sound p q"
proof (cases "d = 0xAA")
  case True
  obtain q where q: "sempFirstByte_sp p 0xAA = Inr (q, True)" "wf_sp q" "sp_same p q" "sp_log q = sp_log p"
    "sp_state q = Some SpSync2" "sp_computeCrc q = Some SpComputeCrc"
    "if sp_maxLength p = 0 then sp_length q = 0 else bt_at 0xFFFFFFFF 0 q \<and> sp_message q = [0xAA]"
    using sp_first_sync [OF assms(1)] by blast
  have "sp_inv q"
    using q(2,3,5-7) by (auto simp: sp_inv_def sp_starts_def sp_full_def sp_same_def split: if_splits)
  then show ?thesis using True q(1,3,4) sp_sound_quiet by fastforce
next
  case False
  define q where "q = p\<lparr>sp_length := 0, sp_crc := 0\<rparr>"
  have "wf_sp q" "sp_message q = []" using assms(1) by (simp_all add: q_def wf_sp_def sp_message_def)
  moreover from this have "sp_state p = Some SpSync2 \<Longrightarrow> sp_computeCrc p = Some SpComputeCrc \<Longrightarrow> bt_at 0 1 q"
      "sp_state p = Some SpSync3 \<Longrightarrow> sp_computeCrc p = Some SpComputeCrc \<Longrightarrow> bt_at 0 2 q"
    by (simp_all add: bt_at_def Let_def q_def bt_sync_def)
  ultimately have "sp_inv q" using assms(2,3) by (auto simp: sp_inv_def sp_starts_def q_def)
  then show ?thesis
    using sp_first_other [OF assms(1) False] sp_sound_quiet [of p q] by (auto simp: q_def sp_same_def)
qed

section \<open>One byte\<close>

lemma bt_at_full: "wf_sp p \<Longrightarrow> bt_at c j p \<Longrightarrow> sp_length p = sp_maxLength p \<Longrightarrow> sp_full p"
  using length_sp_message [of p]
  by (auto simp: bt_at_def sp_full_def Let_def split: option.splits sempStateFunction.splits)

lemma sp_full_step:
  assumes "wf_sp p" and "sp_full p" and "sp_state p = Some f"
  shows "\<exists>q b. call_sempState f p d = Inr (q, b) \<and> sp_inv q \<and> sp_sound p q"
proof -
  have full: "\<not> sp_length p < sp_maxLength p" "sp_length p = sp_maxLength p" "sp_computeCrc p = Some SpComputeCrc"
    using assms(2) by (simp_all add: sp_full_def)
  define u where "u = p\<lparr>sp_crc := crc32_spec (sp_crc p) d\<rparr>"
  have upd: "rbind (sp_update_crc p d) (\<lambda>p. rbind (sp_store p d) K) = K u" for K
    using full(1,3) by (simp add: sp_update_crc_eq sp_store_full u_def)
  have same: "sp_inv q \<and> sp_sound p q"
    if "sp_full q" "sp_same p q" "sp_log q = sp_log p" "wf_sp q" for q
    using that by (simp add: sp_inv_def sp_sound_quiet)
  show ?thesis
  proof (cases f)
    case SpFirstByte
    then show ?thesis using assms(2,3) by (simp add: sp_full_def)
  next
    case SpSync2
    then have "d = 0x44 \<Longrightarrow> call_sempState f p d = Inr (u\<lparr>sp_state := Some SpSync3\<rparr>, True)"
      using upd by (simp add: sempBluetoothSync2_def semp_constants)
    then show ?thesis
      using same [of "u\<lparr>sp_state := Some SpSync3\<rparr>"] SpSync2 assms full sp_first_inv [of p d]
      by (cases "d = 0x44") (auto simp: sempBluetoothSync2_def semp_constants u_def sp_full_def sp_same_def)
  next
    case SpSync3
    then have "d = 0x18 \<Longrightarrow> call_sempState f p d = Inr (u\<lparr>sp_state := Some SpReadHeader\<rparr>, True)"
      using upd by (simp add: sempBluetoothSync3_def semp_constants)
    then show ?thesis
      using same [of "u\<lparr>sp_state := Some SpReadHeader\<rparr>"] SpSync3 assms full sp_first_inv [of p d]
      by (cases "d = 0x18") (auto simp: sempBluetoothSync3_def semp_constants u_def sp_full_def sp_same_def)
  next
    case SpReadHeader
    then have "\<not> 20 \<le> unat (sp_length u)" using assms(2,3) by (auto simp: u_def sp_full_def)
    then have "call_sempState f p d = Inr (u, True)"
      unfolding SpReadHeader call_sempState.simps sempBluetoothReadHeader_def upd by (simp add: semp_constants)
    moreover have "sp_full u" using assms(2,3) SpReadHeader by (auto simp: u_def sp_full_def)
    ultimately show ?thesis using same [of u] assms(1) by (auto simp: u_def sp_same_def)
  next
    case SpReadData
    define v where "v = u\<lparr>sp_bytesRemaining := sp_bytesRemaining u - 1\<rparr>"
    have "call_sempState f p d = Inr (if sp_bytesRemaining v = 0 then sp_expect_crc v else v, True)"
      unfolding SpReadData call_sempState.simps sempBluetoothReadData_def upd by (simp add: v_def Let_def)
    moreover have "sp_full v" "sp_full (sp_expect_crc v)" "wf_sp v" "wf_sp (sp_expect_crc v)"
        "sp_same p v" "sp_same p (sp_expect_crc v)" "sp_log (sp_expect_crc v) = sp_log p" "sp_log v = sp_log p"
      using assms SpReadData by (auto simp: v_def u_def sp_full_def sp_expect_crc_def sp_same_def)
    ultimately show ?thesis using same [of v] same [of "sp_expect_crc v"] by (cases "sp_bytesRemaining v = 0") auto
  next
    case SpReadCrc
    define v where "v = p\<lparr>sp_bytesRemaining := sp_bytesRemaining p - 1\<rparr>"
    have eq: "call_sempState f p d = (if sp_bytesRemaining v \<noteq> 0 then Inr (v, True) else sp_check_crc v)"
      using SpReadCrc full(1) by (simp add: sempBluetoothReadCrc_def sp_store_full v_def Let_def)
    have v: "wf_sp v" "sp_full v" "sp_same p v" "sp_log v = sp_log p" "sp_message v = sp_message p"
      using assms SpReadCrc by (auto simp: v_def sp_full_def sp_same_def)
    have len: "length (sp_message p) = unat (sp_maxLength p)" "20 \<le> length (sp_message p)"
      using length_sp_message [OF assms(1)] full(2) assms(2,3) SpReadCrc by (auto simp: sp_full_def)
    then have "0 + 4 \<le> length (sp_message v)" using v(5) by simp
    then obtain e h t where "sp_message v = e @ h @ t" "length e = 0" "length t = 4" by (rule frame_split)
    then obtain t0 t1 t2 t3 where "sp_message v = h @ [t0, t1, t2, t3]"
      using list_of_length(3) [of t] by auto
    from sp_check_crc_eq [OF v(1) this] obtain q where q: "sp_check_crc v = Inr (q, False)"
      "sp_state q = Some SpFirstByte" "wf_sp q" "sp_same v q"
      "\<exists>ds. sp_delivered q = sp_delivered v @ ds \<and> (ds = [] \<or> ds = [(sp_type v, sp_message v)])"
      by (auto split: if_splits)
    have "sp_inv q" using q(2,3) by (simp add: sp_inv_def)
    moreover have "sp_sound p q" using q(4,5) v len(1) by (auto simp: sp_sound_def sp_same_def)
    moreover have "call_sempState f p d = Inr (q, False)" if "sp_bytesRemaining v = 0" using eq q(1) that by simp
    moreover have "call_sempState f p d = Inr (v, True)" if "sp_bytesRemaining v \<noteq> 0" using eq that by simp
    ultimately show ?thesis using same [OF v(2,3,4,1)] by blast
  qed
qed

lemma sp_room_step:
  assumes "wf_sp p" and "bt_at c j p" and "(c, j) \<in> sp_starts" and "sp_length p < sp_maxLength p"
    and "sp_state p = Some f"
  shows "\<exists>q b. call_sempState f p d = Inr (q, b) \<and> sp_inv q \<and> sp_sound p q"
proof -
  have cont: ?thesis if c: "sp_continues c j p d (call_sempState f p d)"
  proof -
    obtain q where q: "call_sempState f p d = Inr (q, True)" "bt_at c j q" "wf_sp q" "sp_same p q" "sp_log q = sp_log p"
      using c unfolding sp_continues_def by blast
    then have "sp_inv q" unfolding sp_inv_def using assms(3) by blast
    then show ?thesis using q sp_sound_quiet [of p q] by auto
  qed
  have ends: ?thesis if e: "sp_ends c j p d (call_sempState f p d)"
  proof -
    obtain q where q: "call_sempState f p d = Inr (q, False)" "sp_state q = Some SpFirstByte" "wf_sp q" "sp_same p q"
      "\<exists>ds. sp_delivered q = sp_delivered p @ ds
        \<and> (ds = [] \<or> bt_valid c j (sp_message p @ [d]) \<and> ds = [((sp_message p @ [d]) ! 17, sp_message p @ [d])])"
      using e unfolding sp_ends_def by (auto split: if_splits)
    moreover have "\<exists>(c, j)\<in>sp_starts. bt_valid c j m" if "bt_valid c j m" for m using that assms(3) by blast
    ultimately have "sp_inv q" "sp_sound p q" by (auto simp: sp_inv_def sp_sound_def)
    then show ?thesis using q(1) by auto
  qed
  have crc: "sp_computeCrc p = Some SpComputeCrc" using assms(2) by (simp add: bt_at_def Let_def)
  show ?thesis
  proof (cases f)
    case SpFirstByte
    then show ?thesis using sp_first_inv [OF assms(1)] assms(5) by simp
  next
    case SpSync2
    then show ?thesis
      using cont bt_sync2 [OF assms(1,2,4)] assms(5) sp_first_inv [OF assms(1), of d] crc
      by (cases "d = 0x44") (simp_all add: sempBluetoothSync2_def semp_constants)
  next
    case SpSync3
    then show ?thesis
      using cont bt_sync3 [OF assms(1,2,4)] assms(5) sp_first_inv [OF assms(1), of d] crc
      by (cases "d = 0x18") (simp_all add: sempBluetoothSync3_def semp_constants)
  next
    case SpReadHeader
    then show ?thesis
      using cont ends bt_header [OF assms(1,2,4), of d] assms(5) by (auto split: if_splits)
  next
    case SpReadData
    then show ?thesis using cont bt_data [OF assms(1,2,4), of d] assms(5) by simp
  next
    case SpReadCrc
    then show ?thesis
      using cont ends bt_crc_byte [OF assms(1,2,4), of d] assms(5) by (auto split: if_splits)
  qed
qed

theorem sp_step:
  assumes "sp_inv p"
  shows "\<exists>q b. sempProcessByte (Some p) d = Inr (Some q, b) \<and> sp_inv q \<and> sp_sound p q"
proof -
  obtain f where f: "sp_state p = Some f"
    using assms by (cases "sp_state p") (auto simp: sp_inv_def bt_at_def sp_full_def Let_def)
  have wf: "wf_sp p" using assms by (simp add: sp_inv_def)
  consider "f = SpFirstByte" | c j where "(c, j) \<in> sp_starts" "bt_at c j p" | "sp_full p"
    using assms f by (auto simp: sp_inv_def)
  then have "\<exists>q b. call_sempState f p d = Inr (q, b) \<and> sp_inv q \<and> sp_sound p q"
  proof cases
    case 1
    then show ?thesis using sp_first_inv [OF wf] f by simp
  next
    case 2
    then show ?thesis
    proof (cases "sp_length p < sp_maxLength p")
      case True
      then show ?thesis using sp_room_step [OF wf 2(2,1) _ f] by blast
    next
      case False
      then have "sp_length p = sp_maxLength p" using wf by (simp add: wf_sp_def)
      then show ?thesis using sp_full_step [OF wf _ f] bt_at_full [OF wf 2(2)] by blast
    qed
  next
    case 3
    then show ?thesis using sp_full_step [OF wf _ f] by blast
  qed
  then show ?thesis using f by (auto simp: sempProcessByte_def)
qed

section \<open>A run of the parser\<close>

text \<open>A caller that offers one byte after the other and ignores the result\<close>

definition sp_feed :: "SP_STATE option \<Rightarrow> u8 \<Rightarrow> SP_STATE option res" where
  "sp_feed s d = rbind (sempProcessByte s d) (\<lambda>(s, b). Inr s)"

definition sp_good :: "SP_STATE option \<Rightarrow> bool" where
  "sp_good s = (case s of None \<Rightarrow> True | Some p \<Rightarrow> sp_inv p)"

lemma sp_feed_step:
  assumes "sp_inv p"
  shows "\<exists>q. sp_feed (Some p) d = Inr (Some q) \<and> sp_inv q \<and> sp_sound p q"
  using sp_step [OF assms, of d] by (auto simp: sp_feed_def)

interpretation sp_machine: byte_machine sp_feed sp_good
proof
  fix s b
  assume s: "sp_good s"
  show "\<exists>t. sp_feed s b = Inr t \<and> sp_good t"
  proof (cases s)
    case None
    then show ?thesis by (simp add: sp_good_def sp_feed_def sempProcessByte_def)
  next
    case (Some p)
    then obtain q where "sp_feed s b = Inr (Some q)" "sp_inv q" using sp_feed_step [of p b] s by (auto simp: sp_good_def)
    then show ?thesis by (simp add: sp_good_def)
  qed
qed

lemma sp_run_sound:
  assumes "sp_inv p"
  shows "\<exists>q. run sp_feed (Some p) bs = Inr (Some q) \<and> sp_inv q \<and> sp_sound p q"
  using assms
proof (induction bs arbitrary: p)
  case Nil
  then show ?case using sp_sound_quiet [of p p] by (simp add: sp_same_def)
next
  case (Cons b bs)
  obtain q where q: "sp_feed (Some p) b = Inr (Some q)" "sp_inv q" "sp_sound p q" using sp_feed_step [OF Cons.prems] by blast
  obtain r where "run sp_feed (Some q) bs = Inr (Some r)" "sp_inv r" "sp_sound q r" using Cons.IH [OF q(2)] by blast
  then show ?case using q sp_sound_trans [of p q r] by simp
qed

lemma sp_init:
  assumes "unat n \<le> length buf"
  shows "sp_inv (sempInitParser buf n eom bad name)" "sp_state (sempInitParser buf n eom bad name) = Some SpFirstByte"
    "wf_sp (sempInitParser buf n eom bad name)" "sp_log (sempInitParser buf n eom bad name) = []"
    "sp_maxLength (sempInitParser buf n eom bad name) = n" "sp_eomCallback (sempInitParser buf n eom bad name) = eom"
  using assms by (simp_all add: sp_inv_def sempInitParser_def wf_sp_def)

subsection \<open>Along a frame\<close>

lemma bt_sync_nth:
  assumes "bt_sync j f" and "i + j < 3" and "i < length f"
  shows "f ! i = [0xAA, 0x44, 0x18] ! (i + j)"
proof -
  have "take (3 - j) f ! i = take (length f) (drop j [0xAA, 0x44, 0x18]) ! i" using assms(1) by (simp add: bt_sync_def)
  then show ?thesis using assms(2,3) by (simp add: add.commute)
qed

lemma bt_step:
  assumes "wf_sp p" and "bt_at c j p" and "bt_shape j (sp_message p @ d # ds)"
    and "length (sp_message p @ d # ds) \<le> unat (sp_maxLength p)" and "sp_state p = Some f"
  shows "if ds = [] then sp_ends c j p d (call_sempState f p d) else sp_continues c j p d (call_sempState f p d)"
proof -
  let ?m = "sp_message p"
  have room: "sp_length p < sp_maxLength p"
    using assms(4) length_sp_message [OF assms(1)] by (simp add: word_less_nat_alt)
  have shape: "24 \<le> length ?m + Suc (length ds)" "bt_sync j (?m @ d # ds)" "(?m @ d # ds) ! 3 = 0x14"
    "length ?m + Suc (length ds) = 24 + unat (custom_length (?m @ d # ds))"
    using assms(3) by (simp_all add: bt_shape_def)
  have d: "d = [0xAA, 0x44, 0x18] ! (length ?m + j)" if "length ?m + j < 3"
    using bt_sync_nth [OF shape(2) that] by simp
  have l: "custom_length (?m @ d # ds) = custom_length ?m" if "20 \<le> length ?m"
    using that by (simp add: custom_length_def nth_append)
  show ?thesis
  proof (cases f)
    case SpFirstByte
    then show ?thesis using assms(2,5) by (simp add: bt_at_def Let_def)
  next
    case SpSync2
    then have n: "length ?m + j = 1" using assms(2,5) by (simp add: bt_at_def Let_def)
    then show ?thesis using d bt_sync2 [OF assms(1,2) room] SpSync2 assms(5) shape(1) by auto
  next
    case SpSync3
    then have n: "length ?m + j = 2" using assms(2,5) by (simp add: bt_at_def Let_def)
    then show ?thesis using d bt_sync3 [OF assms(1,2) room] SpSync3 assms(5) shape(1) by auto
  next
    case SpReadHeader
    then have n: "length ?m < 20" using assms(2,5) by (simp add: bt_at_def Let_def)
    have "(?m @ [d]) ! 3 = 0x14" if "Suc (length ?m) = 20" using shape(3) that by (simp add: nth_append)
    then show ?thesis using bt_header [OF assms(1,2) room, of d] SpReadHeader assms(5) shape(1) n by auto
  next
    case SpReadData
    then have "20 \<le> length ?m" "length ?m + unat (sp_bytesRemaining p) = 20 + unat (custom_length ?m)"
      using assms(2,5) by (simp_all add: bt_at_def Let_def)
    then show ?thesis using bt_data [OF assms(1,2) room] SpReadData assms(5) shape(4) l by auto
  next
    case SpReadCrc
    then have "20 \<le> length ?m" using assms(2,5) by (simp add: bt_at_def Let_def)
    then show ?thesis using bt_crc_byte [OF assms(1,2) room, of d] SpReadCrc assms(5) shape(4) l by (cases ds) auto
  qed
qed

definition sp_after :: "u32 \<Rightarrow> nat \<Rightarrow> SP_STATE \<Rightarrow> u8 list \<Rightarrow> SP_STATE \<Rightarrow> bool" where
  "sp_after c j p f q \<longleftrightarrow> sp_state q = Some SpFirstByte \<and> wf_sp q \<and> sp_same p q
     \<and> sp_delivered q = sp_delivered p @ (if bt_valid c j f \<and> sp_eomCallback p \<noteq> None then [(f ! 17, f)] else [])"

lemma bt_cases:
  assumes "wf_sp p" and "bt_at c j p" and "bt_shape j (sp_message p @ d # ds)"
    and "length (sp_message p @ d # ds) \<le> unat (sp_maxLength p)"
  obtains (last) q where "ds = []" "sempProcessByte (Some p) d = Inr (Some q, False)" "sp_after c j p (sp_message p @ [d]) q"
  | (more_bytes) q where "ds \<noteq> []" "sempProcessByte (Some p) d = Inr (Some q, True)" "bt_at c j q" "wf_sp q"
    "sp_message q = sp_message p @ [d]" "sp_same p q" "sp_log q = sp_log p"
proof -
  obtain f where f: "sp_state p = Some f" using assms(2) by (cases "sp_state p") (auto simp: bt_at_def Let_def)
  note s = bt_step [OF assms f]
  show ?thesis
  proof (cases "ds = []")
    case True
    then show ?thesis using s f last by (auto simp: sp_ends_def sp_after_def sempProcessByte_def)
  next
    case False
    then show ?thesis using s f more_bytes by (auto simp: sp_continues_def sempProcessByte_def)
  qed
qed

lemma sp_after_trans:
  "sp_same p q \<Longrightarrow> sp_log q = sp_log p \<Longrightarrow> sp_after c j q f r \<Longrightarrow> sp_after c j p f r"
  by (auto simp: sp_after_def sp_same_def)

lemma bt_rest:
  assumes "wf_sp p" and "bt_at c j p" and "bt_shape j (sp_message p @ ds)" and "ds \<noteq> []"
    and "length (sp_message p @ ds) \<le> unat (sp_maxLength p)"
  shows "\<exists>q. run sp_feed (Some p) ds = Inr (Some q) \<and> sp_after c j p (sp_message p @ ds) q"
  using assms
proof (induction ds arbitrary: p)
  case Nil
  then show ?case by simp
next
  case (Cons d ds)
  show ?case
  proof (cases rule: bt_cases [OF Cons.prems(1-3,5)])
    case (1 q)
    then show ?thesis by (simp add: sp_feed_def)
  next
    case (2 q)
    then have "sp_maxLength q = sp_maxLength p" by (simp add: sp_same_def)
    then obtain r where "run sp_feed (Some q) ds = Inr (Some r)" "sp_after c j q (sp_message p @ d # ds) r"
      using Cons.IH [of q] Cons.prems(3,5) 2 by auto
    moreover have "sp_feed (Some p) d = Inr (Some q)" using 2 by (simp add: sp_feed_def)
    ultimately show ?thesis using 2 sp_after_trans [of p q] by auto
  qed
qed

definition sp_idle :: "SP_STATE \<Rightarrow> bool" where
  "sp_idle p \<longleftrightarrow> wf_sp p \<and> sp_state p = Some SpFirstByte"

lemma sp_feed_first:
  "sp_state p = Some SpFirstByte \<Longrightarrow> sp_feed (Some p) d = rbind (sempFirstByte_sp p d) (\<lambda>(q, b). Inr (Some q))"
  by (cases "sempFirstByte_sp p d") (auto simp: sp_feed_def sempProcessByte_def split: prod.splits)

lemma sp_noise:
  assumes "sp_idle p" and "d \<noteq> 0xAA"
  shows "\<exists>q. sp_feed (Some p) d = Inr (Some q) \<and> sp_idle q \<and> sp_same p q \<and> sp_delivered q = sp_delivered p"
  using assms sp_first_other [of p d]
  by (auto simp: sp_idle_def sp_feed_first wf_sp_def sp_same_def)

lemma bt_shape_hd:
  assumes "bt_shape 0 f"
  obtains g where "f = 0xAA # g" "g \<noteq> []"
  using assms bt_sync_nth [of 0 f 0] by (cases f; cases "tl f") (auto simp: bt_shape_def)

lemma sp_frame:
  assumes "sp_idle p" and "bt_shape 0 f" and "length f \<le> unat (sp_maxLength p)"
  shows "\<exists>q. run sp_feed (Some p) f = Inr (Some q) \<and> sp_after 0xFFFFFFFF 0 p f q"
proof -
  obtain g where g: "f = 0xAA # g" "g \<noteq> []" using bt_shape_hd [OF assms(2)] by blast
  have wf: "wf_sp p" "sp_state p = Some SpFirstByte" using assms(1) by (simp_all add: sp_idle_def)
  have "sp_maxLength p \<noteq> 0" using assms(3) g(1) by auto
  then obtain q where q: "sempFirstByte_sp p 0xAA = Inr (q, True)" "wf_sp q" "sp_same p q" "sp_log q = sp_log p"
    "bt_at 0xFFFFFFFF 0 q" "sp_message q = [0xAA]"
    using sp_first_sync [OF wf(1)] by auto
  have "sp_maxLength q = sp_maxLength p" using q(3) by (simp add: sp_same_def)
  then obtain r where "run sp_feed (Some q) g = Inr (Some r)" "sp_after 0xFFFFFFFF 0 q f r"
    using bt_rest [OF q(2,5), of g] q(6) g assms(2,3) by auto
  then show ?thesis using q(1) sp_after_trans [OF q(3,4)] g(1) sp_feed_first [OF wf(2)] by auto
qed

text \<open>
  The stream interface: frames within the buffer, whatever their CRC, and bytes between them
  that are not the sync byte.
\<close>

datatype sp_item = SpFrame "u8 list" | SpNoise u8

fun sp_encode :: "sp_item \<Rightarrow> u8 list" where
  "sp_encode (SpFrame f) = f"
| "sp_encode (SpNoise b) = [b]"

fun sp_item_ok :: "nat \<Rightarrow> sp_item \<Rightarrow> bool" where
  "sp_item_ok n (SpFrame f) \<longleftrightarrow> bt_shape 0 f \<and> length f \<le> n"
| "sp_item_ok n (SpNoise b) \<longleftrightarrow> b \<noteq> 0xAA"

fun sp_decode :: "sp_item \<Rightarrow> (u8 \<times> u8 list) list" where
  "sp_decode (SpFrame f) = (if bt_valid 0xFFFFFFFF 0 f then [(f ! 17, f)] else [])"
| "sp_decode (SpNoise b) = []"

definition sp_waiting :: "nat \<Rightarrow> SP_STATE option \<Rightarrow> bool" where
  "sp_waiting n s \<longleftrightarrow> (\<exists>p. s = Some p \<and> sp_idle p \<and> unat (sp_maxLength p) = n \<and> sp_eomCallback p \<noteq> None)"

definition sp_trace :: "SP_STATE option \<Rightarrow> (u8 \<times> u8 list) list" where
  "sp_trace s = (case s of None \<Rightarrow> [] | Some p \<Rightarrow> sp_delivered p)"

interpretation sp_stream: framed_machine sp_feed "sp_waiting n" "sp_item_ok n" sp_encode sp_decode sp_trace for n
proof
  fix s m
  assume "sp_waiting n s" and m: "sp_item_ok n m"
  then obtain p where p: "s = Some p" "sp_idle p" "unat (sp_maxLength p) = n" "sp_eomCallback p \<noteq> None"
    by (auto simp: sp_waiting_def)
  show "\<exists>t. run sp_feed s (sp_encode m) = Inr t \<and> sp_waiting n t \<and> sp_trace t = sp_trace s @ sp_decode m"
  proof (cases m)
    case (SpFrame f)
    then obtain q where q: "run sp_feed (Some p) f = Inr (Some q)" "sp_after 0xFFFFFFFF 0 p f q"
      using sp_frame [OF p(2), of f] m p(3) by auto
    then have "sp_waiting n (Some q)" "sp_trace (Some q) = sp_trace s @ sp_decode m"
      using p SpFrame by (auto simp: sp_waiting_def sp_after_def sp_idle_def sp_same_def sp_trace_def)
    then show ?thesis using q(1) p(1) SpFrame by auto
  next
    case (SpNoise b)
    then obtain q where "sp_feed (Some p) b = Inr (Some q)" "sp_idle q" "sp_same p q" "sp_delivered q = sp_delivered p"
      using sp_noise [OF p(2), of b] m by auto
    then show ?thesis using p SpNoise by (auto simp: sp_waiting_def sp_same_def sp_trace_def)
  qed
qed

subsection \<open>Frames without their first byte\<close>

lemma sp_missing_sync:
  assumes "sp_idle p" and "x \<noteq> 0x44" and "x \<noteq> 0xAA" and "bt_shape 1 f" and "length f \<le> unat (sp_maxLength p)"
  shows "\<exists>q. run sp_feed (Some p) (0xAA # x # f) = Inr (Some q) \<and> sp_after 0 1 p f q"
proof -
  have wf: "wf_sp p" "sp_state p = Some SpFirstByte" using assms(1) by (simp_all add: sp_idle_def)
  have f: "f \<noteq> []" using assms(4) by (auto simp: bt_shape_def)
  obtain q where q: "sempFirstByte_sp p 0xAA = Inr (q, True)" "wf_sp q" "sp_same p q" "sp_log q = sp_log p"
    "sp_state q = Some SpSync2" "sp_computeCrc q = Some SpComputeCrc"
    using sp_first_sync [OF wf(1)] by blast
  define r where "r = q\<lparr>sp_length := 0, sp_crc := 0\<rparr>"
  have r: "wf_sp r" "sp_message r = []" "sp_same p r" "sp_log r = sp_log p" "bt_at 0 1 r"
    using q(2-) by (simp_all add: r_def wf_sp_def sp_message_def sp_same_def bt_at_def Let_def bt_sync_def)
  have "sp_feed (Some p) 0xAA = Inr (Some q)" using q(1) sp_feed_first [OF wf(2)] by simp
  moreover have "sp_feed (Some q) x = Inr (Some r)"
    using assms(2,3) q(2,5) sp_first_other [of q x]
    by (simp add: sp_feed_def sempProcessByte_def sempBluetoothSync2_def semp_constants r_def)
  moreover obtain s where "run sp_feed (Some r) f = Inr (Some s)" "sp_after 0 1 r f s"
    using bt_rest [OF r(1,5), of f] r(2,3) f assms(4,5) by (auto simp: sp_same_def)
  ultimately show ?thesis using sp_after_trans [OF r(3,4)] by auto
qed

subsection \<open>Buffers that do not hold a header\<close>

definition sp_stuck :: "SP_STATE option \<Rightarrow> bool" where
  "sp_stuck s \<longleftrightarrow> (\<exists>p. s = Some p \<and> wf_sp p \<and> sp_state p = Some SpReadHeader
     \<and> sp_computeCrc p = Some SpComputeCrc \<and> unat (sp_maxLength p) < 20)"

interpretation sp_sticks: byte_machine sp_feed sp_stuck
proof
  fix s d
  assume "sp_stuck s"
  then obtain p where p: "s = Some p" "wf_sp p" "sp_state p = Some SpReadHeader" "sp_computeCrc p = Some SpComputeCrc"
    "unat (sp_maxLength p) < 20"
    by (auto simp: sp_stuck_def)
  define u where "u = p\<lparr>sp_crc := crc32_spec (sp_crc p) d\<rparr>"
  have u: "sp_update_crc p d = Inr u" "wf_sp u" "sp_state u = Some SpReadHeader" "sp_computeCrc u = Some SpComputeCrc"
    "unat (sp_maxLength u) < 20"
    using p(2-) sp_update_crc_eq by (simp_all add: u_def)
  obtain v where v: "sp_store u d = Inr v" "wf_sp v" "sp_state v = Some SpReadHeader" "sp_computeCrc v = Some SpComputeCrc"
    "unat (sp_maxLength v) < 20"
    using sp_store_any [OF u(2), of d] u(3-) by auto
  then have "\<not> 20 \<le> unat (sp_length v)" by (simp add: wf_sp_def word_le_nat_alt)
  then have "sempProcessByte s d = Inr (Some v, True)"
    unfolding p(1) using p(3) u(1) v(1) by (simp add: sempProcessByte_def sempBluetoothReadHeader_def semp_constants)
  then show "\<exists>t. sp_feed s d = Inr t \<and> sp_stuck t" using v(2-) by (simp add: sp_feed_def sp_stuck_def)
qed

subsection \<open>Every message comes to its end\<close>

text \<open>
  The number of bytes after which a parser that reads a header, a payload or a CRC is back
  at its first state. A counter of zero wraps around.
\<close>

definition sp_wrap :: "u16 \<Rightarrow> nat" where
  "sp_wrap r = (if r = 0 then 65536 else unat r)"

definition sp_left :: "SP_STATE \<Rightarrow> nat" where
  "sp_left p = (case sp_state p of
       Some SpReadHeader \<Rightarrow> 65559 - unat (sp_length p)
     | Some SpReadData \<Rightarrow> sp_wrap (sp_bytesRemaining p) + 4
     | Some SpReadCrc \<Rightarrow> sp_wrap (sp_bytesRemaining p)
     | _ \<Rightarrow> 0)"

definition sp_busy :: "SP_STATE \<Rightarrow> bool" where
  "sp_busy p \<longleftrightarrow> sp_state p \<in> {Some SpReadHeader, Some SpReadData, Some SpReadCrc}"

lemma sp_wrap_dec: "r - 1 \<noteq> 0 \<Longrightarrow> sp_wrap (r - 1) < sp_wrap r" for r :: u16
  using unat_dec [of r] unsigned_less [where 'a = nat and w = "r - 1"] unat_gt_0 [of r] by (auto simp: sp_wrap_def)

lemma sp_wrap_pos: "0 < sp_wrap r"
  by (simp add: sp_wrap_def unat_gt_0)

lemma sp_left_le: "sp_left p \<le> 65559"
  using unsigned_less [where 'a = nat and w = "sp_bytesRemaining p"]
  by (auto simp: sp_left_def sp_wrap_def split: option.splits sempStateFunction.splits)

lemma sp_left_pos: "sp_busy p \<Longrightarrow> 0 < sp_left p"
  using unsigned_less [where 'a = nat and w = "sp_length p"] by (auto simp: sp_busy_def sp_left_def sp_wrap_pos)

lemma sp_check_crc_state:
  assumes "sp_check_crc p = Inr (q, b)"
  shows "sp_state q = Some SpFirstByte"
proof -
  obtain r where "Inr (r\<lparr>sp_state := Some SpFirstByte\<rparr>, False) = (Inr (q, b) :: (SP_STATE \<times> bool) res)"
    using assms unfolding sp_check_crc_def rbind_Inr_iff by blast
  then show ?thesis by auto
qed

lemma sp_header_progress:
  assumes "sp_inv p" and "20 \<le> unat (sp_maxLength p)" and "sp_state p = Some SpReadHeader"
    and "sempProcessByte (Some p) d = Inr (Some q, b)"
  shows "sp_state q = Some SpFirstByte \<or> sp_busy q \<and> sp_left q < sp_left p"
proof -
  have wf: "wf_sp p" using assms(1) by (simp add: sp_inv_def)
  obtain c j where at: "bt_at c j p" using assms(1-3) by (auto simp: sp_inv_def sp_full_def)
  have n: "length (sp_message p) = unat (sp_length p)" "length (sp_message p) < 20" "3 \<le> length (sp_message p) + j"
    using at assms(3) length_sp_message [OF wf] by (simp_all add: bt_at_def Let_def)
  have room: "sp_length p < sp_maxLength p" using n assms(2) by (simp add: word_less_nat_alt)
  have eq: "sempBluetoothReadHeader p d = Inr (q, b)"
    using assms(3,4) by (auto simp: sempProcessByte_def rbind_Inr_iff)
  from bt_header [OF wf at room assms(3), of d] consider "sp_state q = Some SpFirstByte"
    | "bt_at c j q" "wf_sp q" "length (sp_message q) = Suc (unat (sp_length p))"
    unfolding eq using n(1) by (auto simp: sp_ends_def sp_continues_def split: if_splits)
  then show ?thesis
  proof cases
    case 2
    then have "unat (sp_length q) = Suc (unat (sp_length p))" using length_sp_message [of q] by simp
    then show ?thesis
      using 2 n assms(3) unsigned_less [where 'a = nat and w = "sp_bytesRemaining q"]
      by (auto simp: bt_at_def Let_def sp_busy_def sp_left_def sp_wrap_def
          split: option.splits sempStateFunction.splits)
  qed simp
qed

lemma sp_data_progress:
  assumes "sp_inv p" and "sp_state p = Some SpReadData" and "sempProcessByte (Some p) d = Inr (Some q, b)"
  shows "sp_busy q \<and> sp_left q < sp_left p"
proof -
  have wf: "wf_sp p" and crc: "sp_computeCrc p = Some SpComputeCrc"
    using assms(1,2) by (auto simp: sp_inv_def bt_at_def sp_full_def Let_def)
  obtain u where u: "sp_store (p\<lparr>sp_crc := crc32_spec (sp_crc p) d\<rparr>) d = Inr u" "sp_state u = Some SpReadData"
      "sp_bytesRemaining u = sp_bytesRemaining p"
    using sp_store_any [of "p\<lparr>sp_crc := crc32_spec (sp_crc p) d\<rparr>" d] wf assms(2) by auto
  then have "q = (if sp_bytesRemaining p - 1 = 0
      then sp_expect_crc (u\<lparr>sp_bytesRemaining := 0\<rparr>) else u\<lparr>sp_bytesRemaining := sp_bytesRemaining p - 1\<rparr>)"
    using assms(2,3) crc by (auto simp: sempProcessByte_def sempBluetoothReadData_def sp_update_crc_eq Let_def)
  then show ?thesis
    using u(2) assms(2) sp_wrap_dec [of "sp_bytesRemaining p"] sp_wrap_pos [of "sp_bytesRemaining p"]
    by (auto simp: sp_busy_def sp_left_def sp_expect_crc_def semp_constants sp_wrap_def [of 4])
qed

lemma sp_crc_progress:
  assumes "sp_inv p" and "sp_state p = Some SpReadCrc" and "sempProcessByte (Some p) d = Inr (Some q, b)"
  shows "sp_state q = Some SpFirstByte \<or> sp_busy q \<and> sp_left q < sp_left p"
proof -
  have wf: "wf_sp p" using assms(1) by (simp add: sp_inv_def)
  obtain u where u: "sp_store p d = Inr u" "sp_state u = Some SpReadCrc" "sp_bytesRemaining u = sp_bytesRemaining p"
    using sp_store_any [OF wf, of d] assms(2) by auto
  define v where "v = u\<lparr>sp_bytesRemaining := sp_bytesRemaining p - 1\<rparr>"
  have "(if sp_bytesRemaining p - 1 \<noteq> 0 then Inr (v, True) else sp_check_crc v) = Inr (q, b)"
    using assms(2,3) u by (auto simp: sempProcessByte_def sempBluetoothReadCrc_def Let_def v_def rbind_Inr_iff)
  then consider "sp_check_crc v = Inr (q, b)" | "sp_bytesRemaining p - 1 \<noteq> 0" "q = v" by (auto split: if_splits)
  then show ?thesis
  proof cases
    case 1
    then show ?thesis using sp_check_crc_state by blast
  next
    case 2
    then show ?thesis
      using u(2) assms(2) sp_wrap_dec [of "sp_bytesRemaining p"] by (auto simp: sp_busy_def sp_left_def v_def)
  qed
qed

lemma sp_progress:
  assumes "sp_inv p" and "20 \<le> unat (sp_maxLength p)" and "sp_busy p" and "sempProcessByte (Some p) d = Inr (Some q, b)"
  shows "sp_state q = Some SpFirstByte \<or> sp_busy q \<and> sp_left q < sp_left p"
proof -
  consider "sp_state p = Some SpReadHeader" | "sp_state p = Some SpReadData" | "sp_state p = Some SpReadCrc"
    using assms(3) by (auto simp: sp_busy_def)
  then show ?thesis
    by cases (use sp_header_progress [OF assms(1,2) _ assms(4)] sp_data_progress [OF assms(1) _ assms(4)]
      sp_crc_progress [OF assms(1) _ assms(4)] in blast)+
qed

lemma sp_returns:
  assumes "sp_inv p" and "20 \<le> unat (sp_maxLength p)" and "sp_busy p" and "sp_left p \<le> length bs"
  shows "\<exists>n \<le> sp_left p. \<exists>q. run sp_feed (Some p) (take n bs) = Inr (Some q) \<and> sp_state q = Some SpFirstByte"
  using assms
proof (induction bs arbitrary: p)
  case Nil
  then show ?case using sp_left_pos [of p] by simp
next
  case (Cons d bs)
  obtain q b where q: "sempProcessByte (Some p) d = Inr (Some q, b)" "sp_inv q" "sp_sound p q"
    using sp_step [OF Cons.prems(1)] by blast
  have feed: "sp_feed (Some p) d = Inr (Some q)" using q(1) by (simp add: sp_feed_def)
  have len: "20 \<le> unat (sp_maxLength q)" using q(3) Cons.prems(2) by (simp add: sp_sound_def sp_same_def)
  from sp_progress [OF Cons.prems(1-3) q(1)] show ?case
  proof
    assume "sp_state q = Some SpFirstByte"
    moreover have "1 \<le> sp_left p" using sp_left_pos [OF Cons.prems(3)] by simp
    ultimately show ?thesis using feed by (intro exI [of _ 1]) auto
  next
    assume b: "sp_busy q \<and> sp_left q < sp_left p"
    then obtain n r where "n \<le> sp_left q" "run sp_feed (Some q) (take n bs) = Inr (Some r)" "sp_state r = Some SpFirstByte"
      using Cons.IH [OF q(2) len] Cons.prems(4) by auto
    then show ?thesis using feed b by (intro exI [of _ "Suc n"]) auto
  qed
qed

subsection \<open>The buffer entry point\<close>

lemma sp_loop_total:
  assumes "sp_good s" and "unat len \<le> length data" and "k = i" and "i \<le> len"
  shows "\<exists>t n. sempProcessBuffer_loop s data len i k = Inr (t, n) \<and> sp_good t \<and> n \<le> len"
  using assms
proof (induction s data len i k rule: sempProcessBuffer_loop.induct)
  case (1 s data len i k)
  show ?case
  proof (cases "i < len")
    case False
    then show ?thesis using "1.prems" by (simp add: sempProcessBuffer_loop.simps [of s])
  next
    case True
    then have "unat i < length data" using "1.prems"(2) by (simp add: word_less_nat_alt)
    then have at: "at data (uint i) = Inr (data ! unat i)" by (simp add: at_word)
    obtain t b where t: "sempProcessByte s (data ! unat i) = Inr (t, b)" "sp_good t"
    proof (cases s)
      case None
      then show ?thesis using that [of None False] by (simp add: sempProcessByte_def sp_good_def)
    next
      case (Some p)
      then show ?thesis using sp_step [of p "data ! unat i"] "1.prems"(1) that by (auto simp: sp_good_def)
    qed
    have "i + 1 \<le> len" using True by (rule inc_le)
    then show ?thesis
      using "1.IH" [OF True t(1) refl] "1.prems"(2,3,4) t at True
      by (cases b) (auto simp: sempProcessBuffer_loop.simps [of s])
  qed
qed

lemma sp_loop_frame:
  assumes "wf_sp p" and "bt_at c j p" and "bt_shape j (sp_message p @ ds)" and "ds \<noteq> []"
    and "length (sp_message p @ ds) \<le> unat (sp_maxLength p)"
    and "unat i + length ds \<le> unat len" and "unat len \<le> length data" and "take (length ds) (drop (unat i) data) = ds"
  shows "\<exists>q. sempProcessBuffer_loop (Some p) data len i k = Inr (Some q, k + of_nat (length ds - 1))
    \<and> sp_after c j p (sp_message p @ ds) q"
  using assms
proof (induction ds arbitrary: p i k)
  case Nil
  then show ?case by simp
next
  case (Cons d ds)
  have i: "i < len" using Cons.prems(6) by (simp add: word_less_nat_alt)
  then have n: "unat (i + 1) = Suc (unat i)" by (intro unat_Suc_below) (simp add: word_less_nat_alt)
  have lt: "unat i < length data" using Cons.prems(6,7) by simp
  have "d = data ! unat i" "take (length ds) (drop (Suc (unat i)) data) = ds"
    using Cons.prems(8) lt by (simp_all add: Cons_nth_drop_Suc [symmetric])
  then have at: "at data (uint i) = Inr d" and rest: "take (length ds) (drop (unat (i + 1)) data) = ds"
    using at_word [of data i] lt n by simp_all
  show ?case
  proof (cases rule: bt_cases [OF Cons.prems(1-3,5)])
    case (1 q)
    then show ?thesis using i at by (simp add: sempProcessBuffer_loop.simps [of "Some p"])
  next
    case (2 q)
    then have "sp_maxLength q = sp_maxLength p" by (simp add: sp_same_def)
    then obtain r where "sempProcessBuffer_loop (Some q) data len (i + 1) (k + 1) = Inr (Some r, k + 1 + of_nat (length ds - 1))"
        "sp_after c j q (sp_message p @ d # ds) r"
      using Cons.IH [of q "i + 1" "k + 1"] Cons.prems(3,5,6,7) 2 n rest by auto
    moreover have "k + 1 + of_nat (length ds - 1) = k + of_nat (length (d # ds) - 1)" using 2(1) by (cases ds) simp_all
    ultimately show ?thesis
      using 2 sp_after_trans [of p q] i at by (auto simp: sempProcessBuffer_loop.simps [of "Some p"])
  qed
qed

lemma sp_buffer_frame:
  assumes "sp_idle p" and "bt_shape 0 f" and "length f \<le> unat (sp_maxLength p)" and "length f \<le> unat len"
    and "unat len \<le> length (f @ rest)"
  shows "\<exists>q. sempProcessBuffer (Some p) (f @ rest) len = Inr (Some q, of_nat (length f - 1)) \<and> sp_after 0xFFFFFFFF 0 p f q"
proof -
  obtain g where g: "f = 0xAA # g" "g \<noteq> []" using bt_shape_hd [OF assms(2)] by blast
  have wf: "wf_sp p" "sp_state p = Some SpFirstByte" using assms(1) by (simp_all add: sp_idle_def)
  have "sp_maxLength p \<noteq> 0" "0 < len" using assms(3,4) g(1) by (auto simp: word_gt_0)
  then obtain q where q: "sempFirstByte_sp p 0xAA = Inr (q, True)" "wf_sp q" "sp_same p q" "sp_log q = sp_log p"
    "bt_at 0xFFFFFFFF 0 q" "sp_message q = [0xAA]"
    using sp_first_sync [OF wf(1)] by auto
  have "sp_maxLength q = sp_maxLength p" using q(3) by (simp add: sp_same_def)
  then obtain r where "sempProcessBuffer_loop (Some q) (f @ rest) len 1 1 = Inr (Some r, 1 + of_nat (length g - 1))"
      "sp_after 0xFFFFFFFF 0 q f r"
    using sp_loop_frame [OF q(2,5), of g 1 len "f @ rest" 1] q(6) g assms(2-5) by auto
  moreover have "1 + of_nat (length g - 1) = (of_nat (length f - 1) :: u16)" using g by (cases g) simp_all
  ultimately show ?thesis
    using q(1) sp_after_trans [OF q(3,4)] g(1) wf(2) \<open>0 < len\<close>
    by (auto simp: sempProcessBuffer_def sempProcessBuffer_loop.simps [of "Some p"] sempProcessByte_def at_def)
qed

subsection \<open>The sync bytes\<close>

lemma sp_sync_step:
  assumes "wf_sp p" and "sp_computeCrc p = Some SpComputeCrc"
    and "sp_state p = Some SpSync2 \<and> d = 0x44 \<and> n = SpSync3 \<or> sp_state p = Some SpSync3 \<and> d = 0x18 \<and> n = SpReadHeader"
  shows "\<exists>q. sp_feed (Some p) d = Inr (Some q) \<and> wf_sp q \<and> sp_computeCrc q = Some SpComputeCrc
    \<and> sp_state q = Some n \<and> sp_same p q \<and> sp_log q = sp_log p"
proof -
  obtain u where u: "sp_store (p\<lparr>sp_crc := crc32_spec (sp_crc p) d\<rparr>) d = Inr u" "wf_sp u"
      "sp_computeCrc u = Some SpComputeCrc" "sp_same p u" "sp_log u = sp_log p"
    using sp_store_any [of "p\<lparr>sp_crc := crc32_spec (sp_crc p) d\<rparr>" d] assms(1,2) by (auto simp: sp_same_def)
  then have "sp_feed (Some p) d = Inr (Some (u\<lparr>sp_state := Some n\<rparr>))"
    using assms(2,3) by (auto simp: sp_feed_def sempProcessByte_def sempBluetoothSync2_def sempBluetoothSync3_def
        semp_constants sp_update_crc_eq)
  then show ?thesis using u(2-) by simp
qed

lemma sp_header_reached:
  assumes "sp_idle p"
  shows "\<exists>q. run sp_feed (Some p) [0xAA, 0x44, 0x18] = Inr (Some q) \<and> wf_sp q \<and> sp_computeCrc q = Some SpComputeCrc
    \<and> sp_state q = Some SpReadHeader \<and> sp_same p q \<and> sp_log q = sp_log p"
proof -
  have p: "wf_sp p" "sp_state p = Some SpFirstByte" using assms by (simp_all add: sp_idle_def)
  obtain q where q: "sempFirstByte_sp p 0xAA = Inr (q, True)" "wf_sp q" "sp_same p q" "sp_log q = sp_log p"
    "sp_state q = Some SpSync2" "sp_computeCrc q = Some SpComputeCrc"
    using sp_first_sync [OF p(1)] by blast
  obtain r where r: "sp_feed (Some q) 0x44 = Inr (Some r)" "wf_sp r" "sp_computeCrc r = Some SpComputeCrc"
      "sp_state r = Some SpSync3" "sp_same q r" "sp_log r = sp_log q"
    using sp_sync_step [of q "0x44" SpSync3] q by auto
  obtain t where t: "sp_feed (Some r) 0x18 = Inr (Some t)" "wf_sp t" "sp_computeCrc t = Some SpComputeCrc"
      "sp_state t = Some SpReadHeader" "sp_same r t" "sp_log t = sp_log r"
    using sp_sync_step [of r "0x18" SpReadHeader] r by auto
  have "sp_same p t" using q(3) r(5) t(5) by (simp add: sp_same_def)
  moreover have "sp_feed (Some p) 0xAA = Inr (Some q)" using sp_feed_first [OF p(2)] q(1) by simp
  ultimately show ?thesis using q r t by simp
qed

lemma sp_sticking:
  assumes "sp_idle p" and "unat (sp_maxLength p) < 20"
  shows "\<exists>q. run sp_feed (Some p) (0xAA # 0x44 # 0x18 # bs) = Inr (Some q) \<and> sp_state q = Some SpReadHeader"
proof -
  obtain q where q: "run sp_feed (Some p) [0xAA, 0x44, 0x18] = Inr (Some q)" "sp_stuck (Some q)"
    using sp_header_reached [OF assms(1)] assms(2) by (auto simp: sp_stuck_def sp_same_def)
  obtain t where "run sp_feed (Some q) bs = Inr t" "sp_stuck t" using sp_sticks.run_safe [OF q(2)] by blast
  moreover have "run sp_feed (Some p) ([0xAA, 0x44, 0x18] @ bs) = rbind (Inr (Some q)) (\<lambda>t. run sp_feed t bs)"
    unfolding run_append q(1) ..
  ultimately show ?thesis by (auto simp: sp_stuck_def simp del: run.simps)
qed

end
