(* ===== verification/Multi_Protocol.thy ===== *)
theory Multi_Protocol
  imports Semp_Correct
begin

text \<open>
  single_parser/multi_protocol_parser.c and .h: a parser for SEMP frames, NMEA sentences and
  u-blox messages with statistics. The members of the structure carry the prefix \<open>mm\<close>.
  Function pointers are values of a datatype; \<open>mm_log\<close> records what the application is told.
  The file keeps two objects with static storage: the scratch pad every parser points to, and
  \<^verbatim>\<open>lengthBytes\<close> of \<^verbatim>\<open>mmpUbloxReadLength\<close>. They are the members \<open>mm_scratchPad\<close> and
  \<open>mm_lengthBytes\<close> of the state a handler works on; \<open>Multi_Shared\<close> has two parsers that
  share them.
\<close>

section \<open>Constants and types\<close>

definition mmp_crc32Table :: "u32 list" where
  "mmp_crc32Table = [
     0x00000000, 0x77073096, 0xEE0E612C, 0x990951BA, 0x076DC419, 0x706AF48F,
     0xE963A535, 0x9E6495A3, 0x0EDB8832, 0x79DCB8A4, 0xE0D5E91E, 0x97D2D988,
     0x09B64C2B, 0x7EB17CBD, 0xE7B82D07, 0x90BF1D91, 0x1DB71064, 0x6AB020F2,
     0xF3B97148, 0x84BE41DE, 0x1ADAD47D, 0x6DDDE4EB, 0xF4D4B551, 0x83D385C7,
     0x136C9856, 0x646BA8C0, 0xFD62F97A, 0x8A65C9EC, 0x14015C4F, 0x63066CD9,
     0xFA0F3D63, 0x8D080DF5, 0x3B6E20C8, 0x4C69105E, 0xD56041E4, 0xA2677172,
     0x3C03E4D1, 0x4B04D447, 0xD20D85FD, 0xA50AB56B, 0x35B5A8FA, 0x42B2986C,
     0xDBBBC9D6, 0xACBCF940, 0x32D86CE3, 0x45DF5C75, 0xDCD60DCF, 0xABD13D59,
     0x26D930AC, 0x51DE003A, 0xC8D75180, 0xBFD06116, 0x21B4F4B5, 0x56B3C423,
     0xCFBA9599, 0xB8BDA50F, 0x2802B89E, 0x5F058808, 0xC60CD9B2, 0xB10BE924,
     0x2F6F7C87, 0x58684C11, 0xC1611DAB, 0xB6662D3D, 0x76DC4190, 0x01DB7106,
     0x98D220BC, 0xEFD5102A, 0x71B18589, 0x06B6B51F, 0x9FBFE4A5, 0xE8B8D433,
     0x7807C9A2, 0x0F00F934, 0x9609A88E, 0xE10E9818, 0x7F6A0DBB, 0x086D3D2D,
     0x91646C97, 0xE6635C01, 0x6B6B51F4, 0x1C6C6162, 0x856530D8, 0xF262004E,
     0x6C0695ED, 0x1B01A57B, 0x8208F4C1, 0xF50FC457, 0x65B0D9C6, 0x12B7E950,
     0x8BBEB8EA, 0xFCB9887C, 0x62DD1DDF, 0x15DA2D49, 0x8CD37CF3, 0xFBD44C65,
     0x4DB26158, 0x3AB551CE, 0xA3BC0074, 0xD4BB30E2, 0x4ADFA541, 0x3DD895D7,
     0xA4D1C46D, 0xD3D6F4FB, 0x4369E96A, 0x346ED9FC, 0xAD678846, 0xDA60B8D0,
     0x44042D73, 0x33031DE5, 0xAA0A4C5F, 0xDD0D7CC9, 0x5005713C, 0x270241AA,
     0xBE0B1010, 0xC90C2086, 0x5768B525, 0x206F85B3, 0xB966D409, 0xCE61E49F,
     0x5EDEF90E, 0x29D9C998, 0xB0D09822, 0xC7D7A8B4, 0x59B33D17, 0x2EB40D81,
     0xB7BD5C3B, 0xC0BA6CAD, 0xEDB88320, 0x9ABFB3B6, 0x03B6E20C, 0x74B1D29A,
     0xEAD54739, 0x9DD277AF, 0x04DB2615, 0x73DC1683, 0xE3630B12, 0x94643B84,
     0x0D6D6A3E, 0x7A6A5AA8, 0xE40ECF0B, 0x9309FF9D, 0x0A00AE27, 0x7D079EB1,
     0xF00F9344, 0x8708A3D2, 0x1E01F268, 0x6906C2FE, 0xF762575D, 0x806567CB,
     0x196C3671, 0x6E6B06E7, 0xFED41B76, 0x89D32BE0, 0x10DA7A5A, 0x67DD4ACC,
     0xF9B9DF6F, 0x8EBEEFF9, 0x17B7BE43, 0x60B08ED5, 0xD6D6A3E8, 0xA1D1937E,
     0x38D8C2C4, 0x4FDFF252, 0xD1BB67F1, 0xA6BC5767, 0x3FB506DD, 0x48B2364B,
     0xD80D2BDA, 0xAF0A1B4C, 0x36034AF6, 0x41047A60, 0xDF60EFC3, 0xA867DF55,
     0x316E8EEF, 0x4669BE79, 0xCB61B38C, 0xBC66831A, 0x256FD2A0, 0x5268E236,
     0xCC0C7795, 0xBB0B4703, 0x220216B9, 0x5505262F, 0xC5BA3BBE, 0xB2BD0B28,
     0x2BB45A92, 0x5CB36A04, 0xC2D7FFA7, 0xB5D0CF31, 0x2CD99E8B, 0x5BDEAE1D,
     0x9B64C2B0, 0xEC63F226, 0x756AA39C, 0x026D930A, 0x9C0906A9, 0xEB0E363F,
     0x72076785, 0x05005713, 0x95BF4A82, 0xE2B87A14, 0x7BB12BAE, 0x0CB61B38,
     0x92D28E9B, 0xE5D5BE0D, 0x7CDCEFB7, 0x0BDBDF21, 0x86D3D2D4, 0xF1D4E242,
     0x68DDB3F8, 0x1FDA836E, 0x81BE16CD, 0xF6B9265B, 0x6FB077E1, 0x18B74777,
     0x88085AE6, 0xFF0F6A70, 0x66063BCA, 0x11010B5C, 0x8F659EFF, 0xF862AE69,
     0x616BFFD3, 0x166CCF45, 0xA00AE278, 0xD70DD2EE, 0x4E048354, 0x3903B3C2,
     0xA7672661, 0xD06016F7, 0x4969474D, 0x3E6E77DB, 0xAED16A4A, 0xD9D65ADC,
     0x40DF0B66, 0x37D83BF0, 0xA9BCAE53, 0xDEBB9EC5, 0x47B2CF7F, 0x30B5FFE9,
     0xBDBDF21C, 0xCABAC28A, 0x53B39330, 0x24B4A3A6, 0xBAD03605, 0xCDD70693,
     0x54DE5729, 0x23D967BF, 0xB3667A2E, 0xC4614AB8, 0x5D681B02, 0x2A6F2B94,
     0xB40BBE37, 0xC30C8EA1, 0x5A05DF1B, 0x2D02EF8D]"

named_theorems mmp_constants \<open>the constants of multi_protocol_parser.h\<close>

definition MMP_MINIMUM_BUFFER_LENGTH :: u16 where [mmp_constants]: "MMP_MINIMUM_BUFFER_LENGTH = 256"
definition MMP_MAX_SENTENCE_NAME :: u8 where [mmp_constants]: "MMP_MAX_SENTENCE_NAME = 16"

definition MMP_PROTOCOL_SEMP :: nat where [mmp_constants]: "MMP_PROTOCOL_SEMP = 0"
definition MMP_PROTOCOL_NMEA :: nat where [mmp_constants]: "MMP_PROTOCOL_NMEA = 1"
definition MMP_PROTOCOL_UBLOX :: nat where [mmp_constants]: "MMP_PROTOCOL_UBLOX = 2"
definition MMP_PROTOCOL_COUNT :: nat where [mmp_constants]: "MMP_PROTOCOL_COUNT = 8"

definition sizeof_MMP_SEMP_HEADER :: nat where [mmp_constants]: "sizeof_MMP_SEMP_HEADER = 20"

definition mmp_protocolNames :: "string list" where
  "mmp_protocolNames =
     [''SEMP'', ''NMEA'', ''u-blox'', ''RTCM'', ''SPARTN'', ''SBF'', ''Unicore-Hash'', ''Unicore-Binary'']"

text \<open>The functions \<^verbatim>\<open>state\<close> and the table of preambles point to.\<close>

datatype mmpState =
    MmpFirstByte | MmpSempSync2 | MmpSempSync3 | MmpSempReadHeader | MmpSempReadData | MmpSempReadCrc
  | MmpNmeaFindFirstComma | MmpNmeaFindAsterisk | MmpNmeaChecksumByte1 | MmpNmeaChecksumByte2
  | MmpNmeaLineTermination
  | MmpUbloxSync2 | MmpUbloxReadClass | MmpUbloxReadMessageId | MmpUbloxReadLength | MmpUbloxReadData
  | MmpUbloxChecksumA | MmpUbloxChecksumB

datatype mmpPreamble = MmpSempPreamble | MmpNmeaPreamble | MmpUbloxPreamble | MmpRtcmPreamble

datatype mmpCrcFunction = MmpSempComputeCrc

text \<open>Printed messages with their arguments\<close>

datatype mmp_output =
    MmpTooLong u16 | MmpBadHeaderLength u8 | MmpBadSempCrc "u8 list" u32
  | MmpBadNmeaChecksum u8 u8 u8 | MmpInvalidSecondChecksum | MmpInvalidFirstChecksum | MmpSentenceTooLong u16
  | MmpInvalidNameCharacter u8 | MmpNameTooLong | MmpBadChecksumB u8 u8 | MmpBadChecksumA u8 u8
  | MmpRtcmDetected | MmpStatsHead | MmpStatsBytes u32 | MmpStatsLine string u32 u32 "(u32 \<times> u32) option"
  | MmpStatsNone | MmpStatsFoot

datatype mmp_event = MmpEom callback u16 "u8 list" | MmpBadCrcCall "u8 list" | MmpPrint callback mmp_output

record MMP_VIEW =
  mm_buffer :: "u8 list"
  mm_length :: u16
  mm_bufferLength :: u16
  mm_parsers :: "mmpPreamble list"
  mm_parserNames :: "string list"
  mm_parserCount :: u16
  mm_parserName :: "string option"
  mm_state :: "mmpState option"
  mm_type :: u16
  mm_computeCrc :: "mmpCrcFunction option"
  mm_crc :: u32
  mm_messagesProcessed :: "u32 list"
  mm_crcErrors :: "u32 list"
  mm_totalBytes :: u32
  mm_scratchPad :: mem
  mm_lengthBytes :: u8

record MMP_PARSE_STATE = MMP_VIEW +
  mm_eomCallback :: "callback option"
  mm_badCrc :: "(MMP_VIEW \<Rightarrow> bool) option"
  mm_printError :: "callback option"
  mm_printDebug :: "callback option"
  mm_log :: "mmp_event list"

type_synonym mmp = MMP_PARSE_STATE

definition mm_message :: "mmp \<Rightarrow> u8 list" where
  "mm_message p = take (unat (mm_length p)) (mm_buffer p)"

subsection \<open>The scratch pad\<close>

text \<open>The members of the union at their offsets.\<close>

named_theorems mmp_scratch \<open>the accessors of the scratch pad\<close>

definition semp_crc :: "mmp \<Rightarrow> u32" where [mmp_scratch]: "semp_crc p = get32 (mm_scratchPad p) 0"
definition set_semp_crc :: "u32 \<Rightarrow> mmp \<Rightarrow> mmp" where
  [mmp_scratch]: "set_semp_crc v p = p\<lparr>mm_scratchPad := put32 (mm_scratchPad p) 0 v\<rparr>"
definition semp_bytesRemaining :: "mmp \<Rightarrow> u16" where
  [mmp_scratch]: "semp_bytesRemaining p = get16 (mm_scratchPad p) 4"
definition set_semp_bytesRemaining :: "u16 \<Rightarrow> mmp \<Rightarrow> mmp" where
  [mmp_scratch]: "set_semp_bytesRemaining v p = p\<lparr>mm_scratchPad := put16 (mm_scratchPad p) 4 v\<rparr>"

definition set_info_sentenceName :: "nat \<Rightarrow> u8 \<Rightarrow> mmp \<Rightarrow> mmp" where
  [mmp_scratch]: "set_info_sentenceName i v p = p\<lparr>mm_scratchPad := (mm_scratchPad p)(i := v)\<rparr>"
definition info_sentenceNameLength :: "mmp \<Rightarrow> u8" where
  [mmp_scratch]: "info_sentenceNameLength p = mm_scratchPad p 16"
definition set_info_sentenceNameLength :: "u8 \<Rightarrow> mmp \<Rightarrow> mmp" where
  [mmp_scratch]: "set_info_sentenceNameLength v p = p\<lparr>mm_scratchPad := (mm_scratchPad p)(16 := v)\<rparr>"

definition ublox_checksumA :: "mmp \<Rightarrow> u8" where [mmp_scratch]: "ublox_checksumA p = mm_scratchPad p 0"
definition set_ublox_checksumA :: "u8 \<Rightarrow> mmp \<Rightarrow> mmp" where
  [mmp_scratch]: "set_ublox_checksumA v p = p\<lparr>mm_scratchPad := (mm_scratchPad p)(0 := v)\<rparr>"
definition ublox_checksumB :: "mmp \<Rightarrow> u8" where [mmp_scratch]: "ublox_checksumB p = mm_scratchPad p 1"
definition set_ublox_checksumB :: "u8 \<Rightarrow> mmp \<Rightarrow> mmp" where
  [mmp_scratch]: "set_ublox_checksumB v p = p\<lparr>mm_scratchPad := (mm_scratchPad p)(1 := v)\<rparr>"
definition mm_ublox_bytesRemaining :: "mmp \<Rightarrow> u16" where
  [mmp_scratch]: "mm_ublox_bytesRemaining p = get16 (mm_scratchPad p) 2"
definition set_mm_ublox_bytesRemaining :: "u16 \<Rightarrow> mmp \<Rightarrow> mmp" where
  [mmp_scratch]: "set_mm_ublox_bytesRemaining v p = p\<lparr>mm_scratchPad := put16 (mm_scratchPad p) 2 v\<rparr>"

section \<open>Utilities\<close>

definition mmpAsciiToNibble :: "int \<Rightarrow> int" where
  "mmpAsciiToNibble data =
     (let data = data OR 0x20
      in if data \<ge> 0x61 \<and> data \<le> 0x66 then data - 0x61 + 10
         else if data \<ge> 0x30 \<and> data \<le> 0x39 then data - 0x30
         else -1)"

definition mmpSafePrintf :: "callback option \<Rightarrow> mmp_output \<Rightarrow> mmp \<Rightarrow> mmp" where
  "mmpSafePrintf cb m p = (case cb of None \<Rightarrow> p | Some c \<Rightarrow> p\<lparr>mm_log := mm_log p @ [MmpPrint c m]\<rparr>)"

text \<open>\<^verbatim>\<open>parse->buffer[parse->length - k]\<close>\<close>

definition mm_back :: "mmp \<Rightarrow> int \<Rightarrow> u8 res" where
  "mm_back p k = at (mm_buffer p) (uint (mm_length p) - k)"

text \<open>\<^verbatim>\<open>parse->buffer[parse->length++] = data\<close>\<close>

definition mm_push :: "mmp \<Rightarrow> u8 \<Rightarrow> mmp res" where
  "mm_push p data = rbind (upd (mm_buffer p) (uint (mm_length p)) data) (\<lambda>b.
     Inr (p\<lparr>mm_buffer := b, mm_length := mm_length p + 1\<rparr>))"

text \<open>\<^verbatim>\<open>parse->messagesProcessed[i]++\<close>, the end-of-message callback, \<^verbatim>\<open>parse->crcErrors[i]++\<close>\<close>

definition mm_completed :: "nat \<Rightarrow> mmp \<Rightarrow> mmp" where
  "mm_completed i p =
     (let p = p\<lparr>mm_messagesProcessed := (mm_messagesProcessed p)[i := mm_messagesProcessed p ! i + 1]\<rparr>
      in case mm_eomCallback p of
           None \<Rightarrow> p
         | Some cb \<Rightarrow> p\<lparr>mm_log := mm_log p @ [MmpEom cb (of_nat i) (mm_message p)]\<rparr>)"

definition mm_failed :: "nat \<Rightarrow> mmp \<Rightarrow> mmp" where
  "mm_failed i p = p\<lparr>mm_crcErrors := (mm_crcErrors p)[i := mm_crcErrors p ! i + 1]\<rparr>"

text \<open>\<^verbatim>\<open>parse->badCrc(parse)\<close>\<close>

definition mm_call_badCrc :: "(MMP_VIEW \<Rightarrow> bool) \<Rightarrow> mmp \<Rightarrow> mmp \<times> bool" where
  "mm_call_badCrc f p = (p\<lparr>mm_log := mm_log p @ [MmpBadCrcCall (mm_message p)]\<rparr>, f (MMP_VIEW.truncate p))"

section \<open>Preambles and the first byte\<close>

definition mmpSempComputeCrc :: "mmp \<Rightarrow> u8 \<Rightarrow> u32" where
  "mmpSempComputeCrc p data = crc32_step mmp_crc32Table (mm_crc p) data"

definition mmpSempPreamble :: "mmp \<Rightarrow> u8 \<Rightarrow> mmp \<times> bool" where
  "mmpSempPreamble p data =
     (if data \<noteq> 0xAA then (p, False)
      else let p = p\<lparr>mm_crc := 0xFFFFFFFF, mm_computeCrc := Some MmpSempComputeCrc\<rparr>
           in (p\<lparr>mm_crc := mmpSempComputeCrc p data, mm_state := Some MmpSempSync2\<rparr>, True))"

definition mmpNmeaPreamble :: "mmp \<Rightarrow> u8 \<Rightarrow> mmp \<times> bool" where
  "mmpNmeaPreamble p data =
     (if data \<noteq> 0x24 then (p, False)
      else ((set_info_sentenceNameLength 0 p)
              \<lparr>mm_crc := 0, mm_computeCrc := None, mm_state := Some MmpNmeaFindFirstComma\<rparr>, True))"

definition mmpUbloxPreamble :: "mmp \<Rightarrow> u8 \<Rightarrow> mmp \<times> bool" where
  "mmpUbloxPreamble p data =
     (if data \<noteq> 0xB5 then (p, False)
      else (p\<lparr>mm_computeCrc := None, mm_state := Some MmpUbloxSync2\<rparr>, True))"

definition mmpRtcmPreamble :: "mmp \<Rightarrow> u8 \<Rightarrow> mmp \<times> bool" where
  "mmpRtcmPreamble p data =
     (if data \<noteq> 0xD3 then (p, False)
      else ((mmpSafePrintf (mm_printDebug p) MmpRtcmDetected p)\<lparr>mm_state := Some MmpFirstByte\<rparr>, False))"

fun call_mmpPreamble :: "mmpPreamble \<Rightarrow> mmp \<Rightarrow> u8 \<Rightarrow> mmp \<times> bool" where
  "call_mmpPreamble MmpSempPreamble = mmpSempPreamble"
| "call_mmpPreamble MmpNmeaPreamble = mmpNmeaPreamble"
| "call_mmpPreamble MmpUbloxPreamble = mmpUbloxPreamble"
| "call_mmpPreamble MmpRtcmPreamble = mmpRtcmPreamble"

definition mmp_parserTable :: "mmpPreamble list" where
  "mmp_parserTable = [MmpSempPreamble, MmpNmeaPreamble, MmpUbloxPreamble, MmpRtcmPreamble]"

definition mmp_parserNameTable :: "string list" where
  "mmp_parserNameTable = [''SEMP'', ''NMEA'', ''u-blox'', ''RTCM'']"

fun mmpFirstByte_loop :: "nat \<Rightarrow> mmpPreamble list \<Rightarrow> mmp \<Rightarrow> u8 \<Rightarrow> mmp \<times> bool" where
  "mmpFirstByte_loop index [] p data = (p\<lparr>mm_state := Some MmpFirstByte\<rparr>, False)"
| "mmpFirstByte_loop index (f # fs) p data =
     (let (p, found) = call_mmpPreamble f p data
      in if found then (p\<lparr>mm_type := of_nat index\<rparr>, True) else mmpFirstByte_loop (Suc index) fs p data)"

definition mmpFirstByte :: "mmp \<Rightarrow> u8 \<Rightarrow> (mmp \<times> bool) res" where
  "mmpFirstByte p data =
     rbind (mm_push (p\<lparr>mm_crc := 0, mm_computeCrc := None, mm_length := 0, mm_type := of_nat MMP_PROTOCOL_COUNT\<rparr>) data)
       (\<lambda>p. Inr (mmpFirstByte_loop 0 mmp_parserTable (p\<lparr>mm_totalBytes := mm_totalBytes p + 1\<rparr>) data))"

section \<open>SEMP frames\<close>

text \<open>\<^verbatim>\<open>scratchPad->semp.bytesRemaining = 4\<close> and the statements after it\<close>

definition mm_expect_crc :: "mmp \<Rightarrow> mmp" where
  "mm_expect_crc p =
     (let p = set_semp_bytesRemaining 4 p; p = p\<lparr>mm_crc := mm_crc p XOR 0xFFFFFFFF\<rparr>
      in (set_semp_crc (mm_crc p) p)\<lparr>mm_state := Some MmpSempReadCrc\<rparr>)"

definition mm_last4 :: "mmp \<Rightarrow> (u8 \<times> u8 \<times> u8 \<times> u8) res" where
  "mm_last4 p =
     rbind (mm_back p 4) (\<lambda>a. rbind (mm_back p 3) (\<lambda>b. rbind (mm_back p 2) (\<lambda>c. rbind (mm_back p 1) (\<lambda>d.
       Inr (a, b, c, d)))))"

text \<open>\<^verbatim>\<open>if ((!parse->badCrc) || (!parse->badCrc(parse)))\<close> and the message printed then\<close>

definition mm_report_crc :: "mmp \<Rightarrow> mmp res" where
  "mm_report_crc p =
     (let (p, quiet) = (case mm_badCrc p of None \<Rightarrow> (p, False) | Some f \<Rightarrow> mm_call_badCrc f p)
      in if quiet then Inr p
         else rbind (mm_last4 p) (\<lambda>(a, b, c, d).
                Inr (mmpSafePrintf (mm_printDebug p) (MmpBadSempCrc [a, b, c, d] (semp_crc p)) p)))"

definition mmpSempReadCrc :: "mmp \<Rightarrow> u8 \<Rightarrow> (mmp \<times> bool) res" where
  "mmpSempReadCrc p data =
     (let p = set_semp_bytesRemaining (semp_bytesRemaining p - 1) p
      in if semp_bytesRemaining p \<noteq> 0 then Inr (p, True)
         else rbind (if mm_length p \<ge> 4 then rbind (mm_last4 p) (\<lambda>(a, b, c, d). Inr (le32 a b c d)) else Inr 0)
           (\<lambda>crcRead.
              rbind (if crcRead = semp_crc p then Inr (mm_completed MMP_PROTOCOL_SEMP p)
                     else mm_report_crc (mm_failed MMP_PROTOCOL_SEMP p))
                (\<lambda>p. Inr (p\<lparr>mm_state := Some MmpFirstByte\<rparr>, False))))"

definition mmpSempReadData :: "mmp \<Rightarrow> u8 \<Rightarrow> (mmp \<times> bool) res" where
  "mmpSempReadData p data =
     (let p = set_semp_bytesRemaining (semp_bytesRemaining p - 1) p
      in Inr (if semp_bytesRemaining p = 0 then mm_expect_crc p else p, True))"

definition mmpSempReadHeader :: "mmp \<Rightarrow> u8 \<Rightarrow> (mmp \<times> bool) res" where
  "mmpSempReadHeader p data =
     (if unat (mm_length p) \<ge> sizeof_MMP_SEMP_HEADER
      then rbind (at (mm_buffer p) 3) (\<lambda>headerLength.
             if headerLength \<noteq> 0x14
             then Inr ((mmpSafePrintf (mm_printDebug p) (MmpBadHeaderLength headerLength) p)
                         \<lparr>mm_state := Some MmpFirstByte\<rparr>, False)
             else rbind (at (mm_buffer p) 12) (\<lambda>lo. rbind (at (mm_buffer p) 13) (\<lambda>hi.
               let p = set_semp_bytesRemaining (le16 lo hi) p
               in Inr (if semp_bytesRemaining p = 0 then mm_expect_crc p
                       else p\<lparr>mm_state := Some MmpSempReadData\<rparr>, True))))
      else Inr (p, True))"

definition mmpSempSync3 :: "mmp \<Rightarrow> u8 \<Rightarrow> (mmp \<times> bool) res" where
  "mmpSempSync3 p data =
     (if data \<noteq> 0x18 then mmpFirstByte p data else Inr (p\<lparr>mm_state := Some MmpSempReadHeader\<rparr>, True))"

definition mmpSempSync2 :: "mmp \<Rightarrow> u8 \<Rightarrow> (mmp \<times> bool) res" where
  "mmpSempSync2 p data =
     (if data \<noteq> 0x44 then mmpFirstByte p data else Inr (p\<lparr>mm_state := Some MmpSempSync3\<rparr>, True))"

section \<open>NMEA sentences\<close>

text \<open>\<^verbatim>\<open>(checksum == ...) || (parse->badCrc && (!parse->badCrc(parse)))\<close>\<close>

definition mm_accepted :: "bool \<Rightarrow> mmp \<Rightarrow> mmp \<times> bool" where
  "mm_accepted ok p =
     (if ok then (p, True)
      else case mm_badCrc p of None \<Rightarrow> (p, False) | Some f \<Rightarrow> let (p, b) = mm_call_badCrc f p in (p, \<not> b))"

definition mmpNmeaValidateChecksum :: "mmp \<Rightarrow> mmp res" where
  "mmpNmeaValidateChecksum p =
     rbind (mm_back p 2) (\<lambda>c1.
     rbind (mm_back p 1) (\<lambda>c2.
       let checksum = push_bit 4 (mmpAsciiToNibble (uint c1));
           checksum = checksum OR mmpAsciiToNibble (uint c2);
           (p, accepted) = mm_accepted (checksum = uint (mm_crc p AND 0xFF)) p
       in if accepted
          then rbind (mm_push p 0x0D) (\<lambda>p.
               rbind (mm_push p 0x0A) (\<lambda>p.
               rbind (upd (mm_buffer p) (uint (mm_length p)) 0) (\<lambda>b.
                 Inr (mm_completed MMP_PROTOCOL_NMEA (p\<lparr>mm_buffer := b\<rparr>)))))
          else let p = mm_failed MMP_PROTOCOL_NMEA p
               in rbind (mm_back p 2) (\<lambda>c1. rbind (mm_back p 1) (\<lambda>c2.
                    Inr (mmpSafePrintf (mm_printDebug p) (MmpBadNmeaChecksum c1 c2 (ucast (mm_crc p AND 0xFF))) p)))))"

definition mmpNmeaLineTermination :: "mmp \<Rightarrow> u8 \<Rightarrow> (mmp \<times> bool) res" where
  "mmpNmeaLineTermination p data =
     (let p = p\<lparr>mm_length := mm_length p - 1\<rparr>
      in rbind (mmpNmeaValidateChecksum p) (\<lambda>p.
           if data = 0x0D \<or> data = 0x0A then Inr (p\<lparr>mm_state := Some MmpFirstByte\<rparr>, True)
           else mmpFirstByte p data))"

definition mmpNmeaChecksumByte2 :: "mmp \<Rightarrow> u8 \<Rightarrow> (mmp \<times> bool) res" where
  "mmpNmeaChecksumByte2 p data =
     rbind (mm_back p 1) (\<lambda>c.
       if mmpAsciiToNibble (uint c) \<ge> 0 then Inr (p\<lparr>mm_state := Some MmpNmeaLineTermination\<rparr>, True)
       else mmpFirstByte (mmpSafePrintf (mm_printDebug p) MmpInvalidSecondChecksum p) data)"

definition mmpNmeaChecksumByte1 :: "mmp \<Rightarrow> u8 \<Rightarrow> (mmp \<times> bool) res" where
  "mmpNmeaChecksumByte1 p data =
     rbind (mm_back p 1) (\<lambda>c.
       if mmpAsciiToNibble (uint c) \<ge> 0 then Inr (p\<lparr>mm_state := Some MmpNmeaChecksumByte2\<rparr>, True)
       else mmpFirstByte (mmpSafePrintf (mm_printDebug p) MmpInvalidFirstChecksum p) data)"

definition mmpNmeaFindAsterisk :: "mmp \<Rightarrow> u8 \<Rightarrow> (mmp \<times> bool) res" where
  "mmpNmeaFindAsterisk p data =
     (if data = 0x2A then Inr (p\<lparr>mm_state := Some MmpNmeaChecksumByte1\<rparr>, True)
      else
        let p = p\<lparr>mm_crc := mm_crc p XOR ucast data\<rparr>
        in if unat (mm_length p) + 5 > unat (mm_bufferLength p)
           then mmpFirstByte (mmpSafePrintf (mm_printDebug p) (MmpSentenceTooLong (mm_bufferLength p)) p) data
           else Inr (p, True))"

text \<open>\<^verbatim>\<open>sentenceName[i] = data\<close>, an array of sixteen elements\<close>

definition mm_store_name :: "u8 \<Rightarrow> mmp \<Rightarrow> mmp res" where
  "mm_store_name data p =
     (if info_sentenceNameLength p < MMP_MAX_SENTENCE_NAME
      then Inr (set_info_sentenceName (unat (info_sentenceNameLength p)) data p) else Inl OutOfBounds)"

definition mmpNmeaFindFirstComma :: "mmp \<Rightarrow> u8 \<Rightarrow> (mmp \<times> bool) res" where
  "mmpNmeaFindFirstComma p data =
     (let p = p\<lparr>mm_crc := mm_crc p XOR ucast data\<rparr>
      in if data \<noteq> 0x2C \<or> info_sentenceNameLength p = 0
         then
           let upper = data AND NOT 0x20
           in if (upper < 0x41 \<or> upper > 0x5A) \<and> (data < 0x30 \<or> data > 0x39)
              then mmpFirstByte (mmpSafePrintf (mm_printDebug p) (MmpInvalidNameCharacter data) p) data
              else if info_sentenceNameLength p \<ge> MMP_MAX_SENTENCE_NAME - 1
              then mmpFirstByte (mmpSafePrintf (mm_printDebug p) MmpNameTooLong p) data
              else rbind (mm_store_name data p) (\<lambda>q.
                     Inr (set_info_sentenceNameLength (info_sentenceNameLength p + 1) q, True))
         else rbind (mm_store_name 0 p) (\<lambda>p. Inr (p\<lparr>mm_state := Some MmpNmeaFindAsterisk\<rparr>, True)))"

section \<open>u-blox messages\<close>

definition mmpUbloxComputeChecksum :: "mmp \<Rightarrow> u8 \<Rightarrow> mmp" where
  "mmpUbloxComputeChecksum p data =
     (let p = set_ublox_checksumA (ublox_checksumA p + data) p
      in set_ublox_checksumB (ublox_checksumB p + ublox_checksumA p) p)"

definition mmpUbloxChecksumB :: "mmp \<Rightarrow> u8 \<Rightarrow> (mmp \<times> bool) res" where
  "mmpUbloxChecksumB p data =
     (let p = (if data = ublox_checksumB p then mm_completed MMP_PROTOCOL_UBLOX p
               else mmpSafePrintf (mm_printDebug p) (MmpBadChecksumB data (ublox_checksumB p))
                      (mm_failed MMP_PROTOCOL_UBLOX p))
      in Inr (p\<lparr>mm_state := Some MmpFirstByte\<rparr>, False))"

definition mmpUbloxChecksumA :: "mmp \<Rightarrow> u8 \<Rightarrow> (mmp \<times> bool) res" where
  "mmpUbloxChecksumA p data =
     (if data = ublox_checksumA p then Inr (p\<lparr>mm_state := Some MmpUbloxChecksumB\<rparr>, True)
      else Inr ((mmpSafePrintf (mm_printDebug p) (MmpBadChecksumA data (ublox_checksumA p))
                   (mm_failed MMP_PROTOCOL_UBLOX p))\<lparr>mm_state := Some MmpFirstByte\<rparr>, False))"

definition mmpUbloxReadData :: "mmp \<Rightarrow> u8 \<Rightarrow> (mmp \<times> bool) res" where
  "mmpUbloxReadData p data =
     (let p = mmpUbloxComputeChecksum p data;
          p = set_mm_ublox_bytesRemaining (mm_ublox_bytesRemaining p - 1) p
      in Inr (if mm_ublox_bytesRemaining p = 0 then p\<lparr>mm_state := Some MmpUbloxChecksumA\<rparr> else p, True))"

definition mmpUbloxReadLength :: "mmp \<Rightarrow> u8 \<Rightarrow> (mmp \<times> bool) res" where
  "mmpUbloxReadLength p data =
     (let p = mmpUbloxComputeChecksum p data
      in if mm_lengthBytes p = 0
         then Inr ((set_mm_ublox_bytesRemaining (ucast data) p)\<lparr>mm_lengthBytes := 1\<rparr>, True)
         else
           let p = (set_mm_ublox_bytesRemaining (mm_ublox_bytesRemaining p OR push_bit 8 (ucast data)) p)
                     \<lparr>mm_lengthBytes := 0\<rparr>
           in Inr (p\<lparr>mm_state := Some (if mm_ublox_bytesRemaining p = 0 then MmpUbloxChecksumA else MmpUbloxReadData)\<rparr>,
                   True))"

definition mmpUbloxReadMessageId :: "mmp \<Rightarrow> u8 \<Rightarrow> (mmp \<times> bool) res" where
  "mmpUbloxReadMessageId p data =
     (let p = set_ublox_checksumB 0 (set_ublox_checksumA 0 p)
      in rbind (mm_back p 2) (\<lambda>c.
           let p = mmpUbloxComputeChecksum (mmpUbloxComputeChecksum p c) data
           in Inr (p\<lparr>mm_state := Some MmpUbloxReadLength\<rparr>, True)))"

definition mmpUbloxReadClass :: "mmp \<Rightarrow> u8 \<Rightarrow> (mmp \<times> bool) res" where
  "mmpUbloxReadClass p data = Inr (p\<lparr>mm_state := Some MmpUbloxReadMessageId\<rparr>, True)"

definition mmpUbloxSync2 :: "mmp \<Rightarrow> u8 \<Rightarrow> (mmp \<times> bool) res" where
  "mmpUbloxSync2 p data =
     (if data \<noteq> 0x62 then mmpFirstByte p data else Inr (p\<lparr>mm_state := Some MmpUbloxReadClass\<rparr>, True))"

section \<open>Entry points\<close>

fun call_mmpState :: "mmpState \<Rightarrow> mmp \<Rightarrow> u8 \<Rightarrow> (mmp \<times> bool) res" where
  "call_mmpState MmpFirstByte = mmpFirstByte"
| "call_mmpState MmpSempSync2 = mmpSempSync2"
| "call_mmpState MmpSempSync3 = mmpSempSync3"
| "call_mmpState MmpSempReadHeader = mmpSempReadHeader"
| "call_mmpState MmpSempReadData = mmpSempReadData"
| "call_mmpState MmpSempReadCrc = mmpSempReadCrc"
| "call_mmpState MmpNmeaFindFirstComma = mmpNmeaFindFirstComma"
| "call_mmpState MmpNmeaFindAsterisk = mmpNmeaFindAsterisk"
| "call_mmpState MmpNmeaChecksumByte1 = mmpNmeaChecksumByte1"
| "call_mmpState MmpNmeaChecksumByte2 = mmpNmeaChecksumByte2"
| "call_mmpState MmpNmeaLineTermination = mmpNmeaLineTermination"
| "call_mmpState MmpUbloxSync2 = mmpUbloxSync2"
| "call_mmpState MmpUbloxReadClass = mmpUbloxReadClass"
| "call_mmpState MmpUbloxReadMessageId = mmpUbloxReadMessageId"
| "call_mmpState MmpUbloxReadLength = mmpUbloxReadLength"
| "call_mmpState MmpUbloxReadData = mmpUbloxReadData"
| "call_mmpState MmpUbloxChecksumA = mmpUbloxChecksumA"
| "call_mmpState MmpUbloxChecksumB = mmpUbloxChecksumB"

text \<open>
  \<open>pad\<close> and \<open>lb\<close> are the static objects, which keep their values. An existing structure is
  overwritten completely.
\<close>

definition mmpInitParser ::
  "mem \<Rightarrow> u8 \<Rightarrow> mmp option \<Rightarrow> u8 list option \<Rightarrow> u16 \<Rightarrow> callback option \<Rightarrow> (MMP_VIEW \<Rightarrow> bool) option \<Rightarrow>
    string option \<Rightarrow> callback option \<Rightarrow> callback option \<Rightarrow> mmp option \<times> bool" where
  "mmpInitParser pad lb parse buf bufferLength eom bad pname printErr printDbg =
     (case (parse, buf) of
        (Some p, Some b) \<Rightarrow>
          if eom = None \<or> bufferLength < MMP_MINIMUM_BUFFER_LENGTH then (parse, False)
          else (Some \<lparr>mm_buffer = b, mm_length = 0, mm_bufferLength = bufferLength,
                  mm_parsers = mmp_parserTable, mm_parserNames = mmp_parserNameTable,
                  mm_parserCount = of_nat (length mmp_parserTable), mm_parserName = pname,
                  mm_state = Some MmpFirstByte, mm_type = of_nat MMP_PROTOCOL_COUNT,
                  mm_computeCrc = None, mm_crc = 0,
                  mm_messagesProcessed = replicate MMP_PROTOCOL_COUNT 0,
                  mm_crcErrors = replicate MMP_PROTOCOL_COUNT 0, mm_totalBytes = 0,
                  mm_scratchPad = pad, mm_lengthBytes = lb,
                  mm_eomCallback = eom, mm_badCrc = bad, mm_printError = printErr, mm_printDebug = printDbg,
                  mm_log = []\<rparr>, True)
      | _ \<Rightarrow> (parse, False))"

text \<open>The buffer store, the byte counter and the CRC of \<^verbatim>\<open>mmpProcessByte\<close>\<close>

definition mmp_feed :: "mmp \<Rightarrow> u8 \<Rightarrow> mmp res" where
  "mmp_feed p data =
     rbind (mm_push p data) (\<lambda>p.
       let p = p\<lparr>mm_totalBytes := mm_totalBytes p + 1\<rparr>
       in Inr (case mm_computeCrc p of
                 None \<Rightarrow> p
               | Some MmpSempComputeCrc \<Rightarrow> p\<lparr>mm_crc := mmpSempComputeCrc p data\<rparr>))"

definition mmpProcessByte :: "mmp option \<Rightarrow> u8 \<Rightarrow> (mmp option \<times> bool) res" where
  "mmpProcessByte parse data =
     (case parse of
        None \<Rightarrow> Inr (None, False)
      | Some p \<Rightarrow>
          rbind (if mm_length p \<ge> mm_bufferLength p
                 then mmpFirstByte (mmpSafePrintf (mm_printError p) (MmpTooLong (mm_bufferLength p)) p) data
                 else rbind (mmp_feed p data) (\<lambda>p.
                        case mm_state p of
                          None \<Rightarrow> Inl NullPointer
                        | Some s \<Rightarrow> call_mmpState s p data))
            (\<lambda>(p, b). Inr (Some p, b)))"

function mmpProcessBuffer_loop :: "mmp option \<Rightarrow> u8 list \<Rightarrow> u16 \<Rightarrow> u16 \<Rightarrow> u16 \<Rightarrow> (mmp option \<times> u16) res" where
  "mmpProcessBuffer_loop parse data len i processed =
     (if i < len
      then rbind (at data (uint i)) (\<lambda>d.
           case mmpProcessByte parse d of
             Inl e \<Rightarrow> Inl e
           | Inr (parse, go) \<Rightarrow>
               if go then mmpProcessBuffer_loop parse data len (i + 1) (processed + 1)
               else Inr (parse, processed + 1))
      else Inr (parse, processed))"
  by pat_completeness auto
termination
proof (relation "measure (\<lambda>(_, _, len, i, _). unat len - unat i)")
  fix len i :: u16
  assume "i < len"
  then have "unat (i + 1) = Suc (unat i)" "unat i < unat len"
    using unat_Suc_below [of i len] by (simp_all add: word_less_nat_alt)
  then show "((p, d, len, i + 1, n), (p', d', len, i, n')) \<in> measure (\<lambda>(_, _, len, i, _). unat len - unat i)"
    for p p' d d' n n' by simp
qed simp

declare mmpProcessBuffer_loop.simps [simp del]

definition mmpProcessBuffer :: "mmp option \<Rightarrow> u8 list option \<Rightarrow> u16 \<Rightarrow> (mmp option \<times> u16) res" where
  "mmpProcessBuffer parse data len =
     (case (parse, data) of
        (Some p, Some d) \<Rightarrow> mmpProcessBuffer_loop parse d len 0 0
      | _ \<Rightarrow> Inr (parse, 0))"

section \<open>Statistics\<close>

definition mmpGetActiveProtocol :: "mmp option \<Rightarrow> nat" where
  "mmpGetActiveProtocol parse =
     (case parse of
        None \<Rightarrow> MMP_PROTOCOL_COUNT
      | Some p \<Rightarrow> if unat (mm_type p) \<ge> MMP_PROTOCOL_COUNT then MMP_PROTOCOL_COUNT else unat (mm_type p))"

definition mmpGetProtocolName :: "nat \<Rightarrow> string" where
  "mmpGetProtocolName protocolType =
     (if protocolType \<ge> MMP_PROTOCOL_COUNT then ''Unknown'' else mmp_protocolNames ! protocolType)"

text \<open>
  The success rate is a floating-point quotient; it is represented by its operands, \<open>None\<close>
  stands for \<^verbatim>\<open>0.0f\<close>.
\<close>

record MMP_PROTOCOL_STATS =
  st_protocolName :: string
  st_messagesProcessed :: u32
  st_crcErrors :: u32
  st_successRate :: "(u32 \<times> u32) option"

definition mm_rate :: "u32 \<Rightarrow> u32 \<Rightarrow> (u32 \<times> u32) option" where
  "mm_rate ok bad = (let total = ok + bad in if total > 0 then Some (ok, total) else None)"

function mmpGetProtocolStats_loop ::
  "mmp \<Rightarrow> MMP_PROTOCOL_STATS list \<Rightarrow> u16 \<Rightarrow> nat \<Rightarrow> u16 \<Rightarrow> (MMP_PROTOCOL_STATS list \<times> u16) res" where
  "mmpGetProtocolStats_loop p stats maxCount i count =
     (if i < MMP_PROTOCOL_COUNT \<and> count < maxCount
      then
        let ok = mm_messagesProcessed p ! i; bad = mm_crcErrors p ! i
        in if ok > 0 \<or> bad > 0
           then case upd stats (uint count) \<lparr>st_protocolName = mmp_protocolNames ! i, st_messagesProcessed = ok,
                       st_crcErrors = bad, st_successRate = mm_rate ok bad\<rparr> of
                  Inl e \<Rightarrow> Inl e
                | Inr stats \<Rightarrow> mmpGetProtocolStats_loop p stats maxCount (Suc i) (count + 1)
           else mmpGetProtocolStats_loop p stats maxCount (Suc i) count
      else Inr (stats, count))"
  by pat_completeness auto
termination
  by (relation "measure (\<lambda>(_, _, _, i, _). MMP_PROTOCOL_COUNT - i)") auto

declare mmpGetProtocolStats_loop.simps [simp del]

definition mmpGetProtocolStats ::
  "mmp option \<Rightarrow> MMP_PROTOCOL_STATS list option \<Rightarrow> u16 \<Rightarrow> (MMP_PROTOCOL_STATS list option \<times> u16) res" where
  "mmpGetProtocolStats parse stats maxCount =
     (case (parse, stats) of
        (Some p, Some s) \<Rightarrow>
          rbind (mmpGetProtocolStats_loop p s maxCount 0 0) (\<lambda>(s, count). Inr (Some s, count))
      | _ \<Rightarrow> Inr (stats, 0))"

definition mmpResetStats :: "mmp option \<Rightarrow> mmp option" where
  "mmpResetStats parse =
     map_option (\<lambda>p. p\<lparr>mm_messagesProcessed := replicate MMP_PROTOCOL_COUNT 0,
       mm_crcErrors := replicate MMP_PROTOCOL_COUNT 0, mm_totalBytes := 0\<rparr>) parse"

fun mmpPrintStats_loop :: "nat list \<Rightarrow> mmp \<Rightarrow> bool \<Rightarrow> mmp \<times> bool" where
  "mmpPrintStats_loop [] p hasData = (p, hasData)"
| "mmpPrintStats_loop (i # is) p hasData =
     (let ok = mm_messagesProcessed p ! i; bad = mm_crcErrors p ! i
      in if ok > 0 \<or> bad > 0
         then mmpPrintStats_loop is
                (mmpSafePrintf (mm_printDebug p) (MmpStatsLine (mmp_protocolNames ! i) ok bad (mm_rate ok bad)) p) True
         else mmpPrintStats_loop is p hasData)"

definition mmpPrintStats :: "mmp option \<Rightarrow> mmp option" where
  "mmpPrintStats parse =
     (case parse of
        None \<Rightarrow> None
      | Some p \<Rightarrow>
          if mm_printDebug p = None then Some p
          else
            let p = mmpSafePrintf (mm_printDebug p) MmpStatsHead p;
                p = mmpSafePrintf (mm_printDebug p) (MmpStatsBytes (mm_totalBytes p)) p;
                (p, hasData) = mmpPrintStats_loop [0..<MMP_PROTOCOL_COUNT] p False;
                p = (if hasData then p else mmpSafePrintf (mm_printDebug p) MmpStatsNone p)
            in Some (mmpSafePrintf (mm_printDebug p) MmpStatsFoot p))"

end
