(* ===== verification/Multi_Correct.thy ===== *)
theory Multi_Correct
  imports Multi_Protocol
begin

text \<open>
  One byte of single_parser/multi_protocol_parser.c: an invariant that every byte keeps, the
  only memory fault, at the end of an NMEA sentence that fills the buffer up to two bytes,
  what is delivered, and that the statistics count the deliveries.
\<close>

section \<open>Messages and reports\<close>

definition mm_valid :: "u16 \<Rightarrow> u8 list \<Rightarrow> bool" where
  "mm_valid t m \<longleftrightarrow> t = 0 \<and> bt_valid 0xFFFFFFFF 0 m \<or> t = 1 \<and> nmea_valid m \<and> hd m = 0x24 \<or> t = 2 \<and> ublox_valid m"

fun mm_eoms :: "mmp_event list \<Rightarrow> (u16 \<times> u8 list) list" where
  "mm_eoms [] = []"
| "mm_eoms (MmpEom a t m # es) = (t, m) # mm_eoms es"
| "mm_eoms (_ # es) = mm_eoms es"

lemma mm_eoms_append [simp]: "mm_eoms (es @ es') = mm_eoms es @ mm_eoms es'"
  by (induction es rule: mm_eoms.induct) simp_all

abbreviation mm_delivered :: "mmp \<Rightarrow> (u16 \<times> u8 list) list" where
  "mm_delivered p \<equiv> mm_eoms (mm_log p)"

definition wf_mm :: "mmp \<Rightarrow> bool" where
  "wf_mm p \<longleftrightarrow> 256 \<le> unat (mm_bufferLength p) \<and> unat (mm_bufferLength p) \<le> length (mm_buffer p)
     \<and> mm_length p \<le> mm_bufferLength p \<and> length (mm_messagesProcessed p) = 8 \<and> length (mm_crcErrors p) = 8
     \<and> mm_eomCallback p \<noteq> None"

text \<open>The counter of a protocol after some deliveries\<close>

definition mm_counted :: "(u16 \<times> u8 list) list \<Rightarrow> u32 list \<Rightarrow> u32 list" where
  "mm_counted ds c = foldl (\<lambda>c (t, m). c[unat t := c ! unat t + 1]) c ds"

text \<open>\<open>mm_reports ds p q\<close>: from \<open>p\<close> to \<open>q\<close> exactly \<open>ds\<close> was delivered and counted.\<close>

definition mm_reports :: "(u16 \<times> u8 list) list \<Rightarrow> mmp \<Rightarrow> mmp \<Rightarrow> bool" where
  "mm_reports ds p q \<longleftrightarrow> mm_bufferLength q = mm_bufferLength p \<and> mm_eomCallback q = mm_eomCallback p
     \<and> mm_badCrc q = mm_badCrc p \<and> length (mm_buffer q) = length (mm_buffer p)
     \<and> mm_delivered q = mm_delivered p @ ds
     \<and> mm_messagesProcessed q = mm_counted ds (mm_messagesProcessed p)"

lemma mm_counted_simps [simp]:
  "mm_counted [] c = c" "mm_counted [(t, m)] c = c[unat t := c ! unat t + 1]"
  "mm_counted (ds @ es) c = mm_counted es (mm_counted ds c)"
  by (simp_all add: mm_counted_def)

lemma mm_reports_refl [simp]: "mm_reports [] p p"
  by (simp add: mm_reports_def)

lemma mm_reports_trans: "mm_reports ds p q \<Longrightarrow> mm_reports es q r \<Longrightarrow> mm_reports (ds @ es) p r"
  by (simp add: mm_reports_def)

lemma mm_reports_quiet: "mm_reports ds p q \<Longrightarrow> mm_reports [] q r \<Longrightarrow> mm_reports ds p r"
  using mm_reports_trans [of ds p q "[]" r] by simp

section \<open>Updates that do not matter\<close>

lemma mm_message_simps [simp]:
  "mm_message (p\<lparr>mm_crc := c\<rparr>) = mm_message p" "mm_message (p\<lparr>mm_state := s\<rparr>) = mm_message p"
  "mm_message (p\<lparr>mm_type := t\<rparr>) = mm_message p" "mm_message (p\<lparr>mm_scratchPad := x\<rparr>) = mm_message p"
  "mm_message (p\<lparr>mm_lengthBytes := l\<rparr>) = mm_message p" "mm_message (p\<lparr>mm_log := es\<rparr>) = mm_message p"
  "mm_message (p\<lparr>mm_computeCrc := f\<rparr>) = mm_message p" "mm_message (p\<lparr>mm_totalBytes := n\<rparr>) = mm_message p"
  "mm_message (p\<lparr>mm_crcErrors := e\<rparr>) = mm_message p" "mm_message (p\<lparr>mm_messagesProcessed := e\<rparr>) = mm_message p"
  by (simp_all add: mm_message_def)

lemma wf_mm_simps [simp]:
  "wf_mm (p\<lparr>mm_crc := c\<rparr>) = wf_mm p" "wf_mm (p\<lparr>mm_state := s\<rparr>) = wf_mm p"
  "wf_mm (p\<lparr>mm_type := t\<rparr>) = wf_mm p" "wf_mm (p\<lparr>mm_scratchPad := x\<rparr>) = wf_mm p"
  "wf_mm (p\<lparr>mm_lengthBytes := l\<rparr>) = wf_mm p" "wf_mm (p\<lparr>mm_log := es\<rparr>) = wf_mm p"
  "wf_mm (p\<lparr>mm_computeCrc := f\<rparr>) = wf_mm p" "wf_mm (p\<lparr>mm_totalBytes := n\<rparr>) = wf_mm p"
  by (simp_all add: wf_mm_def)

lemma mm_reports_simps [simp]:
  "mm_reports ds p (q\<lparr>mm_crc := c\<rparr>) = mm_reports ds p q" "mm_reports ds p (q\<lparr>mm_state := s\<rparr>) = mm_reports ds p q"
  "mm_reports ds p (q\<lparr>mm_type := t\<rparr>) = mm_reports ds p q" "mm_reports ds p (q\<lparr>mm_scratchPad := x\<rparr>) = mm_reports ds p q"
  "mm_reports ds p (q\<lparr>mm_lengthBytes := l\<rparr>) = mm_reports ds p q"
  "mm_reports ds p (q\<lparr>mm_computeCrc := f\<rparr>) = mm_reports ds p q" "mm_reports ds p (q\<lparr>mm_totalBytes := n\<rparr>) = mm_reports ds p q"
  "mm_reports ds p (q\<lparr>mm_crcErrors := e\<rparr>) = mm_reports ds p q" "mm_reports ds p (q\<lparr>mm_length := k\<rparr>) = mm_reports ds p q"
  by (simp_all add: mm_reports_def)

lemma mmpSafePrintf_simps [simp]:
  "mm_message (mmpSafePrintf cb m p) = mm_message p" "wf_mm (mmpSafePrintf cb m p) = wf_mm p"
  "mm_reports ds p' (mmpSafePrintf cb m p) = mm_reports ds p' p"
  "mm_state (mmpSafePrintf cb m p) = mm_state p" "mm_scratchPad (mmpSafePrintf cb m p) = mm_scratchPad p"
  "mm_lengthBytes (mmpSafePrintf cb m p) = mm_lengthBytes p" "mm_computeCrc (mmpSafePrintf cb m p) = mm_computeCrc p"
  "mm_buffer (mmpSafePrintf cb m p) = mm_buffer p" "mm_totalBytes (mmpSafePrintf cb m p) = mm_totalBytes p"
  "mm_length (mmpSafePrintf cb m p) = mm_length p"
  by (auto simp: mmpSafePrintf_def mm_reports_def split: option.splits)

lemma mm_failed_simps [simp]:
  "mm_message (mm_failed i p) = mm_message p" "wf_mm (mm_failed i p) = wf_mm p"
  "mm_reports ds p' (mm_failed i p) = mm_reports ds p' p"
  "mm_state (mm_failed i p) = mm_state p" "mm_scratchPad (mm_failed i p) = mm_scratchPad p"
  "mm_lengthBytes (mm_failed i p) = mm_lengthBytes p" "mm_badCrc (mm_failed i p) = mm_badCrc p"
  "mm_buffer (mm_failed i p) = mm_buffer p" "mm_length (mm_failed i p) = mm_length p"
  by (simp_all add: mm_failed_def wf_mm_def)

lemma length_mm_message: "wf_mm p \<Longrightarrow> length (mm_message p) = unat (mm_length p)"
  by (simp add: wf_mm_def mm_message_def word_le_nat_alt)

lemma mm_completed_report:
  assumes "wf_mm p" and "i < 3"
  shows "wf_mm (mm_completed i p)" "mm_reports [(of_nat i, mm_message p)] p (mm_completed i p)"
    "mm_lengthBytes (mm_completed i p) = mm_lengthBytes p" "mm_message (mm_completed i p) = mm_message p"
    "mm_scratchPad (mm_completed i p) = mm_scratchPad p"
  using assms by (auto simp: mm_completed_def wf_mm_def mm_reports_def unat_of_nat_16 Let_def)

section \<open>The buffer\<close>

lemma mm_at:
  assumes "wf_mm p" and "i < length (mm_message p)"
  shows "at (mm_buffer p) (int i) = Inr (mm_message p ! i)"
  using assms by (simp add: length_mm_message) (simp add: wf_mm_def mm_message_def word_le_nat_alt at_nat)

lemma mm_back_eq:
  assumes "wf_mm p" and "mm_message p = m @ ds" and "k < length ds"
  shows "mm_back p (int (length ds - k)) = Inr (ds ! k)"
proof -
  have n: "uint (mm_length p) = int (length m + length ds)"
    unfolding uint_nat using length_mm_message [OF assms(1)] assms(2) by simp
  have i: "uint (mm_length p) - int (length ds - k) = int (length m + k)" unfolding n using assms(3) by simp
  have "at (mm_buffer p) (int (length m + k)) = Inr (mm_message p ! (length m + k))"
    using mm_at [OF assms(1), of "length m + k"] assms(2,3) by simp
  then show ?thesis unfolding mm_back_def i using assms(2) by simp
qed

definition mm_pushed :: "mmp \<Rightarrow> u8 \<Rightarrow> mmp" where
  "mm_pushed p d = p\<lparr>mm_buffer := (mm_buffer p)[unat (mm_length p) := d], mm_length := mm_length p + 1\<rparr>"

lemma mm_push_eq:
  assumes "wf_mm p" and "mm_length p < mm_bufferLength p"
  shows "mm_push p d = Inr (mm_pushed p d)" "mm_message (mm_pushed p d) = mm_message p @ [d]" "wf_mm (mm_pushed p d)"
    "mm_reports [] p (mm_pushed p d)"
proof -
  have n: "unat (mm_length p + 1) = Suc (unat (mm_length p))"
    by (rule unat_Suc_below) (use assms(2) in \<open>simp add: word_less_nat_alt\<close>)
  have lt: "unat (mm_length p) < length (mm_buffer p)" using assms(1,2) by (simp add: wf_mm_def word_less_nat_alt)
  show "mm_push p d = Inr (mm_pushed p d)" using lt by (simp add: mm_push_def upd_word mm_pushed_def)
  show "mm_message (mm_pushed p d) = mm_message p @ [d]"
    using lt by (simp add: mm_message_def mm_pushed_def n take_Suc_update)
  show "wf_mm (mm_pushed p d)" using assms(1,2) n by (auto simp: wf_mm_def mm_pushed_def word_le_nat_alt word_less_nat_alt)
  show "mm_reports [] p (mm_pushed p d)" by (simp add: mm_reports_def mm_pushed_def)
qed

lemma table_mm: "mmp_crc32Table = semp_crc32Table"
  by (simp only: mmp_crc32Table_def semp_crc32Table_def)

interpretation mm_crc32: crc32_table mmp_crc32Table
  unfolding table_mm by (rule semp_crc32.crc32_table_axioms)

definition mm_fed :: "mmp \<Rightarrow> u8 \<Rightarrow> mmp" where
  "mm_fed p d = p\<lparr>mm_buffer := (mm_buffer p)[unat (mm_length p) := d], mm_length := mm_length p + 1,
     mm_totalBytes := mm_totalBytes p + 1,
     mm_crc := (if mm_computeCrc p = None then mm_crc p else crc32_spec (mm_crc p) d)\<rparr>"

lemma mm_fed_simps [simp]:
  "mm_state (mm_fed p d) = mm_state p" "mm_scratchPad (mm_fed p d) = mm_scratchPad p"
  "mm_lengthBytes (mm_fed p d) = mm_lengthBytes p" "mm_computeCrc (mm_fed p d) = mm_computeCrc p"
  "mm_bufferLength (mm_fed p d) = mm_bufferLength p" "length (mm_buffer (mm_fed p d)) = length (mm_buffer p)"
  "mm_crc (mm_fed p d) = (if mm_computeCrc p = None then mm_crc p else crc32_spec (mm_crc p) d)"
  "mm_badCrc (mm_fed p d) = mm_badCrc p"
  by (simp_all add: mm_fed_def)

lemma mmp_feed_eq:
  assumes "wf_mm p" and "mm_length p < mm_bufferLength p"
  shows "mmp_feed p d = Inr (mm_fed p d)" "mm_message (mm_fed p d) = mm_message p @ [d]" "wf_mm (mm_fed p d)"
    "mm_reports [] p (mm_fed p d)"
proof -
  note f = mm_push_eq [OF assms, of d]
  show "mmp_feed p d = Inr (mm_fed p d)"
    using f(1) by (auto simp: mmp_feed_def mm_fed_def mm_pushed_def mmpSempComputeCrc_def mm_crc32.step_spec Let_def
        split: option.splits mmpCrcFunction.splits)
  show "mm_message (mm_fed p d) = mm_message p @ [d]" using f(2) by (simp add: mm_fed_def mm_pushed_def mm_message_def)
  show "wf_mm (mm_fed p d)" "mm_reports [] p (mm_fed p d)" 
    using f(3,4) by (simp_all add: mm_fed_def mm_pushed_def wf_mm_def mm_reports_def)
qed

section \<open>The invariant\<close>

definition semp_at :: "mmp \<Rightarrow> bool" where
  "semp_at p \<longleftrightarrow>
     (let m = mm_message p; n = length m; r = unat (semp_bytesRemaining p); l = unat (custom_length m)
      in mm_computeCrc p = Some MmpSempComputeCrc \<and> bt_sync 0 m \<and>
         (case mm_state p of
            Some MmpSempSync2 \<Rightarrow> n = 1 \<and> mm_crc p = bt_crc 0xFFFFFFFF m
          | Some MmpSempSync3 \<Rightarrow> n = 2 \<and> mm_crc p = bt_crc 0xFFFFFFFF m
          | Some MmpSempReadHeader \<Rightarrow> 3 \<le> n \<and> n < 20 \<and> mm_crc p = bt_crc 0xFFFFFFFF m
          | Some MmpSempReadData \<Rightarrow> 20 \<le> n \<and> m ! 3 = 0x14 \<and> n + r = 20 + l \<and> 0 < r \<and> mm_crc p = bt_crc 0xFFFFFFFF m
          | Some MmpSempReadCrc \<Rightarrow> 20 \<le> n \<and> m ! 3 = 0x14 \<and> n + r = 24 + l \<and> 0 < r \<and> r \<le> 4
              \<and> semp_crc p = NOT (bt_crc 0xFFFFFFFF (take (20 + l) m))
          | _ \<Rightarrow> False))"

abbreviation nmea_start :: "u8 list \<Rightarrow> bool" where
  "nmea_start \<equiv> sentence {0x24}"

definition mm_tail :: "u8 list \<Rightarrow> mmp \<Rightarrow> bool" where
  "mm_tail t p \<longleftrightarrow>
     (\<exists>h. mm_message p = h @ 0x2A # t \<and> nmea_start h \<and> mm_crc p = xor_sum (tl h)
        \<and> length h + 5 \<le> unat (mm_bufferLength p) \<and> list_all hex_digit t)"

definition nmea_at :: "mmp \<Rightarrow> bool" where
  "nmea_at p \<longleftrightarrow> mm_computeCrc p = None \<and>
     (case mm_state p of
        Some MmpNmeaFindFirstComma \<Rightarrow>
          (\<exists>name. mm_message p = 0x24 # name \<and> list_all name_char name \<and> length name \<le> 15
             \<and> length name = unat (info_sentenceNameLength p) \<and> mm_crc p = xor_sum name)
      | Some MmpNmeaFindAsterisk \<Rightarrow> nmea_start (mm_message p) \<and> mm_crc p = xor_sum (tl (mm_message p))
          \<and> length (mm_message p) + 5 \<le> unat (mm_bufferLength p)
      | Some MmpNmeaChecksumByte1 \<Rightarrow> mm_tail [] p
      | Some MmpNmeaChecksumByte2 \<Rightarrow> (\<exists>x. mm_tail [x] p)
      | Some MmpNmeaLineTermination \<Rightarrow> (\<exists>x y. mm_tail [x, y] p)
      | _ \<Rightarrow> False)"

definition mm_sum :: "mmp \<Rightarrow> u8 \<times> u8" where
  "mm_sum p = (ublox_checksumA p, ublox_checksumB p)"

definition ublox_at :: "mmp \<Rightarrow> bool" where
  "ublox_at p \<longleftrightarrow>
     (let m = mm_message p; n = length m; r = unat (mm_ublox_bytesRemaining p)
      in mm_computeCrc p = None \<and> m ! 0 = 0xB5 \<and>
         (case mm_state p of
            Some MmpUbloxSync2 \<Rightarrow> n = 1
          | Some MmpUbloxReadClass \<Rightarrow> n = 2 \<and> m ! 1 = 0x62
          | Some MmpUbloxReadMessageId \<Rightarrow> n = 3 \<and> m ! 1 = 0x62
          | Some MmpUbloxReadLength \<Rightarrow> m ! 1 = 0x62 \<and> mm_sum p = fletcher (drop 2 m)
              \<and> (n = 4 \<or> n = 5 \<and> mm_ublox_bytesRemaining p = ucast (m ! 4))
          | Some MmpUbloxReadData \<Rightarrow> m ! 1 = 0x62 \<and> mm_sum p = fletcher (drop 2 m) \<and> 6 \<le> n
              \<and> n + r = 6 + unat (le16 (m ! 4) (m ! 5)) \<and> 0 < r
          | Some MmpUbloxChecksumA \<Rightarrow> m ! 1 = 0x62 \<and> mm_sum p = fletcher (drop 2 m) \<and> 6 \<le> n
              \<and> n = 6 + unat (le16 (m ! 4) (m ! 5))
          | Some MmpUbloxChecksumB \<Rightarrow> m ! 1 = 0x62 \<and> 7 \<le> n \<and> n = 7 + unat (le16 (m ! 4) (m ! 5))
              \<and> mm_sum p = fletcher (take (n - 3) (drop 2 m)) \<and> last m = fst (mm_sum p)
          | _ \<Rightarrow> False))"

definition mm_inv :: "mmp \<Rightarrow> bool" where
  "mm_inv p \<longleftrightarrow> wf_mm p
     \<and> mm_lengthBytes p = (if mm_state p = Some MmpUbloxReadLength \<and> length (mm_message p) = 5 then 1 else 0)
     \<and> (mm_state p = Some MmpFirstByte \<or> semp_at p \<or> nmea_at p \<or> ublox_at p)"

lemma mm_inv_idle: "mm_state p = Some MmpFirstByte \<Longrightarrow> mm_inv p \<longleftrightarrow> wf_mm p \<and> mm_lengthBytes p = 0"
  by (simp add: mm_inv_def)

section \<open>The first byte\<close>

lemma mm_first:
  assumes "wf_mm p" and "mm_lengthBytes p = 0"
  obtains q b where "mmpFirstByte p d = Inr (q, b)" "mm_inv q" "mm_reports [] p q"
    "b \<longleftrightarrow> d \<in> {0xAA, 0x24, 0xB5}" "if b then mm_state q \<noteq> Some MmpFirstByte \<and> mm_message q = [d] else mm_state q = Some MmpFirstByte"
    "mm_totalBytes q = mm_totalBytes p + 1"
proof -
  define p0 where "p0 = p\<lparr>mm_crc := 0, mm_computeCrc := None, mm_length := 0, mm_type := of_nat MMP_PROTOCOL_COUNT\<rparr>"
  have p0: "wf_mm p0" "mm_length p0 < mm_bufferLength p0" "mm_message p0 = []" "mm_reports [] p p0" "mm_lengthBytes p0 = 0"
      "mm_totalBytes p0 = mm_totalBytes p" "mm_computeCrc p0 = None"
    using assms by (auto simp: p0_def wf_mm_def mm_message_def mm_reports_def word_less_nat_alt)
  define p1 where "p1 = mm_pushed p0 d"
  note f = mm_push_eq [OF p0(1,2), of d, folded p1_def]
  have rep: "mm_reports [] p p1" using mm_reports_quiet [OF p0(4) f(4)] .
  have m: "mm_message p1 = [d]" using f(2) p0(3) by simp
  have p1: "mm_lengthBytes p1 = 0" "mm_totalBytes p1 = mm_totalBytes p" "mm_computeCrc p1 = None"
    using p0 by (simp_all add: p1_def mm_pushed_def)
  define p2 where "p2 = p1\<lparr>mm_totalBytes := mm_totalBytes p1 + 1\<rparr>"
  have p2: "wf_mm p2" "mm_message p2 = [d]" "mm_lengthBytes p2 = 0" "mm_computeCrc p2 = None" "mm_reports [] p p2"
      "mm_totalBytes p2 = mm_totalBytes p + 1"
    using f(3) m p1 rep by (simp_all add: p2_def)
  have eq: "mmpFirstByte p d = Inr (mmpFirstByte_loop 0 mmp_parserTable p2 d)"
    using f(1) by (simp add: mmpFirstByte_def p0_def p2_def)
  note defs = mmp_parserTable_def mmpSempPreamble_def mmpNmeaPreamble_def mmpUbloxPreamble_def mmpRtcmPreamble_def
  consider (semp) "d = 0xAA" | (nmea) "d = 0x24" | (ublox) "d = 0xB5" | (none) "d \<notin> {0xAA, 0x24, 0xB5}" by blast
  then show thesis
  proof cases
    case semp
    define q where "q = p2\<lparr>mm_computeCrc := Some MmpSempComputeCrc, mm_crc := crc32_spec 0xFFFFFFFF 0xAA,
      mm_state := Some MmpSempSync2, mm_type := 0\<rparr>"
    have "mmpFirstByte p d = Inr (q, True)"
      unfolding eq using semp by (simp add: defs q_def mmpSempComputeCrc_def mm_crc32.step_spec Let_def)
    moreover have "mm_inv q"
      using p2 semp by (simp add: mm_inv_def semp_at_def q_def bt_sync_def bt_crc_def Let_def)
    ultimately show ?thesis using that [of q True] p2 semp by (simp add: q_def)
  next
    case nmea
    define q where "q = (set_info_sentenceNameLength 0 p2)\<lparr>mm_crc := 0, mm_computeCrc := None,
      mm_state := Some MmpNmeaFindFirstComma, mm_type := 1\<rparr>"
    have "mmpFirstByte p d = Inr (q, True)" unfolding eq using nmea by (simp add: defs q_def Let_def)
    moreover have "mm_inv q" using p2 nmea by (simp add: mm_inv_def nmea_at_def q_def mmp_scratch)
    ultimately show ?thesis using that [of q True] p2 nmea by (simp add: q_def mmp_scratch)
  next
    case ublox
    define q where "q = p2\<lparr>mm_computeCrc := None, mm_state := Some MmpUbloxSync2, mm_type := 2\<rparr>"
    have "mmpFirstByte p d = Inr (q, True)" unfolding eq using ublox by (simp add: defs q_def Let_def)
    moreover have "mm_inv q" using p2 ublox by (simp add: mm_inv_def ublox_at_def q_def Let_def)
    ultimately show ?thesis using that [of q True] p2 ublox by (simp add: q_def)
  next
    case none
    define q where "q = (if d = 0xD3 then mmpSafePrintf (mm_printDebug p2) MmpRtcmDetected p2 else p2)\<lparr>mm_state := Some MmpFirstByte\<rparr>"
    have "mmpFirstByte p d = Inr (q, False)" unfolding eq using none by (simp add: defs q_def Let_def)
    moreover have "mm_inv q" using p2 by (simp add: mm_inv_def q_def)
    ultimately show ?thesis using that [of q False] p2 none by (simp add: q_def)
  qed
qed

section \<open>What a byte can do\<close>

definition mm_continues :: "mmp \<Rightarrow> u8 \<Rightarrow> (mmp \<times> bool) res \<Rightarrow> bool" where
  "mm_continues p d res \<longleftrightarrow>
     (\<exists>q. res = Inr (q, True) \<and> mm_inv q \<and> mm_state q \<noteq> Some MmpFirstByte
        \<and> mm_message q = mm_message p @ [d] \<and> mm_reports [] p q)"

definition mm_ends :: "u16 \<Rightarrow> mmp \<Rightarrow> u8 list \<Rightarrow> (mmp \<times> bool) res \<Rightarrow> bool" where
  "mm_ends t p m res \<longleftrightarrow>
     (\<exists>q b acc. res = Inr (q, b) \<and> (b \<longleftrightarrow> t = 1) \<and> mm_inv q \<and> mm_state q = Some MmpFirstByte
        \<and> mm_reports (if acc then [(t, m)] else []) p q
        \<and> (mm_valid t m \<longrightarrow> acc) \<and> (mm_badCrc p = None \<longrightarrow> acc \<longrightarrow> mm_valid t m))"

definition mm_restarts :: "mmp \<Rightarrow> u8 \<Rightarrow> (mmp \<times> bool) res \<Rightarrow> bool" where
  "mm_restarts p d res \<longleftrightarrow>
     (\<exists>p' ds. res = mmpFirstByte p' d \<and> wf_mm p' \<and> mm_lengthBytes p' = 0 \<and> mm_reports ds p p'
        \<and> (mm_badCrc p = None \<longrightarrow> list_all (\<lambda>(t, m). mm_valid t m) ds))"

lemma mm_continuesI:
  "res = Inr (q, True) \<Longrightarrow> mm_inv q \<Longrightarrow> mm_state q \<noteq> Some MmpFirstByte \<Longrightarrow> mm_message q = mm_message p @ [d] \<Longrightarrow>
    mm_reports [] p q \<Longrightarrow> mm_continues p d res"
  by (auto simp: mm_continues_def)

lemma mm_endsI:
  assumes "res = Inr (q, b)" and "wf_mm q" and "mm_lengthBytes q = 0" and "mm_state q = Some MmpFirstByte"
    and "mm_reports (if acc then [(t, m)] else []) p q" and "mm_valid t m \<longrightarrow> acc"
    and "mm_badCrc p = None \<longrightarrow> acc \<longrightarrow> mm_valid t m" and "b \<longleftrightarrow> t = 1"
  shows "mm_ends t p m res"
proof -
  have inv: "mm_inv q" using assms(2-4) by (simp add: mm_inv_def)
  show ?thesis unfolding mm_ends_def
    by (rule exI [of _ q], rule exI [of _ b], rule exI [of _ acc]) (intro conjI assms(1,4-8) inv)
qed

lemma mm_restartsI:
  "res = mmpFirstByte p' d \<Longrightarrow> wf_mm p' \<Longrightarrow> mm_lengthBytes p' = 0 \<Longrightarrow> mm_reports [] p p' \<Longrightarrow> mm_restarts p d res"
  unfolding mm_restarts_def by (intro exI [of _ p'] exI [of _ "[]"]) simp

section \<open>SEMP frames\<close>

text \<open>The facts a step of the SEMP routines starts from\<close>

lemma semp_fed:
  assumes "mm_inv p" and "semp_at p" and "mm_length p < mm_bufferLength p"
  shows "mmp_feed p d = Inr (mm_fed p d)" "mm_message (mm_fed p d) = mm_message p @ [d]" "wf_mm (mm_fed p d)"
    "mm_reports [] p (mm_fed p d)" "mm_lengthBytes (mm_fed p d) = 0" "mm_computeCrc (mm_fed p d) = Some MmpSempComputeCrc"
    "mm_crc (mm_fed p d) = crc32_spec (mm_crc p) d"
proof -
  have "wf_mm p" using assms(1) by (simp add: mm_inv_def)
  note f = mmp_feed_eq [OF this assms(3), of d]
  show "mmp_feed p d = Inr (mm_fed p d)" "mm_message (mm_fed p d) = mm_message p @ [d]" "wf_mm (mm_fed p d)"
    "mm_reports [] p (mm_fed p d)" using f by simp_all
  show "mm_lengthBytes (mm_fed p d) = 0" using assms(1,2) by (auto simp: mm_inv_def semp_at_def Let_def)
  show "mm_computeCrc (mm_fed p d) = Some MmpSempComputeCrc" "mm_crc (mm_fed p d) = crc32_spec (mm_crc p) d"
    using assms(2) by (simp_all add: semp_at_def Let_def)
qed

lemma mm_inv_semp:
  "wf_mm p \<Longrightarrow> mm_lengthBytes p = 0 \<Longrightarrow> mm_state p \<noteq> Some MmpUbloxReadLength \<Longrightarrow> semp_at p \<Longrightarrow> mm_inv p"
  by (simp add: mm_inv_def)

lemma semp_sync:
  assumes "mm_inv p" and "semp_at p" and "mm_length p < mm_bufferLength p"
    and "mm_state p = Some s" and "s = MmpSempSync2 \<and> e = 0x44 \<or> s = MmpSempSync3 \<and> e = 0x18"
  shows "if d = e then mm_continues p d (call_mmpState s (mm_fed p d) d)
    else mm_restarts p d (call_mmpState s (mm_fed p d) d)"
proof -
  note f = semp_fed [OF assms(1-3), of d]
  define n where "n = (if s = MmpSempSync2 then MmpSempSync3 else MmpSempReadHeader)"
  have eq: "call_mmpState s (mm_fed p d) d =
      (if d = e then Inr ((mm_fed p d)\<lparr>mm_state := Some n\<rparr>, True) else mmpFirstByte (mm_fed p d) d)"
    using assms(5) by (auto simp: mmpSempSync2_def mmpSempSync3_def n_def)
  show ?thesis
  proof (cases "d = e")
    case True
    have b: "bt_sync 0 (mm_message p)" "length (mm_message p) = (if s = MmpSempSync2 then 1 else 2)"
        "mm_crc p = bt_crc 0xFFFFFFFF (mm_message p)"
      using assms(2,4,5) by (auto simp: semp_at_def Let_def)
    have "bt_sync 0 (mm_message p @ [d])"
      using b assms(5) True by (intro bt_sync_append) auto
    then have "semp_at ((mm_fed p d)\<lparr>mm_state := Some n\<rparr>)"
      using b f(2,6,7) assms(5) by (auto simp: semp_at_def Let_def n_def)
    moreover have "n \<noteq> MmpFirstByte" "n \<noteq> MmpUbloxReadLength" by (simp_all add: n_def)
    ultimately have "mm_continues p d (Inr ((mm_fed p d)\<lparr>mm_state := Some n\<rparr>, True))"
      using f(2-5) by (intro mm_continuesI [OF refl] mm_inv_semp) simp_all
    then show ?thesis using True eq by simp
  next
    case False
    then show ?thesis using eq f by (simp add: mm_restartsI)
  qed
qed

lemma mm_expect_crc_at:
  assumes "wf_mm u" and "mm_message u = m" and "mm_computeCrc u = Some MmpSempComputeCrc" and "bt_sync 0 m"
    and "20 \<le> length m" and "m ! 3 = 0x14" and "length m = 20 + unat (custom_length m)"
    and "mm_crc u = bt_crc 0xFFFFFFFF m"
  shows "semp_at (mm_expect_crc u)" "wf_mm (mm_expect_crc u)" "mm_message (mm_expect_crc u) = m"
    "mm_reports ds p (mm_expect_crc u) = mm_reports ds p u" "mm_lengthBytes (mm_expect_crc u) = mm_lengthBytes u"
    "mm_state (mm_expect_crc u) = Some MmpSempReadCrc"
  using assms by (simp_all add: mm_expect_crc_def semp_at_def Let_def mmp_scratch layout_simps xor_ones)

lemma semp_header:
  assumes "mm_inv p" and "semp_at p" and "mm_length p < mm_bufferLength p" and "mm_state p = Some MmpSempReadHeader"
  shows "if Suc (length (mm_message p)) = 20 \<and> (mm_message p @ [d]) ! 3 \<noteq> 0x14
    then mm_ends 0 p (mm_message p @ [d]) (mmpSempReadHeader (mm_fed p d) d)
    else mm_continues p d (mmpSempReadHeader (mm_fed p d) d)"
proof -
  define u where "u = mm_fed p d"
  define m where "m = mm_message p @ [d]"
  note f = semp_fed [OF assms(1-3), of d, folded u_def m_def]
  have b: "bt_sync 0 (mm_message p)" "3 \<le> length (mm_message p)" "length (mm_message p) < 20"
      "mm_crc p = bt_crc 0xFFFFFFFF (mm_message p)"
    using assms(2,4) by (simp_all add: semp_at_def Let_def)
  have sync: "bt_sync 0 m" using b unfolding m_def by (intro bt_sync_append) simp_all
  have n: "unat (mm_length u) = length m" using length_mm_message [OF f(3)] f(2) by simp
  have lm: "length m = Suc (length (mm_message p))" by (simp add: m_def)
  have st: "mm_state u = Some MmpSempReadHeader" using assms(4) by (simp add: u_def)
  show ?thesis
  proof (cases "length m = 20")
    case False
    then have "mmpSempReadHeader u d = Inr (u, True)" using n lm b(3) by (simp add: mmpSempReadHeader_def mmp_constants)
    moreover have "semp_at u" using False f b sync lm st by (simp add: semp_at_def Let_def m_def)
    ultimately have "mm_continues p d (mmpSempReadHeader u d)"
      using f st by (intro mm_continuesI [of _ u] mm_inv_semp) (simp_all add: m_def)
    then show ?thesis using False lm by (simp add: u_def)
  next
    case True
    have at: "at (mm_buffer u) 3 = Inr (m ! 3)" "at (mm_buffer u) 12 = Inr (m ! 12)" "at (mm_buffer u) 13 = Inr (m ! 13)"
      using mm_at [OF f(3), of 3] mm_at [OF f(3), of 12] mm_at [OF f(3), of 13] True f(2) by simp_all
    define v where "v = set_semp_bytesRemaining (custom_length m) u"
    have r: "semp_bytesRemaining v = custom_length m" by (simp add: v_def mmp_scratch)
    have eq: "mmpSempReadHeader u d =
      (if m ! 3 \<noteq> 0x14 then Inr ((mmpSafePrintf (mm_printDebug u) (MmpBadHeaderLength (m ! 3)) u)
          \<lparr>mm_state := Some MmpFirstByte\<rparr>, False)
       else Inr (if custom_length m = 0 then mm_expect_crc v else v\<lparr>mm_state := Some MmpSempReadData\<rparr>, True))"
      using n True at r by (simp add: mmpSempReadHeader_def mmp_constants custom_length_def v_def Let_def)
    show ?thesis
    proof (cases "m ! 3 = 0x14")
      case False
      have "\<not> mm_valid 0 m" using True by (simp add: mm_valid_def bt_valid_def bt_shape_def)
      define q where "q = (mmpSafePrintf (mm_printDebug u) (MmpBadHeaderLength (m ! 3)) u)\<lparr>mm_state := Some MmpFirstByte\<rparr>"
      have "mmpSempReadHeader u d = Inr (q, False)" unfolding eq q_def using False by simp
      then have "mm_ends 0 p m (mmpSempReadHeader u d)"
        using f(3,4,5) \<open>\<not> mm_valid 0 m\<close> by (intro mm_endsI [where acc = False and b = False and q = q]) (simp_all add: q_def)
      then show ?thesis using False True lm by (simp add: m_def u_def)
    next
      case ok: True
      have v: "wf_mm v" "mm_message v = m" "mm_computeCrc v = Some MmpSempComputeCrc" "mm_reports [] p v"
          "mm_lengthBytes v = 0" "mm_crc v = bt_crc 0xFFFFFFFF m"
        using f b(4) by (simp_all add: v_def mmp_scratch m_def)
      have "mm_continues p d (mmpSempReadHeader u d)"
      proof (cases "custom_length m = 0")
        case zero: True
        note e = mm_expect_crc_at [OF v(1-3) sync _ ok _ v(6)]
        show ?thesis
          using e True zero ok eq v by (intro mm_continuesI [of _ "mm_expect_crc v"] mm_inv_semp) (simp_all add: m_def)
      next
        case False
        have "semp_at (v\<lparr>mm_state := Some MmpSempReadData\<rparr>)"
          using False v r sync True ok by (simp add: semp_at_def Let_def mmp_scratch unat_gt_0)
        then show ?thesis
          using eq ok v False
          by (intro mm_continuesI [of _ "v\<lparr>mm_state := Some MmpSempReadData\<rparr>"] mm_inv_semp) (simp_all add: m_def)
      qed
      then show ?thesis using ok by (simp add: m_def u_def)
    qed
  qed
qed

lemma semp_data:
  assumes "mm_inv p" and "semp_at p" and "mm_length p < mm_bufferLength p" and "mm_state p = Some MmpSempReadData"
  shows "mm_continues p d (mmpSempReadData (mm_fed p d) d)"
proof -
  define u where "u = mm_fed p d"
  define m where "m = mm_message p @ [d]"
  define v where "v = set_semp_bytesRemaining (semp_bytesRemaining u - 1) u"
  note f = semp_fed [OF assms(1-3), of d, folded u_def m_def]
  have b: "bt_sync 0 (mm_message p)" "20 \<le> length (mm_message p)" "mm_message p ! 3 = 0x14"
      "length (mm_message p) + unat (semp_bytesRemaining p) = 20 + unat (custom_length (mm_message p))"
      "0 < unat (semp_bytesRemaining p)" "mm_crc p = bt_crc 0xFFFFFFFF (mm_message p)"
    using assms(2,4) by (simp_all add: semp_at_def Let_def)
  have sync: "bt_sync 0 m" using b unfolding m_def by (intro bt_sync_append) simp_all
  have m: "m ! 3 = 0x14" "custom_length m = custom_length (mm_message p)" "length m = Suc (length (mm_message p))"
    using b(2,3) by (simp_all add: m_def nth_append custom_length_snoc)
  have "semp_bytesRemaining v = semp_bytesRemaining p - 1" by (simp add: v_def u_def mmp_scratch)
  then have r: "unat (semp_bytesRemaining v) = unat (semp_bytesRemaining p) - 1"
    using b(5) unat_dec [of "semp_bytesRemaining p"] by (auto simp: unat_gt_0)
  have v: "wf_mm v" "mm_message v = m" "mm_computeCrc v = Some MmpSempComputeCrc" "mm_reports [] p v" "mm_lengthBytes v = 0"
      "mm_crc v = bt_crc 0xFFFFFFFF m" "mm_state v = Some MmpSempReadData"
    using f b(6) assms(4) by (simp_all add: v_def u_def mmp_scratch m_def)
  have eq: "mmpSempReadData u d = Inr (if semp_bytesRemaining v = 0 then mm_expect_crc v else v, True)"
    by (simp add: mmpSempReadData_def v_def Let_def)
  show ?thesis
  proof (cases "semp_bytesRemaining v = 0")
    case True
    then have "length m = 20 + unat (custom_length m)" using r b(4,5) m(2,3) by auto
    note e = mm_expect_crc_at [OF v(1-3) sync _ m(1) this v(6)]
    show ?thesis using e True eq v b(2) m(3)
      by (intro mm_continuesI [of _ "mm_expect_crc v"] mm_inv_semp) (simp_all add: m_def u_def)
  next
    case False
    then have "0 < unat (semp_bytesRemaining v)" by (simp add: unat_gt_0)
    moreover have "length m + unat (semp_bytesRemaining v) = 20 + unat (custom_length m)" using r b(4,5) m(2,3) by simp
    ultimately have "semp_at v" unfolding semp_at_def Let_def v(2) using v b(2) sync m by simp
    then show ?thesis using False eq v by (intro mm_continuesI [of _ v] mm_inv_semp) (simp_all add: m_def u_def)
  qed
qed

lemma mm_last4_eq:
  assumes "wf_mm p" and "mm_message p = h @ [a, b, c, d]"
  shows "mm_last4 p = Inr (a, b, c, d)"
  using mm_back_eq [OF assms, of 0] mm_back_eq [OF assms, of 1] mm_back_eq [OF assms, of 2] mm_back_eq [OF assms, of 3]
  by (simp add: mm_last4_def)

lemma mm_call_badCrc_simps:
  assumes "mm_call_badCrc f p = (q, b)"
  shows "wf_mm q = wf_mm p" "mm_message q = mm_message p" "mm_reports ds p' q = mm_reports ds p' p"
    "mm_lengthBytes q = mm_lengthBytes p" "mm_state q = mm_state p" "mm_crc q = mm_crc p"
    "mm_bufferLength q = mm_bufferLength p" "mm_length q = mm_length p" "length (mm_buffer q) = length (mm_buffer p)"
    "mm_buffer q = mm_buffer p"
  using assms by (auto simp: mm_call_badCrc_def mm_reports_def)

lemma mm_report_crc_eq:
  assumes "wf_mm p" and "mm_message p = h @ [a, b, c, d]"
  shows "\<exists>q. mm_report_crc p = Inr q \<and> wf_mm q \<and> mm_reports [] p q \<and> mm_lengthBytes q = mm_lengthBytes p"
proof -
  obtain q quiet where q: "(case mm_badCrc p of None \<Rightarrow> (p, False) | Some f \<Rightarrow> mm_call_badCrc f p) = (q, quiet)" by fastforce
  have q': "wf_mm q" "mm_message q = h @ [a, b, c, d]" "mm_reports [] p q" "mm_lengthBytes q = mm_lengthBytes p"
    using q assms mm_call_badCrc_simps [of _ p q quiet] by (auto split: option.splits)
  show ?thesis
    unfolding mm_report_crc_def q Let_def using q' mm_last4_eq [OF q'(1,2)] by (cases quiet) auto
qed

lemma semp_crc_byte:
  assumes "mm_inv p" and "semp_at p" and "mm_length p < mm_bufferLength p" and "mm_state p = Some MmpSempReadCrc"
  shows "if length (mm_message p) + 1 = 24 + unat (custom_length (mm_message p))
    then mm_ends 0 p (mm_message p @ [d]) (mmpSempReadCrc (mm_fed p d) d)
    else mm_continues p d (mmpSempReadCrc (mm_fed p d) d)"
proof -
  define u where "u = mm_fed p d"
  define m where "m = mm_message p @ [d]"
  define l where "l = unat (custom_length (mm_message p))"
  define v where "v = set_semp_bytesRemaining (semp_bytesRemaining u - 1) u"
  note f = semp_fed [OF assms(1-3), of d, folded u_def m_def]
  have b: "bt_sync 0 (mm_message p)" "20 \<le> length (mm_message p)" "mm_message p ! 3 = 0x14"
      "length (mm_message p) + unat (semp_bytesRemaining p) = 24 + l"
      "0 < unat (semp_bytesRemaining p)" "unat (semp_bytesRemaining p) \<le> 4"
      "semp_crc p = NOT (bt_crc 0xFFFFFFFF (take (20 + l) (mm_message p)))"
    using assms(2,4) by (simp_all add: semp_at_def Let_def l_def)
  have sync: "bt_sync 0 m" using b unfolding m_def by (intro bt_sync_append) simp_all
  have m: "m ! 3 = 0x14" "custom_length m = custom_length (mm_message p)" "length m = Suc (length (mm_message p))"
      "take (20 + l) m = take (20 + l) (mm_message p)"
    using b(2-6) by (simp_all add: m_def nth_append custom_length_snoc)
  have "semp_bytesRemaining v = semp_bytesRemaining p - 1" by (simp add: v_def u_def mmp_scratch)
  then have r: "unat (semp_bytesRemaining v) = unat (semp_bytesRemaining p) - 1"
    using b(5) unat_dec [of "semp_bytesRemaining p"] by (auto simp: unat_gt_0)
  have v: "wf_mm v" "mm_message v = m" "mm_computeCrc v = Some MmpSempComputeCrc" "mm_reports [] p v" "mm_lengthBytes v = 0"
      "semp_crc v = NOT (bt_crc 0xFFFFFFFF (take (20 + l) m))" "mm_state v = Some MmpSempReadCrc"
    using f b(7) m(4) assms(4) by (simp_all add: v_def u_def mmp_scratch layout_simps)
  show ?thesis
  proof (cases "length m = 24 + l")
    case False
    have "semp_bytesRemaining v \<noteq> 0" using r b(4,5) False m(3) by (auto simp: word_unat_eq_iff)
    then have "mmpSempReadCrc u d = Inr (v, True)" by (simp add: mmpSempReadCrc_def v_def Let_def)
    moreover have "semp_at v" unfolding semp_at_def Let_def v(2) using v b sync m r False by (simp add: l_def)
    ultimately have "mm_continues p d (mmpSempReadCrc u d)"
      using v by (intro mm_continuesI [of _ v] mm_inv_semp) (simp_all add: m_def)
    then show ?thesis using False m(3) by (simp add: l_def u_def)
  next
    case True
    then have z: "semp_bytesRemaining v = 0" using r b(4) m(3) by (simp add: word_unat_eq_iff)
    have "length (drop (20 + l) m) = 4" using True by simp
    then obtain t0 t1 t2 t3 where t: "drop (20 + l) m = [t0, t1, t2, t3]" using list_of_length(3) by blast
    define h where "h = take (20 + l) m"
    have h: "m = h @ [t0, t1, t2, t3]" "length h = 20 + l"
      using append_take_drop_id [of "20 + l" m] True unfolding t h_def by simp_all
    have "bt_shape 0 m" using True sync m(1,2) by (simp add: bt_shape_def l_def)
    then have "bt_valid 0xFFFFFFFF 0 m \<longleftrightarrow> le32 t0 t1 t2 t3 = semp_crc v"
      using bt_valid_append [of "0xFFFFFFFF" 0 h t0 t1 t2 t3] v(6) unfolding h(1) [symmetric] h_def [symmetric] by metis
    then have valid: "mm_valid 0 m \<longleftrightarrow> le32 t0 t1 t2 t3 = semp_crc v" by (simp add: mm_valid_def)
    have len: "4 \<le> mm_length v" using length_mm_message [OF v(1)] v(2) True by (simp add: word_le_nat_alt)
    have last: "mm_last4 v = Inr (t0, t1, t2, t3)" using mm_last4_eq [OF v(1)] v(2) h(1) by simp
    obtain q where q: "mm_report_crc (mm_failed 0 v) = Inr q" "wf_mm q" "mm_reports [] (mm_failed 0 v) q" "mm_lengthBytes q = 0"
      using mm_report_crc_eq [of "mm_failed 0 v" h t0 t1 t2 t3] v(1,2,5) h(1) by auto
    define w where "w = (if mm_valid 0 m then mm_completed 0 v else q)"
    have w: "wf_mm w" "mm_lengthBytes w = 0" "mm_reports (if mm_valid 0 m then [(0, m)] else []) p w"
      using mm_completed_report [OF v(1), of 0] v(2,4,5) q mm_reports_trans [OF v(4)] mm_reports_quiet [of "[]" p "mm_failed 0 v" q]
      by (auto simp: w_def)
    have "mmpSempReadCrc u d = Inr (w\<lparr>mm_state := Some MmpFirstByte\<rparr>, False)"
      using z len last valid q(1) by (simp add: mmpSempReadCrc_def v_def [symmetric] Let_def mmp_constants w_def)
    then have "mm_ends 0 p m (mmpSempReadCrc u d)"
      using w by (intro mm_endsI [where acc = "mm_valid 0 m" and b = False and q = "w\<lparr>mm_state := Some MmpFirstByte\<rparr>"]) simp_all
    then show ?thesis using True m(3) by (simp add: l_def u_def m_def)
  qed
qed

section \<open>NMEA sentences\<close>

lemma nmea_fed:
  assumes "mm_inv p" and "nmea_at p" and "mm_length p < mm_bufferLength p"
  shows "mmp_feed p d = Inr (mm_fed p d)" "mm_message (mm_fed p d) = mm_message p @ [d]" "wf_mm (mm_fed p d)"
    "mm_reports [] p (mm_fed p d)" "mm_lengthBytes (mm_fed p d) = 0" "mm_computeCrc (mm_fed p d) = None"
    "mm_crc (mm_fed p d) = mm_crc p"
proof -
  have "wf_mm p" using assms(1) by (simp add: mm_inv_def)
  note f = mmp_feed_eq [OF this assms(3), of d]
  show "mmp_feed p d = Inr (mm_fed p d)" "mm_message (mm_fed p d) = mm_message p @ [d]" "wf_mm (mm_fed p d)"
    "mm_reports [] p (mm_fed p d)" using f by simp_all
  show "mm_lengthBytes (mm_fed p d) = 0" using assms(1,2) by (auto simp: mm_inv_def nmea_at_def)
  show "mm_computeCrc (mm_fed p d) = None" "mm_crc (mm_fed p d) = mm_crc p" using assms(2) by (simp_all add: nmea_at_def)
qed

lemma mm_inv_nmea:
  "wf_mm p \<Longrightarrow> mm_lengthBytes p = 0 \<Longrightarrow> mm_state p \<noteq> Some MmpUbloxReadLength \<Longrightarrow> nmea_at p \<Longrightarrow> mm_inv p"
  by (simp add: mm_inv_def)

lemma mm_nibble: "mmpAsciiToNibble = semp_util_asciiToNibble"
  by (simp add: fun_eq_iff mmpAsciiToNibble_def semp_util_asciiToNibble_def)

lemma mm_name:
  assumes "mm_inv p" and "nmea_at p" and "mm_length p < mm_bufferLength p" and "mm_state p = Some MmpNmeaFindFirstComma"
  shows "if name_char d \<and> length (mm_message p) \<le> 15 \<or> d = 0x2C \<and> 1 < length (mm_message p)
    then mm_continues p d (mmpNmeaFindFirstComma (mm_fed p d) d)
    else mm_restarts p d (mmpNmeaFindFirstComma (mm_fed p d) d)"
proof -
  define u where "u = (mm_fed p d)\<lparr>mm_crc := mm_crc p XOR ucast d\<rparr>"
  define k where "k = info_sentenceNameLength p"
  note f = nmea_fed [OF assms(1-3), of d]
  obtain name where c: "mm_message p = 0x24 # name" "list_all name_char name" "length name \<le> 15" "length name = unat k"
      "mm_crc p = xor_sum name"
    using assms(2,4) by (auto simp: nmea_at_def k_def)
  have u: "wf_mm u" "mm_message u = 0x24 # name @ [d]" "mm_reports [] p u" "mm_lengthBytes u = 0" "mm_computeCrc u = None"
      "mm_crc u = xor_sum (name @ [d])" "mm_state u = Some MmpNmeaFindFirstComma" "info_sentenceNameLength u = k"
    using f c assms(4) by (simp_all add: u_def k_def mmp_scratch)
  have z: "k = 0 \<longleftrightarrow> name = []" "k \<ge> 15 \<longleftrightarrow> length name = 15" "k < 16"
    using c(3,4) by (auto simp: unat_eq_0 word_le_nat_alt word_less_nat_alt)
  have eq: "mmpNmeaFindFirstComma (mm_fed p d) d =
      (if d \<noteq> 0x2C \<or> k = 0
       then if \<not> name_char d then mmpFirstByte (mmpSafePrintf (mm_printDebug u) (MmpInvalidNameCharacter d) u) d
         else if k \<ge> 15 then mmpFirstByte (mmpSafePrintf (mm_printDebug u) MmpNameTooLong u) d
         else Inr (set_info_sentenceNameLength (k + 1) (set_info_sentenceName (unat k) d u), True)
       else Inr ((set_info_sentenceName (unat k) 0 u)\<lparr>mm_state := Some MmpNmeaFindAsterisk\<rparr>, True))"
    unfolding mmpNmeaFindFirstComma_def Let_def f(7) u_def [symmetric] u(8)
    using z(3) u(8) by (simp add: name_char_def mm_store_name_def mmp_constants)
  consider (char) "name_char d" "length name < 15" | (comma) "d = 0x2C" "name \<noteq> []"
    | (bad) "\<not> (name_char d \<and> length name < 15)" "\<not> (d = 0x2C \<and> name \<noteq> [])" by blast
  then show ?thesis
  proof cases
    case char
    then have "d \<noteq> 0x2C" using name_char_not by auto
    define q where "q = set_info_sentenceNameLength (k + 1) (set_info_sentenceName (unat k) d u)"
    have "unat (k + 1) = Suc (unat k)" using char(2) c(4) by (intro unat_Suc_below [of k 16]) simp
    then have "nmea_at q" using u c char by (simp add: nmea_at_def q_def mmp_scratch)
    moreover have "mmpNmeaFindFirstComma (mm_fed p d) d = Inr (q, True)"
      unfolding eq q_def using char \<open>d \<noteq> 0x2C\<close> z by simp
    ultimately show ?thesis
      using char c u by (simp add: mm_continuesI [of _ q] mm_inv_nmea q_def mmp_scratch)
  next
    case comma
    define q where "q = (set_info_sentenceName (unat k) 0 u)\<lparr>mm_state := Some MmpNmeaFindAsterisk\<rparr>"
    have "mmpNmeaFindFirstComma (mm_fed p d) d = Inr (q, True)"
      unfolding eq q_def using comma z by simp
    moreover have "nmea_start (0x24 # name @ [d])" using sentence_start [of "0x24" "{0x24}" name] comma c by simp
    then have "nmea_at q" using u c(3) by (auto simp: nmea_at_def q_def mmp_scratch wf_mm_def)
    moreover have "unat k \<noteq> 0" using comma(2) c(4) length_0_conv [of name] by linarith
    ultimately show ?thesis
      using comma c u by (simp add: mm_continuesI [of _ q] mm_inv_nmea q_def mmp_scratch)
  next
    case bad
    define m where "m = (if name_char d then MmpNameTooLong else MmpInvalidNameCharacter d)"
    have "mmpNmeaFindFirstComma (mm_fed p d) d = mmpFirstByte (mmpSafePrintf (mm_printDebug u) m u) d"
      unfolding eq using bad z c(3) name_char_not(1) by (auto simp: m_def)
    then show ?thesis using bad c u by (auto intro: mm_restartsI)
  qed
qed

lemma mm_body:
  assumes "mm_inv p" and "nmea_at p" and "mm_length p < mm_bufferLength p" and "mm_state p = Some MmpNmeaFindAsterisk"
  shows "if d = 0x2A \<or> Suc (length (mm_message p)) + 5 \<le> unat (mm_bufferLength p)
    then mm_continues p d (mmpNmeaFindAsterisk (mm_fed p d) d)
    else mm_restarts p d (mmpNmeaFindAsterisk (mm_fed p d) d)"
proof -
  note f = nmea_fed [OF assms(1-3), of d]
  have c: "nmea_start (mm_message p)" "mm_crc p = xor_sum (tl (mm_message p))"
      "length (mm_message p) + 5 \<le> unat (mm_bufferLength p)"
    using assms(2,4) by (simp_all add: nmea_at_def)
  have n: "unat (mm_length (mm_fed p d)) = Suc (length (mm_message p))" using length_mm_message [OF f(3)] f(2) by simp
  define u where "u = (mm_fed p d)\<lparr>mm_crc := mm_crc p XOR ucast d\<rparr>"
  have u: "wf_mm u" "mm_reports [] p u" "mm_lengthBytes u = 0" "mm_message u = mm_message p @ [d]" using f by (simp_all add: u_def)
  consider (star) "d = 0x2A" | (room) "d \<noteq> 0x2A" "Suc (length (mm_message p)) + 5 \<le> unat (mm_bufferLength p)"
    | (full) "d \<noteq> 0x2A" "\<not> Suc (length (mm_message p)) + 5 \<le> unat (mm_bufferLength p)" by blast
  then show ?thesis
  proof cases
    case star
    define q where "q = (mm_fed p d)\<lparr>mm_state := Some MmpNmeaChecksumByte1\<rparr>"
    have "mmpNmeaFindAsterisk (mm_fed p d) d = Inr (q, True)" using star by (simp add: mmpNmeaFindAsterisk_def q_def)
    moreover have "nmea_at q" using f c star by (simp add: nmea_at_def mm_tail_def q_def)
    ultimately show ?thesis using star f by (simp add: mm_continuesI [of _ q] mm_inv_nmea q_def)
  next
    case room
    then have "mmpNmeaFindAsterisk (mm_fed p d) d = Inr (u, True)" using n f(7) by (simp add: mmpNmeaFindAsterisk_def Let_def u_def)
    moreover have "nmea_at u"
      using f c room assms(4) sentence_snoc [OF c(1) room(1)] sentence_nonempty [OF c(1), of "[d]"] by (simp add: nmea_at_def u_def)
    moreover have "mm_state u = Some MmpNmeaFindAsterisk" using assms(4) by (simp add: u_def)
    ultimately show ?thesis using room u by (simp add: mm_continuesI [of _ u] mm_inv_nmea)
  next
    case full
    then have "mmpNmeaFindAsterisk (mm_fed p d) d =
        mmpFirstByte (mmpSafePrintf (mm_printDebug u) (MmpSentenceTooLong (mm_bufferLength u)) u) d"
      using n f(7) by (simp add: mmpNmeaFindAsterisk_def Let_def u_def)
    then show ?thesis using full u by (simp add: mm_restartsI)
  qed
qed

lemma mm_digit:
  assumes "mm_inv p" and "nmea_at p" and "mm_length p < mm_bufferLength p"
    and "mm_state p = Some s" and "s \<in> {MmpNmeaChecksumByte1, MmpNmeaChecksumByte2}"
  shows "if hex_digit d then mm_continues p d (call_mmpState s (mm_fed p d) d)
    else mm_restarts p d (call_mmpState s (mm_fed p d) d)"
proof -
  note f = nmea_fed [OF assms(1-3), of d]
  define u where "u = mm_fed p d"
  have rx: "mm_back u 1 = Inr d" using mm_back_eq [OF f(3,2), of 0] by (simp add: u_def)
  define n where "n = (if s = MmpNmeaChecksumByte1 then MmpNmeaChecksumByte2 else MmpNmeaLineTermination)"
  define m where "m = (if s = MmpNmeaChecksumByte1 then MmpInvalidFirstChecksum else MmpInvalidSecondChecksum)"
  have eq: "call_mmpState s u d = (if hex_digit d then Inr (u\<lparr>mm_state := Some n\<rparr>, True)
      else mmpFirstByte (mmpSafePrintf (mm_printDebug u) m u) d)"
    using assms(5) rx by (auto simp: mmpNmeaChecksumByte1_def mmpNmeaChecksumByte2_def hex_digit_def mm_nibble n_def m_def)
  have u: "wf_mm u" "mm_message u = mm_message p @ [d]" "mm_reports [] p u" "mm_lengthBytes u = 0" "mm_computeCrc u = None"
      "mm_crc u = mm_crc p" "mm_bufferLength u = mm_bufferLength p"
    using f by (simp_all add: u_def)
  show ?thesis
  proof (cases "hex_digit d")
    case True
    have "nmea_at (u\<lparr>mm_state := Some n\<rparr>)"
      using assms(2,4,5) u True by (fastforce simp: nmea_at_def mm_tail_def n_def)
    moreover have "n \<noteq> MmpFirstByte" "n \<noteq> MmpUbloxReadLength" by (simp_all add: n_def)
    ultimately have "mm_continues p d (Inr (u\<lparr>mm_state := Some n\<rparr>, True))"
      using u by (intro mm_continuesI [OF refl] mm_inv_nmea) simp_all
    then show ?thesis using True eq by (simp add: u_def)
  next
    case False
    then show ?thesis using eq u by (simp add: mm_restartsI u_def)
  qed
qed

subsection \<open>The end of a sentence\<close>

definition mm_hazard :: "mmp \<Rightarrow> bool" where
  "mm_hazard p \<longleftrightarrow> mm_state p = Some MmpNmeaLineTermination \<and> length (mm_buffer p) < length (mm_message p) + 3"

lemma nibble_bounds: "hex_digit c \<Longrightarrow> 0 \<le> semp_util_asciiToNibble (uint c) \<and> semp_util_asciiToNibble (uint c) < 16"
  by (auto simp: hex_digit_def semp_util_asciiToNibble_def Let_def)

lemma two_nibbles:
  assumes "0 \<le> a" and "a < 16" and "0 \<le> b" and "b < (16 :: int)"
  shows "0 \<le> push_bit 4 a OR b" "push_bit 4 a OR b < 256"
  using assms OR_upper [of "push_bit 4 a" 8 b] by (simp_all add: push_bit_eq_mult)

lemma mm_checksum:
  assumes "hex_digit x" and "hex_digit y"
  shows "push_bit 4 (semp_util_asciiToNibble (uint x)) OR semp_util_asciiToNibble (uint y) = uint (xor_sum t AND 0xFF)
    \<longleftrightarrow> line_checksum x y = xor_sum t"
proof -
  define v where "v = push_bit 4 (semp_util_asciiToNibble (uint x)) OR semp_util_asciiToNibble (uint y)"
  have v: "0 \<le> v" "v < 256" using two_nibbles nibble_bounds [OF assms(1)] nibble_bounds [OF assms(2)] by (auto simp: v_def)
  have "take_bit 8 (xor_sum t) = xor_sum t"
    unfolding xor_sum_bytes by (rule bit_word_eqI) (auto simp: bit_simps dest: bit_imp_le_length)
  then have "xor_sum t AND 0xFF = xor_sum t" by (simp add: take_bit_eq_mask mask_eq_exp_minus_1)
  moreover have "v = uint (xor_sum t) \<longleftrightarrow> word_of_int v = xor_sum t"
    using v by (auto simp: word_uint_eq_iff uint_word_of_int take_bit_int_eq_self)
  ultimately show ?thesis by (simp add: v_def line_checksum_def)
qed

text \<open>Line end and zero behind the sentence\<close>

definition mm_finish :: "mmp \<Rightarrow> mmp res" where
  "mm_finish p =
     rbind (mm_push p 0x0D) (\<lambda>p.
     rbind (mm_push p 0x0A) (\<lambda>p.
     rbind (upd (mm_buffer p) (uint (mm_length p)) 0) (\<lambda>b. Inr (mm_completed MMP_PROTOCOL_NMEA (p\<lparr>mm_buffer := b\<rparr>)))))"

lemma mm_finish_eq:
  assumes "wf_mm p" and "length (mm_message p) + 2 \<le> unat (mm_bufferLength p)"
  shows "if length (mm_message p) + 3 \<le> length (mm_buffer p)
    then \<exists>q. mm_finish p = Inr q \<and> wf_mm q \<and> mm_reports [(1, mm_message p @ [0x0D, 0x0A])] p q
      \<and> mm_lengthBytes q = mm_lengthBytes p
    else mm_finish p = Inl OutOfBounds"
proof -
  have n: "unat (mm_length p) = length (mm_message p)" using length_mm_message [OF assms(1)] by simp
  then have r1: "mm_length p < mm_bufferLength p" using assms(2) by (simp add: word_less_nat_alt)
  note a = mm_push_eq [OF assms(1) r1, of "0x0D"]
  define p1 where "p1 = mm_pushed p 0x0D"
  have n1: "unat (mm_length p1) = Suc (length (mm_message p))" using length_mm_message [OF a(3)] a(2) by (simp add: p1_def)
  have bl: "mm_bufferLength p1 = mm_bufferLength p" by (simp add: p1_def mm_pushed_def)
  have r2: "mm_length p1 < mm_bufferLength p1" using n1 bl assms(2) by (simp add: word_less_nat_alt)
  note b = mm_push_eq [OF a(3) [folded p1_def] r2, of "0x0A"]
  define p2 where "p2 = mm_pushed p1 0x0A"
  have p2: "wf_mm p2" "mm_message p2 = mm_message p @ [0x0D, 0x0A]" "mm_reports [] p p2" "mm_lengthBytes p2 = mm_lengthBytes p"
    using a b mm_reports_quiet [OF a(4)] by (simp_all add: p2_def p1_def) (simp add: mm_pushed_def)
  have n2: "unat (mm_length p2) = length (mm_message p) + 2" using length_mm_message [OF p2(1)] p2(2) by simp
  have lb: "length (mm_buffer p2) = length (mm_buffer p)" using p2(3) by (simp add: mm_reports_def)
  define q where "q = p2\<lparr>mm_buffer := (mm_buffer p2)[unat (mm_length p2) := 0]\<rparr>"
  have eq: "mm_finish p = rbind (upd (mm_buffer p2) (uint (mm_length p2)) 0) (\<lambda>b. Inr (mm_completed 1 (p2\<lparr>mm_buffer := b\<rparr>)))"
    using a(1) b(1) by (simp add: mm_finish_def p2_def p1_def mmp_constants)
  show ?thesis
  proof (cases "length (mm_message p) + 3 \<le> length (mm_buffer p)")
    case True
    then have "mm_finish p = Inr (mm_completed 1 q)" using eq n2 lb by (simp add: upd_word q_def)
    moreover have q: "wf_mm q" "mm_message q = mm_message p @ [0x0D, 0x0A]" "mm_reports [] p q" "mm_lengthBytes q = mm_lengthBytes p"
      using p2 by (simp_all add: q_def wf_mm_def mm_message_def mm_reports_def)
    ultimately show ?thesis
      using True mm_completed_report [OF q(1), of 1] mm_reports_trans [OF q(3)] q(2,4) by auto
  next
    case False
    then show ?thesis using eq n2 lb by (simp add: upd_word)
  qed
qed

lemma mm_accepted_cases:
  obtains q acc where "mm_accepted ok p = (q, acc)" "wf_mm q = wf_mm p" "mm_message q = mm_message p"
    "mm_reports [] p q" "mm_lengthBytes q = mm_lengthBytes p" "mm_crc q = mm_crc p"
    "mm_bufferLength q = mm_bufferLength p" "mm_buffer q = mm_buffer p" "ok \<longrightarrow> acc" "mm_badCrc p = None \<longrightarrow> acc \<longrightarrow> ok"
proof (cases "ok \<or> mm_badCrc p = None")
  case True
  then show ?thesis using that [of p ok] by (auto simp: mm_accepted_def)
next
  case False
  then obtain f where "mm_badCrc p = Some f" "\<not> ok" by auto
  moreover obtain q b where q: "mm_call_badCrc f p = (q, b)" by fastforce
  ultimately show ?thesis using that [of q "\<not> b"] mm_call_badCrc_simps [OF q] by (simp add: mm_accepted_def)
qed

lemma mm_validate:
  assumes "wf_mm p" and "mm_message p = h @ [0x2A, x, y]" and "nmea_start h" and "mm_crc p = xor_sum (tl h)"
    and "hex_digit x" and "hex_digit y" and "length h + 5 \<le> unat (mm_bufferLength p)"
  defines "f \<equiv> h @ [0x2A, x, y, 0x0D, 0x0A]"
  obtains (fault) "length (mm_buffer p) < length (mm_message p) + 3" "mmpNmeaValidateChecksum p = Inl OutOfBounds"
      "mm_badCrc p = None \<longrightarrow> mm_valid 1 f"
  | (ok) q acc where "mmpNmeaValidateChecksum p = Inr q" "wf_mm q" "mm_reports (if acc then [(1, f)] else []) p q"
    "mm_lengthBytes q = mm_lengthBytes p" "mm_valid 1 f \<longrightarrow> acc" "mm_badCrc p = None \<longrightarrow> acc \<longrightarrow> mm_valid 1 f"
    "acc \<longrightarrow> length (mm_message p) + 3 \<le> length (mm_buffer p)"
proof -
  have hd: "hd f = 0x24" using assms(3) by (auto simp: f_def sentence_def)
  have "sentence {0x24, 0x21} h" using assms(3) by (auto simp: sentence_def)
  then have valid: "mm_valid 1 f \<longleftrightarrow> line_checksum x y = mm_crc p"
    using hd assms(4-6) nmea_valid_line [of h x y] by (auto simp: mm_valid_def f_def)
  have rx: "mm_back p 2 = Inr x" "mm_back p 1 = Inr y"
    using mm_back_eq [OF assms(1), of h "[0x2A, x, y]" 1] mm_back_eq [OF assms(1), of h "[0x2A, x, y]" 2] assms(2) by simp_all
  obtain q acc where q: "mm_accepted (mm_valid 1 f) p = (q, acc)" "wf_mm q = wf_mm p" "mm_message q = mm_message p"
    "mm_reports [] p q" "mm_lengthBytes q = mm_lengthBytes p" "mm_crc q = mm_crc p"
    "mm_bufferLength q = mm_bufferLength p" "mm_buffer q = mm_buffer p" "mm_valid 1 f \<longrightarrow> acc"
    "mm_badCrc p = None \<longrightarrow> acc \<longrightarrow> mm_valid 1 f"
    by (rule mm_accepted_cases [of "mm_valid 1 f" p])
  define w where "w = mm_failed 1 q"
  have w: "mm_back w 2 = Inr x" "mm_back w 1 = Inr y"
    using mm_back_eq [of w h "[0x2A, x, y]" 1] mm_back_eq [of w h "[0x2A, x, y]" 2] assms(1,2) q(2,3) by (simp_all add: w_def)
  have cs: "(push_bit 4 (mmpAsciiToNibble (uint x)) OR mmpAsciiToNibble (uint y) = uint (mm_crc p AND 0xFF)) = mm_valid 1 f"
    unfolding mm_nibble valid assms(4) by (rule mm_checksum [OF assms(5,6)])
  have eq: "mmpNmeaValidateChecksum p = (if acc then mm_finish q
      else Inr (mmpSafePrintf (mm_printDebug w) (MmpBadNmeaChecksum x y (ucast (mm_crc w AND 0xFF))) w))"
    unfolding mmpNmeaValidateChecksum_def rx rbind_simps Let_def cs q(1) using w
    by (simp add: mm_finish_def w_def mmp_constants)
  have fin: "if length (mm_message q) + 3 \<le> length (mm_buffer q)
    then \<exists>r. mm_finish q = Inr r \<and> wf_mm r \<and> mm_reports [(1, mm_message q @ [0x0D, 0x0A])] q r \<and> mm_lengthBytes r = mm_lengthBytes q
    else mm_finish q = Inl OutOfBounds"
    using assms(1,2,7) q(2,3,7) by (intro mm_finish_eq) simp_all
  note rep = q(4)
  have fm: "mm_message q @ [0x0D, 0x0A] = f" using q(3) assms(2) by (simp add: f_def)
  consider "\<not> acc" | "acc" "length (mm_message p) + 3 \<le> length (mm_buffer p)" | "acc" "length (mm_buffer p) < length (mm_message p) + 3"
    by linarith
  then show thesis
  proof cases
    case 1
    then have nv: "\<not> mm_valid 1 f" using q(9) by blast
    define r where "r = mmpSafePrintf (mm_printDebug w) (MmpBadNmeaChecksum x y (ucast (mm_crc w AND 0xFF))) w"
    have "mmpNmeaValidateChecksum p = Inr r" unfolding eq r_def using 1 by simp
    then show ?thesis using 1 nv assms(1) q(2,5) rep by (intro ok [of r False]) (simp_all add: r_def w_def)
  next
    case 2
    then obtain r where r: "mm_finish q = Inr r" "wf_mm r" "mm_reports [(1, f)] q r" "mm_lengthBytes r = mm_lengthBytes q"
      using fin fm q(3,8) by auto
    then have "mm_reports [(1, f)] p r" using mm_reports_trans [OF rep] by fastforce
    moreover have "mmpNmeaValidateChecksum p = Inr r" using eq 2 r(1) by simp
    ultimately show ?thesis using 2 r(2,4) q(5,10) by (intro ok [of r True]) simp_all
  next
    case 3
    then have "mmpNmeaValidateChecksum p = Inl OutOfBounds" using eq fin q(3,8) by simp
    then show ?thesis using 3 q(10) by (intro fault) simp_all
  qed
qed

lemma mm_unget:
  assumes "wf_mm p" and "mm_message p = m @ [d]"
  shows "wf_mm (p\<lparr>mm_length := mm_length p - 1\<rparr>)" "mm_message (p\<lparr>mm_length := mm_length p - 1\<rparr>) = m"
proof -
  have n: "unat (mm_length p) = Suc (length m)" using assms length_mm_message [OF assms(1)] by simp
  then have "mm_length p \<noteq> 0" by auto
  then have dec: "unat (mm_length p - 1) = length m" using n by (simp add: unat_dec)
  then show "wf_mm (p\<lparr>mm_length := mm_length p - 1\<rparr>)" using assms(1) n by (simp add: wf_mm_def word_le_nat_alt)
  have "take (length m) (take (Suc (length m)) (mm_buffer p)) = m" using assms(2) n by (simp add: mm_message_def)
  then show "mm_message (p\<lparr>mm_length := mm_length p - 1\<rparr>) = m" by (simp add: mm_message_def dec min_def)
qed

lemma mm_line:
  assumes "mm_inv p" and "nmea_at p" and "mm_length p < mm_bufferLength p" and "mm_state p = Some MmpNmeaLineTermination"
  defines "f \<equiv> mm_message p @ [0x0D, 0x0A]"
  shows "mm_hazard p \<and> mmpNmeaLineTermination (mm_fed p d) d = Inl OutOfBounds \<and> (mm_badCrc p = None \<longrightarrow> mm_valid 1 f)
    \<or> (mm_valid 1 f \<longrightarrow> \<not> mm_hazard p)
      \<and> (if d = 0x0D \<or> d = 0x0A then mm_ends 1 p f (mmpNmeaLineTermination (mm_fed p d) d)
         else mm_restarts p d (mmpNmeaLineTermination (mm_fed p d) d))"
proof -
  note e = nmea_fed [OF assms(1-3), of d]
  define u where "u = (mm_fed p d)\<lparr>mm_length := mm_length (mm_fed p d) - 1\<rparr>"
  obtain h x y where h: "mm_message p = h @ [0x2A, x, y]" "nmea_start h" "mm_crc p = xor_sum (tl h)"
      "length h + 5 \<le> unat (mm_bufferLength p)" "hex_digit x" "hex_digit y"
    using assms(2,4) by (auto simp: nmea_at_def mm_tail_def)
  have u: "wf_mm u" "mm_message u = h @ [0x2A, x, y]" "mm_crc u = xor_sum (tl h)" "mm_reports [] p u" "mm_lengthBytes u = 0"
      "mm_bufferLength u = mm_bufferLength p" "mm_badCrc u = mm_badCrc p" "length (mm_buffer u) = length (mm_buffer p)"
    using mm_unget [OF e(3,2)] e h(1,3) by (simp_all add: u_def)
  have f: "f = h @ [0x2A, x, y, 0x0D, 0x0A]" by (simp add: f_def h(1))
  have len: "length h + 5 \<le> unat (mm_bufferLength u)" using h(4) u(6) by simp
  show ?thesis
  proof (cases rule: mm_validate [OF u(1,2) h(2) u(3) h(5,6) len])
    case 1
    then have "mmpNmeaLineTermination (mm_fed p d) d = Inl OutOfBounds"
      by (simp add: mmpNmeaLineTermination_def u_def Let_def)
    moreover have "mm_hazard p" using 1(1) u(2,8) h(1) assms(4) by (simp add: mm_hazard_def)
    ultimately show ?thesis using 1(3) u(7) f by simp
  next
    case (2 q acc)
    have eq: "mmpNmeaLineTermination (mm_fed p d) d =
        (if d = 0x0D \<or> d = 0x0A then Inr (q\<lparr>mm_state := Some MmpFirstByte\<rparr>, True) else mmpFirstByte q d)"
      using 2(1) by (simp add: mmpNmeaLineTermination_def u_def Let_def)
    have rep: "mm_reports (if acc then [(1, f)] else []) p q" using mm_reports_trans [OF u(4) 2(3)] f by (cases acc) simp_all
    have lb: "mm_lengthBytes q = 0" using 2(4) u(5) by simp
    have acc: "mm_valid 1 f \<longrightarrow> acc" "mm_badCrc p = None \<longrightarrow> acc \<longrightarrow> mm_valid 1 f" using 2(5,6) u(7) f by simp_all
    have hz: "mm_valid 1 f \<longrightarrow> \<not> mm_hazard p" using acc(1) 2(7) u(2,8) h(1) by (auto simp: mm_hazard_def)
    have "mm_ends 1 p f (Inr (q\<lparr>mm_state := Some MmpFirstByte\<rparr>, True))"
      using 2(2) rep lb acc by (intro mm_endsI [where acc = acc, OF refl]) simp_all
    moreover have "mm_restarts p d (mmpFirstByte q d)"
      unfolding mm_restarts_def using 2(2) rep lb acc(2)
      by (intro exI [of _ q] exI [of _ "if acc then [(1, f)] else []"]) simp
    ultimately show ?thesis using eq hz by auto
  qed
qed

section \<open>u-blox messages\<close>

lemma ublox_fed:
  assumes "mm_inv p" and "ublox_at p" and "mm_length p < mm_bufferLength p"
  shows "mmp_feed p d = Inr (mm_fed p d)" "mm_message (mm_fed p d) = mm_message p @ [d]" "wf_mm (mm_fed p d)"
    "mm_reports [] p (mm_fed p d)" "mm_lengthBytes (mm_fed p d) = mm_lengthBytes p" "mm_computeCrc (mm_fed p d) = None"
    "mm_scratchPad (mm_fed p d) = mm_scratchPad p"
proof -
  have "wf_mm p" using assms(1) by (simp add: mm_inv_def)
  note f = mmp_feed_eq [OF this assms(3), of d]
  show "mmp_feed p d = Inr (mm_fed p d)" "mm_message (mm_fed p d) = mm_message p @ [d]" "wf_mm (mm_fed p d)"
    "mm_reports [] p (mm_fed p d)" using f by simp_all
  show "mm_lengthBytes (mm_fed p d) = mm_lengthBytes p" "mm_computeCrc (mm_fed p d) = None"
    "mm_scratchPad (mm_fed p d) = mm_scratchPad p" using assms(2) by (simp_all add: ublox_at_def Let_def)
qed

lemma mm_inv_ublox:
  "wf_mm p \<Longrightarrow> mm_lengthBytes p = (if mm_state p = Some MmpUbloxReadLength \<and> length (mm_message p) = 5 then 1 else 0) \<Longrightarrow>
    ublox_at p \<Longrightarrow> mm_inv p"
  by (simp add: mm_inv_def)

text \<open>The checksum bytes\<close>

lemma mm_checksum_step:
  "mm_sum (mmpUbloxComputeChecksum p d) = (fst (mm_sum p) + d, snd (mm_sum p) + (fst (mm_sum p) + d))"
  "mm_message (mmpUbloxComputeChecksum p d) = mm_message p" "wf_mm (mmpUbloxComputeChecksum p d) = wf_mm p"
  "mm_reports ds r (mmpUbloxComputeChecksum p d) = mm_reports ds r p" "mm_state (mmpUbloxComputeChecksum p d) = mm_state p"
  "mm_lengthBytes (mmpUbloxComputeChecksum p d) = mm_lengthBytes p" "mm_computeCrc (mmpUbloxComputeChecksum p d) = mm_computeCrc p"
  "mm_ublox_bytesRemaining (mmpUbloxComputeChecksum p d) = mm_ublox_bytesRemaining p"
  by (simp_all add: mmpUbloxComputeChecksum_def mm_sum_def mmp_scratch layout_simps Let_def)

lemma mm_remaining_simps [simp]:
  "mm_sum (set_mm_ublox_bytesRemaining n p) = mm_sum p" "mm_ublox_bytesRemaining (set_mm_ublox_bytesRemaining n p) = n"
  "mm_message (set_mm_ublox_bytesRemaining n p) = mm_message p" "wf_mm (set_mm_ublox_bytesRemaining n p) = wf_mm p"
  "mm_reports ds r (set_mm_ublox_bytesRemaining n p) = mm_reports ds r p"
  "mm_state (set_mm_ublox_bytesRemaining n p) = mm_state p" "mm_lengthBytes (set_mm_ublox_bytesRemaining n p) = mm_lengthBytes p"
  "mm_computeCrc (set_mm_ublox_bytesRemaining n p) = mm_computeCrc p"
  "mm_sum (p\<lparr>mm_state := s\<rparr>) = mm_sum p" "mm_ublox_bytesRemaining (p\<lparr>mm_state := s\<rparr>) = mm_ublox_bytesRemaining p"
  "mm_sum (p\<lparr>mm_lengthBytes := l\<rparr>) = mm_sum p" "mm_ublox_bytesRemaining (p\<lparr>mm_lengthBytes := l\<rparr>) = mm_ublox_bytesRemaining p"
  by (simp_all add: mm_sum_def mmp_scratch layout_simps)

lemma ublox_sync:
  assumes "mm_inv p" and "ublox_at p" and "mm_length p < mm_bufferLength p" and "mm_state p = Some MmpUbloxSync2"
  shows "if d = 0x62 then mm_continues p d (mmpUbloxSync2 (mm_fed p d) d) else mm_restarts p d (mmpUbloxSync2 (mm_fed p d) d)"
proof -
  note f = ublox_fed [OF assms(1-3), of d]
  have b: "length (mm_message p) = 1" "mm_message p ! 0 = 0xB5" "mm_lengthBytes p = 0"
    using assms(1,2,4) by (simp_all add: ublox_at_def Let_def mm_inv_def)
  show ?thesis
  proof (cases "d = 0x62")
    case True
    have "ublox_at ((mm_fed p d)\<lparr>mm_state := Some MmpUbloxReadClass\<rparr>)"
      using f b True by (simp add: ublox_at_def Let_def nth_append)
    then have "mm_continues p d (Inr ((mm_fed p d)\<lparr>mm_state := Some MmpUbloxReadClass\<rparr>, True))"
      using f b by (intro mm_continuesI [OF refl] mm_inv_ublox) simp_all
    then show ?thesis using True by (simp add: mmpUbloxSync2_def)
  next
    case False
    then show ?thesis using f b by (simp add: mmpUbloxSync2_def mm_restartsI)
  qed
qed

lemma ublox_class:
  assumes "mm_inv p" and "ublox_at p" and "mm_length p < mm_bufferLength p" and "mm_state p = Some MmpUbloxReadClass"
  shows "mm_continues p d (mmpUbloxReadClass (mm_fed p d) d)"
proof -
  note f = ublox_fed [OF assms(1-3), of d]
  have b: "length (mm_message p) = 2" "mm_message p ! 0 = 0xB5" "mm_message p ! 1 = 0x62" "mm_lengthBytes p = 0"
    using assms(1,2,4) by (simp_all add: ublox_at_def Let_def mm_inv_def)
  have "ublox_at ((mm_fed p d)\<lparr>mm_state := Some MmpUbloxReadMessageId\<rparr>)"
    using f b by (simp add: ublox_at_def Let_def nth_append)
  then show ?thesis
    unfolding mmpUbloxReadClass_def using f b by (intro mm_continuesI [OF refl] mm_inv_ublox) simp_all
qed

lemma ublox_id:
  assumes "mm_inv p" and "ublox_at p" and "mm_length p < mm_bufferLength p" and "mm_state p = Some MmpUbloxReadMessageId"
  shows "mm_continues p d (mmpUbloxReadMessageId (mm_fed p d) d)"
proof -
  note f = ublox_fed [OF assms(1-3), of d]
  have b: "length (mm_message p) = 3" "mm_message p ! 0 = 0xB5" "mm_message p ! 1 = 0x62" "mm_lengthBytes p = 0"
    using assms(1,2,4) by (simp_all add: ublox_at_def Let_def mm_inv_def)
  then obtain c where c: "mm_message p = [0xB5, 0x62, c]" using list_of_length(2) [of "mm_message p"] by auto
  define u where "u = set_ublox_checksumB 0 (set_ublox_checksumA 0 (mm_fed p d))"
  have u: "wf_mm u" "mm_message u = [0xB5, 0x62, c, d]" "mm_reports [] p u" "mm_lengthBytes u = 0" "mm_computeCrc u = None"
      "mm_sum u = (0, 0)"
    using f b(4) c by (simp_all add: u_def mmp_scratch mm_sum_def)
  have "mm_back u 2 = Inr c" using mm_back_eq [of u "[0xB5, 0x62]" "[c, d]" 0] u(1,2) by simp
  define q where "q = (mmpUbloxComputeChecksum (mmpUbloxComputeChecksum u c) d)\<lparr>mm_state := Some MmpUbloxReadLength\<rparr>"
  have "mmpUbloxReadMessageId (mm_fed p d) d = Inr (q, True)"
    using \<open>mm_back u 2 = Inr c\<close> by (simp add: mmpUbloxReadMessageId_def u_def [symmetric] q_def Let_def)
  moreover have "ublox_at q"
    using u by (simp add: ublox_at_def Let_def q_def mm_checksum_step fletcher_def)
  ultimately show ?thesis
    using u c by (intro mm_continuesI [of _ q] mm_inv_ublox) (simp_all add: q_def mm_checksum_step)
qed

lemma ublox_fletcher:
  "2 \<le> length m \<Longrightarrow> fletcher (drop 2 (m @ [d])) =
    (fst (fletcher (drop 2 m)) + d, snd (fletcher (drop 2 m)) + (fst (fletcher (drop 2 m)) + d))"
  by simp

lemma ublox_length:
  assumes "mm_inv p" and "ublox_at p" and "mm_length p < mm_bufferLength p" and "mm_state p = Some MmpUbloxReadLength"
  shows "mm_continues p d (mmpUbloxReadLength (mm_fed p d) d)"
proof -
  note f = ublox_fed [OF assms(1-3), of d]
  define m where "m = mm_message p @ [d]"
  define u where "u = mmpUbloxComputeChecksum (mm_fed p d) d"
  have b: "mm_message p ! 0 = 0xB5" "mm_message p ! 1 = 0x62" "mm_sum p = fletcher (drop 2 (mm_message p))"
      "length (mm_message p) = 4 \<or> length (mm_message p) = 5 \<and> mm_ublox_bytesRemaining p = ucast (mm_message p ! 4)"
      "mm_lengthBytes p = (if length (mm_message p) = 5 then 1 else 0)"
    using assms(1,2,4) by (simp_all add: ublox_at_def Let_def mm_inv_def)
  have m: "m ! 0 = 0xB5" "m ! 1 = 0x62" "mm_sum u = fletcher (drop 2 m)"
    using b(1-4) f by (auto simp: m_def u_def nth_append mm_checksum_step ublox_fletcher) (auto simp: mm_sum_def mmp_scratch)
  have u: "wf_mm u" "mm_message u = m" "mm_reports [] p u" "mm_lengthBytes u = mm_lengthBytes p" "mm_computeCrc u = None"
      "mm_state u = Some MmpUbloxReadLength" "mm_ublox_bytesRemaining u = mm_ublox_bytesRemaining p"
    using f assms(4) by (simp_all add: u_def mm_checksum_step m_def) (simp add: mmp_scratch)
  show ?thesis
  proof (cases "length (mm_message p) = 4")
    case True
    define q where "q = (set_mm_ublox_bytesRemaining (ucast d) u)\<lparr>mm_lengthBytes := 1\<rparr>"
    have "mmpUbloxReadLength (mm_fed p d) d = Inr (q, True)"
      using True u(4) b(5) by (simp add: mmpUbloxReadLength_def u_def [symmetric] q_def Let_def)
    moreover have "length m = 5" "m ! 4 = d" using True by (simp_all add: m_def nth_append)
    ultimately show ?thesis
      using u m by (intro mm_continuesI [of _ q] mm_inv_ublox) (simp_all add: q_def ublox_at_def Let_def m_def)
  next
    case False
    then have n: "length (mm_message p) = 5" "length m = 6" "m ! 4 = mm_message p ! 4" "m ! 5 = d"
      using b(4) by (auto simp: m_def nth_append)
    define r where "r = le16 (m ! 4) (m ! 5)"
    have r: "mm_ublox_bytesRemaining u OR push_bit 8 (ucast d) = r"
      using u(7) b(4) n by (simp add: r_def le16_def)
    define q where "q = (set_mm_ublox_bytesRemaining r u)
      \<lparr>mm_lengthBytes := 0, mm_state := Some (if r = 0 then MmpUbloxChecksumA else MmpUbloxReadData)\<rparr>"
    have "mmpUbloxReadLength (mm_fed p d) d = Inr (q, True)"
      using n(1) u(4) b(5) r by (simp add: mmpUbloxReadLength_def u_def [symmetric] q_def Let_def)
    moreover have "ublox_at q" using u m n r_def by (simp add: q_def ublox_at_def Let_def unat_gt_0)
    ultimately show ?thesis
      using u n by (intro mm_continuesI [of _ q] mm_inv_ublox) (simp_all add: q_def m_def)
  qed
qed

lemma ublox_data:
  assumes "mm_inv p" and "ublox_at p" and "mm_length p < mm_bufferLength p" and "mm_state p = Some MmpUbloxReadData"
  shows "mm_continues p d (mmpUbloxReadData (mm_fed p d) d)"
proof -
  note f = ublox_fed [OF assms(1-3), of d]
  define m where "m = mm_message p @ [d]"
  define u where "u = mmpUbloxComputeChecksum (mm_fed p d) d"
  have b: "mm_message p ! 0 = 0xB5" "mm_message p ! 1 = 0x62" "mm_sum p = fletcher (drop 2 (mm_message p))"
      "6 \<le> length (mm_message p)" "0 < unat (mm_ublox_bytesRemaining p)" "mm_lengthBytes p = 0"
      "length (mm_message p) + unat (mm_ublox_bytesRemaining p) = 6 + unat (le16 (mm_message p ! 4) (mm_message p ! 5))"
    using assms(1,2,4) by (simp_all add: ublox_at_def Let_def mm_inv_def)
  have m: "m ! 0 = 0xB5" "m ! 1 = 0x62" "mm_sum u = fletcher (drop 2 m)" "m ! 4 = mm_message p ! 4" "m ! 5 = mm_message p ! 5"
      "length m = Suc (length (mm_message p))"
    using b(1-4) f by (auto simp: m_def u_def nth_append mm_checksum_step ublox_fletcher) (auto simp: mm_sum_def mmp_scratch)
  have u: "wf_mm u" "mm_message u = m" "mm_reports [] p u" "mm_lengthBytes u = 0" "mm_computeCrc u = None"
      "mm_state u = Some MmpUbloxReadData" "mm_ublox_bytesRemaining u = mm_ublox_bytesRemaining p"
    using f assms(4) b(6) by (simp_all add: u_def mm_checksum_step m_def) (simp add: mmp_scratch)
  define r where "r = mm_ublox_bytesRemaining p - 1"
  have r: "unat r = unat (mm_ublox_bytesRemaining p) - 1"
    using b(5) unat_dec [of "mm_ublox_bytesRemaining p"] by (auto simp: r_def unat_gt_0)
  define q where "q = (set_mm_ublox_bytesRemaining r u)
    \<lparr>mm_state := Some (if r = 0 then MmpUbloxChecksumA else MmpUbloxReadData)\<rparr>"
  have "mmpUbloxReadData (mm_fed p d) d = Inr (q, True)"
    using u(6,7) by (simp add: mmpUbloxReadData_def u_def [symmetric] q_def r_def Let_def mmp_scratch)
  moreover have "length m + unat r = 6 + unat (le16 (m ! 4) (m ! 5))" using r b(5,7) m(4-6) by simp
  then have "ublox_at q" using u(2,5) m(1-3,6) b(4) by (auto simp: q_def ublox_at_def Let_def unat_gt_0)
  ultimately show ?thesis
    using u by (intro mm_continuesI [of _ q] mm_inv_ublox) (simp_all add: q_def m_def)
qed

lemma ublox_ck_a:
  assumes "mm_inv p" and "ublox_at p" and "mm_length p < mm_bufferLength p" and "mm_state p = Some MmpUbloxChecksumA"
  shows "if d = fst (fletcher (drop 2 (mm_message p))) then mm_continues p d (mmpUbloxChecksumA (mm_fed p d) d)
    else (\<exists>q. mmpUbloxChecksumA (mm_fed p d) d = Inr (q, False) \<and> mm_inv q \<and> mm_state q = Some MmpFirstByte \<and> mm_reports [] p q)"
proof -
  note f = ublox_fed [OF assms(1-3), of d]
  define u where "u = mm_fed p d"
  have b: "mm_message p ! 0 = 0xB5" "mm_message p ! 1 = 0x62" "mm_sum p = fletcher (drop 2 (mm_message p))"
      "6 \<le> length (mm_message p)" "mm_lengthBytes p = 0"
      "length (mm_message p) = 6 + unat (le16 (mm_message p ! 4) (mm_message p ! 5))"
    using assms(1,2,4) by (simp_all add: ublox_at_def Let_def mm_inv_def)
  have ck: "ublox_checksumA u = fst (mm_sum p)" "mm_sum u = mm_sum p" by (simp_all add: mm_sum_def mmp_scratch u_def)
  show ?thesis
  proof (cases "d = fst (fletcher (drop 2 (mm_message p)))")
    case True
    define q where "q = u\<lparr>mm_state := Some MmpUbloxChecksumB\<rparr>"
    have "mmpUbloxChecksumA u d = Inr (q, True)" using True ck b(3) by (simp add: mmpUbloxChecksumA_def q_def)
    moreover have "ublox_at q"
      using True f b ck(2) by (simp add: q_def u_def ublox_at_def Let_def nth_append)
    ultimately have "mm_continues p d (mmpUbloxChecksumA u d)"
      using f b(5) by (intro mm_continuesI [of _ q] mm_inv_ublox) (simp_all add: q_def u_def)
    then show ?thesis using True by (simp add: u_def)
  next
    case False
    define q where "q = (mmpSafePrintf (mm_printDebug u) (MmpBadChecksumA d (ublox_checksumA u)) (mm_failed 2 u))\<lparr>mm_state := Some MmpFirstByte\<rparr>"
    have "mmpUbloxChecksumA u d = Inr (q, False)" using False ck b(3) by (simp add: mmpUbloxChecksumA_def q_def mmp_constants)
    moreover have "mm_inv q" "mm_state q = Some MmpFirstByte" "mm_reports [] p q" using f b(5) by (simp_all add: q_def u_def mm_inv_def)
    ultimately show ?thesis using False by (simp add: u_def)
  qed
qed

lemma ublox_ck_b:
  assumes "mm_inv p" and "ublox_at p" and "mm_length p < mm_bufferLength p" and "mm_state p = Some MmpUbloxChecksumB"
  shows "mm_ends 2 p (mm_message p @ [d]) (mmpUbloxChecksumB (mm_fed p d) d)"
proof -
  note f = ublox_fed [OF assms(1-3), of d]
  define u where "u = mm_fed p d"
  define m where "m = mm_message p @ [d]"
  define n where "n = length (mm_message p)"
  have b: "mm_message p ! 0 = 0xB5" "mm_message p ! 1 = 0x62" "mm_sum p = fletcher (take (n - 3) (drop 2 (mm_message p)))"
      "7 \<le> n" "mm_lengthBytes p = 0" "n = 7 + unat (le16 (mm_message p ! 4) (mm_message p ! 5))"
      "last (mm_message p) = fst (mm_sum p)"
    using assms(1,2,4) by (simp_all add: ublox_at_def Let_def mm_inv_def n_def)
  have ck: "ublox_checksumB u = snd (mm_sum p)" by (simp add: mm_sum_def mmp_scratch u_def)
  have "mm_message p \<noteq> []" using b(4) by (auto simp: n_def)
  then have ck1: "mm_message p ! (n - 1) = fst (mm_sum p)" using b(7) by (simp add: last_conv_nth n_def)
  have m: "length m = Suc n" "m ! (n - 1) = fst (mm_sum p)" "m ! n = d" "m ! 4 = mm_message p ! 4" "m ! 5 = mm_message p ! 5"
      "m ! 0 = 0xB5" "m ! 1 = 0x62" "take (n - 3) (drop 2 m) = take (n - 3) (drop 2 (mm_message p))"
    using b(1,2,4) ck1 by (auto simp: m_def n_def nth_append)
  have "ublox_shape m" using m b(4,6) by (simp add: ublox_shape_def)
  then have valid: "mm_valid 2 m \<longleftrightarrow> d = snd (mm_sum p)"
    using m(1-3,8) b(3,4) by (auto simp: mm_valid_def ublox_valid_def numeral_2_eq_2 prod_eq_iff)
  define w where "w = (if mm_valid 2 m then mm_completed 2 u
    else mmpSafePrintf (mm_printDebug u) (MmpBadChecksumB d (ublox_checksumB u)) (mm_failed 2 u))"
  have w: "wf_mm w" "mm_lengthBytes w = 0" "mm_reports (if mm_valid 2 m then [(2, m)] else []) p w"
    using f b(5) mm_completed_report [OF f(3), of 2] mm_reports_trans [OF f(4)] by (auto simp: w_def u_def m_def)
  have "mmpUbloxChecksumB u d = Inr (w\<lparr>mm_state := Some MmpFirstByte\<rparr>, False)"
    using valid ck by (simp add: mmpUbloxChecksumB_def w_def mmp_constants Let_def)
  then have "mm_ends 2 p m (mmpUbloxChecksumB u d)"
    using w by (intro mm_endsI [where acc = "mm_valid 2 m" and b = False and q = "w\<lparr>mm_state := Some MmpFirstByte\<rparr>"]) simp_all
  then show ?thesis by (simp add: m_def u_def)
qed

section \<open>One byte\<close>

definition mm_sound :: "mmp \<Rightarrow> mmp \<Rightarrow> bool" where
  "mm_sound p q \<longleftrightarrow> (\<exists>ds. mm_reports ds p q \<and> (mm_badCrc p = None \<longrightarrow> list_all (\<lambda>(t, m). mm_valid t m) ds))"

lemma mm_soundI: "mm_reports ds p q \<Longrightarrow> (mm_badCrc p = None \<longrightarrow> list_all (\<lambda>(t, m). mm_valid t m) ds) \<Longrightarrow> mm_sound p q"
  unfolding mm_sound_def by (rule exI [of _ ds]) (rule conjI)

lemma mm_sound_trans: "mm_sound p q \<Longrightarrow> mm_sound q r \<Longrightarrow> mm_sound p r"
proof -
  assume "mm_sound p q" "mm_sound q r"
  then obtain ds es where a: "mm_reports ds p q" "mm_badCrc p = None \<longrightarrow> list_all (\<lambda>(t, m). mm_valid t m) ds"
      "mm_reports es q r" "mm_badCrc q = None \<longrightarrow> list_all (\<lambda>(t, m). mm_valid t m) es"
    unfolding mm_sound_def by (elim exE conjE)
  moreover have "mm_badCrc q = mm_badCrc p" using a(1) by (simp add: mm_reports_def)
  ultimately show ?thesis using mm_soundI [OF mm_reports_trans [OF a(1,3)]] by simp
qed

definition mm_safe :: "mmp \<Rightarrow> (mmp \<times> bool) res \<Rightarrow> bool" where
  "mm_safe p res \<longleftrightarrow> (\<exists>q b. res = Inr (q, b) \<and> mm_inv q \<and> mm_sound p q)"

lemma mm_safeI: "res = Inr (q, b) \<Longrightarrow> mm_inv q \<Longrightarrow> mm_sound p q \<Longrightarrow> mm_safe p res"
  unfolding mm_safe_def by (rule exI [of _ q], rule exI [of _ b]) (intro conjI)

lemma mm_continues_safe: "mm_continues p d res \<Longrightarrow> mm_safe p res"
  unfolding mm_continues_def by (elim exE conjE, erule mm_safeI) (simp_all add: mm_soundI [of "[]"])

lemma mm_ends_safe:
  assumes "mm_ends t p m res"
  shows "mm_safe p res"
proof -
  obtain q b acc where a: "res = Inr (q, b)" "mm_inv q" "mm_reports (if acc then [(t, m)] else []) p q"
      "mm_badCrc p = None \<longrightarrow> acc \<longrightarrow> mm_valid t m"
    using assms unfolding mm_ends_def by (elim exE conjE)
  then have "mm_sound p q" by (intro mm_soundI [OF a(3)]) simp
  then show ?thesis using a(1,2) by (rule mm_safeI [rotated 2])
qed

lemma mm_first_safe:
  assumes "wf_mm p'" and "mm_lengthBytes p' = 0" and "mm_sound p p'"
  shows "mm_safe p (mmpFirstByte p' d)"
proof -
  obtain q b where q: "mmpFirstByte p' d = Inr (q, b)" "mm_inv q" "mm_reports [] p' q"
    by (rule mm_first [OF assms(1,2), of d])
  have "mm_sound p' q" by (rule mm_soundI [OF q(3)]) simp
  then show ?thesis using mm_safeI [OF q(1,2)] mm_sound_trans [OF assms(3)] by blast
qed

lemma mm_restarts_safe:
  assumes "mm_restarts p d res"
  shows "mm_safe p res"
proof -
  obtain p' ds where a: "res = mmpFirstByte p' d" "wf_mm p'" "mm_lengthBytes p' = 0" "mm_reports ds p p'"
      "mm_badCrc p = None \<longrightarrow> list_all (\<lambda>(t, m). mm_valid t m) ds"
    using assms unfolding mm_restarts_def by (elim exE conjE)
  show ?thesis unfolding a(1) using a(2,3) mm_soundI [OF a(4,5)] by (rule mm_first_safe)
qed

lemmas mm_safe_rules = mm_continues_safe mm_ends_safe mm_restarts_safe

lemma mm_processes:
  assumes "mm_inv p" and "mm_length p < mm_bufferLength p" and "mm_state p = Some s"
  shows "mmpProcessByte (Some p) d = rbind (call_mmpState s (mm_fed p d) d) (\<lambda>(q, b). Inr (Some q, b))"
  using assms mmp_feed_eq(1) [of p d] by (auto simp: mmpProcessByte_def mm_inv_def)

lemma mm_handler_safe:
  assumes "mm_inv p" and "mm_length p < mm_bufferLength p" and "mm_state p = Some s"
  shows "mm_safe p (call_mmpState s (mm_fed p d) d) \<or> mm_hazard p \<and> call_mmpState s (mm_fed p d) d = Inl OutOfBounds"
proof -
  note i = assms(1)
  have wf: "wf_mm p" using i by (simp add: mm_inv_def)
  consider "s = MmpFirstByte" | (S) "semp_at p" | (N) "nmea_at p" | (U) "ublox_at p"
    using i assms(3) by (auto simp: mm_inv_def)
  then show ?thesis
  proof cases
    case 1
    note f = mmp_feed_eq [OF wf assms(2), of d]
    have "mm_safe p (mmpFirstByte (mm_fed p d) d)"
      using f i 1 assms(3) by (intro mm_first_safe mm_soundI [OF f(4)]) (simp_all add: mm_inv_idle)
    then show ?thesis using 1 by simp
  next
    case S
    then consider "s = MmpSempSync2" | "s = MmpSempSync3" | "s = MmpSempReadHeader" | "s = MmpSempReadData" | "s = MmpSempReadCrc"
      using assms(3) by (cases s) (auto simp: semp_at_def Let_def)
    then have "mm_safe p (call_mmpState s (mm_fed p d) d)"
    proof cases
      case 1
      then show ?thesis using semp_sync [OF i S assms(2,3), of "0x44" d] mm_safe_rules by (auto split: if_splits)
    next
      case 2
      then show ?thesis using semp_sync [OF i S assms(2,3), of "0x18" d] mm_safe_rules by (auto split: if_splits)
    next
      case 3
      then show ?thesis using semp_header [OF i S assms(2), of d] assms(3) mm_safe_rules by (auto split: if_splits)
    next
      case 4
      then show ?thesis using semp_data [OF i S assms(2), of d] assms(3) mm_safe_rules by auto
    next
      case 5
      then show ?thesis using semp_crc_byte [OF i S assms(2), of d] assms(3) mm_safe_rules by (auto split: if_splits)
    qed
    then show ?thesis ..
  next
    case N
    then consider "s = MmpNmeaFindFirstComma" | "s = MmpNmeaFindAsterisk" | "s \<in> {MmpNmeaChecksumByte1, MmpNmeaChecksumByte2}"
      | "s = MmpNmeaLineTermination"
      using assms(3) by (cases s) (auto simp: nmea_at_def)
    then show ?thesis
    proof cases
      case 1
      then show ?thesis using mm_name [OF i N assms(2), of d] assms(3) mm_safe_rules by (auto split: if_splits)
    next
      case 2
      then show ?thesis using mm_body [OF i N assms(2), of d] assms(3) mm_safe_rules by (auto split: if_splits)
    next
      case 3
      then show ?thesis using mm_digit [OF i N assms(2,3) 3, of d] mm_safe_rules by (auto split: if_splits)
    next
      case 4
      then show ?thesis using mm_line [OF i N assms(2), of d] assms(3) mm_safe_rules by (auto split: if_splits)
    qed
  next
    case U
    then consider "s = MmpUbloxSync2" | "s = MmpUbloxReadClass" | "s = MmpUbloxReadMessageId" | "s = MmpUbloxReadLength"
      | "s = MmpUbloxReadData" | "s = MmpUbloxChecksumA" | "s = MmpUbloxChecksumB"
      using assms(3) by (cases s) (auto simp: ublox_at_def Let_def)
    then have "mm_safe p (call_mmpState s (mm_fed p d) d)"
    proof cases
      case 1
      then show ?thesis using ublox_sync [OF i U assms(2), of d] assms(3) mm_safe_rules by (auto split: if_splits)
    next
      case 2
      then show ?thesis using ublox_class [OF i U assms(2), of d] assms(3) mm_safe_rules by auto
    next
      case 3
      then show ?thesis using ublox_id [OF i U assms(2), of d] assms(3) mm_safe_rules by auto
    next
      case 4
      then show ?thesis using ublox_length [OF i U assms(2), of d] assms(3) mm_safe_rules by auto
    next
      case 5
      then show ?thesis using ublox_data [OF i U assms(2), of d] assms(3) mm_safe_rules by auto
    next
      case 6
      then show ?thesis
        using ublox_ck_a [OF i U assms(2), of d] assms(3) mm_continues_safe mm_safeI mm_soundI [of "[]" p]
        by (auto split: if_splits)
    next
      case 7
      then show ?thesis using ublox_ck_b [OF i U assms(2), of d] assms(3) mm_safe_rules by auto
    qed
    then show ?thesis ..
  qed
qed

theorem mm_step:
  assumes "mm_inv p"
  shows "(\<exists>q b. mmpProcessByte (Some p) d = Inr (Some q, b) \<and> mm_inv q \<and> mm_sound p q)
    \<or> mm_hazard p \<and> mmpProcessByte (Some p) d = Inl OutOfBounds"
proof (cases "mm_length p < mm_bufferLength p")
  case True
  obtain s where s: "mm_state p = Some s" using assms by (cases "mm_state p") (auto simp: mm_inv_def semp_at_def nmea_at_def ublox_at_def Let_def)
  note e = mm_processes [OF assms True s, of d]
  from mm_handler_safe [OF assms True s, of d] show ?thesis
  proof
    assume "mm_safe p (call_mmpState s (mm_fed p d) d)"
    then obtain q b where "call_mmpState s (mm_fed p d) d = Inr (q, b)" "mm_inv q" "mm_sound p q"
      unfolding mm_safe_def by (elim exE conjE)
    then show ?thesis using e by auto
  qed (use e in simp)
next
  case False
  define p' where "p' = mmpSafePrintf (mm_printError p) (MmpTooLong (mm_bufferLength p)) p"
  have wf: "wf_mm p" using assms by (simp add: mm_inv_def)
  have "mm_lengthBytes p = 0" using assms False length_mm_message [OF wf] wf by (auto simp: mm_inv_def wf_mm_def word_less_nat_alt)
  then have "mm_safe p (mmpFirstByte p' d)" using wf by (intro mm_first_safe mm_soundI [of "[]"]) (simp_all add: p'_def)
  then obtain q b where q: "mmpFirstByte p' d = Inr (q, b)" "mm_inv q" "mm_sound p q" unfolding mm_safe_def by (elim exE conjE)
  then have "mmpProcessByte (Some p) d = Inr (Some q, b)" using False by (auto simp: mmpProcessByte_def p'_def)
  then show ?thesis using q(2,3) by auto
qed

end
