(* ===== verification/Multi_Stream.thy ===== *)
theory Multi_Stream
  imports Multi_Correct
begin

text \<open>
  Runs of the multi-protocol parser: soundness of what is delivered, the place of a fault, and
  that every message of a stream is delivered, by following it byte by byte.
\<close>

section \<open>A run of the parser\<close>

definition mm_feed :: "mmp option \<Rightarrow> u8 \<Rightarrow> mmp option res" where
  "mm_feed s d = rbind (mmpProcessByte s d) (\<lambda>(s, b). Inr s)"

lemma mm_feed_step:
  assumes "mm_inv p"
  shows "(\<exists>q. mm_feed (Some p) d = Inr (Some q) \<and> mm_inv q \<and> mm_sound p q)
    \<or> mm_hazard p \<and> mm_feed (Some p) d = Inl OutOfBounds"
  using mm_step [OF assms, of d] by (auto simp: mm_feed_def)

lemma mm_run_sound:
  assumes "mm_inv p" and "run mm_feed (Some p) bs = Inr s"
  shows "\<exists>q. s = Some q \<and> mm_inv q \<and> mm_sound p q"
  using assms
proof (induction bs arbitrary: p)
  case Nil
  then show ?case using mm_soundI [of "[]" p p] by auto
next
  case (Cons b bs)
  obtain q where q: "mm_feed (Some p) b = Inr (Some q)" "mm_inv q" "mm_sound p q"
    using mm_feed_step [OF Cons.prems(1), of b] Cons.prems(2) by auto
  moreover from this obtain r where "s = Some r" "mm_inv r" "mm_sound q r" using Cons.IH [OF q(2)] Cons.prems(2) by auto
  ultimately show ?case using mm_sound_trans [of p q r] by simp
qed

lemma mm_run_fault:
  assumes "mm_inv p" and "run mm_feed (Some p) bs = Inl e"
  shows "e = OutOfBounds \<and> (\<exists>as d cs q. bs = as @ d # cs \<and> run mm_feed (Some p) as = Inr (Some q) \<and> mm_hazard q)"
  using assms
proof (induction bs arbitrary: p)
  case Nil
  then show ?case by simp
next
  case (Cons b bs)
  from mm_feed_step [OF Cons.prems(1), of b] show ?case
  proof
    assume "mm_hazard p \<and> mm_feed (Some p) b = Inl OutOfBounds"
    then show ?thesis using Cons.prems(2) by (intro conjI exI [of _ "[]"] exI [of _ b] exI [of _ bs] exI [of _ p]) simp_all
  next
    assume "\<exists>q. mm_feed (Some p) b = Inr (Some q) \<and> mm_inv q \<and> mm_sound p q"
    then obtain q where q: "mm_feed (Some p) b = Inr (Some q)" "mm_inv q" by blast
    then obtain as d cs r where "e = OutOfBounds" "bs = as @ d # cs" "run mm_feed (Some q) as = Inr (Some r)" "mm_hazard r"
      using Cons.IH [OF q(2)] Cons.prems(2) by auto
    then show ?thesis
      using q(1) by (intro conjI exI [of _ "b # as"] exI [of _ d] exI [of _ cs] exI [of _ r]) simp_all
  qed
qed

section \<open>Whole messages\<close>

text \<open>The first byte of the message tells which protocol a state belongs to.\<close>

lemma mm_protocol:
  assumes "mm_inv p" and "mm_state p \<noteq> Some MmpFirstByte" and "mm_message p = a # m"
  shows "a = 0xAA \<Longrightarrow> semp_at p" "a = 0x24 \<Longrightarrow> nmea_at p" "a = 0xB5 \<Longrightarrow> ublox_at p"
proof -
  have s: "semp_at p \<Longrightarrow> a = 0xAA" using assms(3) bt_sync_nth [of 0 "a # m" 0] by (simp add: semp_at_def Let_def)
  have n: "nmea_at p \<Longrightarrow> a = 0x24"
    using assms(3) by (auto simp: nmea_at_def mm_tail_def sentence_def split: option.splits mmpState.splits)
  have u: "ublox_at p \<Longrightarrow> a = 0xB5" using assms(3) by (simp add: ublox_at_def Let_def)
  show "a = 0xAA \<Longrightarrow> semp_at p" "a = 0x24 \<Longrightarrow> nmea_at p" "a = 0xB5 \<Longrightarrow> ublox_at p"
    using assms(1,2) s n u by (auto simp: mm_inv_def)
qed

lemma semp_follow:
  assumes "mm_inv p" and "semp_at p" and "mm_length p < mm_bufferLength p" and "mm_state p = Some s"
    and "bt_shape 0 (mm_message p @ d # ds)"
  shows "if ds = [] then mm_ends 0 p (mm_message p @ [d]) (call_mmpState s (mm_fed p d) d)
    else mm_continues p d (call_mmpState s (mm_fed p d) d)"
proof -
  let ?m = "mm_message p"
  have shape: "24 \<le> length ?m + Suc (length ds)" "bt_sync 0 (?m @ d # ds)" "(?m @ d # ds) ! 3 = 0x14"
    "length ?m + Suc (length ds) = 24 + unat (custom_length (?m @ d # ds))"
    using assms(5) by (simp_all add: bt_shape_def)
  have d: "d = [0xAA, 0x44, 0x18] ! length ?m" if "length ?m < 3" using bt_sync_nth [OF shape(2), of "length ?m"] that by simp
  have l: "custom_length (?m @ d # ds) = custom_length ?m" if "20 \<le> length ?m"
    using that by (simp add: custom_length_def nth_append)
  consider "s = MmpSempSync2" "length ?m = 1" | "s = MmpSempSync3" "length ?m = 2" | "s = MmpSempReadHeader" "length ?m < 20"
    | "s = MmpSempReadData" "20 \<le> length ?m" "length ?m < 20 + unat (custom_length ?m)" | "s = MmpSempReadCrc" "20 \<le> length ?m"
    using assms(2,4) by (cases s) (auto simp: semp_at_def Let_def)
  then show ?thesis
  proof cases
    case 1
    then show ?thesis using semp_sync [OF assms(1-4), of "0x44" d] d shape(1) by auto
  next
    case 2
    then show ?thesis using semp_sync [OF assms(1-4), of "0x18" d] d shape(1) by auto
  next
    case 3
    have "(?m @ [d]) ! 3 = 0x14" if "Suc (length ?m) = 20" using shape(3) that by (simp add: nth_append)
    then show ?thesis using semp_header [OF assms(1-3), of d] 3 assms(4) shape(1) by auto
  next
    case 4
    then show ?thesis using semp_data [OF assms(1-3), of d] assms(4) shape(4) l by auto
  next
    case 5
    then show ?thesis using semp_crc_byte [OF assms(1-3), of d] assms(4) shape(4) l by (cases ds) auto
  qed
qed

lemma ublox_follow:
  assumes "mm_inv p" and "ublox_at p" and "mm_length p < mm_bufferLength p" and "mm_state p = Some s"
    and "ublox_valid (mm_message p @ d # ds)"
  shows "if ds = [] then mm_ends 2 p (mm_message p @ [d]) (call_mmpState s (mm_fed p d) d)
    else mm_continues p d (call_mmpState s (mm_fed p d) d)"
proof -
  let ?m = "mm_message p"
  define f where "f = ?m @ d # ds"
  have shape: "8 \<le> length f" "f ! 1 = 0x62" "length f = 8 + unat (le16 (f ! 4) (f ! 5))"
      "fletcher (take (length f - 4) (drop 2 f)) = (f ! (length f - 2), f ! (length f - 1))"
    using assms(5) unfolding f_def [symmetric] ublox_valid_def ublox_shape_def by blast+
  have n: "length f = length ?m + Suc (length ds)" by (simp add: f_def)
  have l: "f ! 4 = ?m ! 4" "f ! 5 = ?m ! 5" if "6 \<le> length ?m" using that by (simp_all add: f_def nth_append)
  consider "s = MmpUbloxSync2" "length ?m = 1" | "s = MmpUbloxReadClass" "length ?m = 2" | "s = MmpUbloxReadMessageId" "length ?m = 3"
    | "s = MmpUbloxReadLength" "length ?m \<le> 5" | "s = MmpUbloxReadData" "6 \<le> length ?m" "length ?m < 6 + unat (le16 (?m ! 4) (?m ! 5))"
    | "s = MmpUbloxChecksumA" "6 \<le> length ?m" "length ?m = 6 + unat (le16 (?m ! 4) (?m ! 5))"
    | "s = MmpUbloxChecksumB" "7 \<le> length ?m" "length ?m = 7 + unat (le16 (?m ! 4) (?m ! 5))"
    using assms(2,4) by (cases s) (auto simp: ublox_at_def Let_def)
  then show ?thesis
  proof cases
    case 1
    then have "d = 0x62" using shape(2) by (simp add: f_def nth_append)
    then show ?thesis using ublox_sync [OF assms(1-3), of d] 1 assms(4) shape(1) n by auto
  next
    case 2
    then show ?thesis using ublox_class [OF assms(1-3), of d] assms(4) shape(1) n by auto
  next
    case 3
    then show ?thesis using ublox_id [OF assms(1-3), of d] assms(4) shape(1) n by auto
  next
    case 4
    then show ?thesis using ublox_length [OF assms(1-3), of d] assms(4) shape(1) n by auto
  next
    case 5
    then show ?thesis using ublox_data [OF assms(1-3), of d] assms(4) shape(3) n l by auto
  next
    case 6
    then have ds: "length ds = 1" "length f - 2 = length ?m" "length f - 4 = length (drop 2 ?m)" using shape(3) n l by auto
    then have "take (length f - 4) (drop 2 f) = drop 2 ?m" "f ! (length f - 2) = d" using 6(2) by (simp_all add: f_def)
    then have "d = fst (fletcher (drop 2 ?m))" using shape(4) by simp
    then show ?thesis using ublox_ck_a [OF assms(1-3), of d] 6(1) assms(4) ds(1) by auto
  next
    case 7
    then have "ds = []" using shape(3) n l by auto
    then show ?thesis using ublox_ck_b [OF assms(1-3), of d] 7(1) assms(4) by simp
  qed
qed

lemma mm_tail_prefix:
  assumes "mm_tail t p" and "nmea_start h" and "mm_message p @ us = h @ 0x2A # w"
  shows "t @ us = w" and "mm_message p = h @ 0x2A # t"
proof -
  obtain h' where h': "mm_message p = h' @ 0x2A # t" "nmea_start h'" using assms(1) by (auto simp: mm_tail_def)
  have "h' = h \<and> t @ us = w"
    using sentence_no_star [OF h'(2)] sentence_no_star [OF assms(2)] assms(3) h'(1) by (intro first_split) simp_all
  then show "t @ us = w" "mm_message p = h @ 0x2A # t" using h'(1) by simp_all
qed

lemma nmea_follow:
  assumes "mm_inv p" and "nmea_at p" and "mm_length p < mm_bufferLength p" and "mm_state p = Some s"
    and "mm_message p @ d # ds = h @ 0x2A # [x, y, 0x0D]" and "nmea_start h" and "hex_digit x" and "hex_digit y"
    and "length h + 5 \<le> unat (mm_bufferLength p)" and "mm_valid 1 (h @ [0x2A, x, y, 0x0D, 0x0A])"
    and "ds = [] \<longrightarrow> length h + 6 \<le> unat (mm_bufferLength p)"
  shows "if ds = [] then mm_ends 1 p (h @ [0x2A, x, y, 0x0D, 0x0A]) (call_mmpState s (mm_fed p d) d)
    else mm_continues p d (call_mmpState s (mm_fed p d) d)"
proof -
  note eq = assms(5)
  have wf: "wf_mm p" using assms(1) by (simp add: mm_inv_def)
  consider (C) "s = MmpNmeaFindFirstComma" | (A) "s = MmpNmeaFindAsterisk" | (D1) "s = MmpNmeaChecksumByte1" "mm_tail [] p"
    | (D2) a where "s = MmpNmeaChecksumByte2" "mm_tail [a] p" | (L) a b where "s = MmpNmeaLineTermination" "mm_tail [a, b] p"
    using assms(2,4) by (cases s) (auto simp: nmea_at_def)
  then show ?thesis
  proof cases
    case C
    then obtain name where n: "mm_message p = 0x24 # name" "list_all name_char name"
      using assms(2,4) by (auto simp: nmea_at_def)
    then have e: "0x24 # name @ d # ds = h @ [0x2A, x, y, 0x0D]" using eq by simp
    note pre = sentence_name_prefix [OF assms(6) e n(2)]
    have "ds \<noteq> []" using arg_cong [OF e, of length] pre(1) by auto
    then show ?thesis using mm_name [OF assms(1-3), of d] pre n(1) C assms(4) by auto
  next
    case A
    then have b: "nmea_start (mm_message p)" using assms(2,4) by (simp add: nmea_at_def)
    have pre: "length (mm_message p) < length h \<or> d = 0x2A \<and> mm_message p = h"
      by (rule sentence_body_prefix [OF b assms(6) _ eq]) simp
    then have "ds \<noteq> []" using arg_cong [OF eq, of length] by auto
    then show ?thesis using mm_body [OF assms(1-3), of d] pre A assms(4,9) by auto
  next
    case D1
    then have "d # ds = [x, y, 0x0D]" using mm_tail_prefix [OF D1(2) assms(6) eq] by simp
    then show ?thesis using mm_digit [OF assms(1-4), of d] D1(1) assms(7) by auto
  next
    case D2
    then have "[a] @ d # ds = [x, y, 0x0D]" using mm_tail_prefix [OF D2(2) assms(6) eq] by simp
    then show ?thesis using mm_digit [OF assms(1-4), of d] D2(1) assms(8) by auto
  next
    case L
    then have "[a, b] @ d # ds = [x, y, 0x0D]" "mm_message p = h @ 0x2A # [a, b]"
      using mm_tail_prefix [OF L(2) assms(6) eq] by simp_all
    then have l: "ds = []" "d = 0x0D" "mm_message p @ [0x0D, 0x0A] = h @ [0x2A, x, y, 0x0D, 0x0A]" by simp_all
    have "\<not> mm_hazard p" using arg_cong [OF l(3), of length] assms(11) l(1) wf by (simp add: mm_hazard_def wf_mm_def)
    then show ?thesis using mm_line [OF assms(1-3), of d] L(1) l assms(4) by auto
  qed
qed

text \<open>
  The bytes after which a message is complete: an NMEA sentence already at its carriage
  return.
\<close>

definition mm_core :: "u16 \<Rightarrow> u8 list \<Rightarrow> u8 list" where
  "mm_core t f = (if t = 1 then butlast f else f)"

definition mm_fits :: "nat \<Rightarrow> u16 \<Rightarrow> u8 list \<Rightarrow> bool" where
  "mm_fits n t f \<longleftrightarrow> (if t = 1 then length f < n else length f \<le> n)"

lemma mm_core_head:
  assumes "mm_valid t f"
  obtains d ds where "mm_core t f = d # ds" "ds \<noteq> []" "t = 0 \<and> d = 0xAA \<or> t = 1 \<and> d = 0x24 \<or> t = 2 \<and> d = 0xB5"
proof -
  consider "t = 0" "bt_valid 0xFFFFFFFF 0 f" | "t = 1" "nmea_valid f" "hd f = 0x24" | "t = 2" "ublox_valid f"
    using assms by (auto simp: mm_valid_def)
  then show thesis
  proof cases
    case 1
    then obtain g where "f = 0xAA # g" "g \<noteq> []" using bt_shape_hd [of f] by (auto simp: bt_valid_def)
    then show ?thesis using that 1 by (simp add: mm_core_def)
  next
    case 2
    then obtain h x y where "f = h @ [0x2A, x, y, 0x0D, 0x0A]" "sentence {0x24, 0x21} h" by (auto simp: nmea_valid_def)
    then show ?thesis using that [of "hd f" "tl (h @ [0x2A, x, y, 0x0D])"] 2
      by (auto simp: mm_core_def butlast_append sentence_def)
  next
    case 3
    then have "8 \<le> length f" "f ! 0 = 0xB5" by (simp_all add: ublox_valid_def ublox_shape_def)
    then show ?thesis using that [of "hd f" "tl f"] 3 by (cases f; cases "tl f") (auto simp: mm_core_def)
  qed
qed

lemma mm_fits_length: "mm_fits n t f \<Longrightarrow> length f \<le> n"
  by (auto simp: mm_fits_def split: if_splits)

lemma mm_core_room:
  assumes "mm_inv p" and "mm_message p @ d # ds = mm_core t f" and "length f \<le> unat (mm_bufferLength p)"
  shows "mm_length p < mm_bufferLength p"
proof -
  have "length (mm_core t f) \<le> unat (mm_bufferLength p)" using assms(3) by (auto simp: mm_core_def)
  then have "length (mm_message p) < unat (mm_bufferLength p)" using arg_cong [OF assms(2), of length] by simp
  then show ?thesis using length_mm_message [of p] assms(1) by (simp add: mm_inv_def word_less_nat_alt)
qed

lemma mm_follow:
  assumes "mm_inv p" and "mm_state p \<noteq> Some MmpFirstByte" and "mm_message p \<noteq> []"
    and "mm_message p @ d # ds = mm_core t f" and "mm_valid t f" and "length f \<le> unat (mm_bufferLength p)"
    and "mm_state p = Some s" and "ds = [] \<longrightarrow> mm_fits (unat (mm_bufferLength p)) t f"
  shows "if ds = [] then mm_ends t p f (call_mmpState s (mm_fed p d) d) else mm_continues p d (call_mmpState s (mm_fed p d) d)"
proof -
  note room = mm_core_room [OF assms(1,4,6)]
  obtain a m where m: "mm_message p = a # m" using assms(3) by (cases "mm_message p") auto
  obtain a' m' where a': "mm_core t f = a' # m'" "t = 0 \<and> a' = 0xAA \<or> t = 1 \<and> a' = 0x24 \<or> t = 2 \<and> a' = 0xB5"
    by (rule mm_core_head [OF assms(5)])
  then have a: "t = 0 \<and> a = 0xAA \<or> t = 1 \<and> a = 0x24 \<or> t = 2 \<and> a = 0xB5" using assms(4) m by simp
  then consider "t = 0" "semp_at p" | "t = 1" "nmea_at p" "a = 0x24" | "t = 2" "ublox_at p"
    using mm_protocol [OF assms(1,2) m] by auto
  then show ?thesis
  proof cases
    case 1
    then have f: "mm_message p @ d # ds = f" "bt_shape 0 f" using assms(4,5) by (simp_all add: mm_core_def mm_valid_def bt_valid_def)
    then show ?thesis using semp_follow [OF assms(1) 1(2) room assms(7), of d ds] 1(1) by auto
  next
    case 2
    then obtain h x y where f: "f = h @ [0x2A, x, y, 0x0D, 0x0A]" "sentence {0x24, 0x21} h" "hex_digit x" "hex_digit y"
      using assms(5) by (auto simp: mm_valid_def nmea_valid_def)
    then have e: "mm_message p @ d # ds = h @ 0x2A # [x, y, 0x0D]" using assms(4) 2(1) by (simp add: mm_core_def butlast_append)
    then have "nmea_start h" using f(2) m 2(3) by (auto simp: sentence_def)
    moreover have "length h + 5 \<le> unat (mm_bufferLength p)" "ds = [] \<longrightarrow> length h + 6 \<le> unat (mm_bufferLength p)"
      using assms(6,8) 2(1) f(1) by (auto simp: mm_fits_def)
    ultimately show ?thesis
      using nmea_follow [OF assms(1) 2(2) room assms(7) e _ f(3,4)] assms(5) 2(1) f(1) by simp
  next
    case 3
    then have f: "mm_message p @ d # ds = f" "ublox_valid f" using assms(4,5) by (simp_all add: mm_core_def mm_valid_def)
    then show ?thesis using ublox_follow [OF assms(1) 3(2) room assms(7), of d ds] 3(1) by auto
  qed
qed

lemma mm_cases:
  assumes "mm_inv p" and "mm_state p \<noteq> Some MmpFirstByte" and "mm_message p \<noteq> []"
    and "mm_message p @ d # ds = mm_core t f" and "mm_valid t f" and "mm_fits (unat (mm_bufferLength p)) t f"
  obtains (last) q where "ds = []" "mmpProcessByte (Some p) d = Inr (Some q, t = 1)" "mm_inv q" "mm_state q = Some MmpFirstByte"
      "mm_reports [(t, f)] p q"
  | (further) q where "ds \<noteq> []" "mmpProcessByte (Some p) d = Inr (Some q, True)" "mm_inv q" "mm_state q \<noteq> Some MmpFirstByte"
      "mm_message q = mm_message p @ [d]" "mm_reports [] p q"
proof -
  obtain s where s: "mm_state p = Some s"
    using assms(1) by (cases "mm_state p") (auto simp: mm_inv_def semp_at_def nmea_at_def ublox_at_def Let_def)
  note l = mm_fits_length [OF assms(6)]
  note e = mm_processes [OF assms(1) mm_core_room [OF assms(1,4) l] s, of d]
  have f: "if ds = [] then mm_ends t p f (call_mmpState s (mm_fed p d) d) else mm_continues p d (call_mmpState s (mm_fed p d) d)"
    using mm_follow [OF assms(1-5) l s] assms(6) by blast
  show thesis
  proof (cases "ds = []")
    case True
    then have "mm_ends t p f (call_mmpState s (mm_fed p d) d)" using f by simp
    then obtain q b acc where q: "call_mmpState s (mm_fed p d) d = Inr (q, b)" "b \<longleftrightarrow> t = 1" "mm_inv q"
        "mm_state q = Some MmpFirstByte" "mm_reports (if acc then [(t, f)] else []) p q" "mm_valid t f \<longrightarrow> acc"
      unfolding mm_ends_def by (elim exE conjE)
    then have "mm_reports [(t, f)] p q" using assms(5) by simp
    then show ?thesis using True q(1-4) e by (intro last [of q]) simp_all
  next
    case False
    then have "mm_continues p d (call_mmpState s (mm_fed p d) d)" using f by simp
    then obtain q where q: "call_mmpState s (mm_fed p d) d = Inr (q, True)" "mm_inv q" "mm_state q \<noteq> Some MmpFirstByte"
        "mm_message q = mm_message p @ [d]" "mm_reports [] p q"
      unfolding mm_continues_def by (elim exE conjE)
    then show ?thesis using False e by (intro further [of q]) simp_all
  qed
qed

definition mm_idle :: "mmp \<Rightarrow> bool" where
  "mm_idle p \<longleftrightarrow> mm_inv p \<and> mm_state p = Some MmpFirstByte"

lemma mm_idle_step:
  assumes "mm_idle p"
  obtains q where "mmpProcessByte (Some p) d = Inr (Some q, d \<in> {0xAA, 0x24, 0xB5})" "mm_inv q" "mm_reports [] p q"
    "if d \<in> {0xAA, 0x24, 0xB5} then mm_state q \<noteq> Some MmpFirstByte \<and> mm_message q = [d] else mm_state q = Some MmpFirstByte"
    "mm_totalBytes q = mm_totalBytes p + (if mm_length p < mm_bufferLength p then 2 else 1)"
proof -
  define p' where "p' = (if mm_length p < mm_bufferLength p then mm_fed p d
    else mmpSafePrintf (mm_printError p) (MmpTooLong (mm_bufferLength p)) p)"
  have wf: "wf_mm p" "mm_lengthBytes p = 0" "mm_state p = Some MmpFirstByte" using assms by (simp_all add: mm_idle_def mm_inv_def)
  have p': "wf_mm p'" "mm_lengthBytes p' = 0" "mm_reports [] p p'"
      "mm_totalBytes p' = mm_totalBytes p + (if mm_length p < mm_bufferLength p then 1 else 0)"
    using wf mmp_feed_eq [OF wf(1), of d] by (auto simp: p'_def) (simp add: mm_fed_def)
  obtain q b where q: "mmpFirstByte p' d = Inr (q, b)" "mm_inv q" "mm_reports [] p' q"
    "b \<longleftrightarrow> d \<in> {0xAA, 0x24, 0xB5}" "if b then mm_state q \<noteq> Some MmpFirstByte \<and> mm_message q = [d] else mm_state q = Some MmpFirstByte"
    "mm_totalBytes q = mm_totalBytes p' + 1"
    by (rule mm_first [OF p'(1,2), of d])
  have "mmpProcessByte (Some p) d = rbind (mmpFirstByte p' d) (\<lambda>(q, b). Inr (Some q, b))"
    using mm_processes [of p MmpFirstByte d] assms wf(3) by (auto simp: mm_idle_def mmpProcessByte_def p'_def)
  then have "mmpProcessByte (Some p) d = Inr (Some q, d \<in> {0xAA, 0x24, 0xB5})" using q(1,4) by simp
  moreover have "mm_reports [] p q" by (rule mm_reports_quiet [OF p'(3) q(3)])
  ultimately show thesis using q p'(4) by (intro that [of q]) (simp_all split: if_splits)
qed

lemma mm_rest:
  assumes "mm_inv p" and "mm_state p \<noteq> Some MmpFirstByte" and "mm_message p \<noteq> []"
    and "mm_message p @ ds = mm_core t f" and "ds \<noteq> []" and "mm_valid t f" and "mm_fits (unat (mm_bufferLength p)) t f"
  shows "\<exists>q. run mm_feed (Some p) ds = Inr (Some q) \<and> mm_idle q \<and> mm_reports [(t, f)] p q"
  using assms
proof (induction ds arbitrary: p)
  case Nil
  then show ?case by simp
next
  case (Cons d ds)
  show ?case
  proof (cases rule: mm_cases [OF Cons.prems(1-4,6,7)])
    case (1 q)
    then have "mm_feed (Some p) d = Inr (Some q)" by (simp add: mm_feed_def)
    then show ?thesis using 1 by (simp add: mm_idle_def)
  next
    case (2 q)
    have "mm_bufferLength q = mm_bufferLength p" using 2(6) by (simp add: mm_reports_def)
    then obtain r where r: "run mm_feed (Some q) ds = Inr (Some r)" "mm_idle r" "mm_reports [(t, f)] q r"
      using Cons.IH [OF 2(3,4) _ _ 2(1) Cons.prems(6)] Cons.prems(4,7) 2(5) by auto
    have "mm_feed (Some p) d = Inr (Some q)" using 2(2) by (simp add: mm_feed_def)
    moreover have "mm_reports [(t, f)] p r" using mm_reports_trans [OF 2(6) r(3)] by simp
    ultimately show ?thesis using r by simp
  qed
qed

lemma mm_noise:
  assumes "mm_idle p" and "d \<notin> {0xAA, 0x24, 0xB5}"
  obtains q where "mmpProcessByte (Some p) d = Inr (Some q, False)" "mm_idle q" "mm_reports [] p q"
  using mm_idle_step [OF assms(1), of d] assms(2) by (auto simp: mm_idle_def)

lemma mm_core_split: "mm_valid t f \<Longrightarrow> f = mm_core t f @ (if t = 1 then [0x0A] else [])"
  by (auto simp: mm_core_def mm_valid_def nmea_valid_def butlast_append)

lemma mm_message_run:
  assumes "mm_idle p" and "mm_valid t f" and "mm_fits (unat (mm_bufferLength p)) t f"
  shows "\<exists>q. run mm_feed (Some p) f = Inr (Some q) \<and> mm_idle q \<and> mm_reports [(t, f)] p q"
proof -
  obtain d ds where c: "mm_core t f = d # ds" "ds \<noteq> []" "t = 0 \<and> d = 0xAA \<or> t = 1 \<and> d = 0x24 \<or> t = 2 \<and> d = 0xB5"
    by (rule mm_core_head [OF assms(2)])
  then have "d \<in> {0xAA, 0x24, 0xB5}" by auto
  then obtain p' where p': "mmpProcessByte (Some p) d = Inr (Some p', True)" "mm_inv p'" "mm_reports [] p p'"
      "mm_state p' \<noteq> Some MmpFirstByte" "mm_message p' = [d]"
    using mm_idle_step [OF assms(1), of d] by auto
  have "mm_bufferLength p' = mm_bufferLength p" using p'(3) by (simp add: mm_reports_def)
  then obtain q where q: "run mm_feed (Some p') ds = Inr (Some q)" "mm_idle q" "mm_reports [(t, f)] p' q"
    using mm_rest [OF p'(2,4), of ds t f] p'(5) c(1,2) assms(2,3) by auto
  have "mm_feed (Some p) d = Inr (Some p')" using p'(1) by (simp add: mm_feed_def)
  then have core: "run mm_feed (Some p) (mm_core t f) = Inr (Some q)" using q(1) c(1) by simp
  have rep: "mm_reports [(t, f)] p q" using mm_reports_trans [OF p'(3) q(3)] by simp
  show ?thesis
  proof (cases "t = 1")
    case True
    obtain r where r: "mmpProcessByte (Some q) 0x0A = Inr (Some r, False)" "mm_idle r" "mm_reports [] q r"
      by (rule mm_noise [OF q(2), of "0x0A"]) simp_all
    then have "run mm_feed (Some p) (mm_core t f @ [0x0A]) = Inr (Some r)"
      unfolding run_append core by (simp add: mm_feed_def)
    then show ?thesis using r(2) mm_reports_quiet [OF rep r(3)] mm_core_split [OF assms(2)] True by auto
  next
    case False
    then show ?thesis using core q(2) rep mm_core_split [OF assms(2)] by auto
  qed
qed

datatype mm_item = MmMessage u16 "u8 list" | MmNoise u8

fun mm_encode :: "mm_item \<Rightarrow> u8 list" where
  "mm_encode (MmMessage t f) = f"
| "mm_encode (MmNoise b) = [b]"

fun mm_item_ok :: "nat \<Rightarrow> mm_item \<Rightarrow> bool" where
  "mm_item_ok n (MmMessage t f) \<longleftrightarrow> mm_valid t f \<and> mm_fits n t f"
| "mm_item_ok n (MmNoise b) \<longleftrightarrow> b \<notin> {0xAA, 0x24, 0xB5}"

fun mm_decode :: "mm_item \<Rightarrow> (u16 \<times> u8 list) list" where
  "mm_decode (MmMessage t f) = [(t, f)]"
| "mm_decode (MmNoise b) = []"

definition mm_waiting :: "nat \<Rightarrow> mmp option \<Rightarrow> bool" where
  "mm_waiting n s \<longleftrightarrow> (\<exists>p. s = Some p \<and> mm_idle p \<and> unat (mm_bufferLength p) = n)"

definition mm_trace :: "mmp option \<Rightarrow> (u16 \<times> u8 list) list" where
  "mm_trace s = (case s of None \<Rightarrow> [] | Some p \<Rightarrow> mm_delivered p)"

lemma mm_waiting_report:
  "mm_idle q \<Longrightarrow> mm_reports ds p q \<Longrightarrow> mm_waiting (unat (mm_bufferLength p)) (Some q) \<and> mm_trace (Some q) = mm_trace (Some p) @ ds"
  by (simp add: mm_waiting_def mm_reports_def mm_trace_def)

interpretation mm_stream: framed_machine mm_feed "mm_waiting n" "mm_item_ok n" mm_encode mm_decode mm_trace for n
proof
  fix s m
  assume "mm_waiting n s" and m: "mm_item_ok n m"
  then obtain p where p: "s = Some p" "mm_idle p" "unat (mm_bufferLength p) = n" by (auto simp: mm_waiting_def)
  show "\<exists>t. run mm_feed s (mm_encode m) = Inr t \<and> mm_waiting n t \<and> mm_trace t = mm_trace s @ mm_decode m"
  proof (cases m)
    case (MmMessage t f)
    then obtain q where "run mm_feed (Some p) f = Inr (Some q)" "mm_idle q" "mm_reports [(t, f)] p q"
      using mm_message_run [OF p(2), of t f] m p(3) by auto
    then show ?thesis using mm_waiting_report p MmMessage by (intro exI [of _ "Some q"]) auto
  next
    case (MmNoise b)
    then obtain q where "mmpProcessByte (Some p) b = Inr (Some q, False)" "mm_idle q" "mm_reports [] p q"
      using mm_noise [OF p(2), of b] m by auto
    then show ?thesis using mm_waiting_report [of q "[]" p] p MmNoise by (intro exI [of _ "Some q"]) (simp add: mm_feed_def)
  qed
qed

section \<open>Part of a message\<close>

lemma mm_part:
  assumes "mm_inv p" and "mm_state p \<noteq> Some MmpFirstByte" and "mm_message p \<noteq> []"
    and "mm_message p @ ds @ es = mm_core t f" and "es \<noteq> []" and "mm_valid t f" and "length f \<le> unat (mm_bufferLength p)"
  shows "\<exists>q. run mm_feed (Some p) ds = Inr (Some q) \<and> mm_inv q \<and> mm_state q \<noteq> Some MmpFirstByte
    \<and> mm_message q = mm_message p @ ds \<and> mm_reports [] p q"
  using assms
proof (induction ds arbitrary: p)
  case Nil
  then show ?case by simp
next
  case (Cons d ds)
  obtain s where s: "mm_state p = Some s"
    using Cons.prems(1) by (cases "mm_state p") (auto simp: mm_inv_def semp_at_def nmea_at_def ublox_at_def Let_def)
  have c: "mm_message p @ d # (ds @ es) = mm_core t f" using Cons.prems(4) by simp
  have "mm_continues p d (call_mmpState s (mm_fed p d) d)"
    using mm_follow [OF Cons.prems(1-3) c Cons.prems(6,7) s] Cons.prems(5) by simp
  then obtain q where q: "call_mmpState s (mm_fed p d) d = Inr (q, True)" "mm_inv q" "mm_state q \<noteq> Some MmpFirstByte"
      "mm_message q = mm_message p @ [d]" "mm_reports [] p q"
    unfolding mm_continues_def by (elim exE conjE)
  have "mm_feed (Some p) d = Inr (Some q)"
    using mm_processes [OF Cons.prems(1) mm_core_room [OF Cons.prems(1) c Cons.prems(7)] s, of d] q(1) by (simp add: mm_feed_def)
  moreover have "mm_bufferLength q = mm_bufferLength p" using q(5) by (simp add: mm_reports_def)
  then obtain r where r: "run mm_feed (Some q) ds = Inr (Some r)" "mm_inv r" "mm_state r \<noteq> Some MmpFirstByte"
      "mm_message r = mm_message p @ d # ds" "mm_reports [] q r"
    using Cons.IH [OF q(2,3)] q(4) Cons.prems(4-7) by auto
  ultimately show ?case using mm_reports_quiet [OF q(5) r(5)] by (intro exI [of _ r]) simp
qed

lemma mm_part_idle:
  assumes "mm_idle p" and "d # ds @ es = mm_core t f" and "es \<noteq> []" and "mm_valid t f" and "length f \<le> unat (mm_bufferLength p)"
  shows "\<exists>q. run mm_feed (Some p) (d # ds) = Inr (Some q) \<and> mm_inv q \<and> mm_state q \<noteq> Some MmpFirstByte
    \<and> mm_message q = d # ds \<and> mm_reports [] p q"
proof -
  obtain d' ds' where c: "mm_core t f = d' # ds'" "t = 0 \<and> d' = 0xAA \<or> t = 1 \<and> d' = 0x24 \<or> t = 2 \<and> d' = 0xB5"
    by (rule mm_core_head [OF assms(4)])
  then have "d \<in> {0xAA, 0x24, 0xB5}" using assms(2) by auto
  then obtain p' where p': "mmpProcessByte (Some p) d = Inr (Some p', True)" "mm_inv p'" "mm_reports [] p p'"
      "mm_state p' \<noteq> Some MmpFirstByte" "mm_message p' = [d]"
    using mm_idle_step [OF assms(1), of d] by auto
  have "mm_bufferLength p' = mm_bufferLength p" using p'(3) by (simp add: mm_reports_def)
  then obtain q where q: "run mm_feed (Some p') ds = Inr (Some q)" "mm_inv q" "mm_state q \<noteq> Some MmpFirstByte"
      "mm_message q = d # ds" "mm_reports [] p' q"
    using mm_part [OF p'(2,4), of ds es t f] p'(5) assms(2-5) by auto
  have "mm_feed (Some p) d = Inr (Some p')" using p'(1) by (simp add: mm_feed_def)
  then show ?thesis using q mm_reports_quiet [OF p'(3) q(5)] by simp
qed

text \<open>A sentence as long as the buffer is written behind its end.\<close>

lemma mm_overflow:
  assumes "mm_idle p" and "mm_valid 1 f" and "length f = unat (mm_bufferLength p)" and "length (mm_buffer p) = unat (mm_bufferLength p)"
  shows "run mm_feed (Some p) f = Inl OutOfBounds"
proof -
  obtain h x y where f: "f = h @ [0x2A, x, y, 0x0D, 0x0A]" using assms(2) by (auto simp: mm_valid_def nmea_valid_def)
  have core: "mm_core 1 f = (h @ [0x2A, x, y]) @ [0x0D]" by (simp add: mm_core_def f butlast_append)
  obtain d ds where d: "h @ [0x2A, x, y] = d # ds" by (cases h) auto
  have "d # ds @ [0x0D] = mm_core 1 f" unfolding core d by simp
  from mm_part_idle [OF assms(1) this _ assms(2)] obtain q where q: "run mm_feed (Some p) (h @ [0x2A, x, y]) = Inr (Some q)" "mm_inv q" "mm_state q \<noteq> Some MmpFirstByte"
      "mm_message q = h @ [0x2A, x, y]" "mm_reports [] p q"
    using assms(3) unfolding d by auto
  have "hd f = 0x24" using assms(2) by (simp add: mm_valid_def)
  then have "d = 0x24" using d f by (cases h) auto
  then have n: "nmea_at q" using mm_protocol(2) [OF q(2,3), of d ds] q(4) d by simp
  have l: "length (mm_message q) + 2 = unat (mm_bufferLength q)" "length (mm_buffer q) = unat (mm_bufferLength q)"
    using q(4,5) assms(3,4) f by (simp_all add: mm_reports_def)
  have "mm_length q < mm_bufferLength q" using l(1) length_mm_message [of q] q(2) by (simp add: mm_inv_def word_less_nat_alt)
  moreover have s: "mm_state q = Some MmpNmeaLineTermination"
  proof -
    have "0x2A \<in> set (mm_message q)" using q(4) by simp
    moreover have "mm_tail t q \<Longrightarrow> length t = 2" for t
    proof -
      assume t: "mm_tail t q"
      have "nmea_start h" using assms(2) \<open>hd f = 0x24\<close> unfolding f mm_valid_def nmea_valid_line by (auto simp: sentence_def)
      then show "length t = 2" using mm_tail_prefix(1) [OF t, of h "[]" "[x, y]"] q(4) by simp
    qed
    ultimately show ?thesis
      using n sentence_no_star [of "{0x24}" "mm_message q"] name_char_not(2)
      by (auto simp: nmea_at_def list_all_iff split: option.splits mmpState.splits) fastforce+
  qed
  moreover have "mm_hazard q" using l s by (simp add: mm_hazard_def)
  moreover have "mm_valid 1 (mm_message q @ [0x0D, 0x0A])" using assms(2) q(4) f by simp
  ultimately have "mmpNmeaLineTermination (mm_fed q 0x0D) 0x0D = Inl OutOfBounds"
    using mm_line [OF q(2) n, of "0x0D"] by blast
  then have "mm_feed (Some q) 0x0D = Inl OutOfBounds"
    using mm_processes [OF q(2) \<open>mm_length q < mm_bufferLength q\<close> s] by (simp add: mm_feed_def)
  moreover have "run mm_feed (Some p) f = rbind (run mm_feed (Some p) (h @ [0x2A, x, y])) (\<lambda>t. run mm_feed t [0x0D, 0x0A])"
    unfolding f run_append [symmetric] by simp
  ultimately show ?thesis using q(1) by simp
qed

end
