(* ===== verification/Multi_Shared.thy ===== *)
theory Multi_Shared
  imports Multi_Stream
begin

text \<open>
  The entry points of the multi-protocol parser around a byte: setup, whole buffers and
  statistics; and two parsers that share the static objects of the file.
\<close>

section \<open>Setup\<close>

text \<open>
  \<open>mm_begun lb buf n bad p\<close>: a call of \<^verbatim>\<open>mmpInitParser\<close> returned \<open>p\<close> while the static
  \<^verbatim>\<open>lengthBytes\<close> was \<open>lb\<close>. It is 0 when the program starts and whenever no parser
  stands between the two length bytes of a u-blox message; the routine does not set it.
\<close>

definition mm_begun :: "u8 \<Rightarrow> u8 list \<Rightarrow> u16 \<Rightarrow> (MMP_VIEW \<Rightarrow> bool) option \<Rightarrow> mmp \<Rightarrow> bool" where
  "mm_begun lb buf n bad p \<longleftrightarrow>
     (\<exists>pad p0 cb name perr pdbg. mmpInitParser pad lb (Some p0) (Some buf) n (Some cb) bad name perr pdbg = (Some p, True))
     \<and> unat n \<le> length buf"

lemma mm_begunD:
  assumes "mm_begun 0 buf n bad p"
  shows "mm_idle p" "mm_bufferLength p = n" "mm_buffer p = buf" "mm_badCrc p = bad" "mm_log p = []"
    "mm_messagesProcessed p = replicate 8 0" "mm_totalBytes p = 0" "256 \<le> unat n"
  using assms by (auto simp: mm_begun_def mmpInitParser_def mm_idle_def mm_inv_def wf_mm_def mmp_constants word_le_nat_alt
      word_less_nat_alt split: if_splits)

lemma mm_begun_exists:
  assumes "256 \<le> unat n" and "unat n \<le> length buf"
  shows "\<exists>p. mm_begun lb buf n bad p"
  using assms unfolding mm_begun_def mmpInitParser_def
  by (simp add: mmp_constants word_less_nat_alt) blast

lemma mm_init_rejects:
  "parse = None \<or> buf = None \<or> eom = None \<or> n < 256 \<Longrightarrow>
    mmpInitParser pad lb parse buf n eom bad name perr pdbg = (parse, False)"
  by (auto simp: mmpInitParser_def mmp_constants split: option.splits)

section \<open>Statistics\<close>

lemma mm_counted_length [simp]: "length (mm_counted ds c) = length c"
  unfolding mm_counted_def by (induction ds arbitrary: c) (simp_all add: case_prod_unfold)

lemma mm_counted_nth:
  "i < length c \<Longrightarrow> mm_counted ds c ! i = c ! i + of_nat (length (filter (\<lambda>(t, m). unat t = i) ds))"
proof (induction ds arbitrary: c)
  case Nil
  then show ?case by simp
next
  case (Cons x ds)
  have "mm_counted (x # ds) c = mm_counted ds (c[unat (fst x) := c ! unat (fst x) + 1])"
    by (simp add: mm_counted_def case_prod_unfold)
  then show ?case using Cons by (simp add: case_prod_unfold nth_list_update)
qed

lemma mm_statistics:
  assumes "mm_begun 0 buf n bad p" and "run mm_feed (Some p) bs = Inr (Some q)" and "i < 8"
  shows "mm_messagesProcessed q ! i = of_nat (length (filter (\<lambda>(t, m). unat t = i) (mm_delivered q)))"
proof -
  note b = mm_begunD [OF assms(1)]
  have "mm_sound p q" using mm_run_sound [OF _ assms(2)] b(1) by (auto simp: mm_idle_def)
  then obtain ds where "mm_reports ds p q" unfolding mm_sound_def by (elim exE conjE)
  then show ?thesis using b(5,6) assms(3) mm_counted_nth [of i "replicate 8 0" ds] by (simp add: mm_reports_def)
qed

definition mm_active :: "mmp \<Rightarrow> nat list" where
  "mm_active p = filter (\<lambda>i. mm_messagesProcessed p ! i > 0 \<or> mm_crcErrors p ! i > 0) [0..<8]"

definition mm_entry :: "mmp \<Rightarrow> nat \<Rightarrow> MMP_PROTOCOL_STATS" where
  "mm_entry p i = \<lparr>st_protocolName = mmpGetProtocolName i, st_messagesProcessed = mm_messagesProcessed p ! i,
     st_crcErrors = mm_crcErrors p ! i, st_successRate = mm_rate (mm_messagesProcessed p ! i) (mm_crcErrors p ! i)\<rparr>"

lemma mm_stats_loop:
  assumes "i \<le> 8" and "unat m \<le> length stats" and "count \<le> m"
    and "es = map (mm_entry p) (filter (\<lambda>i. mm_messagesProcessed p ! i > 0 \<or> mm_crcErrors p ! i > 0) [i..<8])"
    and "k = min (unat count + length es) (unat m)"
  shows "\<exists>stats'. mmpGetProtocolStats_loop p stats m i count = Inr (stats', of_nat k)
    \<and> length stats' = length stats \<and> take k stats' = take k (take (unat count) stats @ es)"
  using assms
proof (induction p stats m i count arbitrary: es k rule: mmpGetProtocolStats_loop.induct)
  case (1 p stats m i count)
  let ?act = "\<lambda>i. mm_messagesProcessed p ! i > 0 \<or> mm_crcErrors p ! i > 0"
  show ?case
  proof (cases "i < 8 \<and> count < m")
    case False
    then have "k = unat count" "mmpGetProtocolStats_loop p stats m i count = Inr (stats, count)"
      using "1.prems" by (auto simp: mmpGetProtocolStats_loop.simps [of p stats] mmp_constants word_less_nat_alt word_le_nat_alt)
    then show ?thesis using "1.prems" by (simp add: word_le_nat_alt)
  next
    case True
    then have i: "[i..<8] = i # [Suc i..<8]" by (simp add: upt_rec)
    have c: "unat (count + 1) = Suc (unat count)" "count + 1 \<le> m"
      using True by (auto intro!: unat_Suc_below inc_le simp: word_less_nat_alt)
    show ?thesis
    proof (cases "?act i")
      case act: True
      define stats1 where "stats1 = stats[unat count := mm_entry p i]"
      have upd: "upd stats (uint count) (mm_entry p i) = Inr stats1"
        using True "1.prems"(2) by (auto simp: upd_word stats1_def word_less_nat_alt)
      have e: "mm_entry p i = \<lparr>st_protocolName = mmp_protocolNames ! i, st_messagesProcessed = mm_messagesProcessed p ! i,
          st_crcErrors = mm_crcErrors p ! i, st_successRate = mm_rate (mm_messagesProcessed p ! i) (mm_crcErrors p ! i)\<rparr>"
        using True by (simp add: mm_entry_def mmpGetProtocolName_def mmp_constants)
      define es1 where "es1 = map (mm_entry p) (filter ?act [Suc i..<8])"
      have es: "es = mm_entry p i # es1" using "1.prems"(4) act i by (simp add: es1_def)
      have k1: "k = min (unat (count + 1) + length es1) (unat m)" using "1.prems"(5) es c(1) by simp
      have l1: "unat m \<le> length stats1" "Suc i \<le> 8" using "1.prems"(2) True by (simp_all add: stats1_def)
      have "\<exists>stats'. mmpGetProtocolStats_loop p stats1 m (Suc i) (count + 1) = Inr (stats', of_nat k)
          \<and> length stats' = length stats1 \<and> take k stats' = take k (take (unat (count + 1)) stats1 @ es1)" (is "\<exists>s. ?P s")
        by (rule "1.IH"(1) [OF _ refl refl act upd [unfolded e] l1(2,1) c(2) es1_def k1])
          (use True in \<open>simp add: mmp_constants\<close>)
      then obtain s' where s': "?P s'" ..
      have "take (unat (count + 1)) stats1 = take (unat count) stats @ [mm_entry p i]"
        using True "1.prems"(2) unfolding stats1_def c(1) by (intro take_Suc_update) (simp add: word_less_nat_alt)
      then have "take k s' = take k (take (unat count) stats @ es)"
        unfolding conjunct2 [OF conjunct2 [OF s']] es by (simp only: append_assoc append_Cons append_Nil)
      moreover have "mmpGetProtocolStats_loop p stats m i count = mmpGetProtocolStats_loop p stats1 m (Suc i) (count + 1)"
        using True act upd e by (simp add: mmpGetProtocolStats_loop.simps [of p stats] mmp_constants Let_def)
      moreover have "length stats1 = length stats" by (simp add: stats1_def)
      ultimately show ?thesis using s' by auto
    next
      case inact: False
      have "es = map (mm_entry p) (filter ?act [Suc i..<8])" using "1.prems"(4) inact i by simp
      moreover have "mmpGetProtocolStats_loop p stats m i count = mmpGetProtocolStats_loop p stats m (Suc i) count"
        using True inact by (simp add: mmpGetProtocolStats_loop.simps [of p stats] mmp_constants Let_def)
      moreover have "i < MMP_PROTOCOL_COUNT \<and> count < m" "Suc i \<le> 8" using True by (simp_all add: mmp_constants)
      ultimately show ?thesis using "1.IH"(2) [OF _ refl refl inact] "1.prems"(2,3,5) by simp
    qed
  qed
qed

section \<open>Buffers\<close>

lemma mm_loop_step:
  assumes "i < len" and "unat len \<le> length data" and "data ! unat i = d" and "mmpProcessByte s d = Inr (t, go)"
  shows "mmpProcessBuffer_loop s data len i k =
    (if go then mmpProcessBuffer_loop t data len (i + 1) (k + 1) else Inr (t, k + 1))"
proof -
  have "at data (uint i) = Inr d" using assms(1-3) by (simp add: at_word word_less_nat_alt)
  then show ?thesis using assms(1,4) by (simp add: mmpProcessBuffer_loop.simps [of s])
qed

lemma mm_loop_rest:
  assumes "mm_inv p" and "mm_state p \<noteq> Some MmpFirstByte" and "mm_message p \<noteq> []"
    and "mm_message p @ ds = mm_core t f" and "ds \<noteq> []" and "mm_valid t f" and "mm_fits (unat (mm_bufferLength p)) t f"
    and "unat i + length ds \<le> unat len" and "unat len \<le> length data" and "take (length ds) (drop (unat i) data) = ds"
  shows "\<exists>q. mm_idle q \<and> mm_reports [(t, f)] p q \<and> mmpProcessBuffer_loop (Some p) data len i k =
    (if t = 1 then mmpProcessBuffer_loop (Some q) data len (i + of_nat (length ds)) (k + of_nat (length ds))
     else Inr (Some q, k + of_nat (length ds)))"
  using assms
proof (induction ds arbitrary: p i k)
  case Nil
  then show ?case by simp
next
  case (Cons d ds)
  have i: "i < len" using Cons.prems(8) by (simp add: word_less_nat_alt)
  then have n: "unat (i + 1) = Suc (unat i)" by (intro unat_Suc_below) (simp add: word_less_nat_alt)
  have lt: "unat i < length data" using Cons.prems(8,9) by simp
  have d: "data ! unat i = d" and rest: "take (length ds) (drop (unat (i + 1)) data) = ds"
    using Cons.prems(10) lt unfolding n by (simp_all add: Cons_nth_drop_Suc [symmetric])
  show ?case
  proof (cases rule: mm_cases [OF Cons.prems(1-4,6,7)])
    case (1 q)
    then show ?thesis
      using mm_loop_step [OF i Cons.prems(9) d 1(2)] by (intro exI [of _ q]) (simp add: mm_idle_def)
  next
    case (2 q)
    have "mm_bufferLength q = mm_bufferLength p" using 2(6) by (simp add: mm_reports_def)
    then obtain r where r: "mm_idle r" "mm_reports [(t, f)] q r" "mmpProcessBuffer_loop (Some q) data len (i + 1) (k + 1) =
        (if t = 1 then mmpProcessBuffer_loop (Some r) data len (i + 1 + of_nat (length ds)) (k + 1 + of_nat (length ds))
         else Inr (Some r, k + 1 + of_nat (length ds)))"
      using Cons.IH [OF 2(3,4) _ _ 2(1) Cons.prems(6), of "i + 1" "k + 1"] Cons.prems(4,7,8,9) 2(5) n rest by auto
    moreover have "mm_reports [(t, f)] p r" using mm_reports_trans [OF 2(6) r(2)] by simp
    ultimately show ?thesis
      using mm_loop_step [OF i Cons.prems(9) d 2(2)] by (intro exI [of _ r]) (simp add: add.assoc)
  qed
qed

lemma mm_buffer_message:
  assumes "mm_idle p" and "mm_valid t f" and "mm_fits (unat (mm_bufferLength p)) t f" and "length f \<le> unat len"
    and "unat len \<le> length (f @ rest)"
  shows "\<exists>q. mmpProcessBuffer (Some p) (Some (f @ rest)) len = Inr (Some q, of_nat (length f)) \<and> mm_idle q \<and> mm_reports [(t, f)] p q"
proof -
  obtain d ds where c: "mm_core t f = d # ds" "ds \<noteq> []" "t = 0 \<and> d = 0xAA \<or> t = 1 \<and> d = 0x24 \<or> t = 2 \<and> d = 0xB5"
    by (rule mm_core_head [OF assms(2)])
  note f = mm_core_split [OF assms(2)]
  have "d \<in> {0xAA, 0x24, 0xB5}" using c(3) by auto
  then obtain p' where p': "mmpProcessByte (Some p) d = Inr (Some p', True)" "mm_inv p'" "mm_reports [] p p'"
      "mm_state p' \<noteq> Some MmpFirstByte" "mm_message p' = [d]"
    using mm_idle_step [OF assms(1), of d] by auto
  define data where "data = f @ rest"
  have g: "f = d # ds @ (if t = 1 then [0x0A] else [])" using f c(1) by simp
  have len: "Suc (length ds) \<le> unat len" "unat len \<le> length data" using assms(4,5) g by (auto simp: data_def)
  have "0 < len" using len(1) by (simp add: word_less_nat_alt)
  have d: "data ! unat 0 = d" "take (length ds) (drop (unat 1) data) = ds" using g by (simp_all add: data_def)
  have bl: "mm_bufferLength p' = mm_bufferLength p" using p'(3) by (simp add: mm_reports_def)
  obtain q where q: "mm_idle q" "mm_reports [(t, f)] p' q" "mmpProcessBuffer_loop (Some p') data len 1 1 =
      (if t = 1 then mmpProcessBuffer_loop (Some q) data len (1 + of_nat (length ds)) (1 + of_nat (length ds))
       else Inr (Some q, 1 + of_nat (length ds)))"
    using mm_loop_rest [OF p'(2,4), of ds t f 1 len data 1] p'(5) c(1,2) assms(2,3) bl len d(2) by auto
  have rep: "mm_reports [(t, f)] p q" using mm_reports_trans [OF p'(3) q(2)] by simp
  have start: "mmpProcessBuffer (Some p) (Some (f @ rest)) len = mmpProcessBuffer_loop (Some p') data len 1 1"
    using mm_loop_step [OF \<open>0 < len\<close> len(2) d(1) p'(1), of 0] by (simp add: mmpProcessBuffer_def data_def)
  show ?thesis
  proof (cases "t = 1")
    case True
    define i :: u16 where "i = 1 + of_nat (length ds)"
    have lf: "length f = Suc (Suc (length ds))" using g True by simp
    have "Suc (length ds) < 65536" using len(1) unsigned_less [where 'a = nat and w = len] by simp
    then have ui: "unat i = Suc (length ds)" using unat_of_nat_16 [of "Suc (length ds)"] by (simp add: i_def)
    then have "i < len" "data ! unat i = 0x0A" using assms(4) lf g True by (simp_all add: word_less_nat_alt data_def nth_append)
    moreover obtain r where r: "mmpProcessByte (Some q) 0x0A = Inr (Some r, False)" "mm_idle r" "mm_reports [] q r"
      by (rule mm_noise [OF q(1), of "0x0A"]) simp_all
    ultimately have "mmpProcessBuffer_loop (Some q) data len i i = Inr (Some r, i + 1)"
      using mm_loop_step [OF _ len(2) _ r(1), of i i] by simp
    moreover have "i + 1 = of_nat (length f)" using lf by (simp add: i_def)
    ultimately show ?thesis
      using start q(3) True r(2) mm_reports_quiet [OF rep r(3)] unfolding i_def by auto
  next
    case False
    then have "1 + of_nat (length ds) = (of_nat (length f) :: u16)" using g by simp
    then show ?thesis using start q(1,3) False rep by auto
  qed
qed

section \<open>Two parsers\<close>

text \<open>
  Two parsers of one program share the scratch pad and \<^verbatim>\<open>lengthBytes\<close>. \<open>True\<close> selects the
  first one for the next byte.
\<close>

record mm_pair =
  sh_scratchPad :: mem
  sh_lengthBytes :: u8
  sh_first :: mmp
  sh_second :: mmp

definition sh_parser :: "bool \<Rightarrow> mm_pair \<Rightarrow> mmp" where
  "sh_parser w s = (if w then sh_first s else sh_second s)\<lparr>mm_scratchPad := sh_scratchPad s, mm_lengthBytes := sh_lengthBytes s\<rparr>"

definition sh_step :: "bool \<Rightarrow> mm_pair \<Rightarrow> u8 \<Rightarrow> mm_pair res" where
  "sh_step w s d = rbind (mm_feed (Some (sh_parser w s)) d) (\<lambda>r.
     case r of None \<Rightarrow> Inl NullPointer
     | Some p \<Rightarrow> let s = s\<lparr>sh_scratchPad := mm_scratchPad p, sh_lengthBytes := mm_lengthBytes p\<rparr>
         in Inr (if w then s\<lparr>sh_first := p\<rparr> else s\<lparr>sh_second := p\<rparr>))"

lemma sh_run:
  assumes "run mm_feed (Some (sh_parser w s)) bs = Inr (Some q)"
  shows "\<exists>t. run (sh_step w) s bs = Inr t \<and> sh_parser w t = q \<and> sh_scratchPad t = mm_scratchPad q
    \<and> sh_lengthBytes t = mm_lengthBytes q
    \<and> (bs \<noteq> [] \<longrightarrow> (if w then sh_first t = q \<and> sh_second t = sh_second s else sh_second t = q \<and> sh_first t = sh_first s))"
  using assms
proof (induction bs arbitrary: s)
  case Nil
  then show ?case by (auto simp: sh_parser_def)
next
  case (Cons b bs)
  obtain r where r: "mm_feed (Some (sh_parser w s)) b = Inr r" "run mm_feed r bs = Inr (Some q)"
    using Cons.prems by (auto simp: rbind_Inr_iff)
  obtain p where p: "r = Some p"
    using r(1) by (auto simp: mm_feed_def mmpProcessByte_def rbind_Inr_iff)
  define s1 where "s1 = (let s = s\<lparr>sh_scratchPad := mm_scratchPad p, sh_lengthBytes := mm_lengthBytes p\<rparr>
      in if w then s\<lparr>sh_first := p\<rparr> else s\<lparr>sh_second := p\<rparr>)"
  have s1: "sh_step w s b = Inr s1" "sh_parser w s1 = p"
      "if w then sh_first s1 = p \<and> sh_second s1 = sh_second s else sh_second s1 = p \<and> sh_first s1 = sh_first s"
    using r(1) p by (simp_all add: sh_step_def s1_def sh_parser_def Let_def)
  from Cons.IH [of s1] r(2) p s1(2) obtain t where t: "run (sh_step w) s1 bs = Inr t" "sh_parser w t = q"
      "sh_scratchPad t = mm_scratchPad q" "sh_lengthBytes t = mm_lengthBytes q"
      "bs \<noteq> [] \<longrightarrow> (if w then sh_first t = q \<and> sh_second t = sh_second s1 else sh_second t = q \<and> sh_first t = sh_first s1)"
    by auto
  have "bs = [] \<longrightarrow> t = s1 \<and> q = p" using t(1,2) s1(2) by auto
  then show ?case using s1 t by (cases "bs = []") auto
qed

lemma ublox_at_length:
  assumes "ublox_at p" and "length (mm_message p) = n"
  shows "n = 4 \<Longrightarrow> mm_state p = Some MmpUbloxReadLength"
    "6 \<le> n \<Longrightarrow> n = 6 + unat (le16 (mm_message p ! 4) (mm_message p ! 5)) \<Longrightarrow> mm_state p = Some MmpUbloxChecksumA"
  using assms by (auto simp: ublox_at_def Let_def split: option.splits mmpState.splits)

text \<open>A parser whose checksum bytes were overwritten rejects the message.\<close>

lemma mm_checksum_wrong:
  assumes "wf_mm p" and "mm_lengthBytes p = 0" and "mm_state p = Some MmpUbloxChecksumA" and "mm_length p < mm_bufferLength p"
    and "d \<noteq> ublox_checksumA p"
  obtains q where "mm_feed (Some p) d = Inr (Some q)" "mm_idle q" "mm_reports [] p q"
proof -
  note f = mmp_feed_eq [OF assms(1,4), of d]
  define q where "q = (mmpSafePrintf (mm_printDebug (mm_fed p d)) (MmpBadChecksumA d (ublox_checksumA (mm_fed p d)))
      (mm_failed 2 (mm_fed p d)))\<lparr>mm_state := Some MmpFirstByte\<rparr>"
  have "mmpProcessByte (Some p) d = Inr (Some q, False)"
    using f(1) assms(3-5) by (auto simp: mmpProcessByte_def mmpUbloxChecksumA_def q_def mmp_constants mmp_scratch)
  then have "mm_feed (Some p) d = Inr (Some q)" by (simp add: mm_feed_def)
  moreover have "mm_idle q" "mm_reports [] p q" using f(3,4) assms(2) by (simp_all add: q_def mm_idle_def mm_inv_def)
  ultimately show thesis by (rule that)
qed

lemma mm_checksum_lost:
  assumes "wf_mm p" and "mm_lengthBytes p = 0" and "mm_state p = Some MmpUbloxChecksumA" and "mm_length p < mm_bufferLength p"
    and "d \<noteq> ublox_checksumA p"
  shows "\<exists>q. run mm_feed (Some p) [d, e] = Inr (Some q) \<and> mm_reports [] p q"
proof -
  obtain q where q: "mm_feed (Some p) d = Inr (Some q)" "mm_idle q" "mm_reports [] p q"
    by (rule mm_checksum_wrong [OF assms])
  obtain r where r: "mmpProcessByte (Some q) e = Inr (Some r, e \<in> {0xAA, 0x24, 0xB5})" "mm_reports [] q r"
    by (rule mm_idle_step [OF q(2), of e])
  have "mm_feed (Some q) e = Inr (Some r)" using r(1) by (simp add: mm_feed_def)
  then show ?thesis using q(1) mm_reports_quiet [OF q(3) r(2)] by simp
qed

lemma sh_interference:
  assumes "mm_idle (sh_parser True s)" and "mm_idle (sh_parser False s)" and "ublox_valid f"
    and "length f \<le> unat (mm_bufferLength (sh_first s))" and "c + i \<noteq> f ! (length f - 2)"
  shows "\<exists>t1 t2 t3. run (sh_step True) s (take (length f - 2) f) = Inr t1
    \<and> run (sh_step False) t1 [0xB5, 0x62, c, i] = Inr t2
    \<and> run (sh_step True) t2 (drop (length f - 2) f) = Inr t3
    \<and> mm_delivered (sh_first t3) = mm_delivered (sh_first s)"
proof -
  define g where "g = take (length f - 2) f"
  have n: "8 \<le> length f" "f ! 0 = 0xB5" "length f = 8 + unat (le16 (f ! 4) (f ! 5))"
    using assms(3) by (simp_all add: ublox_valid_def ublox_shape_def)
  have "length (drop (length f - 2) f) = 2" using n(1) by simp
  then obtain x y where xy: "drop (length f - 2) f = [x, y]" using list_of_length(1) by blast
  have f: "f = g @ [x, y]" using append_take_drop_id [of "length f - 2" f] xy by (simp add: g_def)
  have x: "f ! (length f - 2) = x" unfolding f by simp
  obtain gs where g: "g = 0xB5 # gs" using n f by (cases g) auto
  have "mm_valid 2 f" using assms(3) by (simp add: mm_valid_def)
  moreover have "0xB5 # gs @ [x, y] = mm_core 2 f" using f g by (simp add: mm_core_def)
  ultimately obtain q where q: "run mm_feed (Some (sh_parser True s)) g = Inr (Some q)" "mm_inv q" "mm_state q \<noteq> Some MmpFirstByte"
      "mm_message q = g" "mm_reports [] (sh_parser True s) q"
    using mm_part_idle [OF assms(1), of "0xB5" gs "[x, y]" 2 f] assms(4) g by (auto simp: sh_parser_def)
  have u: "ublox_at q" using mm_protocol(3) [OF q(2,3), of _ gs] q(4) g by simp
  have "g ! 4 = f ! 4" "g ! 5 = f ! 5" "length g = length f - 2" using n(1) by (simp_all add: g_def)
  then have st: "mm_state q = Some MmpUbloxChecksumA" using ublox_at_length(2) [OF u] q(4) n by simp
  then have lb: "mm_lengthBytes q = 0" "wf_mm q" using q(2) by (simp_all add: mm_inv_def)
  obtain t1 where t1: "run (sh_step True) s g = Inr t1" "sh_first t1 = q" "sh_second t1 = sh_second s"
      "sh_scratchPad t1 = mm_scratchPad q" "sh_lengthBytes t1 = 0"
    using sh_run [OF q(1)] g lb(1) by auto
  have "mm_idle (sh_parser False t1)" using assms(2) t1 by (simp add: sh_parser_def mm_idle_def mm_inv_def)
  moreover have "0xB5 # [0x62, c, i] @ drop 4 (ublox_frame c i []) = mm_core 2 (ublox_frame c i [])" "drop 4 (ublox_frame c i []) \<noteq> []"
      "mm_valid 2 (ublox_frame c i [])"
    using ublox_frame_valid [of "[]" c i] by (simp_all add: ublox_frame_def ublox_body_def mm_core_def mm_valid_def Let_def case_prod_unfold)
  moreover have "length (ublox_frame c i []) \<le> unat (mm_bufferLength (sh_parser False t1))"
    using assms(2) t1(3) by (simp add: sh_parser_def mm_idle_def mm_inv_def wf_mm_def ublox_frame_def ublox_body_def Let_def case_prod_unfold)
  ultimately obtain r where r: "run mm_feed (Some (sh_parser False t1)) [0xB5, 0x62, c, i] = Inr (Some r)" "mm_inv r"
      "mm_state r \<noteq> Some MmpFirstByte" "mm_message r = [0xB5, 0x62, c, i]"
    using mm_part_idle [of "sh_parser False t1" "0xB5" "[0x62, c, i]"] by blast
  have u2: "ublox_at r" using mm_protocol(3) [OF r(2,3)] r(4) by simp
  then have "mm_state r = Some MmpUbloxReadLength" using ublox_at_length(1) [OF u2] r(4) by simp
  then have sum: "ublox_checksumA r = c + i" "mm_lengthBytes r = 0"
    using u2 r(2,4) by (simp_all add: ublox_at_def Let_def mm_sum_def fletcher_def mm_inv_def)
  obtain t2 where t2: "run (sh_step False) t1 [0xB5, 0x62, c, i] = Inr t2" "sh_first t2 = q"
      "sh_scratchPad t2 = mm_scratchPad r" "sh_lengthBytes t2 = 0"
    using sh_run [OF r(1)] t1(2) sum(2) by auto
  have "mm_length q < mm_bufferLength q"
    using length_mm_message [OF lb(2)] q(4,5) assms(4) f by (simp add: word_less_nat_alt mm_reports_def sh_parser_def)
  then obtain w where w: "run mm_feed (Some (sh_parser True t2)) [x, y] = Inr (Some w)" "mm_reports [] (sh_parser True t2) w"
    using mm_checksum_lost [of "sh_parser True t2" x y] t2 lb(2) st sum(1) assms(5) x by (auto simp: sh_parser_def mmp_scratch)
  obtain t3 where "run (sh_step True) t2 [x, y] = Inr t3" "sh_first t3 = w" using sh_run [OF w(1)] by auto
  moreover have "mm_delivered w = mm_delivered (sh_first s)"
    using w(2) q(5) t2(2) by (simp add: mm_reports_def sh_parser_def)
  ultimately show ?thesis
    using t1(1) t2(1) unfolding xy g_def by (intro exI [of _ t1] exI [of _ t2] exI [of _ t3]) (simp del: run.simps)
qed

text \<open>Two parsers set up one after the other\<close>

lemma sh_begun:
  assumes "mm_begun 0 buf1 n1 bad1 p" and "mm_begun 0 buf2 n2 bad2 q"
  shows "mm_idle (sh_parser w \<lparr>sh_scratchPad = pad, sh_lengthBytes = 0, sh_first = p, sh_second = q\<rparr>)"
  using mm_begunD(1) [OF assms(1)] mm_begunD(1) [OF assms(2)] by (simp add: sh_parser_def mm_idle_def mm_inv_def)

section \<open>A parser set up again\<close>

text \<open>
  The routine \<^verbatim>\<open>mmpInitParser\<close> leaves \<^verbatim>\<open>lengthBytes\<close> as it is. After a setup between the two
  length bytes of a message the next length field has one byte only.
\<close>

lemma mm_feed_state:
  assumes "wf_mm p" and "mm_length p < mm_bufferLength p" and "mm_state p = Some s"
    and "call_mmpState s (mm_fed p d) d = Inr (q, b)"
  shows "mm_feed (Some p) d = Inr (Some q)"
  using mmp_feed_eq(1) [OF assms(1,2), of d] assms
  by (simp add: mm_feed_def mmpProcessByte_def not_le [symmetric])

lemma mm_room: "wf_mm p \<Longrightarrow> length (mm_message p) < 256 \<Longrightarrow> mm_length p < mm_bufferLength p"
  using length_mm_message [of p] by (simp add: wf_mm_def word_less_nat_alt)

lemma mm_first_ublox:
  assumes "wf_mm p"
  shows "\<exists>q. mmpFirstByte p 0xB5 = Inr (q, True) \<and> wf_mm q \<and> mm_message q = [0xB5] \<and> mm_reports [] p q
    \<and> mm_state q = Some MmpUbloxSync2 \<and> mm_lengthBytes q = mm_lengthBytes p \<and> mm_scratchPad q = mm_scratchPad p"
proof -
  define p0 where "p0 = p\<lparr>mm_crc := 0, mm_computeCrc := None, mm_length := 0, mm_type := of_nat MMP_PROTOCOL_COUNT\<rparr>"
  have p0: "wf_mm p0" "mm_length p0 < mm_bufferLength p0" "mm_message p0 = []" "mm_reports [] p p0"
    using assms by (auto simp: p0_def wf_mm_def mm_message_def mm_reports_def word_less_nat_alt)
  note f = mm_push_eq [OF p0(1,2), of "0xB5"]
  define q where "q = (mm_pushed p0 0xB5)\<lparr>mm_totalBytes := mm_totalBytes (mm_pushed p0 0xB5) + 1, mm_computeCrc := None,
    mm_state := Some MmpUbloxSync2, mm_type := 2\<rparr>"
  have "mmpFirstByte p 0xB5 = Inr (q, True)"
    using f(1) by (simp add: mmpFirstByte_def p0_def q_def mmp_parserTable_def mmpSempPreamble_def mmpNmeaPreamble_def
        mmpUbloxPreamble_def)
  moreover have "wf_mm q" "mm_message q = [0xB5]" "mm_reports [] p q"
    using f(2,3) p0(3) mm_reports_quiet [OF p0(4) f(4)] by (simp_all add: q_def)
  ultimately show ?thesis by (auto simp: q_def mm_pushed_def p0_def)
qed

definition mm_stale :: "mmp \<Rightarrow> u8 list \<Rightarrow> mmpState \<Rightarrow> mmp \<Rightarrow> bool" where
  "mm_stale p m s q \<longleftrightarrow> wf_mm q \<and> mm_message q = m \<and> mm_state q = Some s \<and> mm_reports [] p q \<and> mm_lengthBytes q = 1
     \<and> mm_ublox_bytesRemaining q = 0"

lemma mm_stale_start:
  assumes "wf_mm p" and "mm_state p = Some MmpFirstByte" and "mm_length p = 0" and "mm_lengthBytes p = 1"
    and "mm_ublox_bytesRemaining p = 0"
  obtains q where "mm_feed (Some p) 0xB5 = Inr (Some q)" "mm_stale p [0xB5] MmpUbloxSync2 q"
proof -
  have room: "mm_length p < mm_bufferLength p" using assms(1,3) by (simp add: wf_mm_def word_less_nat_alt)
  note f = mmp_feed_eq [OF assms(1) room, of "0xB5"]
  obtain q where q: "mmpFirstByte (mm_fed p 0xB5) 0xB5 = Inr (q, True)" "wf_mm q" "mm_message q = [0xB5]"
      "mm_reports [] (mm_fed p 0xB5) q" "mm_state q = Some MmpUbloxSync2" "mm_lengthBytes q = 1"
      "mm_scratchPad q = mm_scratchPad p"
    using mm_first_ublox [OF f(3)] assms(4) by auto
  show thesis
  proof (rule that)
    show "mm_feed (Some p) 0xB5 = Inr (Some q)" using mm_feed_state [OF assms(1) room assms(2)] q(1) by simp
    show "mm_stale p [0xB5] MmpUbloxSync2 q"
      using q mm_reports_quiet [OF f(4) q(4)] assms(5) by (simp add: mm_stale_def mmp_scratch)
  qed
qed

lemma mm_stale_step:
  assumes "mm_stale p m s q" and "length m < 256" and "call_mmpState s (mm_fed q d) d = Inr (r, True)"
    and "wf_mm r = wf_mm (mm_fed q d)" and "mm_message r = mm_message (mm_fed q d)"
    and "mm_reports [] p r = mm_reports [] p (mm_fed q d)" and "mm_lengthBytes r = 1"
    and "mm_ublox_bytesRemaining r = 0" and "mm_state r = Some s'"
  shows "mm_feed (Some q) d = Inr (Some r)" "mm_stale p (m @ [d]) s' r"
proof -
  note q = assms(1) [unfolded mm_stale_def]
  have room: "mm_length q < mm_bufferLength q" using q assms(2) by (intro mm_room) simp_all
  note f = mmp_feed_eq [OF _ room, of d]
  show "mm_feed (Some q) d = Inr (Some r)" using mm_feed_state [OF _ room _ assms(3)] q by simp
  have "mm_reports [] p (mm_fed q d)" using mm_reports_quiet [OF _ f(4)] q by blast
  then show "mm_stale p (m @ [d]) s' r" using assms(4-9) q f by (simp add: mm_stale_def)
qed

lemma mm_stale_head:
  assumes "wf_mm p" and "mm_state p = Some MmpFirstByte" and "mm_length p = 0" and "mm_lengthBytes p = 1"
    and "mm_ublox_bytesRemaining p = 0"
  obtains q where "run mm_feed (Some p) [0xB5, 0x62, c, i] = Inr (Some q)" "mm_stale p [0xB5, 0x62, c, i] MmpUbloxReadLength q"
    "mm_sum q = fletcher [c, i]"
proof -
  obtain q1 where q1: "mm_feed (Some p) 0xB5 = Inr (Some q1)" "mm_stale p [0xB5] MmpUbloxSync2 q1"
    by (rule mm_stale_start [OF assms])
  define q2 where "q2 = (mm_fed q1 0x62)\<lparr>mm_state := Some MmpUbloxReadClass\<rparr>"
  have q2: "mm_feed (Some q1) 0x62 = Inr (Some q2)" "mm_stale p [0xB5, 0x62] MmpUbloxReadClass q2"
    using mm_stale_step [OF q1(2), of "0x62" q2 MmpUbloxReadClass] q1(2)
    by (simp_all add: q2_def mmpUbloxSync2_def mm_stale_def mmp_scratch)
  define q3 where "q3 = (mm_fed q2 c)\<lparr>mm_state := Some MmpUbloxReadMessageId\<rparr>"
  have q3: "mm_feed (Some q2) c = Inr (Some q3)" "mm_stale p [0xB5, 0x62, c] MmpUbloxReadMessageId q3"
    using mm_stale_step [OF q2(2), of c q3 MmpUbloxReadMessageId] q2(2)
    by (simp_all add: q3_def mmpUbloxReadClass_def mm_stale_def mmp_scratch)
  define u where "u = set_ublox_checksumB 0 (set_ublox_checksumA 0 (mm_fed q3 i))"
  have "mm_length q3 < mm_bufferLength q3" using q3(2) by (intro mm_room) (simp_all add: mm_stale_def)
  then have f: "wf_mm (mm_fed q3 i)" "mm_message (mm_fed q3 i) = [0xB5, 0x62, c, i]"
    using mmp_feed_eq [of q3 i] q3(2) by (simp_all add: mm_stale_def)
  then have "mm_back u 2 = Inr c" using mm_back_eq [of u "[0xB5, 0x62]" "[c, i]" 0] by (simp add: u_def mmp_scratch)
  define q4 where "q4 = (mmpUbloxComputeChecksum (mmpUbloxComputeChecksum u c) i)\<lparr>mm_state := Some MmpUbloxReadLength\<rparr>"
  have c: "call_mmpState MmpUbloxReadMessageId (mm_fed q3 i) i = Inr (q4, True)"
    using \<open>mm_back u 2 = Inr c\<close> by (simp add: mmpUbloxReadMessageId_def u_def [symmetric] q4_def Let_def)
  have u: "mm_lengthBytes u = 1" "mm_ublox_bytesRemaining u = 0" "mm_sum u = (0, 0)"
      "wf_mm u = wf_mm (mm_fed q3 i)" "mm_message u = mm_message (mm_fed q3 i)"
      "mm_reports [] p u = mm_reports [] p (mm_fed q3 i)"
    using q3(2) by (simp_all add: u_def mm_stale_def mmp_scratch mm_sum_def layout_simps)
  have "mm_feed (Some q3) i = Inr (Some q4)" "mm_stale p [0xB5, 0x62, c, i] MmpUbloxReadLength q4"
    using mm_stale_step [OF q3(2) _ c, where s' = MmpUbloxReadLength] u
    by (simp_all add: q4_def mm_checksum_step)
  moreover have "mm_sum q4 = fletcher [c, i]" using u(3) by (simp add: q4_def mm_checksum_step fletcher_def)
  ultimately show thesis using q1(1) q2(1) q3(1) by (intro that) simp_all
qed

lemma mm_stale_length:
  assumes "wf_mm p" and "mm_state p = Some MmpFirstByte" and "mm_length p = 0" and "mm_lengthBytes p = 1"
    and "mm_ublox_bytesRemaining p = 0"
  obtains q where "run mm_feed (Some p) [0xB5, 0x62, c, i, 0] = Inr (Some q)" "wf_mm q" "mm_message q = [0xB5, 0x62, c, i, 0]"
    "mm_state q = Some MmpUbloxChecksumA" "mm_reports [] p q" "mm_lengthBytes q = 0" "mm_sum q = (c + i, 3 * c + 2 * i)"
proof -
  obtain q where q: "run mm_feed (Some p) [0xB5, 0x62, c, i] = Inr (Some q)" "mm_stale p [0xB5, 0x62, c, i] MmpUbloxReadLength q"
      "mm_sum q = fletcher [c, i]"
    by (rule mm_stale_head [OF assms])
  note s = q(2) [unfolded mm_stale_def]
  have room: "mm_length q < mm_bufferLength q" using s by (intro mm_room) simp_all
  note f = mmp_feed_eq [OF _ room, of 0]
  have fed: "mm_sum (mm_fed q 0) = mm_sum q" "mm_ublox_bytesRemaining (mm_fed q 0) = mm_ublox_bytesRemaining q"
    by (simp_all add: mm_sum_def mmp_scratch)
  define u where "u = mmpUbloxComputeChecksum (mm_fed q 0) 0"
  define r where "r = (set_mm_ublox_bytesRemaining 0 u)\<lparr>mm_lengthBytes := 0, mm_state := Some MmpUbloxChecksumA\<rparr>"
  have u: "mm_lengthBytes u = 1" "mm_ublox_bytesRemaining u = 0" "mm_sum u = (c + i, 3 * c + 2 * i)"
    using s q(3) fed by (simp_all add: u_def mm_checksum_step fletcher_def algebra_simps)
  have "call_mmpState MmpUbloxReadLength (mm_fed q 0) 0 = Inr (r, True)"
    using u(1,2) by (simp add: mmpUbloxReadLength_def u_def [symmetric] r_def Let_def)
  then have "mm_feed (Some q) 0 = Inr (Some r)" using mm_feed_state [OF _ room] s by blast
  then have "run mm_feed (Some p) ([0xB5, 0x62, c, i] @ [0]) = Inr (Some r)" using q(1) by (simp add: run_append del: append.simps)
  moreover have "wf_mm r" "mm_message r = [0xB5, 0x62, c, i, 0]" "mm_reports [] p r"
    using s f mm_reports_quiet [of "[]" p q "mm_fed q 0"] by (simp_all add: r_def u_def mm_checksum_step)
  ultimately show thesis using u(3) by (intro that [of r]) (simp_all add: r_def)
qed

lemma mm_stale_accepts:
  assumes "wf_mm p" and "mm_message p = m" and "length m < 254" and "mm_state p = Some MmpUbloxChecksumA" and "mm_sum p = (x, y)"
  shows "\<exists>q. run mm_feed (Some p) [x, y] = Inr (Some q) \<and> mm_reports [(2, m @ [x, y])] p q"
proof -
  have r1: "mm_length p < mm_bufferLength p" using assms(1-3) by (intro mm_room) simp_all
  note f = mmp_feed_eq [OF assms(1) r1, of x]
  define q where "q = (mm_fed p x)\<lparr>mm_state := Some MmpUbloxChecksumB\<rparr>"
  have q: "mm_feed (Some p) x = Inr (Some q)"
    using mm_feed_state [OF assms(1) r1 assms(4), of x q True] assms(5)
    by (simp add: mmpUbloxChecksumA_def q_def mm_sum_def mmp_scratch)
  have w: "wf_mm q" "mm_message q = m @ [x]" "mm_reports [] p q" "mm_sum q = (x, y)"
    using f assms(2,5) by (simp_all add: q_def mm_sum_def mmp_scratch)
  have r2: "mm_length q < mm_bufferLength q" using w(1,2) assms(3) by (intro mm_room) simp_all
  note g = mmp_feed_eq [OF w(1) r2, of y]
  define r where "r = (mm_completed 2 (mm_fed q y))\<lparr>mm_state := Some MmpFirstByte\<rparr>"
  have "mm_feed (Some q) y = Inr (Some r)"
    using mm_feed_state [OF w(1) r2, of MmpUbloxChecksumB y r False] w(4)
    by (simp add: mmpUbloxChecksumB_def r_def q_def mm_sum_def mmp_scratch mmp_constants)
  moreover have "mm_reports [(2, m @ [x, y])] p r"
    using mm_reports_trans [OF mm_reports_quiet [OF w(3) g(4)]] mm_completed_report(2) [OF g(3), of 2] g(2) w(2)
    by (simp add: r_def)
  ultimately show ?thesis using q by auto
qed

lemma mm_stale_rejects:
  assumes "wf_mm p" and "mm_lengthBytes p = 0" and "mm_state p = Some MmpUbloxChecksumA" and "mm_length p < mm_bufferLength p"
    and "d \<noteq> ublox_checksumA p" and "e \<notin> {0xAA, 0x24, 0xB5}"
  shows "\<exists>q. run mm_feed (Some p) [d, e, g] = Inr (Some q) \<and> mm_reports [] p q"
proof -
  obtain q where q: "mm_feed (Some p) d = Inr (Some q)" "mm_idle q" "mm_reports [] p q"
    by (rule mm_checksum_wrong [OF assms(1-5)])
  obtain r where r: "mmpProcessByte (Some q) e = Inr (Some r, False)" "mm_idle r" "mm_reports [] q r"
    by (rule mm_noise [OF q(2) assms(6)])
  obtain s where s: "mmpProcessByte (Some r) g = Inr (Some s, g \<in> {0xAA, 0x24, 0xB5})" "mm_reports [] r s"
    by (rule mm_idle_step [OF r(2), of g])
  have "mm_feed (Some q) e = Inr (Some r)" "mm_feed (Some r) g = Inr (Some s)" using r(1) s(1) by (simp_all add: mm_feed_def)
  then show ?thesis using q(1) mm_reports_quiet [OF mm_reports_quiet [OF q(3) r(3)] s(2)] by simp
qed

lemma mm_between_run:
  assumes "mm_begun 0 buf n bad p"
  shows "\<exists>r. run mm_feed (Some p) [0xB5, 0x62, c, i, 0] = Inr (Some r) \<and> mm_lengthBytes r = 1
    \<and> mm_ublox_bytesRemaining r = 0"
proof -
  note b = mm_begunD [OF assms]
  have "0xB5 # [0x62, c, i, 0] @ drop 5 (ublox_frame c i []) = mm_core 2 (ublox_frame c i [])" "drop 5 (ublox_frame c i []) \<noteq> []"
      "mm_valid 2 (ublox_frame c i [])" "length (ublox_frame c i []) = 8"
    using ublox_frame_valid [of "[]" c i]
    by (simp_all add: ublox_frame_def ublox_body_def mm_core_def mm_valid_def Let_def case_prod_unfold byte_of_def)
  then obtain r where r: "run mm_feed (Some p) [0xB5, 0x62, c, i, 0] = Inr (Some r)" "mm_inv r"
      "mm_state r \<noteq> Some MmpFirstByte" "mm_message r = [0xB5, 0x62, c, i, 0]"
    using mm_part_idle [OF b(1), of "0xB5" "[0x62, c, i, 0]" "drop 5 (ublox_frame c i [])" 2 "ublox_frame c i []"] b(2,8)
    by (auto simp del: run.simps)
  have u: "ublox_at r" using mm_protocol(3) [OF r(2,3)] r(4) by simp
  then have "mm_state r = Some MmpUbloxReadLength"
    using r(4) by (auto simp: ublox_at_def Let_def split: option.splits mmpState.splits)
  then have "mm_lengthBytes r = 1" "mm_ublox_bytesRemaining r = 0"
    using u r(2,4) by (simp_all add: ublox_at_def mm_inv_def Let_def)
  then show ?thesis using r(1) by blast
qed

lemma mm_between_lengths:
  assumes "mm_begun 0 buf n bad p" and "run mm_feed (Some p) [0xB5, 0x62, c, i, 0] = Inr (Some q)"
  shows "mm_lengthBytes q = 1" "mm_ublox_bytesRemaining q = 0"
  using mm_between_run [OF assms(1), of c i] assms(2) by auto

lemma mm_init_again:
  assumes "mmpInitParser pad lb (Some p) (Some buf) n (Some cb) bad name perr pdbg = (Some q, True)"
    and "unat n \<le> length buf"
  shows "wf_mm q" "mm_state q = Some MmpFirstByte" "mm_length q = 0" "mm_lengthBytes q = lb" "mm_scratchPad q = pad"
    "mm_delivered q = []"
  using assms by (auto simp: mmpInitParser_def wf_mm_def mmp_constants word_less_nat_alt word_le_nat_alt split: if_splits)

end
