(* ===== verification/Lib_Types.thy ===== *)
theory Lib_Types
  imports Lib_Crc Message_Types
begin

text \<open>
  The data of lib/SparkFun_Extensible_Message_Parser.h, the library that my_parser was
  ported from. The conventions are those of \<open>Message_Types\<close>: routine pointers as
  constructors, callbacks as addresses with their calls in a trace, the scratch union as
  memory. The library is written for Arduino boards with 32-bit pointers and
  \<^verbatim>\<open>size_t\<close>; the offsets in the union are those of such a target.

  The invalid-data callback of the SBF protocol is stored in the scratch union, so it is a
  32-bit address in that memory and can be overwritten by other members. \<open>l_functions\<close>
  are the addresses of the functions of that type in the program; a call to another
  address is a fault.
\<close>

section \<open>Routines\<close>

datatype lib_preamble =
    LNmeaPreamble | LRtcmPreamble | LUbloxPreamble | LUnicoreBinaryPreamble
  | LUnicoreHashPreamble | LSpartnPreamble | LSbfPreamble | LBluetoothPreamble

datatype lib_nmea =
    LNmeaFindFirstComma | LNmeaFindAsterisk | LNmeaChecksumByte1 | LNmeaChecksumByte2
  | LNmeaLineTermination | LNmeaCarriageReturn | LNmeaLineFeed

datatype lib_rtcm =
    LRtcmReadLength1 | LRtcmReadLength2 | LRtcmReadMessage1 | LRtcmReadMessage2
  | LRtcmReadData | LRtcmReadCrc

datatype lib_ublox =
    LUbloxSync2 | LUbloxClass | LUbloxId | LUbloxLength1 | LUbloxLength2 | LUbloxPayload
  | LUbloxCkA | LUbloxCkB

datatype lib_unicoreBinary =
    LUnicoreBinarySync2 | LUnicoreBinarySync3 | LUnicoreBinaryReadHeader
  | LUnicoreBinaryReadData | LUnicoreBinaryReadCrc

datatype lib_unicoreHash =
    LUnicoreHashFindFirstComma | LUnicoreHashFindAsterisk | LUnicoreHashChecksumByte
  | LUnicoreHashLineTermination | LUnicoreHashCarriageReturn | LUnicoreHashLineFeed

datatype lib_spartn =
    LSpartnReadTF002TF006 | LSpartnReadTF007 | LSpartnReadTF009 | LSpartnReadTF016
  | LSpartnReadTF017 | LSpartnReadTF018

datatype lib_sbf =
    LSbfPreamble2 | LSbfCRC1 | LSbfCRC2 | LSbfID1 | LSbfID2 | LSbfLengthLSB
  | LSbfLengthMSB | LSbfReadBytes

datatype lib_bluetooth =
    LBluetoothSync2 | LBluetoothSync3 | LBluetoothReadHeader | LBluetoothReadData
  | LBluetoothReadCrc

text \<open>The values of \<^verbatim>\<open>parse->state\<close>, grouped by the file that has the routine.\<close>

datatype lib_routine =
    LNullRoutine
  | LFirstByte
  | LPreamble lib_preamble
  | LNmea lib_nmea
  | LRtcm lib_rtcm
  | LUblox lib_ublox
  | LUnicoreBinary lib_unicoreBinary
  | LUnicoreHash lib_unicoreHash
  | LSpartn lib_spartn
  | LSbf lib_sbf
  | LBluetooth lib_bluetooth

datatype lib_compute_crc =
  LRtcmComputeCrc24q | LUnicoreBinaryComputeCrc | LBluetoothComputeCrc

section \<open>The trace\<close>

text \<open>One constructor per format string.\<close>

datatype lib_text_output =
    LNmeaBadChecksum u16 u8 u8 u32 | LNmeaInvalidSecondChecksum | LNmeaInvalidFirstChecksum
  | LNmeaSentenceTooLong u32 | LNmeaInvalidNameCharacter u8 | LNmeaNameTooLong
  | LHashBadCrc u16 u32 u32 | LHashSentenceTooLong nat | LHashBadChecksum u16 u8 u8 u32
  | LHashInvalidChecksumCharacter u8 u8 | LHashInvalidNameCharacter u8 | LHashNameTooLong

datatype lib_binary_output =
    LMessageTooLong u32
  | LRtcmBadCrc u16 u16 "u8 list" u32
  | LUbloxBadChecksum "u8 list" u8 u8 | LUbloxInvalidSync2
  | LBluetoothBadCrc "u8 list" u32
  | LUnicoreBinaryBadCrc "u8 list" u32 | LUnicoreHeader "u8 list"
  | LSpartnBadCrc u8 u8 u16 | LSpartnBadHeaderCrc u8 u16
  | LSbfBadCrc u16 u16 | LSbfBadLength u16 | LSbfInvalidPreamble2 u16

datatype lib_begin_output =
    LParserCountMismatch | LNoParserTable | LNoParserNameTable | LNoEomCallback
  | LNoParserName | LNoParsers | LAllocationFailed

datatype lib_allocate_output =
    LScratchPadBytes u16 | LScratchPadAligned u16 | LScratchPadMinimum u16 | LParseBytes int
  | LIncreasingBufferLength u32 | LParseAddress | LScratchPadAddress | LBufferAddress

datatype lib_config_output =
    LConfigTitle | LConfigName string | LConfigParsers | LConfigParserNames
  | LConfigParserCount u16 | LConfigPrintError | LConfigPrintDebug | LConfigScratchPad
  | LConfigComputeCrc | LConfigCrc u32 | LConfigState bool | LConfigEomCallback
  | LConfigBuffer u32 | LConfigLength u16 | LConfigType u16 string

datatype lib_output =
    LText lib_text_output
  | LBinary lib_binary_output
  | LBegin lib_begin_output
  | LAllocate lib_allocate_output
  | LConfig lib_config_output

datatype lib_event =
    LEom callback u16 "u8 list"
  | LBadCrcCall u16 "u8 list"
  | LInvalidData u32 "u8 list"
  | LPrint callback lib_output

section \<open>The parser state\<close>

record lib_view =
  l_buffer :: "u8 list"
  l_length :: u16
  l_bufferLength :: u32
  l_crc :: u32
  l_type :: u16
  l_parserCount :: u16
  l_scratchPad :: mem

record LIB_PARSE_STATE = lib_view +
  l_parserName :: string
  l_parsers :: "lib_preamble list"
  l_parserNames :: "string list option"
  l_state :: lib_routine
  l_eomCallback :: "callback option"
  l_badCrc :: "(lib_view \<Rightarrow> bool) option"
  l_computeCrc :: "lib_compute_crc option"
  l_printError :: "callback option"
  l_printDebug :: "callback option"
  l_functions :: "u32 list"
  l_log :: "lib_event list"

type_synonym lib = LIB_PARSE_STATE

section \<open>The scratch areas\<close>

named_theorems lib_scratch_defs \<open>the accessors of the scratch areas of the library\<close>

definition lib_nmea_sentenceName :: "lib \<Rightarrow> nat \<Rightarrow> u8" where
  [lib_scratch_defs]: "lib_nmea_sentenceName p i = l_scratchPad p i"

definition set_lib_nmea_sentenceName :: "nat \<Rightarrow> u8 \<Rightarrow> lib \<Rightarrow> lib" where
  [lib_scratch_defs]:
    "set_lib_nmea_sentenceName i v p = p\<lparr>l_scratchPad := (l_scratchPad p)(i := v)\<rparr>"

definition lib_nmea_sentenceNameLength :: "lib \<Rightarrow> u8" where
  [lib_scratch_defs]: "lib_nmea_sentenceNameLength p = l_scratchPad p 16"

definition set_lib_nmea_sentenceNameLength :: "u8 \<Rightarrow> lib \<Rightarrow> lib" where
  [lib_scratch_defs]:
    "set_lib_nmea_sentenceNameLength v p = p\<lparr>l_scratchPad := (l_scratchPad p)(16 := v)\<rparr>"

definition lib_rtcm_crc :: "lib \<Rightarrow> u32" where
  [lib_scratch_defs]: "lib_rtcm_crc p = get32 (l_scratchPad p) 0"

definition set_lib_rtcm_crc :: "u32 \<Rightarrow> lib \<Rightarrow> lib" where
  [lib_scratch_defs]:
    "set_lib_rtcm_crc v p = p\<lparr>l_scratchPad := put32 (l_scratchPad p) 0 v\<rparr>"

definition lib_rtcm_bytesRemaining :: "lib \<Rightarrow> u16" where
  [lib_scratch_defs]: "lib_rtcm_bytesRemaining p = get16 (l_scratchPad p) 4"

definition set_lib_rtcm_bytesRemaining :: "u16 \<Rightarrow> lib \<Rightarrow> lib" where
  [lib_scratch_defs]:
    "set_lib_rtcm_bytesRemaining v p = p\<lparr>l_scratchPad := put16 (l_scratchPad p) 4 v\<rparr>"

definition lib_rtcm_message :: "lib \<Rightarrow> u16" where
  [lib_scratch_defs]: "lib_rtcm_message p = get16 (l_scratchPad p) 6"

definition set_lib_rtcm_message :: "u16 \<Rightarrow> lib \<Rightarrow> lib" where
  [lib_scratch_defs]:
    "set_lib_rtcm_message v p = p\<lparr>l_scratchPad := put16 (l_scratchPad p) 6 v\<rparr>"

definition lib_ublox_bytesRemaining :: "lib \<Rightarrow> u16" where
  [lib_scratch_defs]: "lib_ublox_bytesRemaining p = get16 (l_scratchPad p) 0"

definition set_lib_ublox_bytesRemaining :: "u16 \<Rightarrow> lib \<Rightarrow> lib" where
  [lib_scratch_defs]:
    "set_lib_ublox_bytesRemaining v p = p\<lparr>l_scratchPad := put16 (l_scratchPad p) 0 v\<rparr>"

definition lib_ublox_message :: "lib \<Rightarrow> u16" where
  [lib_scratch_defs]: "lib_ublox_message p = get16 (l_scratchPad p) 2"

definition set_lib_ublox_message :: "u16 \<Rightarrow> lib \<Rightarrow> lib" where
  [lib_scratch_defs]:
    "set_lib_ublox_message v p = p\<lparr>l_scratchPad := put16 (l_scratchPad p) 2 v\<rparr>"

definition lib_ublox_ck_a :: "lib \<Rightarrow> u8" where
  [lib_scratch_defs]: "lib_ublox_ck_a p = l_scratchPad p 4"

definition set_lib_ublox_ck_a :: "u8 \<Rightarrow> lib \<Rightarrow> lib" where
  [lib_scratch_defs]:
    "set_lib_ublox_ck_a v p = p\<lparr>l_scratchPad := (l_scratchPad p)(4 := v)\<rparr>"

definition lib_ublox_ck_b :: "lib \<Rightarrow> u8" where
  [lib_scratch_defs]: "lib_ublox_ck_b p = l_scratchPad p 5"

definition set_lib_ublox_ck_b :: "u8 \<Rightarrow> lib \<Rightarrow> lib" where
  [lib_scratch_defs]:
    "set_lib_ublox_ck_b v p = p\<lparr>l_scratchPad := (l_scratchPad p)(5 := v)\<rparr>"

definition lib_unicoreBinary_crc :: "lib \<Rightarrow> u32" where
  [lib_scratch_defs]: "lib_unicoreBinary_crc p = get32 (l_scratchPad p) 0"

definition set_lib_unicoreBinary_crc :: "u32 \<Rightarrow> lib \<Rightarrow> lib" where
  [lib_scratch_defs]:
    "set_lib_unicoreBinary_crc v p = p\<lparr>l_scratchPad := put32 (l_scratchPad p) 0 v\<rparr>"

definition lib_unicoreBinary_bytesRemaining :: "lib \<Rightarrow> u16" where
  [lib_scratch_defs]: "lib_unicoreBinary_bytesRemaining p = get16 (l_scratchPad p) 4"

definition set_lib_unicoreBinary_bytesRemaining :: "u16 \<Rightarrow> lib \<Rightarrow> lib" where
  [lib_scratch_defs]:
    "set_lib_unicoreBinary_bytesRemaining v p = p\<lparr>l_scratchPad := put16 (l_scratchPad p) 4 v\<rparr>"

definition lib_unicoreHash_bytesRemaining :: "lib \<Rightarrow> u8" where
  [lib_scratch_defs]: "lib_unicoreHash_bytesRemaining p = l_scratchPad p 0"

definition set_lib_unicoreHash_bytesRemaining :: "u8 \<Rightarrow> lib \<Rightarrow> lib" where
  [lib_scratch_defs]:
    "set_lib_unicoreHash_bytesRemaining v p = p\<lparr>l_scratchPad := (l_scratchPad p)(0 := v)\<rparr>"

definition lib_unicoreHash_checksumBytes :: "lib \<Rightarrow> u8" where
  [lib_scratch_defs]: "lib_unicoreHash_checksumBytes p = l_scratchPad p 1"

definition set_lib_unicoreHash_checksumBytes :: "u8 \<Rightarrow> lib \<Rightarrow> lib" where
  [lib_scratch_defs]:
    "set_lib_unicoreHash_checksumBytes v p = p\<lparr>l_scratchPad := (l_scratchPad p)(1 := v)\<rparr>"

definition lib_unicoreHash_sentenceName :: "lib \<Rightarrow> nat \<Rightarrow> u8" where
  [lib_scratch_defs]: "lib_unicoreHash_sentenceName p i = l_scratchPad p (2 + i)"

definition set_lib_unicoreHash_sentenceName :: "nat \<Rightarrow> u8 \<Rightarrow> lib \<Rightarrow> lib" where
  [lib_scratch_defs]:
    "set_lib_unicoreHash_sentenceName i v p = p\<lparr>l_scratchPad := (l_scratchPad p)(2 + i := v)\<rparr>"

definition lib_unicoreHash_sentenceNameLength :: "lib \<Rightarrow> u8" where
  [lib_scratch_defs]: "lib_unicoreHash_sentenceNameLength p = l_scratchPad p 18"

definition set_lib_unicoreHash_sentenceNameLength :: "u8 \<Rightarrow> lib \<Rightarrow> lib" where
  [lib_scratch_defs]:
    "set_lib_unicoreHash_sentenceNameLength v p = p\<lparr>l_scratchPad := (l_scratchPad p)(18 := v)\<rparr>"

definition lib_spartn_frameCount :: "lib \<Rightarrow> u16" where
  [lib_scratch_defs]: "lib_spartn_frameCount p = get16 (l_scratchPad p) 0"

definition set_lib_spartn_frameCount :: "u16 \<Rightarrow> lib \<Rightarrow> lib" where
  [lib_scratch_defs]:
    "set_lib_spartn_frameCount v p = p\<lparr>l_scratchPad := put16 (l_scratchPad p) 0 v\<rparr>"

definition lib_spartn_crcBytes :: "lib \<Rightarrow> u16" where
  [lib_scratch_defs]: "lib_spartn_crcBytes p = get16 (l_scratchPad p) 2"

definition set_lib_spartn_crcBytes :: "u16 \<Rightarrow> lib \<Rightarrow> lib" where
  [lib_scratch_defs]:
    "set_lib_spartn_crcBytes v p = p\<lparr>l_scratchPad := put16 (l_scratchPad p) 2 v\<rparr>"

definition lib_spartn_TF007toTF016 :: "lib \<Rightarrow> u16" where
  [lib_scratch_defs]: "lib_spartn_TF007toTF016 p = get16 (l_scratchPad p) 4"

definition set_lib_spartn_TF007toTF016 :: "u16 \<Rightarrow> lib \<Rightarrow> lib" where
  [lib_scratch_defs]:
    "set_lib_spartn_TF007toTF016 v p = p\<lparr>l_scratchPad := put16 (l_scratchPad p) 4 v\<rparr>"

definition lib_spartn_messageType :: "lib \<Rightarrow> u8" where
  [lib_scratch_defs]: "lib_spartn_messageType p = l_scratchPad p 6"

definition set_lib_spartn_messageType :: "u8 \<Rightarrow> lib \<Rightarrow> lib" where
  [lib_scratch_defs]:
    "set_lib_spartn_messageType v p = p\<lparr>l_scratchPad := (l_scratchPad p)(6 := v)\<rparr>"

definition lib_spartn_payloadLength :: "lib \<Rightarrow> u16" where
  [lib_scratch_defs]: "lib_spartn_payloadLength p = get16 (l_scratchPad p) 8"

definition set_lib_spartn_payloadLength :: "u16 \<Rightarrow> lib \<Rightarrow> lib" where
  [lib_scratch_defs]:
    "set_lib_spartn_payloadLength v p = p\<lparr>l_scratchPad := put16 (l_scratchPad p) 8 v\<rparr>"

definition lib_spartn_EAF :: "lib \<Rightarrow> u16" where
  [lib_scratch_defs]: "lib_spartn_EAF p = get16 (l_scratchPad p) 10"

definition set_lib_spartn_EAF :: "u16 \<Rightarrow> lib \<Rightarrow> lib" where
  [lib_scratch_defs]:
    "set_lib_spartn_EAF v p = p\<lparr>l_scratchPad := put16 (l_scratchPad p) 10 v\<rparr>"

definition lib_spartn_crcType :: "lib \<Rightarrow> u8" where
  [lib_scratch_defs]: "lib_spartn_crcType p = l_scratchPad p 12"

definition set_lib_spartn_crcType :: "u8 \<Rightarrow> lib \<Rightarrow> lib" where
  [lib_scratch_defs]:
    "set_lib_spartn_crcType v p = p\<lparr>l_scratchPad := (l_scratchPad p)(12 := v)\<rparr>"

definition lib_spartn_frameCRC :: "lib \<Rightarrow> u8" where
  [lib_scratch_defs]: "lib_spartn_frameCRC p = l_scratchPad p 13"

definition set_lib_spartn_frameCRC :: "u8 \<Rightarrow> lib \<Rightarrow> lib" where
  [lib_scratch_defs]:
    "set_lib_spartn_frameCRC v p = p\<lparr>l_scratchPad := (l_scratchPad p)(13 := v)\<rparr>"

definition lib_spartn_messageSubtype :: "lib \<Rightarrow> u8" where
  [lib_scratch_defs]: "lib_spartn_messageSubtype p = l_scratchPad p 14"

definition set_lib_spartn_messageSubtype :: "u8 \<Rightarrow> lib \<Rightarrow> lib" where
  [lib_scratch_defs]:
    "set_lib_spartn_messageSubtype v p = p\<lparr>l_scratchPad := (l_scratchPad p)(14 := v)\<rparr>"

definition lib_spartn_timeTagType :: "lib \<Rightarrow> u16" where
  [lib_scratch_defs]: "lib_spartn_timeTagType p = get16 (l_scratchPad p) 16"

definition set_lib_spartn_timeTagType :: "u16 \<Rightarrow> lib \<Rightarrow> lib" where
  [lib_scratch_defs]:
    "set_lib_spartn_timeTagType v p = p\<lparr>l_scratchPad := put16 (l_scratchPad p) 16 v\<rparr>"

definition lib_spartn_authenticationIndicator :: "lib \<Rightarrow> u16" where
  [lib_scratch_defs]: "lib_spartn_authenticationIndicator p = get16 (l_scratchPad p) 18"

definition set_lib_spartn_authenticationIndicator :: "u16 \<Rightarrow> lib \<Rightarrow> lib" where
  [lib_scratch_defs]:
    "set_lib_spartn_authenticationIndicator v p = p\<lparr>l_scratchPad := put16 (l_scratchPad p) 18 v\<rparr>"

definition lib_spartn_embeddedApplicationLengthBytes :: "lib \<Rightarrow> u16" where
  [lib_scratch_defs]: "lib_spartn_embeddedApplicationLengthBytes p = get16 (l_scratchPad p) 20"

definition set_lib_spartn_embeddedApplicationLengthBytes :: "u16 \<Rightarrow> lib \<Rightarrow> lib" where
  [lib_scratch_defs]:
    "set_lib_spartn_embeddedApplicationLengthBytes v p = p\<lparr>l_scratchPad := put16 (l_scratchPad p) 20 v\<rparr>"

definition lib_sbf_expectedCRC :: "lib \<Rightarrow> u16" where
  [lib_scratch_defs]: "lib_sbf_expectedCRC p = get16 (l_scratchPad p) 0"

definition set_lib_sbf_expectedCRC :: "u16 \<Rightarrow> lib \<Rightarrow> lib" where
  [lib_scratch_defs]:
    "set_lib_sbf_expectedCRC v p = p\<lparr>l_scratchPad := put16 (l_scratchPad p) 0 v\<rparr>"

definition lib_sbf_computedCRC :: "lib \<Rightarrow> u16" where
  [lib_scratch_defs]: "lib_sbf_computedCRC p = get16 (l_scratchPad p) 2"

definition set_lib_sbf_computedCRC :: "u16 \<Rightarrow> lib \<Rightarrow> lib" where
  [lib_scratch_defs]:
    "set_lib_sbf_computedCRC v p = p\<lparr>l_scratchPad := put16 (l_scratchPad p) 2 v\<rparr>"

definition lib_sbf_sbfID :: "lib \<Rightarrow> u16" where
  [lib_scratch_defs]: "lib_sbf_sbfID p = get16 (l_scratchPad p) 4"

definition set_lib_sbf_sbfID :: "u16 \<Rightarrow> lib \<Rightarrow> lib" where
  [lib_scratch_defs]:
    "set_lib_sbf_sbfID v p = p\<lparr>l_scratchPad := put16 (l_scratchPad p) 4 v\<rparr>"

definition lib_sbf_sbfIDrev :: "lib \<Rightarrow> u8" where
  [lib_scratch_defs]: "lib_sbf_sbfIDrev p = l_scratchPad p 6"

definition set_lib_sbf_sbfIDrev :: "u8 \<Rightarrow> lib \<Rightarrow> lib" where
  [lib_scratch_defs]:
    "set_lib_sbf_sbfIDrev v p = p\<lparr>l_scratchPad := (l_scratchPad p)(6 := v)\<rparr>"

definition lib_sbf_length :: "lib \<Rightarrow> u16" where
  [lib_scratch_defs]: "lib_sbf_length p = get16 (l_scratchPad p) 8"

definition set_lib_sbf_length :: "u16 \<Rightarrow> lib \<Rightarrow> lib" where
  [lib_scratch_defs]:
    "set_lib_sbf_length v p = p\<lparr>l_scratchPad := put16 (l_scratchPad p) 8 v\<rparr>"

definition lib_sbf_bytesRemaining :: "lib \<Rightarrow> u16" where
  [lib_scratch_defs]: "lib_sbf_bytesRemaining p = get16 (l_scratchPad p) 10"

definition set_lib_sbf_bytesRemaining :: "u16 \<Rightarrow> lib \<Rightarrow> lib" where
  [lib_scratch_defs]:
    "set_lib_sbf_bytesRemaining v p = p\<lparr>l_scratchPad := put16 (l_scratchPad p) 10 v\<rparr>"

definition lib_sbf_invalidDataCallback :: "lib \<Rightarrow> u32" where
  [lib_scratch_defs]: "lib_sbf_invalidDataCallback p = get32 (l_scratchPad p) 12"

definition set_lib_sbf_invalidDataCallback :: "u32 \<Rightarrow> lib \<Rightarrow> lib" where
  [lib_scratch_defs]:
    "set_lib_sbf_invalidDataCallback v p = p\<lparr>l_scratchPad := put32 (l_scratchPad p) 12 v\<rparr>"

definition lib_bluetooth_crc :: "lib \<Rightarrow> u32" where
  [lib_scratch_defs]: "lib_bluetooth_crc p = get32 (l_scratchPad p) 0"

definition set_lib_bluetooth_crc :: "u32 \<Rightarrow> lib \<Rightarrow> lib" where
  [lib_scratch_defs]:
    "set_lib_bluetooth_crc v p = p\<lparr>l_scratchPad := put32 (l_scratchPad p) 0 v\<rparr>"

definition lib_bluetooth_bytesRemaining :: "lib \<Rightarrow> u16" where
  [lib_scratch_defs]: "lib_bluetooth_bytesRemaining p = get16 (l_scratchPad p) 4"

definition set_lib_bluetooth_bytesRemaining :: "u16 \<Rightarrow> lib \<Rightarrow> lib" where
  [lib_scratch_defs]:
    "set_lib_bluetooth_bytesRemaining v p = p\<lparr>l_scratchPad := put16 (l_scratchPad p) 4 v\<rparr>"


section \<open>Access to the message buffer\<close>

text \<open>\<^verbatim>\<open>parse->buffer[parse->length++] = data\<close>\<close>

definition lib_push :: "lib \<Rightarrow> u8 \<Rightarrow> lib res" where
  "lib_push p d =
     rbind (upd (l_buffer p) (uint (l_length p)) d)
       (\<lambda>b. Inr (p\<lparr>l_buffer := b, l_length := l_length p + 1\<rparr>))"

text \<open>\<^verbatim>\<open>parse->buffer[parse->length] = data\<close>\<close>

definition lib_put :: "lib \<Rightarrow> u8 \<Rightarrow> lib res" where
  "lib_put p d =
     rbind (upd (l_buffer p) (uint (l_length p)) d) (\<lambda>b. Inr (p\<lparr>l_buffer := b\<rparr>))"

text \<open>\<^verbatim>\<open>parse->buffer[parse->length - k]\<close>\<close>

definition lib_back :: "lib \<Rightarrow> int \<Rightarrow> u8 res" where
  "lib_back p k = at (l_buffer p) (uint (l_length p) - k)"

text \<open>The last \<open>k\<close> bytes, the arguments of the diagnostics of a bad CRC.\<close>

fun lib_last :: "nat \<Rightarrow> lib \<Rightarrow> u8 list res" where
  "lib_last 0 p = Inr []"
| "lib_last (Suc k) p =
     rbind (lib_back p (int (Suc k))) (\<lambda>b. rbind (lib_last k p) (\<lambda>bs. Inr (b # bs)))"

text \<open>The message read so far.\<close>

definition lib_message :: "lib \<Rightarrow> u8 list" where
  "lib_message p = take (unat (l_length p)) (l_buffer p)"

section \<open>Calls to the application\<close>

definition lib_call_eom :: "lib \<Rightarrow> lib res" where
  "lib_call_eom p =
     (case l_eomCallback p of
        None \<Rightarrow> Inl NullPointer
      | Some a \<Rightarrow> Inr (p\<lparr>l_log := l_log p @ [LEom a (l_type p) (lib_message p)]\<rparr>))"

text \<open>\<^verbatim>\<open>ok || (parse->badCrc && (!parse->badCrc(parse)))\<close>\<close>

definition lib_crc_accepted :: "bool \<Rightarrow> lib \<Rightarrow> lib \<times> bool" where
  "lib_crc_accepted ok p =
     (if ok then (p, True)
      else case l_badCrc p of
        None \<Rightarrow> (p, False)
      | Some f \<Rightarrow> (p\<lparr>l_log := l_log p @ [LBadCrcCall (l_type p) (lib_message p)]\<rparr>,
                   \<not> f (lib_view.truncate p)))"

definition sempPrintf_lib :: "callback option \<Rightarrow> lib_output \<Rightarrow> lib \<Rightarrow> lib" where
  "sempPrintf_lib cb m p = (case cb of None \<Rightarrow> p | Some a \<Rightarrow> p\<lparr>l_log := l_log p @ [LPrint a m]\<rparr>)"

text \<open>\<^verbatim>\<open>if (scratchPad->sbf.invalidDataCallback) scratchPad->sbf.invalidDataCallback(parse)\<close>\<close>

definition call_invalidData :: "lib \<Rightarrow> lib res" where
  "call_invalidData p =
     (let a = lib_sbf_invalidDataCallback p
      in if a = 0 then Inr p
         else if a \<in> set (l_functions p)
         then Inr (p\<lparr>l_log := l_log p @ [LInvalidData a (lib_message p)]\<rparr>)
         else Inl WildCall)"

text \<open>The messages delivered to the application, in order: parser index and bytes.\<close>

fun lib_eoms :: "lib_event list \<Rightarrow> (u16 \<times> u8 list) list" where
  "lib_eoms [] = []"
| "lib_eoms (LEom a t bs # es) = (t, bs) # lib_eoms es"
| "lib_eoms (LBadCrcCall t bs # es) = lib_eoms es"
| "lib_eoms (LInvalidData a bs # es) = lib_eoms es"
| "lib_eoms (LPrint a m # es) = lib_eoms es"

lemma lib_eoms_append [simp]: "lib_eoms (xs @ ys) = lib_eoms xs @ lib_eoms ys"
  by (induction xs rule: lib_eoms.induct) simp_all

abbreviation lib_delivered :: "lib \<Rightarrow> (u16 \<times> u8 list) list" where
  "lib_delivered p \<equiv> lib_eoms (l_log p)"

end
