(* ===== verification/Lib_Core.thy ===== *)
theory Lib_Core
  imports Lib_Types Message_Util
begin

text \<open>
  The part of lib/SparkFun_Extensible_Message_Parser.cpp that the protocol files call back
  into, \<^verbatim>\<open>sempFirstByte\<close> and \<^verbatim>\<open>sempAsciiToNibble\<close>, and the entry points and CRC routines of
  the eight protocol files, which it calls.
\<close>

section \<open>Support routines\<close>

definition sempAsciiToNibble :: "int \<Rightarrow> int" where
  "sempAsciiToNibble data =
     (let data = data OR 0x20
      in if data \<ge> 0x61 \<and> data \<le> 0x66 then data - 0x61 + 10
         else if data \<ge> 0x30 \<and> data \<le> 0x39 then data - 0x30
         else -1)"

section \<open>CRC routines\<close>

definition sempRtcmComputeCrc24q_lib :: "lib \<Rightarrow> u8 \<Rightarrow> u32" where
  "sempRtcmComputeCrc24q_lib p data =
     (let c = push_bit 8 (l_crc p)
                XOR semp_crc24qTable ! unat (ucast data XOR (drop_bit 16 (l_crc p) AND 0xff))
      in c AND 0x00ffffff)"

definition sempUnicoreBinaryComputeCrc_lib :: "lib \<Rightarrow> u8 \<Rightarrow> u32" where
  "sempUnicoreBinaryComputeCrc_lib p data =
     (let c = l_crc p
      in semp_crc32Table_lib ! unat ((c XOR ucast data) AND 0xff) XOR drop_bit 8 c)"

definition sempBluetoothComputeCrc_lib :: "lib \<Rightarrow> u8 \<Rightarrow> u32" where
  "sempBluetoothComputeCrc_lib p data =
     (let c = l_crc p
      in semp_crc32Table_lib ! unat ((c XOR ucast data) AND 0xff) XOR drop_bit 8 c)"

fun lib_call_computeCrc :: "lib_compute_crc \<Rightarrow> lib \<Rightarrow> u8 \<Rightarrow> u32" where
  "lib_call_computeCrc LRtcmComputeCrc24q = sempRtcmComputeCrc24q_lib"
| "lib_call_computeCrc LUnicoreBinaryComputeCrc = sempUnicoreBinaryComputeCrc_lib"
| "lib_call_computeCrc LBluetoothComputeCrc = sempBluetoothComputeCrc_lib"

section \<open>Preamble routines\<close>

definition sempNmeaPreamble_lib :: "lib \<Rightarrow> u8 \<Rightarrow> (lib \<times> bool) res" where
  "sempNmeaPreamble_lib p data =
     (if data \<noteq> 0x24 then Inr (p, False)
      else Inr ((set_lib_nmea_sentenceNameLength 0 p)\<lparr>l_state := LNmea LNmeaFindFirstComma\<rparr>, True))"

definition sempRtcmPreamble_lib :: "lib \<Rightarrow> u8 \<Rightarrow> (lib \<times> bool) res" where
  "sempRtcmPreamble_lib p data =
     (if data = 0xd3 then
        let p = p\<lparr>l_computeCrc := Some LRtcmComputeCrc24q\<rparr>;
            p = p\<lparr>l_crc := sempRtcmComputeCrc24q_lib p data\<rparr>
        in Inr (p\<lparr>l_state := LRtcm LRtcmReadLength1\<rparr>, True)
      else Inr (p, False))"

definition sempUbloxPreamble_lib :: "lib \<Rightarrow> u8 \<Rightarrow> (lib \<times> bool) res" where
  "sempUbloxPreamble_lib p data =
     (if data \<noteq> 0xb5 then Inr (p, False) else Inr (p\<lparr>l_state := LUblox LUbloxSync2\<rparr>, True))"

definition sempUnicoreBinaryPreamble_lib :: "lib \<Rightarrow> u8 \<Rightarrow> (lib \<times> bool) res" where
  "sempUnicoreBinaryPreamble_lib p data =
     (if data \<noteq> 0xAA then Inr (p, False)
      else
        let p = p\<lparr>l_crc := 0, l_computeCrc := Some LUnicoreBinaryComputeCrc\<rparr>;
            p = p\<lparr>l_crc := sempUnicoreBinaryComputeCrc_lib p data\<rparr>
        in Inr (p\<lparr>l_state := LUnicoreBinary LUnicoreBinarySync2\<rparr>, True))"

definition sempUnicoreHashPreamble_lib :: "lib \<Rightarrow> u8 \<Rightarrow> (lib \<times> bool) res" where
  "sempUnicoreHashPreamble_lib p data =
     (if data \<noteq> 0x23 then Inr (p, False)
      else Inr ((set_lib_unicoreHash_sentenceNameLength 0 p)
                  \<lparr>l_state := LUnicoreHash LUnicoreHashFindFirstComma\<rparr>, True))"

definition sempSpartnPreamble :: "lib \<Rightarrow> u8 \<Rightarrow> (lib \<times> bool) res" where
  "sempSpartnPreamble p data =
     (if data = 0x73
      then Inr ((set_lib_spartn_frameCount 0 p)\<lparr>l_state := LSpartn LSpartnReadTF002TF006\<rparr>, True)
      else Inr (p, False))"

definition sempSbfPreamble :: "lib \<Rightarrow> u8 \<Rightarrow> (lib \<times> bool) res" where
  "sempSbfPreamble p data =
     (if data = 0x24 then Inr (p\<lparr>l_state := LSbf LSbfPreamble2\<rparr>, True)
      else rbind (call_invalidData p) (\<lambda>p. Inr (p, False)))"

definition sempBluetoothPreamble_lib :: "lib \<Rightarrow> u8 \<Rightarrow> (lib \<times> bool) res" where
  "sempBluetoothPreamble_lib p data =
     (if data \<noteq> 0xAA then Inr (p, False)
      else
        let p = p\<lparr>l_crc := 0xFFFFFFFF, l_computeCrc := Some LBluetoothComputeCrc\<rparr>;
            p = p\<lparr>l_crc := sempBluetoothComputeCrc_lib p data\<rparr>
        in Inr (p\<lparr>l_state := LBluetooth LBluetoothSync2\<rparr>, True))"

fun lib_call_preamble :: "lib_preamble \<Rightarrow> lib \<Rightarrow> u8 \<Rightarrow> (lib \<times> bool) res" where
  "lib_call_preamble LNmeaPreamble = sempNmeaPreamble_lib"
| "lib_call_preamble LRtcmPreamble = sempRtcmPreamble_lib"
| "lib_call_preamble LUbloxPreamble = sempUbloxPreamble_lib"
| "lib_call_preamble LUnicoreBinaryPreamble = sempUnicoreBinaryPreamble_lib"
| "lib_call_preamble LUnicoreHashPreamble = sempUnicoreHashPreamble_lib"
| "lib_call_preamble LSpartnPreamble = sempSpartnPreamble"
| "lib_call_preamble LSbfPreamble = sempSbfPreamble"
| "lib_call_preamble LBluetoothPreamble = sempBluetoothPreamble_lib"

section \<open>The table walk\<close>

text \<open>\<open>n\<close> is the number of turns left, \<^verbatim>\<open>parserCount - index\<close>; no routine changes \<^verbatim>\<open>parserCount\<close>.\<close>

fun sempFirstByte_loop_lib :: "nat \<Rightarrow> nat \<Rightarrow> lib \<Rightarrow> u8 \<Rightarrow> (lib \<times> bool) res" where
  "sempFirstByte_loop_lib 0 index p data = Inr (p\<lparr>l_state := LFirstByte\<rparr>, False)"
| "sempFirstByte_loop_lib (Suc n) index p data =
     rbind (at (l_parsers p) (int index)) (\<lambda>parseRoutine.
     rbind (lib_call_preamble parseRoutine p data) (\<lambda>(p, found).
       if found then Inr (p\<lparr>l_type := of_nat index\<rparr>, True)
       else sempFirstByte_loop_lib n (Suc index) p data))"

definition sempFirstByte_lib :: "lib \<Rightarrow> u8 \<Rightarrow> (lib \<times> bool) res" where
  "sempFirstByte_lib p data =
     rbind (lib_push
              (p\<lparr>l_crc := 0, l_computeCrc := None, l_length := 0, l_type := l_parserCount p\<rparr>) data)
       (\<lambda>p. sempFirstByte_loop_lib (unat (l_parserCount p)) 0 p data)"

fun sempFirstByte_ptr_lib :: "lib option \<Rightarrow> u8 \<Rightarrow> (lib option \<times> bool) res" where
  "sempFirstByte_ptr_lib None data = Inr (None, False)"
| "sempFirstByte_ptr_lib (Some p) data =
     rbind (sempFirstByte_lib p data) (\<lambda>(q, b). Inr (Some q, b))"

end
