(* ===== verification/Lib_Text.thy ===== *)
theory Lib_Text
  imports Lib_Core Parse_NMEA Parse_Unicore_Hash
begin

text \<open>
  The text protocols of the library: lib/Parse_NMEA.cpp and lib/Parse_Unicore_Hash.cpp.
  They differ from the files of my_parser in the widths of the lengths, in what the
  diagnostics print and in that the length of the sentence name counts its terminating
  zero once the name is complete.
\<close>

section \<open>lib/Parse_NMEA.cpp\<close>

definition sempNmeaValidateChecksum_lib :: "lib \<Rightarrow> lib res" where
  "sempNmeaValidateChecksum_lib p =
     rbind (lib_back p 2) (\<lambda>c1.
     rbind (lib_back p 1) (\<lambda>c2.
       let checksum = push_bit 4 (sempAsciiToNibble (uint c1));
           checksum = checksum OR sempAsciiToNibble (uint c2);
           (p, accepted) = lib_crc_accepted (word_of_int checksum = l_crc p) p
       in if accepted then
            rbind (lib_push p 0x0D) (\<lambda>p.
            rbind (lib_push p 0x0A) (\<lambda>p.
            rbind (lib_put p 0) (\<lambda>p.
              lib_call_eom p)))
          else Inr (sempPrintf_lib (l_printDebug p) (LText (LNmeaBadChecksum (l_length p) c1 c2 (l_crc p))) p)))"

definition sempNmeaLineFeed_lib :: "lib \<Rightarrow> u8 \<Rightarrow> (lib \<times> bool) res" where
  "sempNmeaLineFeed_lib p data =
     (let p = p\<lparr>l_length := l_length p - 1\<rparr>
      in if data = 0x0A
         then rbind (sempNmeaValidateChecksum_lib p) (\<lambda>p. Inr (p\<lparr>l_state := LFirstByte\<rparr>, True))
         else rbind (sempNmeaValidateChecksum_lib p) (\<lambda>p. sempFirstByte_lib p data))"

definition sempNmeaCarriageReturn_lib :: "lib \<Rightarrow> u8 \<Rightarrow> (lib \<times> bool) res" where
  "sempNmeaCarriageReturn_lib p data =
     (let p = p\<lparr>l_length := l_length p - 1\<rparr>
      in if data = 0x0D
         then rbind (sempNmeaValidateChecksum_lib p) (\<lambda>p. Inr (p\<lparr>l_state := LFirstByte\<rparr>, True))
         else rbind (sempNmeaValidateChecksum_lib p) (\<lambda>p. sempFirstByte_lib p data))"

definition sempNmeaLineTermination_lib :: "lib \<Rightarrow> u8 \<Rightarrow> (lib \<times> bool) res" where
  "sempNmeaLineTermination_lib p data =
     (let p = p\<lparr>l_length := l_length p - 1\<rparr>
      in if data = 0x0D then Inr (p\<lparr>l_state := LNmea LNmeaLineFeed\<rparr>, True)
         else if data = 0x0A then Inr (p\<lparr>l_state := LNmea LNmeaCarriageReturn\<rparr>, True)
         else rbind (sempNmeaValidateChecksum_lib p) (\<lambda>p. sempFirstByte_lib p data))"

definition sempNmeaChecksumByte2_lib :: "lib \<Rightarrow> u8 \<Rightarrow> (lib \<times> bool) res" where
  "sempNmeaChecksumByte2_lib p data =
     rbind (lib_back p 1) (\<lambda>c.
       if sempAsciiToNibble (uint c) \<ge> 0
       then Inr (p\<lparr>l_state := LNmea LNmeaLineTermination\<rparr>, True)
       else sempFirstByte_lib (sempPrintf_lib (l_printDebug p) (LText LNmeaInvalidSecondChecksum) p) data)"

definition sempNmeaChecksumByte1_lib :: "lib \<Rightarrow> u8 \<Rightarrow> (lib \<times> bool) res" where
  "sempNmeaChecksumByte1_lib p data =
     rbind (lib_back p 1) (\<lambda>c.
       if sempAsciiToNibble (uint c) \<ge> 0
       then Inr (p\<lparr>l_state := LNmea LNmeaChecksumByte2\<rparr>, True)
       else sempFirstByte_lib (sempPrintf_lib (l_printDebug p) (LText LNmeaInvalidFirstChecksum) p) data)"

definition NMEA_BUFFER_OVERHEAD_lib :: nat where
  "NMEA_BUFFER_OVERHEAD_lib = 1 + 2 + 2 + 1"

definition sempNmeaFindAsterisk_lib :: "lib \<Rightarrow> u8 \<Rightarrow> (lib \<times> bool) res" where
  "sempNmeaFindAsterisk_lib p data =
     (if data = 0x2A then Inr (p\<lparr>l_state := LNmea LNmeaChecksumByte1\<rparr>, True)
      else
        let p = p\<lparr>l_crc := l_crc p XOR ucast data\<rparr>
        in if unat (l_length p) + NMEA_BUFFER_OVERHEAD_lib > unat (l_bufferLength p)
           then sempFirstByte_lib
                  (sempPrintf_lib (l_printDebug p) (LText (LNmeaSentenceTooLong (l_bufferLength p))) p) data
           else Inr (p, True))"

text \<open>\<^verbatim>\<open>scratchPad->nmea.sentenceName[scratchPad->nmea.sentenceNameLength++] = data\<close>\<close>

definition lib_nmea_push_name :: "u8 \<Rightarrow> lib \<Rightarrow> lib res" where
  "lib_nmea_push_name data p =
     (let n = lib_nmea_sentenceNameLength p
      in if unat n < 16
         then Inr (set_lib_nmea_sentenceNameLength (n + 1) (set_lib_nmea_sentenceName (unat n) data p))
         else Inl OutOfBounds)"

definition sempNmeaFindFirstComma_lib :: "lib \<Rightarrow> u8 \<Rightarrow> (lib \<times> bool) res" where
  "sempNmeaFindFirstComma_lib p data =
     (let p = p\<lparr>l_crc := l_crc p XOR ucast data\<rparr>
      in if data \<noteq> 0x2C \<or> lib_nmea_sentenceNameLength p = 0
         then
           let upper = data AND NOT 0x20
           in if (upper < 0x41 \<or> upper > 0x5A) \<and> (data < 0x30 \<or> data > 0x39)
              then sempFirstByte_lib
                     (sempPrintf_lib (l_printDebug p) (LText (LNmeaInvalidNameCharacter data)) p) data
              else if lib_nmea_sentenceNameLength p = 15
              then sempFirstByte_lib (sempPrintf_lib (l_printDebug p) (LText LNmeaNameTooLong) p) data
              else rbind (lib_nmea_push_name data p) (\<lambda>p. Inr (p, True))
         else rbind (lib_nmea_push_name 0 p) (\<lambda>p. Inr (p\<lparr>l_state := LNmea LNmeaFindAsterisk\<rparr>, True)))"

text \<open>The state names and the sentence name, for the application.\<close>

definition sempNmeaGetStateName :: "lib \<Rightarrow> string option" where
  "sempNmeaGetStateName p =
     (case l_state p of
        LPreamble LNmeaPreamble \<Rightarrow> Some ''sempNmeaPreamble''
      | LNmea LNmeaFindFirstComma \<Rightarrow> Some ''sempNmeaFindFirstComma''
      | LNmea LNmeaFindAsterisk \<Rightarrow> Some ''sempNmeaFindAsterisk''
      | LNmea LNmeaChecksumByte1 \<Rightarrow> Some ''sempNmeaChecksumByte1''
      | LNmea LNmeaChecksumByte2 \<Rightarrow> Some ''sempNmeaChecksumByte2''
      | LNmea LNmeaLineTermination \<Rightarrow> Some ''sempNmeaLineTermination''
      | LNmea LNmeaCarriageReturn \<Rightarrow> Some ''sempNmeaCarriageReturn''
      | LNmea LNmeaLineFeed \<Rightarrow> Some ''sempNmeaLineFeed''
      | _ \<Rightarrow> None)"

definition sempNmeaGetSentenceName :: "lib \<Rightarrow> u8 list" where
  "sempNmeaGetSentenceName p =
     takeWhile (\<lambda>c. c \<noteq> 0) (map (lib_nmea_sentenceName p) [0..<16])"

section \<open>lib/Parse_Unicore_Hash.cpp\<close>

definition UNICORE_HASH_BUFFER_OVERHEAD_lib :: nat where
  "UNICORE_HASH_BUFFER_OVERHEAD_lib = 1 + 1 + 1"

text \<open>
  \<^verbatim>\<open>do crc = ... while (*++data != '*')\<close>: the index of the asterisk and the CRC of the
  bytes before it. The scan leaves the buffer when there is no asterisk.
\<close>

function lib_hash_crc_loop :: "u8 list \<Rightarrow> nat \<Rightarrow> u32 \<Rightarrow> (nat \<times> u32) res" where
  "lib_hash_crc_loop b i c =
     (if i < length b then
        let c = semp_crc32Table_lib ! unat ((c XOR ucast (b ! i)) AND 0xFF) XOR drop_bit 8 c
        in if Suc i < length b then
             if b ! Suc i \<noteq> 0x2A then lib_hash_crc_loop b (Suc i) c else Inr (Suc i, c)
           else Inl OutOfBounds
      else Inl OutOfBounds)"
  by pat_completeness auto
termination
  by (relation "measure (\<lambda>(b, i, c). length b - i)") auto

declare lib_hash_crc_loop.simps [simp del]

text \<open>\<^verbatim>\<open>crcRx |= sempAsciiToNibble(*++data) << k\<close> for the given shifts\<close>

fun lib_hash_crc_rx :: "nat list \<Rightarrow> u8 list \<Rightarrow> nat \<Rightarrow> u32 \<Rightarrow> u32 res" where
  "lib_hash_crc_rx [] b i c = Inr c"
| "lib_hash_crc_rx (k # ks) b i c =
     rbind (at b (int i)) (\<lambda>d.
       lib_hash_crc_rx ks b (Suc i) (c OR push_bit k (word_of_int (sempAsciiToNibble (uint d)))))"

definition sempUnicoreHashValidatCrc :: "lib \<Rightarrow> lib res" where
  "sempUnicoreHashValidatCrc p =
     rbind (lib_hash_crc_loop (l_buffer p) 1 0) (\<lambda>(star, crc).
     rbind (lib_hash_crc_rx [28, 24, 20, 16, 12, 8, 4, 0] (l_buffer p) (Suc star) 0) (\<lambda>crcRx.
       if crc \<noteq> crcRx
       then Inr (sempPrintf_lib (l_printDebug p) (LText (LHashBadCrc (l_length p) crcRx crc)) p)
       else if unat (l_length p) + UNICORE_HASH_BUFFER_OVERHEAD_lib > unat (l_bufferLength p)
       then Inr ((sempPrintf_lib (l_printDebug p)
                    (LText (LHashSentenceTooLong (unat (l_length p) + UNICORE_HASH_BUFFER_OVERHEAD_lib))) p)
                   \<lparr>l_state := LFirstByte\<rparr>)
       else
         rbind (lib_push p 0x0D) (\<lambda>p.
         rbind (lib_push p 0x0A) (\<lambda>p.
         rbind (lib_put p 0) (\<lambda>p.
           lib_call_eom p)))))"

definition sempUnicoreHashValidateChecksum_lib :: "lib \<Rightarrow> lib res" where
  "sempUnicoreHashValidateChecksum_lib p =
     (if lib_unicoreHash_checksumBytes p > 2 then sempUnicoreHashValidatCrc p
      else
        rbind (lib_back p 2) (\<lambda>c1.
        rbind (lib_back p 1) (\<lambda>c2.
          let checksum = word_of_int (push_bit 4 (sempAsciiToNibble (uint c1))) :: u32;
              checksum = checksum OR word_of_int (sempAsciiToNibble (uint c2));
              (p, accepted) = lib_crc_accepted (checksum = l_crc p) p
          in if accepted then
               rbind (lib_push p 0x0D) (\<lambda>p.
               rbind (lib_push p 0x0A) (\<lambda>p.
               rbind (lib_put p 0) (\<lambda>p.
                 lib_call_eom p)))
             else Inr (sempPrintf_lib (l_printDebug p)
                         (LText (LHashBadChecksum (l_length p) c1 c2 (l_crc p))) p))))"

definition sempUnicoreHashLineFeed_lib :: "lib \<Rightarrow> u8 \<Rightarrow> (lib \<times> bool) res" where
  "sempUnicoreHashLineFeed_lib p data =
     (let p = p\<lparr>l_length := l_length p - 1\<rparr>
      in if data = 0x0A
         then rbind (sempUnicoreHashValidateChecksum_lib p) (\<lambda>p. Inr (p\<lparr>l_state := LFirstByte\<rparr>, True))
         else rbind (sempUnicoreHashValidateChecksum_lib p) (\<lambda>p. sempFirstByte_lib p data))"

definition sempUnicoreHashCarriageReturn_lib :: "lib \<Rightarrow> u8 \<Rightarrow> (lib \<times> bool) res" where
  "sempUnicoreHashCarriageReturn_lib p data =
     (let p = p\<lparr>l_length := l_length p - 1\<rparr>
      in if data = 0x0D
         then rbind (sempUnicoreHashValidateChecksum_lib p) (\<lambda>p. Inr (p\<lparr>l_state := LFirstByte\<rparr>, True))
         else rbind (sempUnicoreHashValidateChecksum_lib p) (\<lambda>p. sempFirstByte_lib p data))"

definition sempUnicoreHashLineTermination_lib :: "lib \<Rightarrow> u8 \<Rightarrow> (lib \<times> bool) res" where
  "sempUnicoreHashLineTermination_lib p data =
     (let p = p\<lparr>l_length := l_length p - 1\<rparr>
      in if data = 0x0D then Inr (p\<lparr>l_state := LUnicoreHash LUnicoreHashLineFeed\<rparr>, True)
         else if data = 0x0A then Inr (p\<lparr>l_state := LUnicoreHash LUnicoreHashCarriageReturn\<rparr>, True)
         else rbind (sempUnicoreHashValidateChecksum_lib p) (\<lambda>p. sempFirstByte_lib p data))"

definition sempUnicoreHashChecksumByte_lib :: "lib \<Rightarrow> u8 \<Rightarrow> (lib \<times> bool) res" where
  "sempUnicoreHashChecksumByte_lib p data =
     (let p = set_lib_unicoreHash_bytesRemaining (lib_unicoreHash_bytesRemaining p - 1) p
      in rbind (lib_back p 1) (\<lambda>c.
           if sempAsciiToNibble (uint c) < 0
           then sempFirstByte_lib
                  (sempPrintf_lib (l_printDebug p)
                     (LText (LHashInvalidChecksumCharacter (lib_unicoreHash_checksumBytes p)
                               (lib_unicoreHash_bytesRemaining p))) p) data
           else if lib_unicoreHash_bytesRemaining p = 0
           then Inr (p\<lparr>l_state := LUnicoreHash LUnicoreHashLineTermination\<rparr>, True)
           else Inr (p, True)))"

definition sempUnicoreHashFindAsterisk_lib :: "lib \<Rightarrow> u8 \<Rightarrow> (lib \<times> bool) res" where
  "sempUnicoreHashFindAsterisk_lib p data =
     (if data = 0x2A
      then
        let p = set_lib_unicoreHash_bytesRemaining (lib_unicoreHash_checksumBytes p) p
        in Inr (p\<lparr>l_state := LUnicoreHash LUnicoreHashChecksumByte\<rparr>, True)
      else
        let p = p\<lparr>l_crc := l_crc p XOR ucast data\<rparr>
        in if unat (l_length p) + UNICORE_HASH_BUFFER_OVERHEAD_lib > unat (l_bufferLength p)
           then sempFirstByte_lib
                  (sempPrintf_lib (l_printDebug p) (LText (LHashSentenceTooLong (unat (l_bufferLength p)))) p) data
           else Inr (p, True))"

definition lib_hash_push_name :: "u8 \<Rightarrow> lib \<Rightarrow> lib res" where
  "lib_hash_push_name data p =
     (let n = lib_unicoreHash_sentenceNameLength p
      in if unat n < 16
         then Inr (set_lib_unicoreHash_sentenceNameLength (n + 1)
                     (set_lib_unicoreHash_sentenceName (unat n) data p))
         else Inl OutOfBounds)"

definition sempUnicoreHashGetSentenceName :: "lib \<Rightarrow> u8 list" where
  "sempUnicoreHashGetSentenceName p =
     takeWhile (\<lambda>c. c \<noteq> 0) (map (lib_unicoreHash_sentenceName p) [0..<16])"

definition sempUnicoreHashFindFirstComma_lib :: "lib \<Rightarrow> u8 \<Rightarrow> (lib \<times> bool) res" where
  "sempUnicoreHashFindFirstComma_lib p data =
     (let p = p\<lparr>l_crc := l_crc p XOR ucast data\<rparr>
      in if data \<noteq> 0x2C \<or> lib_unicoreHash_sentenceNameLength p = 0
         then
           let upper = data AND NOT 0x20
           in if (upper < 0x41 \<or> upper > 0x5A) \<and> (data < 0x30 \<or> data > 0x39)
              then sempFirstByte_lib
                     (sempPrintf_lib (l_printDebug p) (LText (LHashInvalidNameCharacter data)) p) data
              else if lib_unicoreHash_sentenceNameLength p = 15
              then sempFirstByte_lib (sempPrintf_lib (l_printDebug p) (LText LHashNameTooLong) p) data
              else rbind (lib_hash_push_name data p) (\<lambda>p. Inr (p, True))
         else
           rbind (lib_hash_push_name 0 p) (\<lambda>p.
             let p = set_lib_unicoreHash_checksumBytes 8 p;
                 p = (if occurs_in [0x4D, 0x4F, 0x44, 0x45] (sempUnicoreHashGetSentenceName p)
                      then set_lib_unicoreHash_checksumBytes 2 p else p)
             in Inr (p\<lparr>l_state := LUnicoreHash LUnicoreHashFindAsterisk\<rparr>, True)))"

definition sempUnicoreHashGetStateName :: "lib \<Rightarrow> string option" where
  "sempUnicoreHashGetStateName p =
     (case l_state p of
        LPreamble LUnicoreHashPreamble \<Rightarrow> Some ''sempUnicoreHashPreamble''
      | LUnicoreHash LUnicoreHashFindFirstComma \<Rightarrow> Some ''sempUnicoreHashFindFirstComma''
      | LUnicoreHash LUnicoreHashFindAsterisk \<Rightarrow> Some ''sempUnicoreHashFindAsterisk''
      | LUnicoreHash LUnicoreHashChecksumByte \<Rightarrow> Some ''sempUnicoreHashChecksumByte''
      | LUnicoreHash LUnicoreHashLineTermination \<Rightarrow> Some ''sempUnicoreHashLineTermination''
      | LUnicoreHash LUnicoreHashCarriageReturn \<Rightarrow> Some ''sempUnicoreHashCarriageReturn''
      | LUnicoreHash LUnicoreHashLineFeed \<Rightarrow> Some ''sempUnicoreHashLineFeed''
      | _ \<Rightarrow> None)"

end
