(* ===== verification/Lib_Binary.thy ===== *)
theory Lib_Binary
  imports Lib_Core
begin

text \<open>
  The binary protocols of the library that have a counterpart in my_parser:
  lib/Parse_RTCM.cpp, lib/Parse_UBLOX.cpp, lib/Parse_BT.cpp (the custom protocol of the
  port) and lib/Parse_Unicore_Binary.cpp.
\<close>

section \<open>lib/Parse_RTCM.cpp\<close>

definition sempRtcmReadCrc_lib :: "lib \<Rightarrow> u8 \<Rightarrow> (lib \<times> bool) res" where
  "sempRtcmReadCrc_lib p data =
     (let p = set_lib_rtcm_bytesRemaining (lib_rtcm_bytesRemaining p - 1) p
      in if lib_rtcm_bytesRemaining p > 0 then Inr (p, True)
         else
           let (p, accepted) = lib_crc_accepted (l_crc p = 0) p
           in rbind (if accepted then lib_call_eom p
                     else rbind (lib_last 3 p) (\<lambda>bs.
                       Inr (sempPrintf_lib (l_printDebug p)
                              (LBinary (LRtcmBadCrc (lib_rtcm_message p) (l_length p) bs (lib_rtcm_crc p))) p)))
                (\<lambda>p. Inr (p\<lparr>l_state := LFirstByte\<rparr>, False)))"

definition sempRtcmReadData_lib :: "lib \<Rightarrow> u8 \<Rightarrow> (lib \<times> bool) res" where
  "sempRtcmReadData_lib p data =
     (let p = set_lib_rtcm_bytesRemaining (lib_rtcm_bytesRemaining p - 1) p
      in if lib_rtcm_bytesRemaining p \<le> 0
         then
           let p = set_lib_rtcm_crc (l_crc p) p;
               p = set_lib_rtcm_bytesRemaining 3 p
           in Inr (p\<lparr>l_state := LRtcm LRtcmReadCrc\<rparr>, True)
         else Inr (p, True))"

definition sempRtcmReadMessage2_lib :: "lib \<Rightarrow> u8 \<Rightarrow> (lib \<times> bool) res" where
  "sempRtcmReadMessage2_lib p data =
     (let p = set_lib_rtcm_message (lib_rtcm_message p OR ucast (drop_bit 4 data)) p;
          p = set_lib_rtcm_bytesRemaining (lib_rtcm_bytesRemaining p - 1) p
      in Inr (p\<lparr>l_state := LRtcm LRtcmReadData\<rparr>, True))"

definition sempRtcmReadMessage1_lib :: "lib \<Rightarrow> u8 \<Rightarrow> (lib \<times> bool) res" where
  "sempRtcmReadMessage1_lib p data =
     (let p = set_lib_rtcm_message (push_bit 4 (ucast data)) p;
          p = set_lib_rtcm_bytesRemaining (lib_rtcm_bytesRemaining p - 1) p
      in Inr (p\<lparr>l_state := LRtcm LRtcmReadMessage2\<rparr>, True))"

definition sempRtcmReadLength2_lib :: "lib \<Rightarrow> u8 \<Rightarrow> (lib \<times> bool) res" where
  "sempRtcmReadLength2_lib p data =
     (let p = set_lib_rtcm_bytesRemaining (lib_rtcm_bytesRemaining p OR ucast data) p
      in Inr (p\<lparr>l_state := LRtcm LRtcmReadMessage1\<rparr>, True))"

definition sempRtcmReadLength1_lib :: "lib \<Rightarrow> u8 \<Rightarrow> (lib \<times> bool) res" where
  "sempRtcmReadLength1_lib p data =
     (if data AND NOT 3 \<noteq> 0 then sempFirstByte_lib p data
      else
        let p = set_lib_rtcm_bytesRemaining (push_bit 8 (ucast data)) p
        in Inr (p\<lparr>l_state := LRtcm LRtcmReadLength2\<rparr>, True))"

definition sempRtcmGetStateName :: "lib \<Rightarrow> string option" where
  "sempRtcmGetStateName p =
     (case l_state p of
        LPreamble LRtcmPreamble \<Rightarrow> Some ''sempRtcmPreamble''
      | LRtcm LRtcmReadLength1 \<Rightarrow> Some ''sempRtcmReadLength1''
      | LRtcm LRtcmReadLength2 \<Rightarrow> Some ''sempRtcmReadLength2''
      | LRtcm LRtcmReadMessage1 \<Rightarrow> Some ''sempRtcmReadMessage1''
      | LRtcm LRtcmReadMessage2 \<Rightarrow> Some ''sempRtcmReadMessage2''
      | LRtcm LRtcmReadData \<Rightarrow> Some ''sempRtcmReadData''
      | LRtcm LRtcmReadCrc \<Rightarrow> Some ''sempRtcmReadCrc''
      | _ \<Rightarrow> None)"

definition sempRtcmGetMessageNumber :: "lib \<Rightarrow> u16" where
  "sempRtcmGetMessageNumber p = lib_rtcm_message p"

section \<open>lib/Parse_UBLOX.cpp\<close>

definition sempUbloxCkB_lib :: "lib \<Rightarrow> u8 \<Rightarrow> (lib \<times> bool) res" where
  "sempUbloxCkB_lib p data =
     rbind (lib_back p 2) (\<lambda>rx_a.
     rbind (lib_back p 1) (\<lambda>rx_b.
       let badChecksum = (rx_a \<noteq> lib_ublox_ck_a p \<or> rx_b \<noteq> lib_ublox_ck_b p);
           (p, accepted) = lib_crc_accepted (\<not> badChecksum) p
       in rbind (if accepted then lib_call_eom p
                 else Inr (sempPrintf_lib (l_printDebug p)
                             (LBinary (LUbloxBadChecksum [rx_a, rx_b] (lib_ublox_ck_a p) (lib_ublox_ck_b p))) p))
            (\<lambda>p. Inr (p\<lparr>l_length := 0, l_state := LFirstByte\<rparr>, False))))"

definition sempUbloxCkA_lib :: "lib \<Rightarrow> u8 \<Rightarrow> (lib \<times> bool) res" where
  "sempUbloxCkA_lib p data = Inr (p\<lparr>l_state := LUblox LUbloxCkB\<rparr>, True)"

text \<open>\<^verbatim>\<open>ck_a += data; ck_b += ck_a\<close>\<close>

definition lib_ublox_checksum :: "u8 \<Rightarrow> lib \<Rightarrow> lib" where
  "lib_ublox_checksum data p =
     (let p = set_lib_ublox_ck_a (lib_ublox_ck_a p + data) p
      in set_lib_ublox_ck_b (lib_ublox_ck_b p + lib_ublox_ck_a p) p)"

definition sempUbloxPayload_lib :: "lib \<Rightarrow> u8 \<Rightarrow> (lib \<times> bool) res" where
  "sempUbloxPayload_lib p data =
     (let remaining = lib_ublox_bytesRemaining p;
          p = set_lib_ublox_bytesRemaining (remaining - 1) p
      in if remaining \<noteq> 0 then Inr (lib_ublox_checksum data p, True) else sempUbloxCkA_lib p data)"

definition sempUbloxLength2_lib :: "lib \<Rightarrow> u8 \<Rightarrow> (lib \<times> bool) res" where
  "sempUbloxLength2_lib p data =
     (let p = lib_ublox_checksum data p;
          p = set_lib_ublox_bytesRemaining (lib_ublox_bytesRemaining p OR push_bit 8 (ucast data)) p
      in Inr (p\<lparr>l_state := LUblox LUbloxPayload\<rparr>, True))"

definition sempUbloxLength1_lib :: "lib \<Rightarrow> u8 \<Rightarrow> (lib \<times> bool) res" where
  "sempUbloxLength1_lib p data =
     (let p = lib_ublox_checksum data p;
          p = set_lib_ublox_bytesRemaining (ucast data) p
      in Inr (p\<lparr>l_state := LUblox LUbloxLength2\<rparr>, True))"

definition sempUbloxId_lib :: "lib \<Rightarrow> u8 \<Rightarrow> (lib \<times> bool) res" where
  "sempUbloxId_lib p data =
     (let p = lib_ublox_checksum data p;
          p = set_lib_ublox_message (lib_ublox_message p OR ucast data) p
      in Inr (p\<lparr>l_state := LUblox LUbloxLength1\<rparr>, True))"

definition sempUbloxClass_lib :: "lib \<Rightarrow> u8 \<Rightarrow> (lib \<times> bool) res" where
  "sempUbloxClass_lib p data =
     (let p = set_lib_ublox_ck_a data p;
          p = set_lib_ublox_ck_b data p;
          p = set_lib_ublox_message (push_bit 8 (ucast data)) p
      in Inr (p\<lparr>l_state := LUblox LUbloxId\<rparr>, True))"

definition sempUbloxSync2_lib :: "lib \<Rightarrow> u8 \<Rightarrow> (lib \<times> bool) res" where
  "sempUbloxSync2_lib p data =
     (if data \<noteq> 0x62
      then sempFirstByte_lib (sempPrintf_lib (l_printDebug p) (LBinary LUbloxInvalidSync2) p) data
      else Inr (p\<lparr>l_state := LUblox LUbloxClass\<rparr>, True))"

definition sempUbloxGetStateName :: "lib \<Rightarrow> string option" where
  "sempUbloxGetStateName p =
     (case l_state p of
        LPreamble LUbloxPreamble \<Rightarrow> Some ''sempUbloxPreamble''
      | LUblox LUbloxSync2 \<Rightarrow> Some ''sempUbloxSync2''
      | LUblox LUbloxClass \<Rightarrow> Some ''sempUbloxClass''
      | LUblox LUbloxId \<Rightarrow> Some ''sempUbloxId''
      | LUblox LUbloxLength1 \<Rightarrow> Some ''sempUbloxLength1''
      | LUblox LUbloxLength2 \<Rightarrow> Some ''sempUbloxLength2''
      | LUblox LUbloxPayload \<Rightarrow> Some ''sempUbloxPayload''
      | LUblox LUbloxCkA \<Rightarrow> Some ''sempUbloxCkA''
      | LUblox LUbloxCkB \<Rightarrow> Some ''sempUbloxCkB''
      | _ \<Rightarrow> None)"

definition sempUbloxGetMessageNumber :: "lib \<Rightarrow> u16" where
  "sempUbloxGetMessageNumber p = lib_ublox_message p"

section \<open>lib/Parse_BT.cpp\<close>

definition sizeof_SEMP_Bluetooth_HEADER :: nat where
  "sizeof_SEMP_Bluetooth_HEADER = 20"

text \<open>\<^verbatim>\<open>((SEMP_Bluetooth_HEADER *)parse->buffer)->messageLength\<close>\<close>

definition lib_bluetooth_messageLength :: "lib \<Rightarrow> u16 res" where
  "lib_bluetooth_messageLength p =
     rbind (at (l_buffer p) 12) (\<lambda>lo. rbind (at (l_buffer p) 13) (\<lambda>hi. Inr (le16 lo hi)))"

definition sempBluetoothReadCrc_lib :: "lib \<Rightarrow> u8 \<Rightarrow> (lib \<times> bool) res" where
  "sempBluetoothReadCrc_lib p data =
     (let p = set_lib_bluetooth_bytesRemaining (lib_bluetooth_bytesRemaining p - 1) p
      in if lib_bluetooth_bytesRemaining p \<noteq> 0 then Inr (p, True)
         else
           let (p, accepted) = lib_crc_accepted (l_crc p = 0) p
           in rbind (if accepted then lib_call_eom p
                     else rbind (lib_last 4 p) (\<lambda>bs.
                       Inr (sempPrintf_lib (l_printDebug p)
                              (LBinary (LBluetoothBadCrc bs (lib_bluetooth_crc p))) p)))
                (\<lambda>p. Inr (p\<lparr>l_state := LFirstByte\<rparr>, False)))"

definition sempBluetoothReadData_lib :: "lib \<Rightarrow> u8 \<Rightarrow> (lib \<times> bool) res" where
  "sempBluetoothReadData_lib p data =
     (let p = set_lib_bluetooth_bytesRemaining (lib_bluetooth_bytesRemaining p - 1) p
      in if lib_bluetooth_bytesRemaining p = 0
         then
           let p = set_lib_bluetooth_bytesRemaining 4 p;
               p = p\<lparr>l_crc := l_crc p XOR 0xFFFFFFFF\<rparr>;
               p = set_lib_bluetooth_crc (l_crc p) p
           in Inr (p\<lparr>l_state := LBluetooth LBluetoothReadCrc\<rparr>, True)
         else Inr (p, True))"

definition sempBluetoothReadHeader_lib :: "lib \<Rightarrow> u8 \<Rightarrow> (lib \<times> bool) res" where
  "sempBluetoothReadHeader_lib p data =
     (if unat (l_length p) \<ge> sizeof_SEMP_Bluetooth_HEADER
      then rbind (lib_bluetooth_messageLength p) (\<lambda>n.
             let p = set_lib_bluetooth_bytesRemaining n p
             in Inr (p\<lparr>l_state := LBluetooth LBluetoothReadData\<rparr>, True))
      else Inr (p, True))"

definition sempBluetoothSync3_lib :: "lib \<Rightarrow> u8 \<Rightarrow> (lib \<times> bool) res" where
  "sempBluetoothSync3_lib p data =
     (if data \<noteq> 0x18 then sempFirstByte_lib p data
      else Inr (p\<lparr>l_state := LBluetooth LBluetoothReadHeader\<rparr>, True))"

definition sempBluetoothSync2_lib :: "lib \<Rightarrow> u8 \<Rightarrow> (lib \<times> bool) res" where
  "sempBluetoothSync2_lib p data =
     (if data \<noteq> 0x44 then sempFirstByte_lib p data
      else Inr (p\<lparr>l_state := LBluetooth LBluetoothSync3\<rparr>, True))"

section \<open>lib/Parse_Unicore_Binary.cpp\<close>

definition sizeof_SEMP_UNICORE_HEADER_lib :: nat where
  "sizeof_SEMP_UNICORE_HEADER_lib = 24"

text \<open>\<^verbatim>\<open>((SEMP_UNICORE_HEADER *)parse->buffer)->messageLength\<close>\<close>

definition lib_unicore_messageLength :: "lib \<Rightarrow> u16 res" where
  "lib_unicore_messageLength p =
     rbind (at (l_buffer p) 6) (\<lambda>lo. rbind (at (l_buffer p) 7) (\<lambda>hi. Inr (le16 lo hi)))"

text \<open>
  The lines of \<^verbatim>\<open>sempUnicoreBinaryPrintHeader\<close> are one per member of the header; they
  are represented by the bytes of the header.
\<close>

fun lib_read :: "nat \<Rightarrow> nat \<Rightarrow> lib \<Rightarrow> u8 list res" where
  "lib_read 0 i p = Inr []"
| "lib_read (Suc k) i p =
     rbind (at (l_buffer p) (int i)) (\<lambda>b. rbind (lib_read k (Suc i) p) (\<lambda>bs. Inr (b # bs)))"

definition sempUnicoreBinaryPrintHeader :: "lib \<Rightarrow> lib res" where
  "sempUnicoreBinaryPrintHeader p =
     (case l_printError p of
        None \<Rightarrow> Inr p
      | Some a \<Rightarrow> rbind (lib_read sizeof_SEMP_UNICORE_HEADER_lib 0 p) (\<lambda>header.
          Inr (sempPrintf_lib (Some a) (LBinary (LUnicoreHeader header)) p)))"

definition sempUnicoreBinaryReadCrc_lib :: "lib \<Rightarrow> u8 \<Rightarrow> (lib \<times> bool) res" where
  "sempUnicoreBinaryReadCrc_lib p data =
     (let p = set_lib_unicoreBinary_bytesRemaining (lib_unicoreBinary_bytesRemaining p - 1) p
      in if lib_unicoreBinary_bytesRemaining p \<noteq> 0 then Inr (p, True)
         else
           let (p, accepted) = lib_crc_accepted (l_crc p = 0) p
           in rbind (if accepted then lib_call_eom p
                     else rbind (lib_last 4 p) (\<lambda>bs.
                       Inr (sempPrintf_lib (l_printDebug p)
                              (LBinary (LUnicoreBinaryBadCrc bs (lib_unicoreBinary_crc p))) p)))
                (\<lambda>p. Inr (p\<lparr>l_state := LFirstByte\<rparr>, False)))"

definition sempUnicoreBinaryReadData_lib :: "lib \<Rightarrow> u8 \<Rightarrow> (lib \<times> bool) res" where
  "sempUnicoreBinaryReadData_lib p data =
     (let p = set_lib_unicoreBinary_bytesRemaining (lib_unicoreBinary_bytesRemaining p - 1) p
      in if lib_unicoreBinary_bytesRemaining p = 0
         then
           let p = set_lib_unicoreBinary_bytesRemaining 4 p;
               p = set_lib_unicoreBinary_crc (l_crc p) p
           in Inr (p\<lparr>l_state := LUnicoreBinary LUnicoreBinaryReadCrc\<rparr>, True)
         else Inr (p, True))"

definition sempUnicoreBinaryReadHeader_lib :: "lib \<Rightarrow> u8 \<Rightarrow> (lib \<times> bool) res" where
  "sempUnicoreBinaryReadHeader_lib p data =
     (if unat (l_length p) \<ge> sizeof_SEMP_UNICORE_HEADER_lib
      then rbind (lib_unicore_messageLength p) (\<lambda>n.
             let p = set_lib_unicoreBinary_bytesRemaining n p
             in Inr (p\<lparr>l_state := LUnicoreBinary LUnicoreBinaryReadData\<rparr>, True))
      else Inr (p, True))"

definition sempUnicoreBinaryBinarySync3 :: "lib \<Rightarrow> u8 \<Rightarrow> (lib \<times> bool) res" where
  "sempUnicoreBinaryBinarySync3 p data =
     (if data \<noteq> 0xB5 then sempFirstByte_lib p data
      else Inr (p\<lparr>l_state := LUnicoreBinary LUnicoreBinaryReadHeader\<rparr>, True))"

definition sempUnicoreBinaryBinarySync2 :: "lib \<Rightarrow> u8 \<Rightarrow> (lib \<times> bool) res" where
  "sempUnicoreBinaryBinarySync2 p data =
     (if data \<noteq> 0x44 then sempFirstByte_lib p data
      else Inr (p\<lparr>l_state := LUnicoreBinary LUnicoreBinarySync3\<rparr>, True))"

definition sempUnicoreBinaryGetStateName :: "lib \<Rightarrow> string option" where
  "sempUnicoreBinaryGetStateName p =
     (case l_state p of
        LPreamble LUnicoreBinaryPreamble \<Rightarrow> Some ''sempUnicoreBinaryPreamble''
      | LUnicoreBinary LUnicoreBinarySync2 \<Rightarrow> Some ''sempUnicoreBinaryBinarySync2''
      | LUnicoreBinary LUnicoreBinarySync3 \<Rightarrow> Some ''sempUnicoreBinaryBinarySync3''
      | LUnicoreBinary LUnicoreBinaryReadHeader \<Rightarrow> Some ''sempUnicoreBinaryReadHeader''
      | LUnicoreBinary LUnicoreBinaryReadData \<Rightarrow> Some ''sempUnicoreBinaryReadData''
      | LUnicoreBinary LUnicoreBinaryReadCrc \<Rightarrow> Some ''sempUnicoreBinaryReadCrc''
      | _ \<Rightarrow> None)"

end
