(* ===== verification/Lib_SBF.thy ===== *)
theory Lib_SBF
  imports Lib_Core
begin

text \<open>
  lib/Parse_SBF.cpp: blocks of the Septentrio Binary Format. A block is
  \<^verbatim>\<open>24 40 crc id length payload\<close> with 16-bit little-endian fields; the length counts the
  whole block and is a multiple of four, the CRC-CCITT covers everything behind it. The
  file also has the access functions for the fields of a delivered block.
\<close>

section \<open>The state routines\<close>

definition sempSbfReadBytes :: "lib \<Rightarrow> u8 \<Rightarrow> (lib \<times> bool) res" where
  "sempSbfReadBytes p data =
     (let p = set_lib_sbf_computedCRC (semp_ccitt_crc_update (lib_sbf_computedCRC p) data) p;
          p = set_lib_sbf_bytesRemaining (lib_sbf_bytesRemaining p - 1) p
      in if lib_sbf_bytesRemaining p = 0
         then
           let p = p\<lparr>l_state := LFirstByte\<rparr>;
               (p, accepted) = lib_crc_accepted (lib_sbf_computedCRC p = lib_sbf_expectedCRC p) p
           in rbind (if accepted then lib_call_eom p
                     else call_invalidData
                            (sempPrintf_lib (l_printDebug p)
                               (LBinary (LSbfBadCrc (lib_sbf_sbfID p) (l_length p))) p))
                (\<lambda>p. Inr (p, False))
         else Inr (p, True))"

definition sempSbfLengthMSB :: "lib \<Rightarrow> u8 \<Rightarrow> (lib \<times> bool) res" where
  "sempSbfLengthMSB p data =
     (let p = set_lib_sbf_computedCRC (semp_ccitt_crc_update (lib_sbf_computedCRC p) data) p;
          p = set_lib_sbf_length (lib_sbf_length p OR push_bit 8 (ucast data)) p
      in if lib_sbf_length p mod 4 = 0
         then
           let p = set_lib_sbf_bytesRemaining (lib_sbf_length p - 8) p
           in Inr (p\<lparr>l_state := LSbf LSbfReadBytes\<rparr>, True)
         else
           rbind (call_invalidData
                    (sempPrintf_lib (l_printDebug p) (LBinary (LSbfBadLength (l_length p))) p))
             (\<lambda>p. Inr (p\<lparr>l_state := LFirstByte\<rparr>, False)))"

definition sempSbfLengthLSB :: "lib \<Rightarrow> u8 \<Rightarrow> (lib \<times> bool) res" where
  "sempSbfLengthLSB p data =
     (let p = set_lib_sbf_computedCRC (semp_ccitt_crc_update (lib_sbf_computedCRC p) data) p;
          p = set_lib_sbf_length (ucast data) p
      in Inr (p\<lparr>l_state := LSbf LSbfLengthMSB\<rparr>, True))"

definition sempSbfID2 :: "lib \<Rightarrow> u8 \<Rightarrow> (lib \<times> bool) res" where
  "sempSbfID2 p data =
     (let p = set_lib_sbf_computedCRC (semp_ccitt_crc_update (lib_sbf_computedCRC p) data) p;
          p = set_lib_sbf_sbfID (lib_sbf_sbfID p OR push_bit 8 (ucast data)) p;
          p = set_lib_sbf_sbfID (lib_sbf_sbfID p AND 0x1FFF) p;
          p = set_lib_sbf_sbfIDrev (drop_bit 5 data) p
      in Inr (p\<lparr>l_state := LSbf LSbfLengthLSB\<rparr>, True))"

definition sempSbfID1 :: "lib \<Rightarrow> u8 \<Rightarrow> (lib \<times> bool) res" where
  "sempSbfID1 p data =
     (let p = set_lib_sbf_computedCRC (semp_ccitt_crc_update (lib_sbf_computedCRC p) data) p;
          p = set_lib_sbf_sbfID (ucast data) p
      in Inr (p\<lparr>l_state := LSbf LSbfID2\<rparr>, True))"

definition sempSbfCRC2 :: "lib \<Rightarrow> u8 \<Rightarrow> (lib \<times> bool) res" where
  "sempSbfCRC2 p data =
     (let p = set_lib_sbf_expectedCRC (lib_sbf_expectedCRC p OR push_bit 8 (ucast data)) p;
          p = set_lib_sbf_computedCRC 0 p
      in Inr (p\<lparr>l_state := LSbf LSbfID1\<rparr>, True))"

definition sempSbfCRC1 :: "lib \<Rightarrow> u8 \<Rightarrow> (lib \<times> bool) res" where
  "sempSbfCRC1 p data =
     (let p = set_lib_sbf_expectedCRC (ucast data) p
      in Inr (p\<lparr>l_state := LSbf LSbfCRC2\<rparr>, True))"

definition sempSbfPreamble2 :: "lib \<Rightarrow> u8 \<Rightarrow> (lib \<times> bool) res" where
  "sempSbfPreamble2 p data =
     (if data = 0x40 then Inr (p\<lparr>l_state := LSbf LSbfCRC1\<rparr>, True)
      else
        rbind (call_invalidData
                 (sempPrintf_lib (l_printDebug p) (LBinary (LSbfInvalidPreamble2 (l_length p))) p))
          (\<lambda>p. Inr (p\<lparr>l_state := LFirstByte\<rparr>, False)))"

definition sempSbfGetStateName :: "lib \<Rightarrow> string option" where
  "sempSbfGetStateName p =
     (case l_state p of
        LPreamble LSbfPreamble \<Rightarrow> Some ''sempSbfPreamble''
      | LSbf LSbfPreamble2 \<Rightarrow> Some ''sempSbfPreamble2''
      | LSbf LSbfCRC1 \<Rightarrow> Some ''sempSbfCRC1''
      | LSbf LSbfCRC2 \<Rightarrow> Some ''sempSbfCRC2''
      | LSbf LSbfID1 \<Rightarrow> Some ''sempSbfID1''
      | LSbf LSbfID2 \<Rightarrow> Some ''sempSbfID2''
      | LSbf LSbfLengthLSB \<Rightarrow> Some ''sempSbfLengthLSB''
      | LSbf LSbfLengthMSB \<Rightarrow> Some ''sempSbfLengthMSB''
      | LSbf LSbfReadBytes \<Rightarrow> Some ''sempSbfReadBytes''
      | _ \<Rightarrow> None)"

section \<open>Access functions\<close>

definition sempSbfSetInvalidDataCallback :: "lib \<Rightarrow> u32 \<Rightarrow> lib" where
  "sempSbfSetInvalidDataCallback p invalidDataCallback =
     set_lib_sbf_invalidDataCallback invalidDataCallback p"

definition sempSbfGetBlockNumber :: "lib \<Rightarrow> u16" where
  "sempSbfGetBlockNumber p = lib_sbf_sbfID p"

definition sempSbfGetBlockRevision :: "lib \<Rightarrow> u8" where
  "sempSbfGetBlockRevision p = lib_sbf_sbfIDrev p"

definition sempSbfGetU1 :: "lib \<Rightarrow> u16 \<Rightarrow> u8 res" where
  "sempSbfGetU1 p offset = at (l_buffer p) (uint offset)"

definition sempSbfGetU2 :: "lib \<Rightarrow> u16 \<Rightarrow> u16 res" where
  "sempSbfGetU2 p offset =
     rbind (at (l_buffer p) (uint offset)) (\<lambda>lo.
     rbind (at (l_buffer p) (uint offset + 1)) (\<lambda>hi.
       Inr (ucast lo OR push_bit 8 (ucast hi))))"

text \<open>
  The loop of \<^verbatim>\<open>sempSbfGetU4\<close> and \<^verbatim>\<open>sempSbfGetU8\<close>,
  \<^verbatim>\<open>data |= ((uintN_t)parse->buffer[offset + i]) << (8 * i)\<close>, from \<open>i\<close> with \<open>n\<close> turns left.
\<close>

fun sbf_get_loop :: "nat \<Rightarrow> nat \<Rightarrow> lib \<Rightarrow> u16 \<Rightarrow> 'a::len word \<Rightarrow> 'a word res" where
  "sbf_get_loop 0 i p offset data = Inr data"
| "sbf_get_loop (Suc n) i p offset data =
     rbind (at (l_buffer p) (uint offset + int i)) (\<lambda>b.
       sbf_get_loop n (Suc i) p offset (data OR push_bit (8 * i) (ucast b)))"

definition sempSbfGetU4 :: "lib \<Rightarrow> u16 \<Rightarrow> u32 res" where
  "sempSbfGetU4 p offset = sbf_get_loop 4 0 p offset 0"

definition sempSbfGetU8 :: "lib \<Rightarrow> u16 \<Rightarrow> 64 word res" where
  "sempSbfGetU8 p offset = sbf_get_loop 8 0 p offset 0"

text \<open>The signed variants read the same bits in two's complement.\<close>

definition sempSbfGetI1 :: "lib \<Rightarrow> u16 \<Rightarrow> int res" where
  "sempSbfGetI1 p offset = rbind (sempSbfGetU1 p offset) (\<lambda>unsignedN. Inr (sint unsignedN))"

definition sempSbfGetI2 :: "lib \<Rightarrow> u16 \<Rightarrow> int res" where
  "sempSbfGetI2 p offset = rbind (sempSbfGetU2 p offset) (\<lambda>unsignedN. Inr (sint unsignedN))"

definition sempSbfGetI4 :: "lib \<Rightarrow> u16 \<Rightarrow> int res" where
  "sempSbfGetI4 p offset = rbind (sempSbfGetU4 p offset) (\<lambda>unsignedN. Inr (sint unsignedN))"

definition sempSbfGetI8 :: "lib \<Rightarrow> u16 \<Rightarrow> int res" where
  "sempSbfGetI8 p offset = rbind (sempSbfGetU8 p offset) (\<lambda>unsignedN. Inr (sint unsignedN))"

text \<open>A floating-point value is represented by its bits.\<close>

definition sempSbfGetF4 :: "lib \<Rightarrow> u16 \<Rightarrow> u32 res" where
  "sempSbfGetF4 p offset = sempSbfGetU4 p offset"

definition sempSbfGetF8 :: "lib \<Rightarrow> u16 \<Rightarrow> 64 word res" where
  "sempSbfGetF8 p offset = sempSbfGetU8 p offset"

text \<open>A pointer into the buffer: the bytes from there on, up to the end of the buffer.\<close>

definition sempSbfGetString :: "lib \<Rightarrow> u16 \<Rightarrow> u8 list res" where
  "sempSbfGetString p offset =
     (if unat offset \<le> length (l_buffer p) then Inr (drop (unat offset) (l_buffer p)) else Inl OutOfBounds)"

definition sempSbfIsEncapsulatedNMEA :: "lib \<Rightarrow> bool res" where
  "sempSbfIsEncapsulatedNMEA p =
     (if lib_sbf_sbfID p = 4097 then rbind (at (l_buffer p) 14) (\<lambda>b. Inr (b = 4)) else Inr False)"

definition sempSbfIsEncapsulatedRTCMv3 :: "lib \<Rightarrow> bool res" where
  "sempSbfIsEncapsulatedRTCMv3 p =
     (if lib_sbf_sbfID p = 4097 then rbind (at (l_buffer p) 14) (\<lambda>b. Inr (b = 2)) else Inr False)"

definition sempSbfGetEncapsulatedPayloadLength :: "lib \<Rightarrow> u16 res" where
  "sempSbfGetEncapsulatedPayloadLength p = sempSbfGetU2 p 16"

definition sempSbfGetEncapsulatedPayload :: "lib \<Rightarrow> u8 list res" where
  "sempSbfGetEncapsulatedPayload p = sempSbfGetString p 20"

end
