(* ===== verification/Lib_SPARTN.thy ===== *)
theory Lib_SPARTN
  imports Lib_Core
begin

text \<open>
  lib/Parse_SPARTN.cpp: SPARTN messages. After the preamble \<^verbatim>\<open>73\<close> come three bytes with
  the message type, the payload length (10 bits), the flag for encryption and
  authentication, the kind of the message CRC and a 4-bit CRC of these bytes; then four
  to eight bytes with subtype and time tag, the payload, the embedded authentication data
  and the message CRC of one to four bytes, most significant byte first.
\<close>

text \<open>
  \<^verbatim>\<open>expected = *ptr++; expected <<= 8; expected |= *ptr; ...\<close>: \<open>k\<close> bytes from index \<open>i\<close>,
  most significant byte first.
\<close>

fun spartn_expected :: "nat \<Rightarrow> int \<Rightarrow> lib \<Rightarrow> u32 \<Rightarrow> u32 res" where
  "spartn_expected 0 i p e = Inr e"
| "spartn_expected (Suc k) i p e =
     rbind (at (l_buffer p) i) (\<lambda>b. spartn_expected k (i + 1) p (push_bit 8 e OR ucast b))"

text \<open>The \<^verbatim>\<open>switch\<close> of \<^verbatim>\<open>sempSpartnReadTF018\<close>: does the CRC of the message agree?\<close>

definition spartn_crc_ok :: "lib \<Rightarrow> u16 \<Rightarrow> bool res" where
  "spartn_crc_ok p numBytes =
     (let i = uint numBytes; msg = drop 1 (l_buffer p); n = word_of_int (uint numBytes - 1)
      in if lib_spartn_crcType p = 0
         then rbind (spartn_expected 1 i p 0) (\<lambda>expected.
              rbind (semp_uSpartnCrc8 msg n) (\<lambda>crc. Inr (ucast crc = expected)))
         else if lib_spartn_crcType p = 1
         then rbind (spartn_expected 2 i p 0) (\<lambda>expected.
              rbind (semp_uSpartnCrc16 msg n) (\<lambda>crc. Inr (ucast crc = expected)))
         else if lib_spartn_crcType p = 2
         then rbind (spartn_expected 3 i p 0) (\<lambda>expected.
              rbind (semp_uSpartnCrc24 msg n) (\<lambda>crc. Inr (crc = expected)))
         else rbind (spartn_expected 4 i p 0) (\<lambda>expected.
              rbind (semp_uSpartnCrc32 msg n) (\<lambda>crc. Inr (crc = expected))))"

definition sempSpartnReadTF018 :: "lib \<Rightarrow> u8 \<Rightarrow> (lib \<times> bool) res" where
  "sempSpartnReadTF018 p data =
     (let p = set_lib_spartn_frameCount (lib_spartn_frameCount p + 1) p
      in if lib_spartn_frameCount p = lib_spartn_crcBytes p
         then
           let numBytes = 4 + lib_spartn_TF007toTF016 p + lib_spartn_payloadLength p
                            + lib_spartn_embeddedApplicationLengthBytes p
           in rbind (spartn_crc_ok p numBytes) (\<lambda>ok.
                let (p, valid) = lib_crc_accepted ok p
                in rbind (if valid then lib_call_eom p
                          else Inr (sempPrintf_lib (l_printDebug p)
                                      (LBinary (LSpartnBadCrc (lib_spartn_messageType p)
                                         (lib_spartn_messageSubtype p) (l_length p))) p))
                     (\<lambda>p. Inr (p\<lparr>l_state := LFirstByte\<rparr>, False)))
         else Inr (p, True))"

definition sempSpartnReadTF017 :: "lib \<Rightarrow> u8 \<Rightarrow> (lib \<times> bool) res" where
  "sempSpartnReadTF017 p data =
     (let p = set_lib_spartn_frameCount (lib_spartn_frameCount p + 1) p
      in if lib_spartn_frameCount p = lib_spartn_embeddedApplicationLengthBytes p
         then Inr (set_lib_spartn_frameCount 0 (p\<lparr>l_state := LSpartn LSpartnReadTF018\<rparr>), True)
         else Inr (p, True))"

definition sempSpartnReadTF016 :: "lib \<Rightarrow> u8 \<Rightarrow> (lib \<times> bool) res" where
  "sempSpartnReadTF016 p data =
     (let p = set_lib_spartn_frameCount (lib_spartn_frameCount p + 1) p
      in if lib_spartn_frameCount p = lib_spartn_payloadLength p
         then if lib_spartn_embeddedApplicationLengthBytes p > 0
              then Inr (set_lib_spartn_frameCount 0 (p\<lparr>l_state := LSpartn LSpartnReadTF017\<rparr>), True)
              else Inr (set_lib_spartn_frameCount 0 (p\<lparr>l_state := LSpartn LSpartnReadTF018\<rparr>), True)
         else Inr (p, True))"

text \<open>\<^verbatim>\<open>switch (data & 0x07)\<close> of the length of the embedded authentication data\<close>

definition spartn_embedded :: "u8 \<Rightarrow> u16" where
  "spartn_embedded data =
     (let k = data AND 0x07
      in if k = 0 then 8 else if k = 1 then 12 else if k = 2 then 16 else if k = 3 then 32 else 64)"

definition sempSpartnReadTF009 :: "lib \<Rightarrow> u8 \<Rightarrow> (lib \<times> bool) res" where
  "sempSpartnReadTF009 p data =
     (let p = set_lib_spartn_frameCount (lib_spartn_frameCount p + 1) p
      in if lib_spartn_frameCount p = lib_spartn_TF007toTF016 p
         then
           let p = (if lib_spartn_EAF p = 0
                    then set_lib_spartn_embeddedApplicationLengthBytes 0
                           (set_lib_spartn_authenticationIndicator 0 p)
                    else
                      let p = set_lib_spartn_authenticationIndicator (ucast (drop_bit 3 data AND 0x07)) p
                      in if lib_spartn_authenticationIndicator p \<le> 1
                         then set_lib_spartn_embeddedApplicationLengthBytes 0 p
                         else set_lib_spartn_embeddedApplicationLengthBytes (spartn_embedded data) p)
           in Inr ((set_lib_spartn_frameCount 0 p)\<lparr>l_state := LSpartn LSpartnReadTF016\<rparr>, True)
         else Inr (p, True))"

definition sempSpartnReadTF007 :: "lib \<Rightarrow> u8 \<Rightarrow> (lib \<times> bool) res" where
  "sempSpartnReadTF007 p data =
     (let p = set_lib_spartn_messageSubtype (drop_bit 4 data) p;
          p = set_lib_spartn_timeTagType (ucast (drop_bit 3 data AND 0x01)) p;
          p = set_lib_spartn_TF007toTF016 (if lib_spartn_timeTagType p = 0 then 4 else 6) p;
          p = (if lib_spartn_EAF p > 0
               then set_lib_spartn_TF007toTF016 (lib_spartn_TF007toTF016 p + 2) p else p);
          p = set_lib_spartn_frameCount 1 p
      in Inr (p\<lparr>l_state := LSpartn LSpartnReadTF009\<rparr>, True))"

text \<open>\<^verbatim>\<open>switch (scratchPad->spartn.crcType)\<close> of the number of CRC bytes\<close>

definition spartn_crc_bytes :: "u8 \<Rightarrow> u16" where
  "spartn_crc_bytes t = (if t = 0 then 1 else if t = 1 then 2 else if t = 2 then 3 else 4)"

text \<open>The third header byte: the rest of the fields and the check of the header CRC.\<close>

definition spartn_header_end :: "lib \<Rightarrow> u8 \<Rightarrow> (lib \<times> bool) res" where
  "spartn_header_end p data =
     (let p = set_lib_spartn_payloadLength (push_bit 1 (lib_spartn_payloadLength p)) p;
          p = set_lib_spartn_payloadLength (lib_spartn_payloadLength p OR ucast (drop_bit 7 data)) p;
          p = set_lib_spartn_EAF (ucast (drop_bit 6 data AND 0x01)) p;
          p = set_lib_spartn_crcType (drop_bit 4 data AND 0x03) p;
          p = set_lib_spartn_crcBytes (spartn_crc_bytes (lib_spartn_crcType p)) p;
          p = set_lib_spartn_frameCRC (data AND 0x0F) p
      in rbind (at (l_buffer p) 3) (\<lambda>b3.
         rbind (upd (l_buffer p) 3 (b3 AND 0xF0)) (\<lambda>cleared.
         rbind (semp_uSpartnCrc4 (drop 1 cleared) 3) (\<lambda>crc.
         rbind (upd cleared 3 data) (\<lambda>restored.
           let p = p\<lparr>l_buffer := restored\<rparr>
           in if crc = lib_spartn_frameCRC p
              then Inr (p\<lparr>l_state := LSpartn LSpartnReadTF007\<rparr>, True)
              else Inr (sempPrintf_lib (l_printDebug p)
                          (LBinary (LSpartnBadHeaderCrc (lib_spartn_messageType p) (l_length p)))
                          (p\<lparr>l_state := LFirstByte\<rparr>), False))))))"

definition sempSpartnReadTF002TF006 :: "lib \<Rightarrow> u8 \<Rightarrow> (lib \<times> bool) res" where
  "sempSpartnReadTF002TF006 p data =
     (let p = (if lib_spartn_frameCount p = 0
               then set_lib_spartn_payloadLength (ucast (data AND 0x01))
                      (set_lib_spartn_messageType (drop_bit 1 data) p) else p);
          p = (if lib_spartn_frameCount p = 1
               then
                 let p = set_lib_spartn_payloadLength (push_bit 8 (lib_spartn_payloadLength p)) p
                 in set_lib_spartn_payloadLength (lib_spartn_payloadLength p OR ucast data) p
               else p)
      in rbind (if lib_spartn_frameCount p = 2 then spartn_header_end p data else Inr (p, True))
           (\<lambda>(p, ok).
             if ok then Inr (set_lib_spartn_frameCount (lib_spartn_frameCount p + 1) p, True)
             else Inr (p, False)))"

definition sempSpartnGetStateName :: "lib \<Rightarrow> string option" where
  "sempSpartnGetStateName p =
     (case l_state p of
        LPreamble LSpartnPreamble \<Rightarrow> Some ''sempSpartnPreamble''
      | LSpartn LSpartnReadTF002TF006 \<Rightarrow> Some ''sempSpartnReadTF002TF006''
      | LSpartn LSpartnReadTF007 \<Rightarrow> Some ''sempSpartnReadTF007''
      | LSpartn LSpartnReadTF009 \<Rightarrow> Some ''sempSpartnReadTF009''
      | LSpartn LSpartnReadTF016 \<Rightarrow> Some ''sempSpartnReadTF016''
      | LSpartn LSpartnReadTF017 \<Rightarrow> Some ''sempSpartnReadTF017''
      | LSpartn LSpartnReadTF018 \<Rightarrow> Some ''sempSpartnReadTF018''
      | _ \<Rightarrow> None)"

definition sempSpartnGetMessageType :: "lib \<Rightarrow> u8" where
  "sempSpartnGetMessageType p = lib_spartn_messageType p"

end
