(* ===== verification/Lib_Step.thy ===== *)
theory Lib_Step
  imports Lib_Text Lib_Binary Lib_SBF Lib_SPARTN
begin

text \<open>
  The state machine of the library as a whole: the call through \<^verbatim>\<open>parse->state\<close> and
  \<^verbatim>\<open>sempParseNextByte\<close> of lib/SparkFun_Extensible_Message_Parser.cpp.
\<close>

fun lib_call_nmea :: "lib_nmea \<Rightarrow> lib \<Rightarrow> u8 \<Rightarrow> (lib \<times> bool) res" where
  "lib_call_nmea LNmeaFindFirstComma = sempNmeaFindFirstComma_lib"
| "lib_call_nmea LNmeaFindAsterisk = sempNmeaFindAsterisk_lib"
| "lib_call_nmea LNmeaChecksumByte1 = sempNmeaChecksumByte1_lib"
| "lib_call_nmea LNmeaChecksumByte2 = sempNmeaChecksumByte2_lib"
| "lib_call_nmea LNmeaLineTermination = sempNmeaLineTermination_lib"
| "lib_call_nmea LNmeaCarriageReturn = sempNmeaCarriageReturn_lib"
| "lib_call_nmea LNmeaLineFeed = sempNmeaLineFeed_lib"

fun lib_call_rtcm :: "lib_rtcm \<Rightarrow> lib \<Rightarrow> u8 \<Rightarrow> (lib \<times> bool) res" where
  "lib_call_rtcm LRtcmReadLength1 = sempRtcmReadLength1_lib"
| "lib_call_rtcm LRtcmReadLength2 = sempRtcmReadLength2_lib"
| "lib_call_rtcm LRtcmReadMessage1 = sempRtcmReadMessage1_lib"
| "lib_call_rtcm LRtcmReadMessage2 = sempRtcmReadMessage2_lib"
| "lib_call_rtcm LRtcmReadData = sempRtcmReadData_lib"
| "lib_call_rtcm LRtcmReadCrc = sempRtcmReadCrc_lib"

fun lib_call_ublox :: "lib_ublox \<Rightarrow> lib \<Rightarrow> u8 \<Rightarrow> (lib \<times> bool) res" where
  "lib_call_ublox LUbloxSync2 = sempUbloxSync2_lib"
| "lib_call_ublox LUbloxClass = sempUbloxClass_lib"
| "lib_call_ublox LUbloxId = sempUbloxId_lib"
| "lib_call_ublox LUbloxLength1 = sempUbloxLength1_lib"
| "lib_call_ublox LUbloxLength2 = sempUbloxLength2_lib"
| "lib_call_ublox LUbloxPayload = sempUbloxPayload_lib"
| "lib_call_ublox LUbloxCkA = sempUbloxCkA_lib"
| "lib_call_ublox LUbloxCkB = sempUbloxCkB_lib"

fun lib_call_unicoreBinary :: "lib_unicoreBinary \<Rightarrow> lib \<Rightarrow> u8 \<Rightarrow> (lib \<times> bool) res" where
  "lib_call_unicoreBinary LUnicoreBinarySync2 = sempUnicoreBinaryBinarySync2"
| "lib_call_unicoreBinary LUnicoreBinarySync3 = sempUnicoreBinaryBinarySync3"
| "lib_call_unicoreBinary LUnicoreBinaryReadHeader = sempUnicoreBinaryReadHeader_lib"
| "lib_call_unicoreBinary LUnicoreBinaryReadData = sempUnicoreBinaryReadData_lib"
| "lib_call_unicoreBinary LUnicoreBinaryReadCrc = sempUnicoreBinaryReadCrc_lib"

fun lib_call_unicoreHash :: "lib_unicoreHash \<Rightarrow> lib \<Rightarrow> u8 \<Rightarrow> (lib \<times> bool) res" where
  "lib_call_unicoreHash LUnicoreHashFindFirstComma = sempUnicoreHashFindFirstComma_lib"
| "lib_call_unicoreHash LUnicoreHashFindAsterisk = sempUnicoreHashFindAsterisk_lib"
| "lib_call_unicoreHash LUnicoreHashChecksumByte = sempUnicoreHashChecksumByte_lib"
| "lib_call_unicoreHash LUnicoreHashLineTermination = sempUnicoreHashLineTermination_lib"
| "lib_call_unicoreHash LUnicoreHashCarriageReturn = sempUnicoreHashCarriageReturn_lib"
| "lib_call_unicoreHash LUnicoreHashLineFeed = sempUnicoreHashLineFeed_lib"

fun lib_call_spartn :: "lib_spartn \<Rightarrow> lib \<Rightarrow> u8 \<Rightarrow> (lib \<times> bool) res" where
  "lib_call_spartn LSpartnReadTF002TF006 = sempSpartnReadTF002TF006"
| "lib_call_spartn LSpartnReadTF007 = sempSpartnReadTF007"
| "lib_call_spartn LSpartnReadTF009 = sempSpartnReadTF009"
| "lib_call_spartn LSpartnReadTF016 = sempSpartnReadTF016"
| "lib_call_spartn LSpartnReadTF017 = sempSpartnReadTF017"
| "lib_call_spartn LSpartnReadTF018 = sempSpartnReadTF018"

fun lib_call_sbf :: "lib_sbf \<Rightarrow> lib \<Rightarrow> u8 \<Rightarrow> (lib \<times> bool) res" where
  "lib_call_sbf LSbfPreamble2 = sempSbfPreamble2"
| "lib_call_sbf LSbfCRC1 = sempSbfCRC1"
| "lib_call_sbf LSbfCRC2 = sempSbfCRC2"
| "lib_call_sbf LSbfID1 = sempSbfID1"
| "lib_call_sbf LSbfID2 = sempSbfID2"
| "lib_call_sbf LSbfLengthLSB = sempSbfLengthLSB"
| "lib_call_sbf LSbfLengthMSB = sempSbfLengthMSB"
| "lib_call_sbf LSbfReadBytes = sempSbfReadBytes"

fun lib_call_bluetooth :: "lib_bluetooth \<Rightarrow> lib \<Rightarrow> u8 \<Rightarrow> (lib \<times> bool) res" where
  "lib_call_bluetooth LBluetoothSync2 = sempBluetoothSync2_lib"
| "lib_call_bluetooth LBluetoothSync3 = sempBluetoothSync3_lib"
| "lib_call_bluetooth LBluetoothReadHeader = sempBluetoothReadHeader_lib"
| "lib_call_bluetooth LBluetoothReadData = sempBluetoothReadData_lib"
| "lib_call_bluetooth LBluetoothReadCrc = sempBluetoothReadCrc_lib"

fun lib_call_state :: "lib_routine \<Rightarrow> lib \<Rightarrow> u8 \<Rightarrow> (lib \<times> bool) res" where
  "lib_call_state LNullRoutine = (\<lambda>_ _. Inl NullPointer)"
| "lib_call_state LFirstByte = sempFirstByte_lib"
| "lib_call_state (LPreamble r) = lib_call_preamble r"
| "lib_call_state (LNmea s) = lib_call_nmea s"
| "lib_call_state (LRtcm s) = lib_call_rtcm s"
| "lib_call_state (LUblox s) = lib_call_ublox s"
| "lib_call_state (LUnicoreBinary s) = lib_call_unicoreBinary s"
| "lib_call_state (LUnicoreHash s) = lib_call_unicoreHash s"
| "lib_call_state (LSpartn s) = lib_call_spartn s"
| "lib_call_state (LSbf s) = lib_call_sbf s"
| "lib_call_state (LBluetooth s) = lib_call_bluetooth s"

text \<open>Saving the byte and updating the CRC, the common start of every byte.\<close>

definition lib_feed :: "lib \<Rightarrow> u8 \<Rightarrow> lib res" where
  "lib_feed p data =
     rbind (lib_push p data) (\<lambda>p.
       case l_computeCrc p of
         None \<Rightarrow> Inr p
       | Some routine \<Rightarrow> Inr (p\<lparr>l_crc := lib_call_computeCrc routine p data\<rparr>))"

definition sempParseNextByte_lib :: "lib \<Rightarrow> u8 \<Rightarrow> lib res" where
  "sempParseNextByte_lib p data =
     (if ucast (l_length p) \<ge> l_bufferLength p
      then rbind (sempFirstByte_lib
                    (sempPrintf_lib (l_printError p) (LBinary (LMessageTooLong (l_bufferLength p))) p) data)
             (\<lambda>(p, _). Inr p)
      else rbind (lib_feed p data) (\<lambda>p. rbind (lib_call_state (l_state p) p data) (\<lambda>(p, _). Inr p)))"

fun sempParseNextByte_ptr_lib :: "lib option \<Rightarrow> u8 \<Rightarrow> lib option res" where
  "sempParseNextByte_ptr_lib None data = Inr None"
| "sempParseNextByte_ptr_lib (Some p) data = rbind (sempParseNextByte_lib p data) (\<lambda>q. Inr (Some q))"

definition sempGetStateName :: "lib option \<Rightarrow> string" where
  "sempGetStateName parse =
     (case parse of
        Some p \<Rightarrow> if l_state p = LFirstByte then ''sempFirstByte'' else ''Unknown state''
      | None \<Rightarrow> ''Unknown state'')"

end
