(* ===== verification/Lib_Protocol.thy ===== *)
theory Lib_Protocol
  imports Lib_Step "HOL-Library.Sublist"
begin

text \<open>
  The contract between the framework of the library and its protocol files, as
  \<open>Message_Step\<close> has it for my_parser: the invariant of the parser structure, what the
  table walk does, and the locale \<open>lib_protocol\<close> from which follows what the parser does
  with every byte.

  The library adds one obligation. The invalid-data callback of the SBF protocol lives in
  the scratch union, and three protocols (\<open>lib_clobbers\<close>) have members there. A table is
  sane when it does not have SBF together with one of them.
\<close>

section \<open>Memory\<close>

lemma get32_upd_other [layout_simps]:
  "j < i \<or> i + 3 < j \<Longrightarrow> get32 (m(j := v)) i = get32 m i"
  by (auto simp: get32_def)

lemma get32_put32_other [layout_simps]:
  "i + 3 < j \<or> j + 3 < i \<Longrightarrow> get32 (put32 m j v) i = get32 m i"
  by (auto simp: get32_def put32_def)

lemma put32_other [layout_simps]: "j < i \<or> i + 3 < j \<Longrightarrow> put32 m i v j = m j"
  by (auto simp: put32_def)

lemma put16_put16 [simp, layout_simps]: "put16 (put16 m i v) i w = put16 m i w"
  by (simp add: put16_def fun_eq_iff)

section \<open>Well-formed parsers\<close>

definition wf_lib :: "lib \<Rightarrow> bool" where
  "wf_lib p \<longleftrightarrow>
     length (l_buffer p) = unat (l_bufferLength p) \<and> 32 \<le> length (l_buffer p)
     \<and> length (l_buffer p) < 65536 \<and> unat (l_length p) \<le> length (l_buffer p)
     \<and> length (l_parsers p) = unat (l_parserCount p) \<and> l_eomCallback p \<noteq> None"

lemma lib_message_simps [simp]:
  "lib_message (p\<lparr>l_state := s\<rparr>) = lib_message p" "lib_message (p\<lparr>l_scratchPad := m\<rparr>) = lib_message p"
  "lib_message (p\<lparr>l_crc := c\<rparr>) = lib_message p" "lib_message (p\<lparr>l_computeCrc := f\<rparr>) = lib_message p"
  "lib_message (p\<lparr>l_log := es\<rparr>) = lib_message p" "lib_message (p\<lparr>l_type := t\<rparr>) = lib_message p"
  by (simp_all add: lib_message_def)

lemma wf_lib_simps [simp]:
  "wf_lib (p\<lparr>l_state := s\<rparr>) = wf_lib p" "wf_lib (p\<lparr>l_scratchPad := m\<rparr>) = wf_lib p"
  "wf_lib (p\<lparr>l_crc := c\<rparr>) = wf_lib p" "wf_lib (p\<lparr>l_computeCrc := f\<rparr>) = wf_lib p"
  "wf_lib (p\<lparr>l_log := es\<rparr>) = wf_lib p" "wf_lib (p\<lparr>l_type := t\<rparr>) = wf_lib p"
  by (simp_all add: wf_lib_def)

lemma length_lib_message: "wf_lib p \<Longrightarrow> length (lib_message p) = unat (l_length p)"
  by (simp add: lib_message_def wf_lib_def)

lemma length_lib_message_16: "wf_lib p \<Longrightarrow> length (lib_message p) < 65536"
  by (simp add: lib_message_def wf_lib_def)

lemma lib_push_eq:
  assumes "wf_lib p" and "unat (l_length p) < length (l_buffer p)"
  obtains b n where "lib_push p d = Inr (p\<lparr>l_buffer := b, l_length := n\<rparr>)"
    "wf_lib (p\<lparr>l_buffer := b, l_length := n\<rparr>)"
    "lib_message (p\<lparr>l_buffer := b, l_length := n\<rparr>) = lib_message p @ [d]"
proof -
  have "unat (l_length p) < 65535" using assms by (simp add: wf_lib_def)
  then have un: "unat (l_length p + 1) = Suc (unat (l_length p))"
    by (intro unat_Suc_below [of _ "65535 :: u16"]) simp
  show thesis
    using assms un
    by (intro that [where b = "(l_buffer p)[unat (l_length p) := d]" and n = "l_length p + 1"])
      (simp_all add: lib_push_def upd_word wf_lib_def lib_message_def take_Suc_update)
qed

lemma lib_back_eq:
  assumes "wf_lib p" and "0 < k" and "k \<le> length (lib_message p)"
  shows "lib_back p (int k) = Inr (lib_message p ! (length (lib_message p) - k))"
proof -
  have len: "length (lib_message p) = unat (l_length p)" "unat (l_length p) \<le> length (l_buffer p)"
    using assms(1) by (simp_all add: length_lib_message wf_lib_def)
  have "lib_back p (int k) = Inr (l_buffer p ! (unat (l_length p) - k))"
    using assms len unfolding lib_back_def by (intro at_word_back) simp_all
  then show ?thesis using assms len by (simp add: lib_message_def)
qed

lemma lib_last_eq:
  assumes "wf_lib p" and "k \<le> length (lib_message p)"
  shows "\<exists>bs. lib_last k p = Inr bs"
  using assms(2)
proof (induction k)
  case (Suc k)
  then show ?case using lib_back_eq [OF assms(1), of "Suc k"] by auto
qed simp

lemma lib_at:
  assumes "wf_lib p" and "k < length (lib_message p)"
  shows "at (l_buffer p) (int k) = Inr (lib_message p ! k)"
  using assms by (simp add: lib_message_def wf_lib_def at_nat)

section \<open>The invalid-data callback\<close>

definition lib_callback_ok :: "lib \<Rightarrow> bool" where
  "lib_callback_ok p \<longleftrightarrow>
     lib_sbf_invalidDataCallback p = 0 \<or> lib_sbf_invalidDataCallback p \<in> set (l_functions p)"

text \<open>The protocols that store something where the callback is.\<close>

definition lib_clobbers :: "lib_preamble set" where
  "lib_clobbers = {LNmeaPreamble, LUnicoreHashPreamble, LSpartnPreamble}"

definition lib_sane :: "lib_preamble list \<Rightarrow> bool" where
  "lib_sane rs \<longleftrightarrow> (LSbfPreamble \<in> set rs \<longrightarrow> set rs \<inter> lib_clobbers = {})"

lemma call_invalidData_ok:
  assumes "lib_callback_ok p"
  obtains es where "call_invalidData p = Inr (p\<lparr>l_log := l_log p @ es\<rparr>)" "lib_eoms es = []"
proof (cases "lib_sbf_invalidDataCallback p = 0")
  case True
  then show thesis by (intro that [of "[]"]) (simp_all add: call_invalidData_def)
next
  case False
  then show thesis
    using assms by (intro that [of "[LInvalidData (lib_sbf_invalidDataCallback p) (lib_message p)]"])
      (simp_all add: call_invalidData_def lib_callback_ok_def)
qed

lemma lib_callback_ok_simps [simp]:
  "lib_callback_ok (p\<lparr>l_state := s\<rparr>) = lib_callback_ok p"
  "lib_callback_ok (p\<lparr>l_log := es\<rparr>) = lib_callback_ok p"
  "lib_callback_ok (p\<lparr>l_type := t\<rparr>) = lib_callback_ok p"
  by (simp_all add: lib_callback_ok_def lib_sbf_invalidDataCallback_def)

lemma sempPrintf_lib_log:
  obtains es where "sempPrintf_lib cb m p = p\<lparr>l_log := l_log p @ es\<rparr>" "lib_eoms es = []"
  by (cases cb) (auto simp: sempPrintf_lib_def intro: that [of "[]"])

section \<open>The table walk\<close>

fun lib_first :: "lib_preamble \<Rightarrow> u8" where
  "lib_first LNmeaPreamble = 0x24"
| "lib_first LRtcmPreamble = 0xd3"
| "lib_first LUbloxPreamble = 0xb5"
| "lib_first LUnicoreBinaryPreamble = 0xAA"
| "lib_first LUnicoreHashPreamble = 0x23"
| "lib_first LSpartnPreamble = 0x73"
| "lib_first LSbfPreamble = 0x24"
| "lib_first LBluetoothPreamble = 0xAA"

fun lib_match :: "lib_preamble list \<Rightarrow> u8 \<Rightarrow> nat option" where
  "lib_match [] d = None"
| "lib_match (r # rs) d = (if d = lib_first r then Some 0 else map_option Suc (lib_match rs d))"

lemma lib_match_Some: "lib_match rs d = Some k \<Longrightarrow> k < length rs \<and> d = lib_first (rs ! k)"
  by (induction rs arbitrary: k) (auto split: if_splits)

lemma lib_declines:
  assumes "d \<noteq> lib_first r" and "r = LSbfPreamble \<longrightarrow> lib_callback_ok p"
  obtains es where "lib_call_preamble r p d = Inr (p\<lparr>l_log := l_log p @ es\<rparr>, False)" "lib_eoms es = []"
proof (cases "r = LSbfPreamble")
  case True
  then have "lib_callback_ok p" using assms(2) by simp
  then obtain es where "call_invalidData p = Inr (p\<lparr>l_log := l_log p @ es\<rparr>)" "lib_eoms es = []"
    by (rule call_invalidData_ok)
  then show thesis
    using True assms(1) by (intro that [of es]) (simp_all add: sempSbfPreamble_def)
next
  case False
  then have "lib_call_preamble r p d = Inr (p, False)"
    using assms(1) by (cases r)
      (simp_all add: sempNmeaPreamble_lib_def sempRtcmPreamble_lib_def sempUbloxPreamble_lib_def
        sempUnicoreBinaryPreamble_lib_def sempUnicoreHashPreamble_lib_def sempSpartnPreamble_def
        sempBluetoothPreamble_lib_def)
  then show thesis by (intro that [of "[]"]) simp_all
qed

text \<open>A routine that takes a byte changes only the registers of the parser.\<close>

definition lib_taken :: "lib_preamble \<Rightarrow> lib \<Rightarrow> lib \<Rightarrow> bool" where
  "lib_taken r p q \<longleftrightarrow>
     q = p\<lparr>l_crc := l_crc q, l_computeCrc := l_computeCrc q, l_scratchPad := l_scratchPad q,
           l_state := l_state q\<rparr>
     \<and> (r \<notin> lib_clobbers \<longrightarrow> lib_sbf_invalidDataCallback q = lib_sbf_invalidDataCallback p)"

lemma lib_takes:
  assumes "d = lib_first r"
  obtains q where "lib_call_preamble r p d = Inr (q, True)" "lib_taken r p q"
  using assms
  by (cases r)
    (auto simp: sempNmeaPreamble_lib_def sempRtcmPreamble_lib_def sempUbloxPreamble_lib_def
      sempUnicoreBinaryPreamble_lib_def sempUnicoreHashPreamble_lib_def sempSpartnPreamble_def
      sempSbfPreamble_def sempBluetoothPreamble_lib_def lib_taken_def lib_clobbers_def
      lib_scratch_defs Let_def)

lemma lib_takenD:
  assumes "lib_taken r p q"
  shows "l_buffer q = l_buffer p" "l_length q = l_length p" "l_bufferLength q = l_bufferLength p"
    "l_parserCount q = l_parserCount p" "l_parsers q = l_parsers p"
    "l_eomCallback q = l_eomCallback p" "l_badCrc q = l_badCrc p" "l_functions q = l_functions p"
    "l_log q = l_log p" "lib_message q = lib_message p" "wf_lib q = wf_lib p"
    "r \<notin> lib_clobbers \<Longrightarrow> lib_callback_ok q = lib_callback_ok p"
proof -
  obtain c f m s where q: "q = p\<lparr>l_crc := c, l_computeCrc := f, l_scratchPad := m, l_state := s\<rparr>"
    using assms unfolding lib_taken_def by blast
  show "l_buffer q = l_buffer p" "l_length q = l_length p" "l_bufferLength q = l_bufferLength p"
    "l_parserCount q = l_parserCount p" "l_parsers q = l_parsers p"
    "l_eomCallback q = l_eomCallback p" "l_badCrc q = l_badCrc p" "l_functions q = l_functions p"
    "l_log q = l_log p" "lib_message q = lib_message p" "wf_lib q = wf_lib p"
    by (simp_all add: q)
  then show "r \<notin> lib_clobbers \<Longrightarrow> lib_callback_ok q = lib_callback_ok p"
    using assms by (simp add: lib_taken_def lib_callback_ok_def)
qed

lemma sempFirstByte_loop_lib_eq:
  assumes "length (l_parsers p) = i + n" and "LSbfPreamble \<in> set (l_parsers p) \<longrightarrow> lib_callback_ok p"
  shows "\<exists>es. lib_eoms es = [] \<and> sempFirstByte_loop_lib n i p d =
    (case lib_match (drop i (l_parsers p)) d of
       None \<Rightarrow> Inr (p\<lparr>l_log := l_log p @ es, l_state := LFirstByte\<rparr>, False)
     | Some k \<Rightarrow>
         rbind (lib_call_preamble (l_parsers p ! (i + k)) (p\<lparr>l_log := l_log p @ es\<rparr>) d)
           (\<lambda>(q, _). Inr (q\<lparr>l_type := of_nat (i + k)\<rparr>, True)))"
  using assms
proof (induction n arbitrary: i p)
  case 0
  then show ?case by (intro exI [of _ "[]"]) simp
next
  case (Suc n)
  define r where "r = l_parsers p ! i"
  have i: "i < length (l_parsers p)" using Suc.prems(1) by simp
  then have at: "at (l_parsers p) (int i) = Inr r" by (simp add: at_nat r_def)
  have d: "drop i (l_parsers p) = r # drop (Suc i) (l_parsers p)"
    using i by (simp add: r_def Cons_nth_drop_Suc)
  show ?case
  proof (cases "d = lib_first r")
    case True
    obtain q where "lib_call_preamble r p d = Inr (q, True)" by (rule lib_takes [OF True])
    then show ?thesis using True at d by (intro exI [of _ "[]"]) (simp add: r_def)
  next
    case False
    have "r = LSbfPreamble \<longrightarrow> lib_callback_ok p" using Suc.prems(2) nth_mem [OF i] by (auto simp: r_def)
    with False obtain es where es: "lib_call_preamble r p d = Inr (p\<lparr>l_log := l_log p @ es\<rparr>, False)"
        "lib_eoms es = []"
      by (rule lib_declines)
    define p1 where "p1 = p\<lparr>l_log := l_log p @ es\<rparr>"
    have p1: "l_parsers p1 = l_parsers p" "lib_callback_ok p1 = lib_callback_ok p"
      by (simp_all add: p1_def)
    obtain fs where fs: "lib_eoms fs = []" "sempFirstByte_loop_lib n (Suc i) p1 d =
        (case lib_match (drop (Suc i) (l_parsers p1)) d of
           None \<Rightarrow> Inr (p1\<lparr>l_log := l_log p1 @ fs, l_state := LFirstByte\<rparr>, False)
         | Some k \<Rightarrow>
             rbind (lib_call_preamble (l_parsers p1 ! (Suc i + k)) (p1\<lparr>l_log := l_log p1 @ fs\<rparr>) d)
               (\<lambda>(q, _). Inr (q\<lparr>l_type := of_nat (Suc i + k)\<rparr>, True)))"
      using Suc.IH [of p1 "Suc i"] Suc.prems p1 by auto
    have "sempFirstByte_loop_lib (Suc n) i p d = sempFirstByte_loop_lib n (Suc i) p1 d"
      using at es(1) by (simp add: p1_def)
    then show ?thesis
      using fs es(2) False d
      by (intro exI [of _ "es @ fs"]) (auto simp: p1_def ac_simps split: option.split)
  qed
qed

text \<open>The parser after the byte has been stored and before the walk.\<close>

definition lib_restart :: "lib \<Rightarrow> u8 \<Rightarrow> lib" where
  "lib_restart p d =
     p\<lparr>l_crc := 0, l_computeCrc := None, l_type := l_parserCount p,
       l_buffer := (l_buffer p)[0 := d], l_length := 1\<rparr>"

lemma lib_restart_simps [simp]:
  "l_crc (lib_restart p d) = 0" "l_computeCrc (lib_restart p d) = None"
  "l_parserCount (lib_restart p d) = l_parserCount p" "l_parsers (lib_restart p d) = l_parsers p"
  "l_bufferLength (lib_restart p d) = l_bufferLength p" "l_log (lib_restart p d) = l_log p"
  "l_badCrc (lib_restart p d) = l_badCrc p" "l_functions (lib_restart p d) = l_functions p"
  "l_scratchPad (lib_restart p d) = l_scratchPad p"
  "lib_callback_ok (lib_restart p d) = lib_callback_ok p"
  by (simp_all add: lib_restart_def lib_callback_ok_def lib_sbf_invalidDataCallback_def)

lemma wf_lib_restart: "wf_lib p \<Longrightarrow> wf_lib (lib_restart p d)"
  by (simp add: wf_lib_def lib_restart_def)

lemma lib_message_restart: "wf_lib p \<Longrightarrow> lib_message (lib_restart p d) = [d]"
  by (cases "l_buffer p") (auto simp: wf_lib_def lib_message_def lib_restart_def)

lemma sempFirstByte_lib_eq:
  assumes "wf_lib p" and "LSbfPreamble \<in> set (l_parsers p) \<longrightarrow> lib_callback_ok p"
  obtains es where "lib_eoms es = []" "sempFirstByte_lib p d =
    (case lib_match (l_parsers p) d of
       None \<Rightarrow> Inr ((lib_restart p d)\<lparr>l_log := l_log p @ es, l_state := LFirstByte\<rparr>, False)
     | Some k \<Rightarrow>
         rbind (lib_call_preamble (l_parsers p ! k) ((lib_restart p d)\<lparr>l_log := l_log p @ es\<rparr>) d)
           (\<lambda>(q, _). Inr (q\<lparr>l_type := of_nat k\<rparr>, True)))"
proof -
  have "lib_push (p\<lparr>l_crc := 0, l_computeCrc := None, l_length := 0, l_type := l_parserCount p\<rparr>) d
      = Inr (lib_restart p d)"
    using assms(1) upd_nat [of 0 "l_buffer p" d] by (auto simp: lib_push_def lib_restart_def wf_lib_def)
  then have walk: "sempFirstByte_lib p d
      = sempFirstByte_loop_lib (unat (l_parserCount p)) 0 (lib_restart p d) d"
    by (simp add: sempFirstByte_lib_def)
  have "\<exists>es. lib_eoms es = []
      \<and> sempFirstByte_loop_lib (unat (l_parserCount p)) 0 (lib_restart p d) d =
    (case lib_match (drop 0 (l_parsers (lib_restart p d))) d of
       None \<Rightarrow> Inr ((lib_restart p d)\<lparr>l_log := l_log (lib_restart p d) @ es, l_state := LFirstByte\<rparr>, False)
     | Some k \<Rightarrow>
         rbind (lib_call_preamble (l_parsers (lib_restart p d) ! (0 + k))
                  ((lib_restart p d)\<lparr>l_log := l_log (lib_restart p d) @ es\<rparr>) d)
           (\<lambda>(q, _). Inr (q\<lparr>l_type := of_nat (0 + k)\<rparr>, True)))"
    using assms by (intro sempFirstByte_loop_lib_eq) (simp_all add: wf_lib_def)
  then show thesis
    unfolding lib_restart_simps drop_0 add_0 walk [symmetric] using that by (elim exE conjE)
qed

section \<open>What a byte does to the common part of the state\<close>

definition lib_next_crc :: "lib \<Rightarrow> u8 \<Rightarrow> u32" where
  "lib_next_crc p d =
     (case l_computeCrc p of None \<Rightarrow> l_crc p | Some f \<Rightarrow> lib_call_computeCrc f p d)"

lemma lib_call_computeCrc_frame:
  "lib_call_computeCrc f (p\<lparr>l_buffer := b, l_length := n\<rparr>) d = lib_call_computeCrc f p d"
  by (cases f) (simp_all add: sempRtcmComputeCrc24q_lib_def sempUnicoreBinaryComputeCrc_lib_def
      sempBluetoothComputeCrc_lib_def)

lemma lib_feed_eq:
  assumes "wf_lib p" and "unat (l_length p) < length (l_buffer p)"
  obtains b n where "lib_feed p d = Inr (p\<lparr>l_buffer := b, l_length := n, l_crc := lib_next_crc p d\<rparr>)"
    "wf_lib (p\<lparr>l_buffer := b, l_length := n\<rparr>)"
    "lib_message (p\<lparr>l_buffer := b, l_length := n\<rparr>) = lib_message p @ [d]"
proof (rule lib_push_eq [OF assms, of d])
  fix b n
  assume *: "lib_push p d = Inr (p\<lparr>l_buffer := b, l_length := n\<rparr>)"
    "wf_lib (p\<lparr>l_buffer := b, l_length := n\<rparr>)"
    "lib_message (p\<lparr>l_buffer := b, l_length := n\<rparr>) = lib_message p @ [d]"
  then show thesis
    by (intro that [where b = b and n = n])
      (simp_all add: lib_feed_def lib_next_crc_def lib_call_computeCrc_frame split: option.split)
qed

text \<open>
  What a routine may do with the parser: it keeps the configuration, and the callback of
  SBF if the protocol has nothing in its place.
\<close>

definition lib_kept :: "lib_preamble \<Rightarrow> lib \<Rightarrow> lib \<Rightarrow> bool" where
  "lib_kept r p q \<longleftrightarrow>
     wf_lib q \<and> l_bufferLength q = l_bufferLength p \<and> l_parsers q = l_parsers p
     \<and> l_parserCount q = l_parserCount p \<and> l_badCrc q = l_badCrc p \<and> l_type q = l_type p
     \<and> l_functions q = l_functions p
     \<and> (r \<notin> lib_clobbers \<longrightarrow> lib_sbf_invalidDataCallback q = lib_sbf_invalidDataCallback p)"

lemma lib_kept_refl: "wf_lib p \<Longrightarrow> lib_kept r p p"
  by (simp add: lib_kept_def)

lemma lib_kept_trans: "lib_kept r p q \<Longrightarrow> lib_kept r q s \<Longrightarrow> lib_kept r p s"
  by (simp add: lib_kept_def)

lemma lib_kept_log: "lib_kept r p q \<Longrightarrow> lib_kept r p (q\<lparr>l_log := es\<rparr>)"
  by (simp add: lib_kept_def lib_sbf_invalidDataCallback_def)

lemma lib_kept_state: "lib_kept r p q \<Longrightarrow> lib_kept r p (q\<lparr>l_state := s\<rparr>)"
  by (simp add: lib_kept_def lib_sbf_invalidDataCallback_def)

lemma lib_kept_callback: "lib_kept r p q \<Longrightarrow> r \<notin> lib_clobbers \<Longrightarrow> lib_callback_ok q = lib_callback_ok p"
  by (simp add: lib_kept_def lib_callback_ok_def)

lemma lib_feedD:
  assumes "wf_lib p" and "unat (l_length p) < length (l_buffer p)" and "lib_feed p d = Inr p'"
  shows "lib_kept r p p'" "lib_message p' = lib_message p @ [d]" "l_state p' = l_state p"
    "l_scratchPad p' = l_scratchPad p" "l_crc p' = lib_next_crc p d" "l_log p' = l_log p"
    "l_computeCrc p' = l_computeCrc p" "wf_lib p'" "lib_callback_ok p' = lib_callback_ok p"
    "l_printDebug p' = l_printDebug p" "l_parsers p' = l_parsers p" "l_badCrc p' = l_badCrc p"
    "l_type p' = l_type p"
proof -
  obtain b n where f: "lib_feed p d = Inr (p\<lparr>l_buffer := b, l_length := n, l_crc := lib_next_crc p d\<rparr>)"
    "wf_lib (p\<lparr>l_buffer := b, l_length := n\<rparr>)"
    "lib_message (p\<lparr>l_buffer := b, l_length := n\<rparr>) = lib_message p @ [d]"
    by (rule lib_feed_eq [OF assms(1,2)])
  then have p': "p' = (p\<lparr>l_buffer := b, l_length := n\<rparr>)\<lparr>l_crc := lib_next_crc p d\<rparr>"
    using assms(3) by simp
  show "lib_message p' = lib_message p @ [d]" "wf_lib p'"
    unfolding p' using f(2,3) by (simp_all only: lib_message_simps wf_lib_simps)
  then show "lib_kept r p p'" by (simp add: p' lib_kept_def lib_sbf_invalidDataCallback_def)
  show "l_state p' = l_state p"
    "l_scratchPad p' = l_scratchPad p" "l_crc p' = lib_next_crc p d" "l_log p' = l_log p"
    "l_computeCrc p' = l_computeCrc p" "lib_callback_ok p' = lib_callback_ok p"
    "l_printDebug p' = l_printDebug p" "l_parsers p' = l_parsers p" "l_badCrc p' = l_badCrc p"
    "l_type p' = l_type p"
    by (simp_all add: p' lib_callback_ok_def lib_sbf_invalidDataCallback_def)
qed

section \<open>The contract of a protocol\<close>

text \<open>
  The three ways a routine can treat a byte: go on with the message, end it (it is
  delivered if it is valid or the callback accepts it), or hand the byte to the table
  walk.
\<close>

definition lib_continues ::
  "lib_preamble \<Rightarrow> (lib \<Rightarrow> bool) \<Rightarrow> lib \<Rightarrow> u8 \<Rightarrow> (lib \<times> bool) res \<Rightarrow> bool" where
  "lib_continues r pinv p d res \<longleftrightarrow>
     (\<exists>q b. res = Inr (q, b) \<and> lib_kept r p q \<and> pinv q \<and> lib_message q = lib_message p @ [d]
            \<and> lib_delivered q = lib_delivered p)"

definition lib_finishes ::
  "lib_preamble \<Rightarrow> (u8 list \<Rightarrow> bool) \<Rightarrow> lib \<Rightarrow> u8 \<Rightarrow> (lib \<times> bool) res \<Rightarrow> bool" where
  "lib_finishes r valid p d res \<longleftrightarrow>
     (\<exists>q b acc. res = Inr (q, b) \<and> lib_kept r p q \<and> l_state q = LFirstByte
        \<and> (l_badCrc p = None \<longrightarrow> acc = valid (lib_message p @ [d])) \<and> (valid (lib_message p @ [d]) \<longrightarrow> acc)
        \<and> lib_delivered q = lib_delivered p @ (if acc then [(l_type p, lib_message p @ [d])] else []))"

definition lib_restarts :: "lib_preamble \<Rightarrow> lib \<Rightarrow> u8 \<Rightarrow> (lib \<times> bool) res \<Rightarrow> bool" where
  "lib_restarts r p d res \<longleftrightarrow>
     (\<exists>q. res = sempFirstByte_lib q d \<and> lib_kept r p q \<and> lib_delivered q = lib_delivered p)"

lemma lib_kept_scratch:
  assumes "lib_kept r p q" and "r \<notin> lib_clobbers \<longrightarrow> get32 m 12 = get32 (l_scratchPad q) 12"
  shows "lib_kept r p (q\<lparr>l_scratchPad := m\<rparr>)"
  using assms by (auto simp: lib_kept_def lib_sbf_invalidDataCallback_def)

lemma lib_kept_crc: "lib_kept r p q \<Longrightarrow> lib_kept r p (q\<lparr>l_crc := c\<rparr>)"
  by (simp add: lib_kept_def lib_sbf_invalidDataCallback_def)

lemma sempPrintf_lib_simps [simp]:
  "l_state (sempPrintf_lib cb m p) = l_state p" "lib_delivered (sempPrintf_lib cb m p) = lib_delivered p"
  by (simp_all add: sempPrintf_lib_def split: option.split)

lemma lib_kept_printf: "lib_kept r p q \<Longrightarrow> lib_kept r p (sempPrintf_lib cb m q)"
  by (simp add: sempPrintf_lib_def lib_kept_log split: option.split)

lemmas lib_kept_intros = lib_kept_state lib_kept_log lib_kept_crc lib_kept_scratch

lemma lib_continues_Inr:
  "lib_continues r pinv p d (Inr (q, b)) \<longleftrightarrow>
     lib_kept r p q \<and> pinv q \<and> lib_message q = lib_message p @ [d] \<and> lib_delivered q = lib_delivered p"
  by (simp add: lib_continues_def)

lemma lib_drops:
  assumes "res = Inr (q, b)" and "lib_kept r p q" and "l_state q = LFirstByte"
    and "lib_delivered q = lib_delivered p" and "\<not> valid (lib_message p @ [d])"
  shows "lib_finishes r valid p d res"
  unfolding lib_finishes_def using assms
  by (intro exI [of _ q] exI [of _ b] exI [of _ False]) simp

lemma lib_crc_accepted_cases:
  assumes "lib_crc_accepted ok p = (q, acc)"
  obtains es where "q = p\<lparr>l_log := l_log p @ es\<rparr>" "lib_eoms es = []" "l_badCrc p = None \<longrightarrow> acc = ok"
    "ok \<longrightarrow> acc"
proof (cases "ok \<or> l_badCrc p = None")
  case True
  then show thesis
    using assms by (intro that [of "[]"]) (auto simp: lib_crc_accepted_def split: if_splits)
next
  case False
  then show thesis
    using assms by (intro that [of "[LBadCrcCall (l_type p) (lib_message p)]"])
      (auto simp: lib_crc_accepted_def)
qed

text \<open>
  The end of a message: it is delivered, or \<open>reject\<close> reports it; both change only the
  trace.
\<close>

lemma lib_finish_cases:
  assumes "wf_lib p"
    and "\<And>es. \<exists>fs. lib_eoms fs = [] \<and> reject (p\<lparr>l_log := l_log p @ es\<rparr>) = Inr (p\<lparr>l_log := l_log p @ es @ fs\<rparr>)"
  obtains es acc where
    "(let (p, accepted) = lib_crc_accepted ok p
      in rbind (if accepted then lib_call_eom p else reject p) K) = K (p\<lparr>l_log := l_log p @ es\<rparr>)"
    "l_badCrc p = None \<longrightarrow> acc = ok" "ok \<longrightarrow> acc"
    "lib_eoms es = (if acc then [(l_type p, lib_message p)] else [])"
proof -
  obtain p1 acc where c: "lib_crc_accepted ok p = (p1, acc)" by fastforce
  then obtain es where es: "p1 = p\<lparr>l_log := l_log p @ es\<rparr>" "lib_eoms es = []"
      "l_badCrc p = None \<longrightarrow> acc = ok" "ok \<longrightarrow> acc"
    by (rule lib_crc_accepted_cases)
  show thesis
  proof (cases acc)
    case True
    obtain a where a: "l_eomCallback p = Some a" using assms(1) by (auto simp: wf_lib_def)
    show thesis
      using True c es a
      by (intro that [where es = "es @ [LEom a (l_type p) (lib_message p)]" and acc = acc])
        (simp_all add: lib_call_eom_def)
  next
    case False
    obtain fs where "lib_eoms fs = []" "reject p1 = Inr (p\<lparr>l_log := l_log p @ es @ fs\<rparr>)"
      using assms(2) [of es] es(1) by auto
    then show thesis
      using False c es by (intro that [where es = "es @ fs" and acc = acc]) simp_all
  qed
qed

lemma lib_finishesI:
  assumes res: "res = (let (p, accepted) = lib_crc_accepted ok p'
      in rbind (if accepted then lib_call_eom p else reject p) (\<lambda>p. Inr (idle p, b)))"
    and p: "lib_kept r p p'" "lib_delivered p' = lib_delivered p" "lib_message p' = lib_message p @ [d]"
      "valid (lib_message p @ [d]) = ok"
    and reject: "\<And>es. \<exists>fs. lib_eoms fs = []
      \<and> reject (p'\<lparr>l_log := l_log p' @ es\<rparr>) = Inr (p'\<lparr>l_log := l_log p' @ es @ fs\<rparr>)"
    and idle: "\<And>q. lib_kept r p q \<Longrightarrow> lib_kept r p (idle q)" "\<And>es. l_state (idle (p'\<lparr>l_log := es\<rparr>)) = LFirstByte"
      "\<And>q. lib_delivered (idle q) = lib_delivered q"
  shows "lib_finishes r valid p d res"
proof -
  have wf: "wf_lib p'" "l_badCrc p' = l_badCrc p" "l_type p' = l_type p"
    using p(1) by (simp_all add: lib_kept_def)
  define K :: "lib \<Rightarrow> (lib \<times> bool) res" where "K = (\<lambda>p. Inr (idle p, b))"
  obtain es acc where e: "(let (p, accepted) = lib_crc_accepted ok p'
      in rbind (if accepted then lib_call_eom p else reject p) K) = K (p'\<lparr>l_log := l_log p' @ es\<rparr>)"
    "l_badCrc p' = None \<longrightarrow> acc = ok" "ok \<longrightarrow> acc"
    "lib_eoms es = (if acc then [(l_type p', lib_message p')] else [])"
    by (rule lib_finish_cases [OF wf(1) reject])
  define q where "q = idle (p'\<lparr>l_log := l_log p' @ es\<rparr>)"
  have "res = Inr (q, b)" using e(1) by (simp add: res K_def q_def)
  moreover have "lib_kept r p q" "l_state q = LFirstByte"
    using lib_kept_log [OF p(1)] by (auto simp: q_def intro: idle)
  moreover have "lib_delivered q = lib_delivered p @ (if acc then [(l_type p, lib_message p @ [d])] else [])"
    using e(4) p(2,3) wf(3) by (simp add: q_def idle(3))
  ultimately show ?thesis
    unfolding lib_finishes_def using e(2,3) p(4) wf(2)
    by (intro exI [of _ q] exI [of _ b] exI [of _ acc]) simp
qed

text \<open>
  The contract. \<open>pinv\<close> holds while the protocol reads a message, \<open>shape\<close> are the byte
  strings that look like a message, \<open>valid\<close> those of them whose checksum is right. A byte
  that the preamble routine takes establishes \<open>pinv\<close>; every further byte is treated in
  one of the three ways; and something that has the shape of a message is read to its end.
\<close>

locale lib_protocol =
  fixes r :: lib_preamble
    and pinv :: "lib \<Rightarrow> bool"
    and shape :: "u8 list \<Rightarrow> bool"
    and valid :: "u8 list \<Rightarrow> bool"
  assumes start: "wf_lib p \<Longrightarrow> lib_message p = [lib_first r] \<Longrightarrow> l_crc p = 0 \<Longrightarrow> l_computeCrc p = None \<Longrightarrow>
      lib_call_preamble r p (lib_first r) = Inr (q, True) \<Longrightarrow> pinv q"
    and pinv_type: "pinv (p\<lparr>l_type := t\<rparr>) = pinv p"
    and valid_shape: "valid f \<Longrightarrow> shape f"
    and shape_length: "shape f \<Longrightarrow> 2 \<le> length f"
    and step: "wf_lib p \<Longrightarrow> r = LSbfPreamble \<longrightarrow> lib_callback_ok p \<Longrightarrow> pinv p \<Longrightarrow>
      unat (l_length p) < length (l_buffer p) \<Longrightarrow> lib_feed p d = Inr p' \<Longrightarrow>
      res = lib_call_state (l_state p') p' d \<Longrightarrow>
      lib_continues r pinv p d res \<or> lib_finishes r valid p d res \<or> lib_restarts r p d res"
    and complete: "wf_lib p \<Longrightarrow> r = LSbfPreamble \<longrightarrow> lib_callback_ok p \<Longrightarrow> pinv p \<Longrightarrow>
      unat (l_length p) < length (l_buffer p) \<Longrightarrow> lib_feed p d = Inr p' \<Longrightarrow>
      res = lib_call_state (l_state p') p' d \<Longrightarrow> shape f \<Longrightarrow> prefix (lib_message p @ [d]) f \<Longrightarrow>
      (if lib_message p @ [d] = f then lib_finishes r valid p d res else lib_continues r pinv p d res)"

end
