(* ===== verification/Protocol_SBF.thy ===== *)
theory Protocol_SBF
  imports Lib_Protocol
begin

text \<open>
  The SBF protocol of the library against its specification: blocks of at least twelve
  bytes, a multiple of four, the invariant of the routines of lib/Parse_SBF.cpp and their
  contract. A block that announces less than twelve bytes is never delivered: the counter
  wraps.
\<close>

section \<open>Blocks\<close>

definition sbf_crc :: "u8 list \<Rightarrow> u16" where
  "sbf_crc m = msb_crc 0x1021 0 m"

definition sbf_length :: "u8 list \<Rightarrow> u16" where
  "sbf_length m = le16 (m ! 6) (m ! 7)"

definition sbf_shape :: "u8 list \<Rightarrow> bool" where
  "sbf_shape f \<longleftrightarrow>
     12 \<le> length f \<and> f ! 0 = 0x24 \<and> f ! 1 = 0x40 \<and> length f = unat (sbf_length f) \<and> length f mod 4 = 0"

definition sbf_valid :: "u8 list \<Rightarrow> bool" where
  "sbf_valid f \<longleftrightarrow> sbf_shape f \<and> sbf_crc (drop 4 f) = le16 (f ! 2) (f ! 3)"

lemma sbf_crc_snoc [simp]: "sbf_crc (m @ [d]) = semp_ccitt_crc_update (sbf_crc m) d"
  by (simp add: sbf_crc_def msb_crc_def ccitt_update)

section \<open>The invariant of the protocol\<close>

definition sbf_id :: "u8 list \<Rightarrow> u16" where
  "sbf_id m = le16 (m ! 4) (m ! 5) AND 0x1FFF"

definition sbf_inv :: "lib \<Rightarrow> bool" where
  "sbf_inv p \<longleftrightarrow>
     (let m = lib_message p; n = length m;
          sync = (m ! 0 = 0x24 \<and> m ! 1 = 0x40);
          crcs = (lib_sbf_expectedCRC p = le16 (m ! 2) (m ! 3) \<and> lib_sbf_computedCRC p = sbf_crc (drop 4 m));
          ids = (lib_sbf_sbfID p = sbf_id m \<and> lib_sbf_sbfIDrev p = drop_bit 5 (m ! 5))
      in (case l_state p of
            LSbf LSbfPreamble2 \<Rightarrow> m = [0x24]
          | LSbf LSbfCRC1 \<Rightarrow> m = [0x24, 0x40]
          | LSbf LSbfCRC2 \<Rightarrow> n = 3 \<and> sync \<and> lib_sbf_expectedCRC p = ucast (m ! 2)
          | LSbf LSbfID1 \<Rightarrow> n = 4 \<and> sync \<and> crcs
          | LSbf LSbfID2 \<Rightarrow> n = 5 \<and> sync \<and> crcs \<and> lib_sbf_sbfID p = ucast (m ! 4)
          | LSbf LSbfLengthLSB \<Rightarrow> n = 6 \<and> sync \<and> crcs \<and> ids
          | LSbf LSbfLengthMSB \<Rightarrow> n = 7 \<and> sync \<and> crcs \<and> ids \<and> lib_sbf_length p = ucast (m ! 6)
          | LSbf LSbfReadBytes \<Rightarrow>
              8 \<le> n \<and> sync \<and> crcs \<and> ids \<and> sbf_length m mod 4 = 0
              \<and> lib_sbf_bytesRemaining p = sbf_length m - of_nat n
              \<and> (12 \<le> unat (sbf_length m) \<longrightarrow> n < unat (sbf_length m))
          | _ \<Rightarrow> False))"

lemma sbf_inv_type: "sbf_inv (p\<lparr>l_type := t\<rparr>) = sbf_inv p"
  by (simp add: sbf_inv_def lib_scratch_defs cong: lib_routine.case_cong lib_sbf.case_cong)


lemma sbf_not_clobbers [simp]: "LSbfPreamble \<notin> lib_clobbers"
  by (simp add: lib_clobbers_def)

lemma sbf_crc_Nil [simp]: "sbf_crc [] = 0"
  by (simp add: sbf_crc_def msb_crc_def)

lemma sbf_crc_single [simp]: "sbf_crc [d] = semp_ccitt_crc_update 0 d"
  using sbf_crc_snoc [of "[]" d] by simp

lemma sbf_continues_header:
  assumes "wf_lib p" and "sbf_inv p" and "unat (l_length p) < length (l_buffer p)"
    and "lib_feed p d = Inr p'"
    and "l_state p \<in> LSbf ` {LSbfPreamble2, LSbfCRC1, LSbfCRC2, LSbfID1, LSbfID2, LSbfLengthLSB}"
    and "l_state p = LSbf LSbfPreamble2 \<longrightarrow> d = 0x40"
  shows "lib_continues LSbfPreamble sbf_inv p d (lib_call_state (l_state p') p' d)"
proof -
  note f = lib_feedD [OF assms(1,3,4)]
  show ?thesis
    using assms(2,5,6) f(1-6) f(1) [of LSbfPreamble]
    by (auto simp: lib_continues_Inr sempSbfPreamble2_def sempSbfCRC1_def sempSbfCRC2_def sempSbfID1_def
        sempSbfID2_def sempSbfLengthLSB_def sbf_inv_def Let_def lib_scratch_defs layout_simps nth_append
        sbf_id_def le16_def intro!: lib_kept_intros)
qed

lemma sbf_append:
  "8 \<le> length m \<Longrightarrow> sbf_length (m @ [d]) = sbf_length m"
  "6 \<le> length m \<Longrightarrow> sbf_id (m @ [d]) = sbf_id m"
  by (simp_all add: sbf_length_def sbf_id_def nth_append)

lemma sbf_continues_length:
  assumes "wf_lib p" and "sbf_inv p" and "unat (l_length p) < length (l_buffer p)"
    and "lib_feed p d = Inr p'" and "l_state p = LSbf LSbfLengthMSB"
    and "sbf_length (lib_message p @ [d]) mod 4 = 0"
  shows "lib_continues LSbfPreamble sbf_inv p d (lib_call_state (l_state p') p' d)"
proof -
  note f = lib_feedD [OF assms(1,3,4)]
  have "length (lib_message p) = 7" using assms(2,5) by (simp add: sbf_inv_def Let_def)
  then have len: "sbf_length (lib_message p @ [d]) = ucast (lib_message p ! 6) OR push_bit 8 (ucast d)"
    by (simp add: sbf_length_def le16_def nth_append)
  show ?thesis
    using assms(2,5,6) f(1-6) f(1) [of LSbfPreamble] sbf_append(2) [of "lib_message p" d]
    by (auto simp: lib_continues_Inr sempSbfLengthMSB_def sbf_inv_def Let_def lib_scratch_defs
        layout_simps nth_append len intro!: lib_kept_intros)
qed

lemma sbf_reading:
  assumes "wf_lib p" and "sbf_inv p" and "unat (l_length p) < length (l_buffer p)"
    and "l_state p = LSbf LSbfReadBytes"
  defines "m \<equiv> lib_message p"
  shows "8 \<le> length m" "m ! 0 = 0x24" "m ! 1 = 0x40" "lib_sbf_expectedCRC p = le16 (m ! 2) (m ! 3)"
    "lib_sbf_computedCRC p = sbf_crc (drop 4 m)" "lib_sbf_sbfID p = sbf_id m"
    "lib_sbf_sbfIDrev p = drop_bit 5 (m ! 5)" "sbf_length m mod 4 = 0"
    "lib_sbf_bytesRemaining p - 1 = sbf_length m - of_nat (Suc (length m))"
    "12 \<le> unat (sbf_length m) \<longrightarrow> length m < unat (sbf_length m)"
    "lib_sbf_bytesRemaining p - 1 = 0 \<longleftrightarrow> unat (sbf_length m) = Suc (length m)"
proof -
  have br: "lib_sbf_bytesRemaining p = sbf_length m - of_nat (length m)"
    using assms(2,4) by (simp add: sbf_inv_def m_def Let_def)
  show "lib_sbf_bytesRemaining p - 1 = 0 \<longleftrightarrow> unat (sbf_length m) = Suc (length m)"
    unfolding br using assms(1,3) by (intro dec_complete) (simp add: m_def length_lib_message wf_lib_def)
  show "8 \<le> length m" "m ! 0 = 0x24" "m ! 1 = 0x40" "lib_sbf_expectedCRC p = le16 (m ! 2) (m ! 3)"
    "lib_sbf_computedCRC p = sbf_crc (drop 4 m)" "lib_sbf_sbfID p = sbf_id m"
    "lib_sbf_sbfIDrev p = drop_bit 5 (m ! 5)" "sbf_length m mod 4 = 0"
    "lib_sbf_bytesRemaining p - 1 = sbf_length m - of_nat (Suc (length m))"
    "12 \<le> unat (sbf_length m) \<longrightarrow> length m < unat (sbf_length m)"
    using assms(2,4) br by (simp_all add: sbf_inv_def m_def Let_def)
qed

lemma sbf_continues_bytes:
  assumes "wf_lib p" and "sbf_inv p" and "unat (l_length p) < length (l_buffer p)"
    and "lib_feed p d = Inr p'" and "l_state p = LSbf LSbfReadBytes"
    and "unat (sbf_length (lib_message p)) \<noteq> Suc (length (lib_message p))"
  shows "lib_continues LSbfPreamble sbf_inv p d (lib_call_state (l_state p') p' d)"
proof -
  note f = lib_feedD [OF assms(1,3,4)]
  note c = sbf_reading [OF assms(1-3,5)]
  define q where "q = set_lib_sbf_bytesRemaining (lib_sbf_bytesRemaining p - 1)
    (set_lib_sbf_computedCRC (semp_ccitt_crc_update (lib_sbf_computedCRC p) d) p')"
  have "lib_call_state (l_state p') p' d = Inr (q, True)"
    using f assms(5,6) c(11) by (simp add: sempSbfReadBytes_def q_def lib_scratch_defs layout_simps)
  moreover have "lib_sbf_bytesRemaining q = sbf_length (lib_message p) - of_nat (Suc (length (lib_message p)))"
    using c(9) by (simp add: q_def lib_scratch_defs)
  then have "sbf_inv q"
    using f(2-4) assms(5,6) c sbf_append [of "lib_message p" d]
    by (auto simp: sbf_inv_def q_def lib_scratch_defs layout_simps Let_def nth_append)
  moreover have "lib_kept LSbfPreamble p q"
    using f(1) by (auto simp: q_def lib_scratch_defs layout_simps intro!: lib_kept_intros)
  ultimately show ?thesis using f by (simp add: lib_continues_Inr q_def lib_scratch_defs)
qed

text \<open>The parser at the end of a block.\<close>

definition sbf_done :: "lib \<Rightarrow> lib \<Rightarrow> u8 \<Rightarrow> lib" where
  "sbf_done p p' d = (set_lib_sbf_bytesRemaining (lib_sbf_bytesRemaining p - 1)
    (set_lib_sbf_computedCRC (semp_ccitt_crc_update (lib_sbf_computedCRC p) d) p'))\<lparr>l_state := LFirstByte\<rparr>"

lemma sbf_last:
  assumes "wf_lib p" and "sbf_inv p" and "unat (l_length p) < length (l_buffer p)"
    and "lib_feed p d = Inr p'" and "l_state p = LSbf LSbfReadBytes"
    and "unat (sbf_length (lib_message p)) = Suc (length (lib_message p))"
  defines "q \<equiv> sbf_done p p' d"
  shows "lib_kept LSbfPreamble p q" "lib_message q = lib_message p @ [d]" "l_log q = l_log p"
    "lib_sbf_sbfID q = sbf_id (lib_message p @ [d])"
    "lib_sbf_sbfIDrev q = drop_bit 5 ((lib_message p @ [d]) ! 5)"
    "lib_call_state (l_state p') p' d =
      (let (p, accepted) = lib_crc_accepted (sbf_valid (lib_message p @ [d])) q
       in rbind (if accepted then lib_call_eom p
                 else call_invalidData (sempPrintf_lib (l_printDebug p)
                        (LBinary (LSbfBadCrc (lib_sbf_sbfID p) (l_length p))) p))
            (\<lambda>p. Inr (p, False)))"
proof -
  note f = lib_feedD [OF assms(1,3,4)]
  note c = sbf_reading [OF assms(1-3,5)]
  show "lib_kept LSbfPreamble p q"
    using f(1) by (auto simp: q_def sbf_done_def lib_scratch_defs layout_simps intro!: lib_kept_intros)
  show "lib_message q = lib_message p @ [d]" "l_log q = l_log p"
      "lib_sbf_sbfID q = sbf_id (lib_message p @ [d])"
      "lib_sbf_sbfIDrev q = drop_bit 5 ((lib_message p @ [d]) ! 5)"
    using f c(1,6,7) sbf_append(2) [of "lib_message p" d]
    by (simp_all add: q_def sbf_done_def lib_scratch_defs layout_simps nth_append)
  have "unat (sbf_length (lib_message p)) mod 4 = 0"
    using arg_cong [OF c(8), of unat] by (simp add: unat_mod)
  then have "sbf_shape (lib_message p @ [d])"
    using c(1-3) assms(6) sbf_append(1) [of "lib_message p" d] by (auto simp: sbf_shape_def nth_append) presburger
  then have "sbf_valid (lib_message p @ [d]) \<longleftrightarrow> lib_sbf_computedCRC q = lib_sbf_expectedCRC q"
    using f(4) c(1,4,5)
    by (auto simp: sbf_valid_def q_def sbf_done_def lib_scratch_defs layout_simps nth_append)
  then show "lib_call_state (l_state p') p' d =
      (let (p, accepted) = lib_crc_accepted (sbf_valid (lib_message p @ [d])) q
       in rbind (if accepted then lib_call_eom p
                 else call_invalidData (sempPrintf_lib (l_printDebug p)
                        (LBinary (LSbfBadCrc (lib_sbf_sbfID p) (l_length p))) p))
            (\<lambda>p. Inr (p, False)))"
    using f assms(5,6) c(11)
    by (simp add: sempSbfReadBytes_def q_def sbf_done_def lib_scratch_defs layout_simps)
qed

lemma sbf_finishes:
  assumes "wf_lib p" and "lib_callback_ok p" and "sbf_inv p" and "unat (l_length p) < length (l_buffer p)"
    and "lib_feed p d = Inr p'" and "l_state p = LSbf LSbfReadBytes"
    and "unat (sbf_length (lib_message p)) = Suc (length (lib_message p))"
  shows "lib_finishes LSbfPreamble sbf_valid p d (lib_call_state (l_state p') p' d)"
proof -
  define q where "q = sbf_done p p' d"
  note last = sbf_last [OF assms(1,3-7), folded q_def]
  have cb: "lib_callback_ok q" using lib_kept_callback [OF last(1)] assms(2) by simp
  define reject where "reject = (\<lambda>p. call_invalidData
      (sempPrintf_lib (l_printDebug p) (LBinary (LSbfBadCrc (lib_sbf_sbfID p) (l_length p))) p))"
  have "lib_call_state (l_state p') p' d =
      (let (p, accepted) = lib_crc_accepted (sbf_valid (lib_message p @ [d])) q
       in rbind (if accepted then lib_call_eom p else reject p) (\<lambda>p. Inr (id p, False)))"
    unfolding reject_def id_apply by (rule last(6))
  then show ?thesis
  proof (rule lib_finishesI)
    fix es
    obtain gs where gs: "sempPrintf_lib (l_printDebug q) (LBinary (LSbfBadCrc (lib_sbf_sbfID q) (l_length q)))
        (q\<lparr>l_log := l_log q @ es\<rparr>) = q\<lparr>l_log := l_log q @ es @ gs\<rparr>" "lib_eoms gs = []"
      by (rule sempPrintf_lib_log [of "l_printDebug q" _ "q\<lparr>l_log := l_log q @ es\<rparr>"]) simp
    have "lib_callback_ok (q\<lparr>l_log := l_log q @ es @ gs\<rparr>)" using cb by simp
    then obtain hs where "call_invalidData (q\<lparr>l_log := l_log q @ es @ gs\<rparr>)
        = Inr (q\<lparr>l_log := l_log q @ es @ gs @ hs\<rparr>)" "lib_eoms hs = []"
      by (rule call_invalidData_ok) simp
    then show "\<exists>fs. lib_eoms fs = [] \<and> reject (q\<lparr>l_log := l_log q @ es\<rparr>) = Inr (q\<lparr>l_log := l_log q @ es @ fs\<rparr>)"
      using gs by (intro exI [of _ "gs @ hs"]) (simp add: reject_def lib_scratch_defs)
  qed (use last(1-3) in \<open>simp_all add: q_def sbf_done_def lib_scratch_defs\<close>)
qed

text \<open>A wrong second byte and a length that is no multiple of four end the block.\<close>

lemma sbf_drops:
  assumes "wf_lib p" and "lib_callback_ok p" and "sbf_inv p" and "unat (l_length p) < length (l_buffer p)"
    and "lib_feed p d = Inr p'"
    and "l_state p = LSbf LSbfPreamble2 \<and> d \<noteq> 0x40
      \<or> l_state p = LSbf LSbfLengthMSB \<and> sbf_length (lib_message p @ [d]) mod 4 \<noteq> 0"
  shows "lib_finishes LSbfPreamble sbf_valid p d (lib_call_state (l_state p') p' d)"
proof -
  note f = lib_feedD [OF assms(1,4,5)]
  have short: "length (lib_message p) < 11" using assms(3,6) by (auto simp: sbf_inv_def Let_def)
  have "l_state p = LSbf LSbfLengthMSB \<Longrightarrow> sbf_length (lib_message p @ [d]) = lib_sbf_length p OR push_bit 8 (ucast d)"
    using assms(3) by (auto simp: sbf_inv_def Let_def sbf_length_def le16_def nth_append)
  then have "\<exists>m out. lib_call_state (l_state p') p' d =
      rbind (call_invalidData (sempPrintf_lib (l_printDebug p') out (p'\<lparr>l_scratchPad := m\<rparr>)))
        (\<lambda>p. Inr (p\<lparr>l_state := LFirstByte\<rparr>, False)) \<and> get32 m 12 = get32 (l_scratchPad p') 12"
  proof (cases "l_state p = LSbf LSbfPreamble2")
    case True
    then show ?thesis
      using assms(6) f(3)
      by (intro exI [of _ "l_scratchPad p'"] exI [of _ "LBinary (LSbfInvalidPreamble2 (l_length p'))"])
        (simp add: sempSbfPreamble2_def)
  qed (use assms(6) f(3,4) in \<open>auto simp: sempSbfLengthMSB_def lib_scratch_defs layout_simps Let_def\<close>)
  then obtain m out where m: "lib_call_state (l_state p') p' d =
      rbind (call_invalidData (sempPrintf_lib (l_printDebug p') out (p'\<lparr>l_scratchPad := m\<rparr>)))
        (\<lambda>p. Inr (p\<lparr>l_state := LFirstByte\<rparr>, False))" "get32 m 12 = get32 (l_scratchPad p') 12"
    by (elim exE conjE)
  define q where "q = p'\<lparr>l_scratchPad := m\<rparr>"
  have q: "lib_kept LSbfPreamble p q" using f(1) m(2) by (simp add: q_def lib_kept_scratch)
  then have cb: "lib_callback_ok q" using lib_kept_callback assms(2) by simp
  obtain es where es: "sempPrintf_lib (l_printDebug p') out q = q\<lparr>l_log := l_log q @ es\<rparr>" "lib_eoms es = []"
    by (rule sempPrintf_lib_log)
  have "lib_callback_ok (q\<lparr>l_log := l_log q @ es\<rparr>)" using cb by simp
  then obtain fs where fs: "call_invalidData (q\<lparr>l_log := l_log q @ es\<rparr>) = Inr (q\<lparr>l_log := l_log q @ es @ fs\<rparr>)"
      "lib_eoms fs = []"
    by (rule call_invalidData_ok) simp
  show ?thesis
  proof (rule lib_drops)
    show "lib_call_state (l_state p') p' d
        = Inr (q\<lparr>l_log := l_log q @ es @ fs, l_state := LFirstByte\<rparr>, False)"
      using m(1) es(1) fs(1) by (simp add: q_def)
    show "\<not> sbf_valid (lib_message p @ [d])" using short by (simp add: sbf_valid_def sbf_shape_def)
  qed (use q es fs f(6) in \<open>simp_all add: q_def lib_kept_intros\<close>)
qed

lemma sbf_cases:
  assumes "sbf_inv p"
  obtains (header) "l_state p \<in> LSbf ` {LSbfPreamble2, LSbfCRC1, LSbfCRC2, LSbfID1, LSbfID2, LSbfLengthLSB}"
      "l_state p = LSbf LSbfPreamble2 \<longrightarrow> d = 0x40"
    | (length) "l_state p = LSbf LSbfLengthMSB" "sbf_length (lib_message p @ [d]) mod 4 = 0"
    | (dropped) "l_state p = LSbf LSbfPreamble2 \<and> d \<noteq> 0x40
        \<or> l_state p = LSbf LSbfLengthMSB \<and> sbf_length (lib_message p @ [d]) mod 4 \<noteq> 0"
    | (bytes) "l_state p = LSbf LSbfReadBytes"
        "unat (sbf_length (lib_message p)) \<noteq> Suc (length (lib_message p))"
    | (last) "l_state p = LSbf LSbfReadBytes"
        "unat (sbf_length (lib_message p)) = Suc (length (lib_message p))"
  using assms that by (auto simp: sbf_inv_def Let_def split: lib_routine.splits lib_sbf.splits)

lemma sbf_prefix:
  assumes "sbf_inv p" and "sbf_shape f" and "prefix (lib_message p @ [d]) f"
  shows "\<not> (l_state p = LSbf LSbfPreamble2 \<and> d \<noteq> 0x40
      \<or> l_state p = LSbf LSbfLengthMSB \<and> sbf_length (lib_message p @ [d]) mod 4 \<noteq> 0)"
    and "lib_message p @ [d] = f \<longleftrightarrow>
      l_state p = LSbf LSbfReadBytes \<and> unat (sbf_length (lib_message p)) = Suc (length (lib_message p))"
proof -
  obtain zs where f: "f = lib_message p @ d # zs" using assms(3) by (auto simp: prefix_def)
  have "unat (sbf_length f) mod 4 = 0" using assms(2) by (metis sbf_shape_def)
  then have "sbf_length f mod 4 = 0" by (simp add: word_unat_eq_iff unat_mod)
  moreover have "7 \<le> length (lib_message p) \<Longrightarrow> sbf_length f = sbf_length (lib_message p @ [d])"
    by (auto simp: sbf_length_def f nth_append nth_Cons')
  moreover have "l_state p = LSbf LSbfLengthMSB \<Longrightarrow> 7 \<le> length (lib_message p)"
      "l_state p = LSbf LSbfPreamble2 \<Longrightarrow> d = 0x40"
    using assms(1,2) by (simp_all add: sbf_inv_def sbf_shape_def f Let_def)
  ultimately show "\<not> (l_state p = LSbf LSbfPreamble2 \<and> d \<noteq> 0x40
      \<or> l_state p = LSbf LSbfLengthMSB \<and> sbf_length (lib_message p @ [d]) mod 4 \<noteq> 0)"
    by metis
  have len: "8 \<le> length (lib_message p) \<Longrightarrow> sbf_length f = sbf_length (lib_message p)"
    by (auto simp: sbf_length_def f nth_append)
  have eq: "lib_message p @ [d] = f \<longleftrightarrow> Suc (length (lib_message p)) = length f" by (auto simp: f)
  show "lib_message p @ [d] = f \<longleftrightarrow>
      l_state p = LSbf LSbfReadBytes \<and> unat (sbf_length (lib_message p)) = Suc (length (lib_message p))"
    unfolding eq using assms(1,2) len
    by (auto simp: sbf_inv_def sbf_shape_def Let_def split: lib_routine.splits lib_sbf.splits)
qed

interpretation sbf_block: lib_protocol LSbfPreamble sbf_inv sbf_shape sbf_valid
proof unfold_locales
  fix p :: lib and d p' res f
  assume p: "wf_lib p" "LSbfPreamble = LSbfPreamble \<longrightarrow> lib_callback_ok p" "sbf_inv p"
      "unat (l_length p) < length (l_buffer p)" "lib_feed p d = Inr p'"
    and res: "res = lib_call_state (l_state p') p' d"
  have cb: "lib_callback_ok p" using p(2) by simp
  note steps = sbf_continues_header [OF p(1,3-5)] sbf_continues_length [OF p(1,3-5)]
    sbf_continues_bytes [OF p(1,3-5)] sbf_finishes [OF p(1) cb p(3-5)] sbf_drops [OF p(1) cb p(3-5)]
  show "lib_continues LSbfPreamble sbf_inv p d res \<or> lib_finishes LSbfPreamble sbf_valid p d res
      \<or> lib_restarts LSbfPreamble p d res"
    using steps unfolding res by (cases rule: sbf_cases [OF p(3), of d]) blast+
  assume f: "sbf_shape f" "prefix (lib_message p @ [d]) f"
  show "if lib_message p @ [d] = f then lib_finishes LSbfPreamble sbf_valid p d res
        else lib_continues LSbfPreamble sbf_inv p d res"
    using steps sbf_prefix [OF p(3) f] unfolding res
    by (cases rule: sbf_cases [OF p(3), of d]) auto
qed (simp_all only: sbf_inv_type, auto simp: sempSbfPreamble_def sbf_inv_def sbf_valid_def sbf_shape_def Let_def)

end
