(* ===== verification/Protocol_Framed.thy ===== *)
theory Protocol_Framed
  imports Lib_Protocol
begin

text \<open>
  The two protocols of the library with three sync bytes, a header that holds the number
  of data bytes, and a CRC-32: lib/Parse_Unicore_Binary.cpp and lib/Parse_BT.cpp. Their
  routines differ in the header (24 and 20 bytes), the third sync byte, the position of the
  length and the start and end value of the CRC. The locale \<open>crc32_framed\<close> is what they
  have in common; it is interpreted for both, and the contract of a protocol follows once.
  A header that announces no data is never delivered: the counter wraps.
\<close>

section \<open>Messages\<close>

definition framed_length :: "nat \<Rightarrow> u8 list \<Rightarrow> u16" where
  "framed_length off m = le16 (m ! off) (m ! Suc off)"

definition framed_header :: "u8 \<Rightarrow> u8 list \<Rightarrow> bool" where
  "framed_header b3 m \<longleftrightarrow> m ! 0 = 0xAA \<and> m ! 1 = 0x44 \<and> m ! 2 = b3"

definition framed_shape :: "nat \<Rightarrow> nat \<Rightarrow> u8 \<Rightarrow> u8 list \<Rightarrow> bool" where
  "framed_shape hlen off b3 f \<longleftrightarrow>
     hlen + 5 \<le> length f \<and> framed_header b3 f \<and> length f = hlen + 4 + unat (framed_length off f)"

definition framed_valid :: "nat \<Rightarrow> nat \<Rightarrow> u8 \<Rightarrow> u32 \<Rightarrow> u32 \<Rightarrow> u8 list \<Rightarrow> bool" where
  "framed_valid hlen off b3 start_value end_value f \<longleftrightarrow>
     (let n = length f
      in framed_shape hlen off b3 f
         \<and> foldl crc32_spec start_value (take (n - 4) f) XOR end_value
             = le32 (f ! (n - 4)) (f ! (n - 3)) (f ! (n - 2)) (f ! (n - 1)))"

text \<open>The register after the data and part of the CRC bytes.\<close>

definition framed_register :: "nat \<Rightarrow> nat \<Rightarrow> u32 \<Rightarrow> u32 \<Rightarrow> u8 list \<Rightarrow> u32" where
  "framed_register hlen off start_value end_value m =
     (let k = hlen + unat (framed_length off m)
      in foldl crc32_spec (foldl crc32_spec start_value (take k m) XOR end_value) (drop k m))"

lemma framed_register_snoc:
  "Suc off < hlen \<Longrightarrow> hlen + unat (framed_length off m) \<le> length m \<Longrightarrow>
    framed_register hlen off i e (m @ [d]) = crc32_spec (framed_register hlen off i e m) d"
  by (simp add: framed_register_def framed_length_def nth_append Let_def)

lemma framed_valid_iff:
  assumes "framed_shape hlen off b3 f"
  shows "framed_valid hlen off b3 i e f \<longleftrightarrow> framed_register hlen off i e f = 0"
proof -
  define k where "k = hlen + unat (framed_length off f)"
  have k: "length f = k + 4" using assms by (simp add: framed_shape_def k_def)
  have "drop k f = [f ! k, f ! (k + 1), f ! (k + 2), f ! (k + 3)]" by (rule drop_last_4 [OF k])
  moreover have "k + 4 - 3 = k + 1" "k + 4 - 2 = k + 2" "k + 4 - 1 = k + 3" by simp_all
  ultimately show ?thesis
    using assms unfolding framed_valid_def framed_register_def Let_def k_def [symmetric]
    by (simp only: crc32_residue k) simp
qed

section \<open>The contract\<close>

locale crc32_framed =
  fixes r :: lib_preamble
    and s2 s3 sh sd sc :: lib_routine
    and hlen off :: nat
    and b3 :: u8
    and routine :: lib_compute_crc
    and start_value end_value :: u32
    and bad :: "u8 list \<Rightarrow> u32 \<Rightarrow> lib_binary_output"
  assumes r_first: "lib_first r = 0xAA" "r \<notin> lib_clobbers" "r \<noteq> LSbfPreamble"
    and distinct_states: "distinct [s2, s3, sh, sd, sc]"
    and layout: "3 \<le> off" "Suc off < hlen"
    and pre: "lib_call_preamble r p 0xAA =
      Inr (p\<lparr>l_crc := crc32_spec start_value 0xAA, l_computeCrc := Some routine, l_state := s2\<rparr>, True)"
    and crc_routine: "lib_call_computeCrc routine p d = crc32_spec (l_crc p) d"
    and sync2: "lib_call_state s2 p d =
      (if d \<noteq> 0x44 then sempFirstByte_lib p d else Inr (p\<lparr>l_state := s3\<rparr>, True))"
    and sync3: "lib_call_state s3 p d =
      (if d \<noteq> b3 then sempFirstByte_lib p d else Inr (p\<lparr>l_state := sh\<rparr>, True))"
    and header: "lib_call_state sh p d =
      (if unat (l_length p) \<ge> hlen
       then rbind (at (l_buffer p) (int off)) (\<lambda>lo. rbind (at (l_buffer p) (int (Suc off))) (\<lambda>hi.
              Inr (p\<lparr>l_scratchPad := put16 (l_scratchPad p) 4 (le16 lo hi), l_state := sd\<rparr>, True)))
       else Inr (p, True))"
    and data: "lib_call_state sd p d =
      (let br = get16 (l_scratchPad p) 4 - 1
       in if br = 0
          then Inr (p\<lparr>l_scratchPad := put32 (put16 (l_scratchPad p) 4 4) 0 (l_crc p XOR end_value),
                      l_crc := l_crc p XOR end_value, l_state := sc\<rparr>, True)
          else Inr (p\<lparr>l_scratchPad := put16 (l_scratchPad p) 4 br\<rparr>, True))"
    and crc: "lib_call_state sc p d =
      (let br = get16 (l_scratchPad p) 4 - 1; p = p\<lparr>l_scratchPad := put16 (l_scratchPad p) 4 br\<rparr>
       in if br \<noteq> 0 then Inr (p, True)
          else
            let (p, accepted) = lib_crc_accepted (l_crc p = 0) p
            in rbind (if accepted then lib_call_eom p
                      else rbind (lib_last 4 p) (\<lambda>bs.
                        Inr (sempPrintf_lib (l_printDebug p) (LBinary (bad bs (get32 (l_scratchPad p) 0))) p)))
                 (\<lambda>p. Inr (p\<lparr>l_state := LFirstByte\<rparr>, False)))"
begin

definition inv :: "lib \<Rightarrow> bool" where
  "inv p \<longleftrightarrow>
     l_computeCrc p = Some routine \<and>
     (let m = lib_message p; n = length m; br = get16 (l_scratchPad p) 4; len = framed_length off m;
          sum = (l_crc p = foldl crc32_spec start_value m)
      in l_state p = s2 \<and> m = [0xAA] \<and> sum
         \<or> l_state p = s3 \<and> m = [0xAA, 0x44] \<and> sum
         \<or> l_state p = sh \<and> 3 \<le> n \<and> n < hlen \<and> framed_header b3 m \<and> sum
         \<or> l_state p = sd \<and> hlen \<le> n \<and> framed_header b3 m \<and> sum \<and> br = len - of_nat (n - hlen)
             \<and> (1 \<le> unat len \<longrightarrow> n < hlen + unat len)
         \<or> l_state p = sc \<and> framed_header b3 m \<and> 1 \<le> unat len \<and> hlen + unat len \<le> n
             \<and> n < hlen + 4 + unat len \<and> br = of_nat (hlen + 4 + unat len - n)
             \<and> l_crc p = framed_register hlen off start_value end_value m)"

lemma states: "s2 \<noteq> s3" "s2 \<noteq> sh" "s2 \<noteq> sd" "s2 \<noteq> sc" "s3 \<noteq> sh" "s3 \<noteq> sd" "s3 \<noteq> sc"
    "sh \<noteq> sd" "sh \<noteq> sc" "sd \<noteq> sc"
  using distinct_states by auto

lemma next_crc: "inv p \<Longrightarrow> lib_next_crc p d = crc32_spec (l_crc p) d"
  by (simp add: inv_def lib_next_crc_def crc_routine)

lemma append:
  "3 \<le> length m \<Longrightarrow> framed_header b3 (m @ [d]) = framed_header b3 m"
  "hlen \<le> length m \<Longrightarrow> framed_length off (m @ [d]) = framed_length off m"
  using layout by (auto simp: framed_header_def framed_length_def nth_append)

lemma continues_sync:
  assumes "wf_lib p" and "inv p" and "unat (l_length p) < length (l_buffer p)" and "lib_feed p d = Inr p'"
    and "l_state p = s2 \<and> d = 0x44 \<or> l_state p = s3 \<and> d = b3"
  shows "lib_continues r inv p d (lib_call_state (l_state p') p' d)"
proof -
  note f = lib_feedD [OF assms(1,3,4)]
  have "3 < hlen" using layout by simp
  with assms(5) show ?thesis
    using assms(2) f(2-7) lib_kept_state [OF f(1) [of r]] next_crc [OF assms(2), of d] states
    by (elim disjE conjE) (simp_all add: lib_continues_Inr inv_def sync2 sync3 framed_header_def Let_def)
qed

lemma continues_header:
  assumes "wf_lib p" and "inv p" and "unat (l_length p) < length (l_buffer p)" and "lib_feed p d = Inr p'"
    and "l_state p = sh"
  shows "lib_continues r inv p d (lib_call_state (l_state p') p' d)"
proof -
  note f = lib_feedD [OF assms(1,3,4)]
  define m where "m = lib_message p @ [d]"
  have c: "3 \<le> length (lib_message p)" "length (lib_message p) < hlen" "framed_header b3 (lib_message p)"
      "l_crc p = foldl crc32_spec start_value (lib_message p)" "l_computeCrc p = Some routine"
    using assms(2,5) states by (auto simp: inv_def Let_def)
  have n: "unat (l_length p') = length m" using f(2,8) by (simp add: m_def flip: length_lib_message)
  show ?thesis
  proof (cases "length m = hlen")
    case True
    have "at (l_buffer p') (int off) = Inr (m ! off)" "at (l_buffer p') (int (Suc off)) = Inr (m ! Suc off)"
      using lib_at [OF f(8), of off] lib_at [OF f(8), of "Suc off"] True f(2) layout by (simp_all add: m_def)
    then have "lib_call_state (l_state p') p' d = Inr (p'\<lparr>l_scratchPad :=
        put16 (l_scratchPad p) 4 (framed_length off m), l_state := sd\<rparr>, True)"
      using f(3,4) n True assms(5) by (simp add: header framed_length_def)
    then show ?thesis
      using f c True append(1) [of "lib_message p" d] next_crc [OF assms(2)] states
      by (auto simp: lib_continues_Inr inv_def Let_def m_def layout_simps intro!: lib_kept_intros)
  next
    case False
    then have "length m < hlen" using c(2) by (simp add: m_def)
    then show ?thesis
      using f c n assms(5) append(1) [of "lib_message p" d] next_crc [OF assms(2)]
      by (auto simp: lib_continues_Inr header inv_def Let_def m_def)
  qed
qed

lemma continues_data:
  assumes "wf_lib p" and "inv p" and "unat (l_length p) < length (l_buffer p)" and "lib_feed p d = Inr p'"
    and "l_state p = sd"
  shows "lib_continues r inv p d (lib_call_state (l_state p') p' d)"
proof -
  note f = lib_feedD [OF assms(1,3,4)]
  define m where "m = lib_message p"
  define n where "n = length m"
  define len where "len = framed_length off m"
  have c: "hlen \<le> n" "n < 65535" "get16 (l_scratchPad p) 4 = len - of_nat (n - hlen)"
      "1 \<le> unat len \<longrightarrow> n < hlen + unat len" "framed_header b3 m"
      "l_crc p = foldl crc32_spec start_value m" "l_computeCrc p = Some routine"
    using assms states by (auto simp: inv_def m_def n_def len_def Let_def length_lib_message wf_lib_def)
  have "3 \<le> length m" using c(1) layout by (simp add: n_def)
  then have m: "lib_message p' = m @ [d]" "framed_header b3 (m @ [d])" "framed_length off (m @ [d]) = len"
      "l_crc p' = foldl crc32_spec start_value (m @ [d])"
    using f c append [of m d] next_crc [OF assms(2)] by (simp_all add: m_def n_def len_def)
  have dec: "get16 (l_scratchPad p) 4 - 1 = 0 \<longleftrightarrow> unat len = Suc (n - hlen)"
    unfolding c(3) using c(1,2) by (intro dec_complete) simp
  have next_br: "get16 (l_scratchPad p) 4 - 1 = len - of_nat (Suc n - hlen)"
    unfolding c(3) using c(1) by (simp add: of_nat_diff)
  show ?thesis
  proof (cases "unat len = Suc (n - hlen)")
    case True
    then have "get16 (l_scratchPad p) 4 - 1 = 0" using dec by simp
    moreover have "framed_register hlen off start_value end_value (m @ [d])
        = foldl crc32_spec start_value (m @ [d]) XOR end_value"
      using True c(1) m(3) by (simp add: framed_register_def n_def Let_def)
    ultimately show ?thesis
      using assms(5) f(1,3,4,6,7) c m True states
      by (auto simp: lib_continues_Inr data inv_def layout_simps Let_def n_def m_def [symmetric]
          intro!: lib_kept_intros)
  next
    case False
    then have "get16 (l_scratchPad p) 4 - 1 \<noteq> 0" using dec by simp
    then show ?thesis
      using assms(5) f(1,3,4,6,7) c m False next_br states
      by (auto simp: lib_continues_Inr data inv_def layout_simps Let_def n_def m_def [symmetric]
          intro!: lib_kept_intros)
  qed
qed

lemma crc_state:
  assumes "inv p" and "l_state p = sc"
  defines "n \<equiv> length (lib_message p)" and "len \<equiv> unat (framed_length off (lib_message p))"
  shows "framed_header b3 (lib_message p)" "1 \<le> len" "l_computeCrc p = Some routine"
    "l_crc p = framed_register hlen off start_value end_value (lib_message p)"
    "get16 (l_scratchPad p) 4 - 1 = of_nat (hlen + 3 + len - n)" "hlen + len \<le> n" "n < hlen + 4 + len"
    "get16 (l_scratchPad p) 4 - 1 \<noteq> 0 \<longleftrightarrow> Suc n < hlen + 4 + len"
proof -
  show *: "framed_header b3 (lib_message p)" "1 \<le> len" "l_computeCrc p = Some routine"
    "l_crc p = framed_register hlen off start_value end_value (lib_message p)"
    "hlen + len \<le> n" "n < hlen + 4 + len"
    using assms states by (auto simp: inv_def Let_def)
  have "get16 (l_scratchPad p) 4 = of_nat (hlen + 4 + len - n)"
    using assms states by (auto simp: inv_def Let_def)
  also have "hlen + 4 + len - n = Suc (hlen + 3 + len - n)" using * by simp
  finally show dec: "get16 (l_scratchPad p) 4 - 1 = of_nat (hlen + 3 + len - n)" by simp
  have "unat (of_nat (hlen + 3 + len - n) :: u16) = hlen + 3 + len - n"
    using * by (intro unat_of_nat_16) simp
  then show "get16 (l_scratchPad p) 4 - 1 \<noteq> 0 \<longleftrightarrow> Suc n < hlen + 4 + len"
    unfolding dec using * by (simp only: word_unat_eq_iff) auto
qed

lemma continues_crc:
  assumes "wf_lib p" and "inv p" and "unat (l_length p) < length (l_buffer p)" and "lib_feed p d = Inr p'"
    and "l_state p = sc"
    and "Suc (length (lib_message p)) < hlen + 4 + unat (framed_length off (lib_message p))"
  shows "lib_continues r inv p d (lib_call_state (l_state p') p' d)"
proof -
  note f = lib_feedD [OF assms(1,3,4)]
  note c = crc_state [OF assms(2,5)]
  define q where "q = p'\<lparr>l_scratchPad := put16 (l_scratchPad p) 4 (get16 (l_scratchPad p) 4 - 1)\<rparr>"
  have "lib_call_state (l_state p') p' d = Inr (q, True)"
    using f(3,4) c(8) assms(5,6) by (simp add: crc q_def)
  moreover have "l_crc q = framed_register hlen off start_value end_value (lib_message p @ [d])"
    using f(5) c(4,6) layout next_crc [OF assms(2), of d] by (simp add: framed_register_snoc q_def)
  moreover have "3 \<le> length (lib_message p)" using c(6) layout by simp
  ultimately have "inv q"
    using f c assms(5,6) append [of "lib_message p" d]
    by (auto simp: inv_def q_def Let_def Suc_diff_le)
  moreover have "lib_kept r p q" using f(1,4) by (auto simp: q_def layout_simps intro!: lib_kept_intros)
  ultimately show ?thesis
    using \<open>lib_call_state (l_state p') p' d = Inr (q, True)\<close> f(2,6) by (simp add: lib_continues_Inr q_def)
qed

lemma finishes_crc:
  assumes "wf_lib p" and "inv p" and "unat (l_length p) < length (l_buffer p)" and "lib_feed p d = Inr p'"
    and "l_state p = sc"
    and "Suc (length (lib_message p)) = hlen + 4 + unat (framed_length off (lib_message p))"
  shows "lib_finishes r (framed_valid hlen off b3 start_value end_value) p d (lib_call_state (l_state p') p' d)"
proof -
  note f = lib_feedD [OF assms(1,3,4)]
  note c = crc_state [OF assms(2,5)]
  define q where "q = p'\<lparr>l_scratchPad := put16 (l_scratchPad p) 4 (get16 (l_scratchPad p) 4 - 1)\<rparr>"
  have q: "lib_kept r p q" "lib_message q = lib_message p @ [d]" "l_log q = l_log p"
    using f by (auto simp: q_def layout_simps intro!: lib_kept_intros)
  have n: "3 \<le> length (lib_message p)" using c(6) layout by simp
  have "framed_shape hlen off b3 (lib_message p @ [d])"
    using c(1,2) assms(6) append [of "lib_message p" d] n c(6) by (simp add: framed_shape_def)
  moreover have "l_crc q = framed_register hlen off start_value end_value (lib_message p @ [d])"
    using f(5) c(4,6) layout next_crc [OF assms(2), of d] by (simp add: framed_register_snoc q_def)
  ultimately have valid: "framed_valid hlen off b3 start_value end_value (lib_message p @ [d]) = (l_crc q = 0)"
    by (simp add: framed_valid_iff)
  define reject where "reject = (\<lambda>p. rbind (lib_last 4 p) (\<lambda>bs.
      Inr (sempPrintf_lib (l_printDebug p) (LBinary (bad bs (get32 (l_scratchPad p) 0))) p)))"
  have "lib_call_state (l_state p') p' d = (let (p, accepted) = lib_crc_accepted (l_crc q = 0) q
      in rbind (if accepted then lib_call_eom p else reject p) (\<lambda>p. Inr (p\<lparr>l_state := LFirstByte\<rparr>, False)))"
    using f(3,4) c(8) assms(5,6) unfolding reject_def by (simp add: crc q_def)
  then show ?thesis
  proof (rule lib_finishesI)
    fix es
    let ?q = "q\<lparr>l_log := l_log q @ es\<rparr>"
    have "wf_lib ?q" "4 \<le> length (lib_message ?q)"
      using q(1,2) c(6) layout n by (simp_all add: lib_kept_def)
    then obtain bs where bs: "lib_last 4 ?q = Inr bs" using lib_last_eq by blast
    obtain gs where "sempPrintf_lib (l_printDebug ?q) (LBinary (bad bs (get32 (l_scratchPad ?q) 0))) ?q
        = ?q\<lparr>l_log := l_log ?q @ gs\<rparr>" "lib_eoms gs = []"
      by (rule sempPrintf_lib_log)
    then show "\<exists>fs. lib_eoms fs = [] \<and> reject ?q = Inr (q\<lparr>l_log := l_log q @ es @ fs\<rparr>)"
      using bs by (intro exI [of _ gs]) (simp add: reject_def)
  qed (use q valid lib_kept_state in simp_all)
qed

lemma restarts_sync:
  assumes "wf_lib p" and "unat (l_length p) < length (l_buffer p)" and "lib_feed p d = Inr p'"
    and "l_state p = s2 \<and> d \<noteq> 0x44 \<or> l_state p = s3 \<and> d \<noteq> b3"
  shows "lib_restarts r p d (lib_call_state (l_state p') p' d)"
proof -
  note f = lib_feedD [OF assms(1-3)]
  have "lib_call_state (l_state p') p' d = sempFirstByte_lib p' d"
    unfolding f(3) using assms(4) by (elim disjE conjE) (simp_all only: sync2 sync3 simp_thms if_True)
  then show ?thesis unfolding lib_restarts_def using f(1,6) by (intro exI [of _ p']) simp
qed

lemma cases:
  assumes "inv p"
  obtains (sync) "l_state p = s2 \<and> d = 0x44 \<or> l_state p = s3 \<and> d = b3"
    | (wrong) "l_state p = s2 \<and> d \<noteq> 0x44 \<or> l_state p = s3 \<and> d \<noteq> b3"
    | (header) "l_state p = sh"
    | (data) "l_state p = sd"
    | (crc) "l_state p = sc" "Suc (length (lib_message p)) < hlen + 4 + unat (framed_length off (lib_message p))"
    | (last) "l_state p = sc" "Suc (length (lib_message p)) = hlen + 4 + unat (framed_length off (lib_message p))"
proof -
  have "l_state p \<in> {s2, s3, sh, sd, sc}" using assms by (auto simp: inv_def Let_def)
  moreover have "Suc (length (lib_message p)) < hlen + 4 + unat (framed_length off (lib_message p))
      \<or> Suc (length (lib_message p)) = hlen + 4 + unat (framed_length off (lib_message p))" if "l_state p = sc"
    using crc_state(7) [OF assms that] by linarith
  ultimately show thesis using that by blast
qed

lemma prefix_of:
  assumes "inv p" and "framed_shape hlen off b3 f" and "prefix (lib_message p @ [d]) f"
  shows "\<not> (l_state p = s2 \<and> d \<noteq> 0x44 \<or> l_state p = s3 \<and> d \<noteq> b3)"
    and "l_state p \<noteq> sc \<Longrightarrow> lib_message p @ [d] \<noteq> f"
    and "l_state p = sc \<Longrightarrow> lib_message p @ [d] = f \<longleftrightarrow>
      Suc (length (lib_message p)) = hlen + 4 + unat (framed_length off (lib_message p))"
proof -
  obtain zs where f: "f = lib_message p @ d # zs" using assms(3) by (auto simp: prefix_def)
  have "l_state p = s2 \<Longrightarrow> d = 0x44" "l_state p = s3 \<Longrightarrow> d = b3"
    using assms(1,2) states by (simp_all add: inv_def framed_shape_def framed_header_def f Let_def)
  then show "\<not> (l_state p = s2 \<and> d \<noteq> 0x44 \<or> l_state p = s3 \<and> d \<noteq> b3)" by blast
  have len: "hlen \<le> length (lib_message p) \<Longrightarrow> framed_length off f = framed_length off (lib_message p)"
    using layout by (auto simp: framed_length_def f nth_append)
  have eq: "lib_message p @ [d] = f \<longleftrightarrow> Suc (length (lib_message p)) = length f" by (auto simp: f)
  show "l_state p = sc \<Longrightarrow> lib_message p @ [d] = f \<longleftrightarrow>
      Suc (length (lib_message p)) = hlen + 4 + unat (framed_length off (lib_message p))"
    unfolding eq using assms(1,2) len states by (simp add: inv_def framed_shape_def Let_def)
  assume "l_state p \<noteq> sc"
  then have "length (lib_message p) < hlen
      \<or> hlen \<le> length (lib_message p) \<and> (1 \<le> unat (framed_length off (lib_message p)) \<longrightarrow>
          length (lib_message p) < hlen + unat (framed_length off (lib_message p)))"
    using assms(1) layout unfolding inv_def Let_def by (elim conjE disjE) simp_all
  then show "lib_message p @ [d] \<noteq> f" unfolding eq using assms(2) len by (auto simp: framed_shape_def)
qed

lemma is_protocol:
  "lib_protocol r inv (framed_shape hlen off b3) (framed_valid hlen off b3 start_value end_value)"
proof unfold_locales
  fix p :: lib and d p' res f
  assume p: "wf_lib p" "inv p" "unat (l_length p) < length (l_buffer p)" "lib_feed p d = Inr p'"
    and res: "res = lib_call_state (l_state p') p' d"
  note steps = continues_sync [OF p] continues_header [OF p] continues_data [OF p] continues_crc [OF p]
    finishes_crc [OF p] restarts_sync [OF p(1,3,4)]
  show "lib_continues r inv p d res \<or> lib_finishes r (framed_valid hlen off b3 start_value end_value) p d res
      \<or> lib_restarts r p d res"
    using steps unfolding res by (cases rule: cases [OF p(2), of d]) blast+
  assume f: "framed_shape hlen off b3 f" "prefix (lib_message p @ [d]) f"
  show "if lib_message p @ [d] = f then lib_finishes r (framed_valid hlen off b3 start_value end_value) p d res
        else lib_continues r inv p d res"
    using steps prefix_of [OF p(2) f] states unfolding res
    by (cases rule: cases [OF p(2), of d]) (simp_all, (elim disjE; simp)+)
qed (use r_first pre in \<open>simp_all add: inv_def framed_valid_def framed_shape_def Let_def\<close>, hypsubst, simp)

end

section \<open>The two protocols\<close>

lemma crc32_routines:
  "sempUnicoreBinaryComputeCrc_lib p d = crc32_spec (l_crc p) d"
  "sempBluetoothComputeCrc_lib p d = crc32_spec (l_crc p) d"
  by (simp_all add: sempUnicoreBinaryComputeCrc_lib_def sempBluetoothComputeCrc_lib_def
      lib_crc32.step_spec [symmetric] crc32_step_def Let_def)

lemmas framed_defs =
  sempUnicoreBinaryPreamble_lib_def sempUnicoreBinaryBinarySync2_def sempUnicoreBinaryBinarySync3_def
  sempUnicoreBinaryReadHeader_lib_def sempUnicoreBinaryReadData_lib_def sempUnicoreBinaryReadCrc_lib_def
  sempBluetoothPreamble_lib_def sempBluetoothSync2_lib_def sempBluetoothSync3_lib_def
  sempBluetoothReadHeader_lib_def sempBluetoothReadData_lib_def sempBluetoothReadCrc_lib_def
  sizeof_SEMP_UNICORE_HEADER_lib_def sizeof_SEMP_Bluetooth_HEADER_def lib_unicore_messageLength_def
  lib_bluetooth_messageLength_def

interpretation unicore_frame: crc32_framed LUnicoreBinaryPreamble "LUnicoreBinary LUnicoreBinarySync2"
  "LUnicoreBinary LUnicoreBinarySync3" "LUnicoreBinary LUnicoreBinaryReadHeader"
  "LUnicoreBinary LUnicoreBinaryReadData" "LUnicoreBinary LUnicoreBinaryReadCrc" 24 6 "0xB5"
  LUnicoreBinaryComputeCrc 0 0 LUnicoreBinaryBadCrc
  by unfold_locales (unfold framed_defs lib_call_state.simps lib_call_preamble.simps lib_call_unicoreBinary.simps
      lib_call_bluetooth.simps lib_scratch_defs,
    simp_all add: crc32_routines lib_clobbers_def Let_def rbind_assoc layout_simps)

interpretation bluetooth_frame: crc32_framed LBluetoothPreamble "LBluetooth LBluetoothSync2"
  "LBluetooth LBluetoothSync3" "LBluetooth LBluetoothReadHeader"
  "LBluetooth LBluetoothReadData" "LBluetooth LBluetoothReadCrc" 20 12 "0x18"
  LBluetoothComputeCrc "0xFFFFFFFF" "0xFFFFFFFF" LBluetoothBadCrc
  by unfold_locales (unfold framed_defs lib_call_state.simps lib_call_preamble.simps lib_call_unicoreBinary.simps
      lib_call_bluetooth.simps lib_scratch_defs,
    simp_all add: crc32_routines lib_clobbers_def Let_def rbind_assoc layout_simps)

end
