(* ===== verification/Protocol_SPARTN.thy ===== *)
theory Protocol_SPARTN
  imports Lib_Protocol
begin

text \<open>
  The SPARTN protocol of the library against its specification: the fields of a message,
  what makes a byte string a message, the invariant of the routines of
  lib/Parse_SPARTN.cpp and their contract. A message that announces no payload is never
  delivered: the frame count is compared after it was incremented.
\<close>

section \<open>Messages\<close>

definition spartn_payload :: "u8 list \<Rightarrow> u16" where
  "spartn_payload m =
     push_bit 1 (push_bit 8 (ucast (m ! 1 AND 0x01)) OR ucast (m ! 2)) OR ucast (drop_bit 7 (m ! 3))"

definition spartn_eaf :: "u8 list \<Rightarrow> u16" where
  "spartn_eaf m = ucast (drop_bit 6 (m ! 3) AND 0x01)"

definition spartn_crc_type :: "u8 list \<Rightarrow> u8" where
  "spartn_crc_type m = drop_bit 4 (m ! 3) AND 0x03"

definition spartn_header_ok :: "u8 list \<Rightarrow> bool" where
  "spartn_header_ok m \<longleftrightarrow> foldl crc4_spec 0 [m ! 1, m ! 2, m ! 3 AND 0xF0] = m ! 3 AND 0x0F"

text \<open>The number of bytes from TF007 to before the payload TF016.\<close>

definition spartn_tf :: "u8 list \<Rightarrow> u16" where
  "spartn_tf m =
     (if (ucast (drop_bit 3 (m ! 4) AND 0x01) :: u16) = 0 then 4 else 6) + (if spartn_eaf m > 0 then 2 else 0)"

text \<open>The number of bytes of embedded authentication data, announced by the last of them.\<close>

definition spartn_auth :: "u8 list \<Rightarrow> u16" where
  "spartn_auth m =
     (let b = m ! (3 + unat (spartn_tf m))
      in if spartn_eaf m = 0 \<or> (ucast (drop_bit 3 b AND 0x07) :: u16) \<le> 1 then 0 else spartn_embedded b)"

text \<open>Where the message CRC begins.\<close>

definition spartn_body :: "u8 list \<Rightarrow> nat" where
  "spartn_body m = 4 + unat (spartn_tf m) + unat (spartn_payload m) + unat (spartn_auth m)"

definition spartn_shape :: "u8 list \<Rightarrow> bool" where
  "spartn_shape f \<longleftrightarrow>
     5 \<le> length f \<and> f ! 0 = 0x73 \<and> spartn_header_ok f \<and> 1 \<le> unat (spartn_payload f)
     \<and> length f = spartn_body f + unat (spartn_crc_bytes (spartn_crc_type f))"

text \<open>The four message CRCs, and the value of the bytes at the end.\<close>

definition spartn_check :: "u8 \<Rightarrow> u8 list \<Rightarrow> u32" where
  "spartn_check t bs =
     (if t = 0 then ucast (msb_crc (0x07 :: u8) 0 bs)
      else if t = 1 then ucast (msb_crc (0x1021 :: u16) 0 bs)
      else if t = 2 then ucast (msb_crc (0x864CFB :: u24) 0 bs)
      else msb_crc 0x04C11DB7 0xFFFFFFFF bs XOR 0xFFFFFFFF)"

definition be_value :: "u8 list \<Rightarrow> u32" where
  "be_value bs = foldl (\<lambda>e b. push_bit 8 e OR ucast b) 0 bs"

definition spartn_valid :: "u8 list \<Rightarrow> bool" where
  "spartn_valid f \<longleftrightarrow> spartn_shape f
     \<and> spartn_check (spartn_crc_type f) (drop 1 (take (spartn_body f) f)) = be_value (drop (spartn_body f) f)"

section \<open>The invariant of the protocol\<close>

definition spartn_fields :: "lib \<Rightarrow> u8 list \<Rightarrow> bool" where
  "spartn_fields p m \<longleftrightarrow>
     m ! 0 = 0x73 \<and> spartn_header_ok m \<and> lib_spartn_messageType p = drop_bit 1 (m ! 1)
     \<and> lib_spartn_payloadLength p = spartn_payload m \<and> lib_spartn_EAF p = spartn_eaf m
     \<and> lib_spartn_crcType p = spartn_crc_type m
     \<and> lib_spartn_crcBytes p = spartn_crc_bytes (spartn_crc_type m)"

definition spartn_inv :: "lib \<Rightarrow> bool" where
  "spartn_inv p \<longleftrightarrow>
     (let m = lib_message p; n = length m; tf = unat (spartn_tf m); pl = unat (spartn_payload m);
          au = unat (spartn_auth m); body = spartn_body m;
          known = (spartn_fields p m \<and> lib_spartn_TF007toTF016 p = spartn_tf m);
          auth = (known \<and> lib_spartn_embeddedApplicationLengthBytes p = spartn_auth m)
      in (case l_state p of
            LSpartn LSpartnReadTF002TF006 \<Rightarrow>
              1 \<le> n \<and> n \<le> 3 \<and> m ! 0 = 0x73 \<and> lib_spartn_frameCount p = of_nat (n - 1)
              \<and> (2 \<le> n \<longrightarrow> lib_spartn_messageType p = drop_bit 1 (m ! 1))
              \<and> (n = 2 \<longrightarrow> lib_spartn_payloadLength p = ucast (m ! 1 AND 0x01))
              \<and> (n = 3 \<longrightarrow> lib_spartn_payloadLength p = push_bit 8 (ucast (m ! 1 AND 0x01)) OR ucast (m ! 2))
          | LSpartn LSpartnReadTF007 \<Rightarrow> n = 4 \<and> spartn_fields p m
          | LSpartn LSpartnReadTF009 \<Rightarrow>
              5 \<le> n \<and> known \<and> lib_spartn_frameCount p = of_nat (n - 4) \<and> n - 4 < tf
          | LSpartn LSpartnReadTF016 \<Rightarrow>
              4 + tf \<le> n \<and> auth \<and> lib_spartn_frameCount p = of_nat (n - (4 + tf))
              \<and> (1 \<le> pl \<longrightarrow> n < 4 + tf + pl)
          | LSpartn LSpartnReadTF017 \<Rightarrow>
              1 \<le> pl \<and> 4 + tf + pl \<le> n \<and> auth \<and> lib_spartn_frameCount p = of_nat (n - (4 + tf + pl))
              \<and> n < body
          | LSpartn LSpartnReadTF018 \<Rightarrow>
              1 \<le> pl \<and> body \<le> n \<and> auth \<and> lib_spartn_frameCount p = of_nat (n - body)
              \<and> n < body + unat (spartn_crc_bytes (spartn_crc_type m))
          | _ \<Rightarrow> False))"

lemma spartn_inv_type: "spartn_inv (p\<lparr>l_type := t\<rparr>) = spartn_inv p"
  by (simp add: spartn_inv_def spartn_fields_def lib_scratch_defs
      cong: lib_routine.case_cong lib_spartn.case_cong)

section \<open>Facts about the fields\<close>

lemma spartn_tf_bounds: "4 \<le> unat (spartn_tf m)" "unat (spartn_tf m) \<le> 8"
  by (simp_all add: spartn_tf_def)

lemma spartn_crc_bytes_bounds: "1 \<le> unat (spartn_crc_bytes t)" "unat (spartn_crc_bytes t) \<le> 4"
  by (simp_all add: spartn_crc_bytes_def)

lemma spartn_append:
  "4 \<le> length m \<Longrightarrow> spartn_payload (m @ bs) = spartn_payload m"
  "4 \<le> length m \<Longrightarrow> spartn_eaf (m @ bs) = spartn_eaf m"
  "4 \<le> length m \<Longrightarrow> spartn_crc_type (m @ bs) = spartn_crc_type m"
  "4 \<le> length m \<Longrightarrow> spartn_header_ok (m @ bs) = spartn_header_ok m"
  "4 \<le> length m \<Longrightarrow> spartn_fields p (m @ bs) = spartn_fields p m"
  "5 \<le> length m \<Longrightarrow> spartn_tf (m @ bs) = spartn_tf m"
  "4 + unat (spartn_tf m) \<le> length m \<Longrightarrow> spartn_auth (m @ bs) = spartn_auth m"
  "4 + unat (spartn_tf m) \<le> length m \<Longrightarrow> spartn_body (m @ bs) = spartn_body m"
proof -
  show *: "4 \<le> length m \<Longrightarrow> spartn_payload (m @ bs) = spartn_payload m"
    "4 \<le> length m \<Longrightarrow> spartn_eaf (m @ bs) = spartn_eaf m"
    "4 \<le> length m \<Longrightarrow> spartn_crc_type (m @ bs) = spartn_crc_type m"
    "4 \<le> length m \<Longrightarrow> spartn_header_ok (m @ bs) = spartn_header_ok m"
    by (simp_all add: spartn_payload_def spartn_eaf_def spartn_crc_type_def spartn_header_ok_def nth_append)
  show "4 \<le> length m \<Longrightarrow> spartn_fields p (m @ bs) = spartn_fields p m"
    using * by (auto simp: spartn_fields_def nth_append)
  show tf: "5 \<le> length m \<Longrightarrow> spartn_tf (m @ bs) = spartn_tf m"
    using *(2) by (simp add: spartn_tf_def nth_append)
  assume n: "4 + unat (spartn_tf m) \<le> length m"
  then have "5 \<le> length m" using spartn_tf_bounds(1) [of m] by simp
  then show "spartn_auth (m @ bs) = spartn_auth m" "spartn_body (m @ bs) = spartn_body m"
    using n tf *(1,2) by (simp_all add: spartn_auth_def spartn_body_def nth_append)
qed

lemma spartn_fields_cong: "l_scratchPad q = l_scratchPad p \<Longrightarrow> spartn_fields q m = spartn_fields p m"
  by (simp add: spartn_fields_def lib_scratch_defs)

text \<open>The counter of the bytes of a field reaches the length of the field with its last byte.\<close>

lemma count_complete:
  assumes "Suc k < 65536"
  shows "of_nat k + 1 = (w :: u16) \<longleftrightarrow> Suc k = unat w"
proof -
  have "of_nat k + 1 = (of_nat (Suc k) :: u16)" by simp
  then show ?thesis using unat_of_nat_16 [OF assms] by (simp only: word_unat_eq_iff)
qed

lemma spartn_kept:
  "lib_kept LSpartnPreamble p q \<Longrightarrow> lib_kept LSpartnPreamble p (q\<lparr>l_scratchPad := m\<rparr>)"
  by (rule lib_kept_scratch) (simp_all add: lib_clobbers_def)

lemmas spartn_kept_intros = lib_kept_state lib_kept_log spartn_kept

section \<open>The routines\<close>

lemma spartn_continues_header:
  assumes "wf_lib p" and "spartn_inv p" and "unat (l_length p) < length (l_buffer p)"
    and "lib_feed p d = Inr p'" and "l_state p = LSpartn LSpartnReadTF002TF006" and "length (lib_message p) < 3"
  shows "lib_continues LSpartnPreamble spartn_inv p d (lib_call_state (l_state p') p' d)"
proof -
  note f = lib_feedD [OF assms(1,3,4)]
  have "length (lib_message p) = 1 \<or> length (lib_message p) = 2"
    using assms(2,5,6) by (auto simp: spartn_inv_def Let_def)
  then show ?thesis
    using assms(2,5) f(2-4,6) f(1) [of LSpartnPreamble]
    by (elim disjE) (auto simp: lib_continues_Inr sempSpartnReadTF002TF006_def spartn_inv_def Let_def
        lib_scratch_defs layout_simps nth_append intro!: spartn_kept_intros)
qed

text \<open>The third byte of the header: the routine clears part of it for the CRC and restores it.\<close>

lemma spartn_buffer:
  assumes "lib_message p = [a, b, c, d]"
  shows "at (l_buffer p) 3 = Inr d" "upd (l_buffer p) 3 x = Inr ((l_buffer p)[3 := x])"
    "upd ((l_buffer p)[3 := x]) 3 d = Inr (l_buffer p)"
    "semp_uSpartnCrc4 (drop 1 ((l_buffer p)[3 := x])) 3 = Inr (foldl crc4_spec 0 [b, c, x])"
proof -
  obtain bs where bs: "l_buffer p = a # b # c # d # bs"
    using append_take_drop_id [of "unat (l_length p)" "l_buffer p"] assms
    by (metis append_Cons append_Nil lib_message_def)
  show "at (l_buffer p) 3 = Inr d" "upd (l_buffer p) 3 x = Inr ((l_buffer p)[3 := x])"
    "upd ((l_buffer p)[3 := x]) 3 d = Inr (l_buffer p)"
    by (simp_all add: bs at_def upd_def)
  show "semp_uSpartnCrc4 (drop 1 ((l_buffer p)[3 := x])) 3 = Inr (foldl crc4_spec 0 [b, c, x])"
    using spartn4 [of 3 "b # c # x # bs"] by (simp add: bs)
qed

lemma spartn_header_last:
  assumes "spartn_inv p" and "l_state p = LSpartn LSpartnReadTF002TF006" and "length (lib_message p) = 3"
  obtains b c where "lib_message p = [0x73, b, c]" "get16 (l_scratchPad p) 0 = 2"
    "l_scratchPad p 6 = drop_bit 1 b" "get16 (l_scratchPad p) 8 = push_bit 8 (ucast (b AND 1)) OR ucast c"
proof -
  obtain b c where m: "lib_message p = [0x73, b, c]"
    using assms by (auto simp: spartn_inv_def Let_def length_Suc_conv numeral_3_eq_3)
  then show thesis
    using assms(1,2) by (intro that [of b c]) (simp_all add: spartn_inv_def Let_def lib_scratch_defs)
qed

lemma spartn_continues_header_end:
  assumes "wf_lib p" and "spartn_inv p" and "unat (l_length p) < length (l_buffer p)"
    and "lib_feed p d = Inr p'" and "l_state p = LSpartn LSpartnReadTF002TF006" and "length (lib_message p) = 3"
    and "spartn_header_ok (lib_message p @ [d])"
  shows "lib_continues LSpartnPreamble spartn_inv p d (lib_call_state (l_state p') p' d)"
proof -
  note f = lib_feedD [OF assms(1,3,4)]
  obtain b c where m: "lib_message p = [0x73, b, c]" and s: "get16 (l_scratchPad p) 0 = 2"
      "l_scratchPad p 6 = drop_bit 1 b" "get16 (l_scratchPad p) 8 = push_bit 8 (ucast (b AND 1)) OR ucast c"
    by (rule spartn_header_last [OF assms(2,5,6)])
  have m': "lib_message p' = [0x73, b, c, d]" using f(2) m by simp
  have ok: "foldl crc4_spec 0 [b, c, d AND 0xF0] = d AND 0x0F" using assms(7) by (simp add: spartn_header_ok_def m)
  show ?thesis
    using f(3,4,6) f(1) [of LSpartnPreamble] assms(5,7) s spartn_buffer [OF m'] ok
    by (auto simp: lib_continues_Inr sempSpartnReadTF002TF006_def spartn_header_end_def Let_def lib_scratch_defs
        layout_simps spartn_inv_def spartn_fields_def m m' spartn_payload_def spartn_eaf_def spartn_crc_type_def
        intro!: spartn_kept_intros)
qed

lemma spartn_drops:
  assumes "wf_lib p" and "spartn_inv p" and "unat (l_length p) < length (l_buffer p)"
    and "lib_feed p d = Inr p'" and "l_state p = LSpartn LSpartnReadTF002TF006" and "length (lib_message p) = 3"
    and "\<not> spartn_header_ok (lib_message p @ [d])"
  shows "lib_finishes LSpartnPreamble spartn_valid p d (lib_call_state (l_state p') p' d)"
proof -
  note f = lib_feedD [OF assms(1,3,4)]
  obtain b c where m: "lib_message p = [0x73, b, c]" and s: "get16 (l_scratchPad p) 0 = 2"
    by (rule spartn_header_last [OF assms(2,5,6)])
  have m': "lib_message p' = [0x73, b, c, d]" using f(2) m by simp
  have bad: "foldl crc4_spec 0 [b, c, d AND 0xF0] \<noteq> d AND 0x0F"
    using assms(7) by (simp add: spartn_header_ok_def m)
  have "\<exists>q. lib_call_state (l_state p') p' d = Inr (q, False) \<and> lib_kept LSpartnPreamble p q
      \<and> l_state q = LFirstByte \<and> lib_delivered q = lib_delivered p"
    using f(3,4,6) f(1) [of LSpartnPreamble] assms(5) s spartn_buffer [OF m'] bad
    by (simp add: sempSpartnReadTF002TF006_def spartn_header_end_def Let_def lib_scratch_defs
        layout_simps lib_kept_printf spartn_kept_intros)
  moreover have "\<not> spartn_valid (lib_message p @ [d])"
    using assms(7) by (simp add: spartn_valid_def spartn_shape_def)
  ultimately show ?thesis using lib_drops by blast
qed

lemma spartn_continues_TF007:
  assumes "wf_lib p" and "spartn_inv p" and "unat (l_length p) < length (l_buffer p)"
    and "lib_feed p d = Inr p'" and "l_state p = LSpartn LSpartnReadTF007"
  shows "lib_continues LSpartnPreamble spartn_inv p d (lib_call_state (l_state p') p' d)"
proof -
  note f = lib_feedD [OF assms(1,3,4)]
  have n: "length (lib_message p) = 4" "spartn_fields p (lib_message p)"
    using assms(2,5) by (simp_all add: spartn_inv_def Let_def)
  then have "spartn_fields p' (lib_message p @ [d])" "spartn_eaf (lib_message p @ [d]) = spartn_eaf (lib_message p)"
    using spartn_fields_cong [OF f(4)] by (simp_all add: spartn_append)
  then show ?thesis
    using f(2-4,6) f(1) [of LSpartnPreamble] assms(5) n
    by (auto simp: lib_continues_Inr sempSpartnReadTF007_def Let_def lib_scratch_defs layout_simps
        spartn_inv_def spartn_fields_def spartn_tf_def nth_append intro!: spartn_kept_intros)
qed

text \<open>
  The states behind the header: the fields the routines have stored are those of the
  message, and stay so with another byte.
\<close>

lemma spartn_known_next:
  assumes "wf_lib p" and "unat (l_length p) < length (l_buffer p)" and "lib_feed p d = Inr p'"
    and "spartn_fields p (lib_message p)" and "5 \<le> length (lib_message p)"
  shows "spartn_fields p' (lib_message p @ [d])" "spartn_tf (lib_message p @ [d]) = spartn_tf (lib_message p)"
    "spartn_payload (lib_message p @ [d]) = spartn_payload (lib_message p)"
    "spartn_eaf (lib_message p @ [d]) = spartn_eaf (lib_message p)"
    "spartn_crc_type (lib_message p @ [d]) = spartn_crc_type (lib_message p)"
    "length (lib_message p) < 65535"
  using assms spartn_fields_cong [OF lib_feedD(4) [OF assms(1-3)]]
  by (simp_all add: spartn_append length_lib_message wf_lib_def)

lemma spartn_continues_TF009:
  assumes "wf_lib p" and "spartn_inv p" and "unat (l_length p) < length (l_buffer p)"
    and "lib_feed p d = Inr p'" and "l_state p = LSpartn LSpartnReadTF009"
  shows "lib_continues LSpartnPreamble spartn_inv p d (lib_call_state (l_state p') p' d)"
proof -
  note f = lib_feedD [OF assms(1,3,4)]
  define m where "m = lib_message p"
  define n where "n = length m"
  have c: "5 \<le> n" "spartn_fields p m" "get16 (l_scratchPad p) 4 = spartn_tf m"
      "get16 (l_scratchPad p) 0 = of_nat (n - 4)" "n - 4 < unat (spartn_tf m)"
    using assms(2,5) by (simp_all add: spartn_inv_def Let_def lib_scratch_defs m_def n_def)
  note k = spartn_known_next [OF assms(1,3,4) c(2) [unfolded m_def] c(1) [unfolded n_def m_def], folded m_def]
  have cnt: "of_nat (n - 4) + 1 = spartn_tf m \<longleftrightarrow> Suc (n - 4) = unat (spartn_tf m)"
    using k(6) by (intro count_complete) (simp add: n_def)
  have next_cnt: "(of_nat (n - 4) + 1 :: u16) = of_nat (Suc n - 4)" using c(1) by (simp add: Suc_diff_le)
  have eaf: "get16 (l_scratchPad p) 10 = spartn_eaf m"
    using c(2) by (simp add: spartn_fields_def lib_scratch_defs)
  show ?thesis
  proof (cases "Suc (n - 4) = unat (spartn_tf m)")
    case True
    then have tf: "4 + unat (spartn_tf m) = Suc n" using c(1) by simp
    then have "(m @ [d]) ! (3 + unat (spartn_tf m)) = d" by (simp add: nth_append n_def)
    then have auth: "spartn_auth (m @ [d]) = (if spartn_eaf m = 0 \<or> (ucast (drop_bit 3 d AND 0x07) :: u16) \<le> 1
        then 0 else spartn_embedded d)"
      using k by (simp add: spartn_auth_def)
    show ?thesis
      using f(2-4,6) f(1) [of LSpartnPreamble] assms(5) c True cnt k tf eaf auth
      by (auto simp: lib_continues_Inr sempSpartnReadTF009_def Let_def lib_scratch_defs layout_simps
        spartn_inv_def spartn_fields_def m_def [symmetric] n_def [symmetric] intro!: spartn_kept_intros)
  next
    case False
    then have "Suc n - 4 < unat (spartn_tf m)" using c(1,5) by simp
    then show ?thesis
      using f(2-4,6) f(1) [of LSpartnPreamble] assms(5) c False cnt next_cnt k
      by (auto simp: lib_continues_Inr sempSpartnReadTF009_def Let_def lib_scratch_defs layout_simps
        spartn_inv_def spartn_fields_def m_def [symmetric] n_def [symmetric] intro!: spartn_kept_intros)
  qed
qed

lemma spartn_auth_next:
  assumes "wf_lib p" and "unat (l_length p) < length (l_buffer p)" and "lib_feed p d = Inr p'"
    and "spartn_fields p (lib_message p)" and "4 + unat (spartn_tf (lib_message p)) \<le> length (lib_message p)"
  shows "5 \<le> length (lib_message p)" "spartn_auth (lib_message p @ [d]) = spartn_auth (lib_message p)"
    "spartn_body (lib_message p @ [d]) = spartn_body (lib_message p)"
  using assms(5) spartn_tf_bounds(1) [of "lib_message p"] by (simp_all add: spartn_append)

lemma spartn_continues_TF016:
  assumes "wf_lib p" and "spartn_inv p" and "unat (l_length p) < length (l_buffer p)"
    and "lib_feed p d = Inr p'" and "l_state p = LSpartn LSpartnReadTF016"
  shows "lib_continues LSpartnPreamble spartn_inv p d (lib_call_state (l_state p') p' d)"
proof -
  note f = lib_feedD [OF assms(1,3,4)]
  define m where "m = lib_message p"
  define n where "n = length m"
  define k where "k = 4 + unat (spartn_tf m)"
  have c: "k \<le> n" "spartn_fields p m" "get16 (l_scratchPad p) 4 = spartn_tf m"
      "get16 (l_scratchPad p) 20 = spartn_auth m" "get16 (l_scratchPad p) 0 = of_nat (n - k)"
      "1 \<le> unat (spartn_payload m) \<longrightarrow> n < k + unat (spartn_payload m)"
    using assms(2,5) by (simp_all add: spartn_inv_def Let_def lib_scratch_defs m_def n_def k_def)
  note a = spartn_auth_next [OF assms(1,3,4) c(2) [unfolded m_def] c(1) [unfolded n_def k_def m_def], folded m_def]
  note kn = spartn_known_next [OF assms(1,3,4) c(2) [unfolded m_def] a(1) [unfolded m_def], folded m_def]
  have pl: "get16 (l_scratchPad p) 8 = spartn_payload m"
    using c(2) by (simp add: spartn_fields_def lib_scratch_defs)
  have cnt: "of_nat (n - k) + 1 = spartn_payload m \<longleftrightarrow> Suc (n - k) = unat (spartn_payload m)"
    using kn(6) by (intro count_complete) (simp add: n_def)
  have next_cnt: "(of_nat (n - k) + 1 :: u16) = of_nat (Suc n - k)" using c(1) by (simp add: Suc_diff_le)
  have body: "spartn_body m = k + unat (spartn_payload m) + unat (spartn_auth m)"
    by (simp add: spartn_body_def k_def)
  show ?thesis
  proof (cases "Suc (n - k) = unat (spartn_payload m)")
    case True
    then have n: "Suc n = k + unat (spartn_payload m)" "1 \<le> unat (spartn_payload m)" using c(1) by simp_all
    have "spartn_auth m > 0 \<longleftrightarrow> unat (spartn_auth m) > 0" by (simp add: word_less_nat_alt)
    then show ?thesis
      using f(2-4,6) f(1) [of LSpartnPreamble] assms(5) c(2-5) True cnt kn a pl n body
        spartn_crc_bytes_bounds(1) [of "spartn_crc_type m"]
      by (auto simp: lib_continues_Inr sempSpartnReadTF016_def Let_def lib_scratch_defs layout_simps
        spartn_inv_def spartn_fields_def m_def [symmetric] n_def [symmetric] k_def [symmetric]
        intro!: spartn_kept_intros)
  next
    case False
    then have "1 \<le> unat (spartn_payload m) \<longrightarrow> Suc n < k + unat (spartn_payload m)" using c(1,6) by linarith
    then show ?thesis
      using f(2-4,6) f(1) [of LSpartnPreamble] assms(5) c(1-5) False cnt next_cnt kn a pl
      by (auto simp: lib_continues_Inr sempSpartnReadTF016_def Let_def lib_scratch_defs layout_simps
        spartn_inv_def spartn_fields_def m_def [symmetric] n_def [symmetric] k_def [symmetric]
        intro!: spartn_kept_intros)
  qed
qed

lemma spartn_continues_TF017:
  assumes "wf_lib p" and "spartn_inv p" and "unat (l_length p) < length (l_buffer p)"
    and "lib_feed p d = Inr p'" and "l_state p = LSpartn LSpartnReadTF017"
  shows "lib_continues LSpartnPreamble spartn_inv p d (lib_call_state (l_state p') p' d)"
proof -
  note f = lib_feedD [OF assms(1,3,4)]
  define m where "m = lib_message p"
  define n where "n = length m"
  define k where "k = 4 + unat (spartn_tf m) + unat (spartn_payload m)"
  have c: "k \<le> n" "spartn_fields p m" "get16 (l_scratchPad p) 4 = spartn_tf m"
      "get16 (l_scratchPad p) 20 = spartn_auth m" "get16 (l_scratchPad p) 0 = of_nat (n - k)"
      "1 \<le> unat (spartn_payload m)" "n < spartn_body m"
    using assms(2,5) by (simp_all add: spartn_inv_def Let_def lib_scratch_defs m_def n_def k_def)
  have "4 + unat (spartn_tf m) \<le> n" using c(1) by (simp add: k_def)
  note a = spartn_auth_next [OF assms(1,3,4) c(2) [unfolded m_def] this [unfolded n_def m_def], folded m_def]
  note kn = spartn_known_next [OF assms(1,3,4) c(2) [unfolded m_def] a(1) [unfolded m_def], folded m_def]
  have body: "spartn_body m = k + unat (spartn_auth m)" by (simp add: spartn_body_def k_def)
  have cnt: "of_nat (n - k) + 1 = spartn_auth m \<longleftrightarrow> Suc (n - k) = unat (spartn_auth m)"
    using kn(6) by (intro count_complete) (simp add: n_def)
  have next_cnt: "(of_nat (n - k) + 1 :: u16) = of_nat (Suc n - k)" using c(1) by (simp add: Suc_diff_le)
  show ?thesis
  proof (cases "Suc (n - k) = unat (spartn_auth m)")
    case True
    then have "Suc n = spartn_body m" using c(1) body by simp
    then show ?thesis
      using f(2-4,6) f(1) [of LSpartnPreamble] assms(5) c(2-6) True cnt kn a
        spartn_crc_bytes_bounds(1) [of "spartn_crc_type m"]
      by (auto simp: lib_continues_Inr sempSpartnReadTF017_def Let_def lib_scratch_defs layout_simps
        spartn_inv_def spartn_fields_def m_def [symmetric] n_def [symmetric] k_def [symmetric]
        intro!: spartn_kept_intros)
  next
    case False
    then have "Suc n < spartn_body m" using c(1,7) body by linarith
    then show ?thesis
      using f(2-4,6) f(1) [of LSpartnPreamble] assms(5) c(1-6) False cnt next_cnt kn a
      by (auto simp: lib_continues_Inr sempSpartnReadTF017_def Let_def lib_scratch_defs layout_simps
        spartn_inv_def spartn_fields_def m_def [symmetric] n_def [symmetric] k_def [symmetric]
        intro!: spartn_kept_intros)
  qed
qed

text \<open>The last state, with what the test of the CRC reads.\<close>

lemma spartn_crc_state:
  assumes "wf_lib p" and "spartn_inv p" and "unat (l_length p) < length (l_buffer p)"
    and "lib_feed p d = Inr p'" and "l_state p = LSpartn LSpartnReadTF018"
  defines "m \<equiv> lib_message p" and "n \<equiv> length (lib_message p)" and "k \<equiv> spartn_body (lib_message p)"
    and "c \<equiv> unat (spartn_crc_bytes (spartn_crc_type (lib_message p)))"
  shows "k \<le> n" "n < k + c" "1 \<le> unat (spartn_payload m)" "spartn_fields p m"
    "get16 (l_scratchPad p) 4 = spartn_tf m" "get16 (l_scratchPad p) 20 = spartn_auth m"
    "get16 (l_scratchPad p) 0 + 1 = of_nat (Suc n - k)"
    "get16 (l_scratchPad p) 0 + 1 = get16 (l_scratchPad p) 2 \<longleftrightarrow> Suc n = k + c"
    "4 + unat (spartn_tf m) \<le> n" "5 \<le> k"
proof -
  show *: "k \<le> n" "n < k + c" "1 \<le> unat (spartn_payload m)" "spartn_fields p m"
    "get16 (l_scratchPad p) 4 = spartn_tf m" "get16 (l_scratchPad p) 20 = spartn_auth m"
    using assms(2,5) by (simp_all add: spartn_inv_def Let_def lib_scratch_defs m_def n_def k_def c_def)
  show k: "4 + unat (spartn_tf m) \<le> n" "5 \<le> k"
    using *(1) spartn_tf_bounds(1) [of m] by (simp_all add: k_def m_def spartn_body_def)
  have cnt: "get16 (l_scratchPad p) 0 = of_nat (n - k)"
    using assms(2,5) by (simp add: spartn_inv_def Let_def lib_scratch_defs m_def n_def k_def)
  then show "get16 (l_scratchPad p) 0 + 1 = of_nat (Suc n - k)" using *(1) by (simp add: Suc_diff_le)
  have "get16 (l_scratchPad p) 2 = spartn_crc_bytes (spartn_crc_type m)"
    using *(4) by (simp add: spartn_fields_def lib_scratch_defs)
  moreover have "n < 65535" using assms(1,3) by (simp add: n_def length_lib_message wf_lib_def)
  ultimately show "get16 (l_scratchPad p) 0 + 1 = get16 (l_scratchPad p) 2 \<longleftrightarrow> Suc n = k + c"
    using *(1,2) count_complete [of "n - k" "spartn_crc_bytes (spartn_crc_type m)"]
    unfolding cnt by (auto simp: c_def m_def)
qed

lemma spartn_continues_TF018:
  assumes "wf_lib p" and "spartn_inv p" and "unat (l_length p) < length (l_buffer p)"
    and "lib_feed p d = Inr p'" and "l_state p = LSpartn LSpartnReadTF018"
    and "Suc (length (lib_message p)) \<noteq> spartn_body (lib_message p)
      + unat (spartn_crc_bytes (spartn_crc_type (lib_message p)))"
  shows "lib_continues LSpartnPreamble spartn_inv p d (lib_call_state (l_state p') p' d)"
proof -
  note f = lib_feedD [OF assms(1,3,4)]
  note c = spartn_crc_state [OF assms(1-5)]
  note a = spartn_auth_next [OF assms(1,3,4) c(4,9)]
  note kn = spartn_known_next [OF assms(1,3,4) c(4) a(1)]
  show ?thesis
    using f(2-4,6) f(1) [of LSpartnPreamble] assms(5,6) c kn a
    by (auto simp: lib_continues_Inr sempSpartnReadTF018_def Let_def lib_scratch_defs layout_simps
        spartn_inv_def spartn_fields_def intro!: spartn_kept_intros)
qed

lemma spartn_expected_eq:
  assumes "wf_lib p" and "i + k \<le> length (lib_message p)"
  shows "spartn_expected k (int i) p e
    = Inr (foldl (\<lambda>e b. push_bit 8 e OR ucast b) e (take k (drop i (lib_message p))))"
  using assms(2)
proof (induction k arbitrary: i e)
  case (Suc k)
  have "drop i (lib_message p) = lib_message p ! i # drop (Suc i) (lib_message p)"
    using Suc.prems by (intro Cons_nth_drop_Suc [symmetric]) simp
  moreover have "int i + 1 = int (Suc i)" by simp
  ultimately show ?case
    using Suc.IH [of "Suc i"] Suc.prems lib_at [OF assms(1), of i] by (simp only: spartn_expected.simps) simp
qed simp

lemma spartn_crc_ok_eq:
  assumes "wf_lib p" and "lib_spartn_crcType p = t"
    and "length (lib_message p) = k + unat (spartn_crc_bytes t)" and "1 \<le> k"
  shows "spartn_crc_ok p (of_nat k) =
    Inr (spartn_check t (drop 1 (take k (lib_message p))) = be_value (drop k (lib_message p)))"
proof -
  have k: "k < 65536" "k \<le> length (l_buffer p)" "k \<le> unat (l_length p)"
    using assms(1,3) length_lib_message_16 [OF assms(1)] by (simp_all add: length_lib_message wf_lib_def)
  have u: "uint (of_nat k :: u16) = int k" using k(1) by (simp add: unsigned_of_nat take_bit_nat_eq_self)
  define sz where "sz = (word_of_int (int k - 1) :: u32)"
  have "int k - 1 = int (k - 1)" using assms(4) by simp
  then have "sz = of_nat (k - 1)" by (simp only: sz_def of_int_of_nat_eq)
  moreover have "unat (of_nat (k - 1) :: u32) = k - 1"
    using k(1) by (subst unat_of_nat) (simp add: take_bit_nat_eq_self)
  ultimately have w: "unat sz = k - 1" by (simp only:)
  define buf where "buf = drop 1 (l_buffer p)"
  have buf: "take (k - 1) buf = drop 1 (take k (lib_message p))" "k - 1 \<le> length buf"
    using k assms(4) by (simp_all add: buf_def lib_message_def drop_take min_def)
  note crcs = spartn8 [of sz buf, unfolded w, OF buf(2), unfolded buf(1)]
    spartn16 [of sz buf, unfolded w, OF buf(2), unfolded buf(1)]
    spartn24 [of sz buf, unfolded w, OF buf(2), unfolded buf(1)]
    spartn32 [of sz buf, unfolded w, OF buf(2), unfolded buf(1)]
  have "spartn_expected (unat (spartn_crc_bytes t)) (int k) p 0 = Inr (be_value (drop k (lib_message p)))"
    using spartn_expected_eq [OF assms(1), of k "unat (spartn_crc_bytes t)" 0] assms(3)
    by (simp add: be_value_def)
  then show ?thesis
    unfolding spartn_crc_ok_def Let_def u assms(2) sz_def [symmetric] buf_def [symmetric] crcs
      spartn_check_def spartn_crc_bytes_def
    by (simp split: if_splits)
qed

lemma spartn_finishes:
  assumes "wf_lib p" and "spartn_inv p" and "unat (l_length p) < length (l_buffer p)"
    and "lib_feed p d = Inr p'" and "l_state p = LSpartn LSpartnReadTF018"
    and "Suc (length (lib_message p)) = spartn_body (lib_message p)
      + unat (spartn_crc_bytes (spartn_crc_type (lib_message p)))"
  shows "lib_finishes LSpartnPreamble spartn_valid p d (lib_call_state (l_state p') p' d)"
proof -
  note f = lib_feedD [OF assms(1,3,4)]
  note c = spartn_crc_state [OF assms(1-5)]
  note a = spartn_auth_next [OF assms(1,3,4) c(4,9)]
  note kn = spartn_known_next [OF assms(1,3,4) c(4) a(1)]
  define m where "m = lib_message p @ [d]"
  define k where "k = spartn_body m"
  define q where "q = p'\<lparr>l_scratchPad := put16 (l_scratchPad p) 0 (get16 (l_scratchPad p) 0 + 1)\<rparr>"
  have q: "lib_kept LSpartnPreamble p q" "lib_message q = m" "l_log q = l_log p" "wf_lib q"
    using f spartn_kept by (simp_all add: q_def m_def)
  have fields: "spartn_fields q m" using kn(1) f(4)
    by (simp add: q_def m_def spartn_fields_def lib_scratch_defs layout_simps)
  then have type: "lib_spartn_crcType q = spartn_crc_type m" by (simp add: spartn_fields_def)
  have len: "length m = k + unat (spartn_crc_bytes (spartn_crc_type m))" "5 \<le> k"
    using assms(6) a(3) kn(5) c(10) by (simp_all add: m_def k_def)
  have "4 + get16 (l_scratchPad q) 4 + get16 (l_scratchPad q) 8 + get16 (l_scratchPad q) 20 = (of_nat k :: u16)"
    using fields c(5,6) kn(2) a(2)
    by (simp add: q_def spartn_fields_def lib_scratch_defs layout_simps k_def m_def spartn_body_def)
  then have num: "4 + lib_spartn_TF007toTF016 q + lib_spartn_payloadLength q
      + lib_spartn_embeddedApplicationLengthBytes q = of_nat k"
    by (simp add: lib_scratch_defs)
  define ok where "ok \<longleftrightarrow> spartn_check (spartn_crc_type m) (drop 1 (take k m)) = be_value (drop k m)"
  have test: "spartn_crc_ok q (of_nat k) = Inr ok"
    using spartn_crc_ok_eq [OF q(4) type, of k] q(2) len by (simp add: ok_def)
  have "spartn_shape m"
    using c(3,10) kn(3,5) fields len by (simp add: spartn_shape_def spartn_fields_def k_def m_def)
  then have valid: "spartn_valid (lib_message p @ [d]) = ok" by (simp add: spartn_valid_def ok_def k_def m_def)
  define reject where "reject = (\<lambda>p. Inr (sempPrintf_lib (l_printDebug p)
      (LBinary (LSpartnBadCrc (lib_spartn_messageType p) (lib_spartn_messageSubtype p) (l_length p))) p) :: lib res)"
  have "lib_spartn_frameCount q = lib_spartn_crcBytes q"
    using c(8) assms(6) by (simp add: q_def lib_scratch_defs layout_simps)
  moreover have "set_lib_spartn_frameCount (lib_spartn_frameCount p' + 1) p' = q"
    using f(4) by (simp add: q_def lib_scratch_defs)
  ultimately have "lib_call_state (l_state p') p' d = (let (p, accepted) = lib_crc_accepted ok q
      in rbind (if accepted then lib_call_eom p else reject p) (\<lambda>p. Inr (p\<lparr>l_state := LFirstByte\<rparr>, False)))"
    using f(3) assms(5) num test unfolding reject_def by (simp add: sempSpartnReadTF018_def Let_def)
  then show ?thesis
  proof (rule lib_finishesI)
    fix es
    let ?q = "q\<lparr>l_log := l_log q @ es\<rparr>"
    obtain gs where "sempPrintf_lib (l_printDebug ?q) (LBinary (LSpartnBadCrc (lib_spartn_messageType ?q)
        (lib_spartn_messageSubtype ?q) (l_length ?q))) ?q = ?q\<lparr>l_log := l_log ?q @ gs\<rparr>" "lib_eoms gs = []"
      by (rule sempPrintf_lib_log)
    then show "\<exists>fs. lib_eoms fs = [] \<and> reject ?q = Inr (q\<lparr>l_log := l_log q @ es @ fs\<rparr>)"
      by (intro exI [of _ gs]) (simp add: reject_def)
  qed (use q valid lib_kept_state in \<open>simp_all add: m_def\<close>)
qed

lemma spartn_cases:
  assumes "spartn_inv p"
  obtains (header) "l_state p = LSpartn LSpartnReadTF002TF006" "length (lib_message p) < 3"
    | (header_end) "l_state p = LSpartn LSpartnReadTF002TF006" "length (lib_message p) = 3"
        "spartn_header_ok (lib_message p @ [d])"
    | (dropped) "l_state p = LSpartn LSpartnReadTF002TF006" "length (lib_message p) = 3"
        "\<not> spartn_header_ok (lib_message p @ [d])"
    | (TF007) "l_state p = LSpartn LSpartnReadTF007"
    | (TF009) "l_state p = LSpartn LSpartnReadTF009"
    | (TF016) "l_state p = LSpartn LSpartnReadTF016"
    | (TF017) "l_state p = LSpartn LSpartnReadTF017"
    | (TF018) "l_state p = LSpartn LSpartnReadTF018" "Suc (length (lib_message p))
        \<noteq> spartn_body (lib_message p) + unat (spartn_crc_bytes (spartn_crc_type (lib_message p)))"
    | (last) "l_state p = LSpartn LSpartnReadTF018" "Suc (length (lib_message p))
        = spartn_body (lib_message p) + unat (spartn_crc_bytes (spartn_crc_type (lib_message p)))"
proof -
  consider "l_state p = LSpartn LSpartnReadTF002TF006" | "l_state p = LSpartn LSpartnReadTF007"
    | "l_state p = LSpartn LSpartnReadTF009" | "l_state p = LSpartn LSpartnReadTF016"
    | "l_state p = LSpartn LSpartnReadTF017" | "l_state p = LSpartn LSpartnReadTF018"
    using assms by (auto simp: spartn_inv_def Let_def split: lib_routine.splits lib_spartn.splits)
  then show thesis
  proof cases
    case 1
    then have "length (lib_message p) < 3 \<or> length (lib_message p) = 3"
      using assms by (auto simp: spartn_inv_def Let_def)
    with 1 that(1-3) show thesis by (cases "spartn_header_ok (lib_message p @ [d])") auto
  next
    case 6
    show thesis by (rule case_split [OF that(9) [OF 6] that(8) [OF 6]])
  qed (fact that(4-7))+
qed

lemma spartn_prefix:
  assumes "spartn_inv p" and "spartn_shape f" and "prefix (lib_message p @ [d]) f"
  shows "length (lib_message p) = 3 \<Longrightarrow> spartn_header_ok (lib_message p @ [d])"
    and "l_state p \<noteq> LSpartn LSpartnReadTF018 \<Longrightarrow> lib_message p @ [d] \<noteq> f"
    and "l_state p = LSpartn LSpartnReadTF018 \<Longrightarrow> lib_message p @ [d] = f \<longleftrightarrow> Suc (length (lib_message p))
        = spartn_body (lib_message p) + unat (spartn_crc_bytes (spartn_crc_type (lib_message p)))"
proof -
  define m where "m = lib_message p"
  obtain zs where f: "f = m @ d # zs" using assms(3) by (auto simp: prefix_def m_def)
  have s: "5 \<le> length f" "spartn_header_ok f" "1 \<le> unat (spartn_payload f)"
      "length f = spartn_body f + unat (spartn_crc_bytes (spartn_crc_type f))"
    using assms(2) by (simp_all add: spartn_shape_def)
  show "length (lib_message p) = 3 \<Longrightarrow> spartn_header_ok (lib_message p @ [d])"
    using s(2) spartn_append(4) [of "m @ [d]" zs] by (simp add: f m_def)
  have eq: "lib_message p @ [d] = f \<longleftrightarrow> Suc (length m) = length f" by (auto simp: f m_def)
  have c: "1 \<le> unat (spartn_crc_bytes (spartn_crc_type f))" by (rule spartn_crc_bytes_bounds)
  have b: "8 \<le> spartn_body f" using spartn_tf_bounds(1) [of f] by (simp add: spartn_body_def)
  have eqs: "4 \<le> length m \<Longrightarrow> spartn_payload f = spartn_payload m" "5 \<le> length m \<Longrightarrow> spartn_tf f = spartn_tf m"
      "4 \<le> length m \<Longrightarrow> spartn_crc_type f = spartn_crc_type m"
      "4 + unat (spartn_tf m) \<le> length m \<Longrightarrow> spartn_auth f = spartn_auth m"
      "4 + unat (spartn_tf m) \<le> length m \<Longrightarrow> spartn_body f = spartn_body m"
    by (simp_all add: f spartn_append)
  show "l_state p = LSpartn LSpartnReadTF018 \<Longrightarrow> lib_message p @ [d] = f \<longleftrightarrow> Suc (length (lib_message p))
        = spartn_body (lib_message p) + unat (spartn_crc_bytes (spartn_crc_type (lib_message p)))"
    unfolding eq using assms(1) s(4) eqs(3,5)
    by (simp add: spartn_inv_def Let_def m_def [symmetric]) (auto simp: spartn_body_def)
  assume ns: "l_state p \<noteq> LSpartn LSpartnReadTF018"
  have tf: "4 \<le> unat (spartn_tf m)" by (rule spartn_tf_bounds)
  have "length m < spartn_body f"
    using assms(1)
  proof (cases rule: spartn_cases [where d = d])
    case TF009
    then have "5 \<le> length m" "length m < 4 + unat (spartn_tf m)"
      using assms(1) by (auto simp: spartn_inv_def Let_def m_def)
    then show ?thesis using eqs(2) by (simp add: spartn_body_def)
  next
    case TF016
    then have n: "4 + unat (spartn_tf m) \<le> length m"
        "1 \<le> unat (spartn_payload m) \<longrightarrow> length m < 4 + unat (spartn_tf m) + unat (spartn_payload m)"
      using assms(1) by (auto simp: spartn_inv_def Let_def m_def)
    then have "5 \<le> length m" using tf by simp
    then show ?thesis using n s(3) eqs(1,2) by (simp add: spartn_body_def)
  next
    case TF017
    then have "4 + unat (spartn_tf m) \<le> length m" "length m < spartn_body m"
      using assms(1) by (auto simp: spartn_inv_def Let_def m_def)
    then show ?thesis using eqs(5) by simp
  qed (use assms(1) b ns in \<open>auto simp: spartn_inv_def Let_def m_def\<close>)
  then show "lib_message p @ [d] \<noteq> f" unfolding eq using s(4) c by simp
qed

interpretation spartn_message: lib_protocol LSpartnPreamble spartn_inv spartn_shape spartn_valid
proof unfold_locales
  fix p :: lib and d p' res f
  assume p: "wf_lib p" "spartn_inv p" "unat (l_length p) < length (l_buffer p)" "lib_feed p d = Inr p'"
    and res: "res = lib_call_state (l_state p') p' d"
  note steps = spartn_continues_header [OF p] spartn_continues_header_end [OF p] spartn_drops [OF p]
    spartn_continues_TF007 [OF p] spartn_continues_TF009 [OF p] spartn_continues_TF016 [OF p]
    spartn_continues_TF017 [OF p] spartn_continues_TF018 [OF p] spartn_finishes [OF p]
  show "lib_continues LSpartnPreamble spartn_inv p d res \<or> lib_finishes LSpartnPreamble spartn_valid p d res
      \<or> lib_restarts LSpartnPreamble p d res"
    unfolding res by (cases rule: spartn_cases [OF p(2), where d = d]) (simp_all add: steps)
  assume f: "spartn_shape f" "prefix (lib_message p @ [d]) f"
  show "if lib_message p @ [d] = f then lib_finishes LSpartnPreamble spartn_valid p d res
        else lib_continues LSpartnPreamble spartn_inv p d res"
    unfolding res
    by (cases rule: spartn_cases [OF p(2), where d = d]) (simp_all add: steps spartn_prefix [OF p(2) f])
qed (simp_all only: spartn_inv_type, auto simp: sempSpartnPreamble_def spartn_inv_def spartn_valid_def
  spartn_shape_def Let_def lib_scratch_defs)

end
