(* ===== verification/Protocol_Lib_Shared.thy ===== *)
theory Protocol_Lib_Shared
  imports Lib_Protocol Protocol_UBLOX Protocol_RTCM
begin

text \<open>
  The u-blox and RTCM protocols of the library. The messages are those of my_parser
  (\<open>Protocol_UBLOX\<close>, \<open>Protocol_RTCM\<close>); the invariants of the routines of
  lib/Parse_UBLOX.cpp and lib/Parse_RTCM.cpp and their contracts are stated here.
\<close>

section \<open>u-blox\<close>

definition lib_ublox_sum :: "lib \<Rightarrow> u8 \<times> u8" where
  "lib_ublox_sum p = (lib_ublox_ck_a p, lib_ublox_ck_b p)"

definition lib_ublox_inv :: "lib \<Rightarrow> bool" where
  "lib_ublox_inv p \<longleftrightarrow>
     (let m = lib_message p; sync = (m ! 0 = 0xb5 \<and> m ! 1 = 0x62);
          sum = (fletcher (drop 2 m) = lib_ublox_sum p)
      in (case l_state p of
            LUblox LUbloxSync2 \<Rightarrow> m = [0xb5]
          | LUblox LUbloxClass \<Rightarrow> m = [0xb5, 0x62]
          | LUblox LUbloxId \<Rightarrow> length m = 3 \<and> sync \<and> sum
          | LUblox LUbloxLength1 \<Rightarrow> length m = 4 \<and> sync \<and> sum
          | LUblox LUbloxLength2 \<Rightarrow> length m = 5 \<and> sync \<and> sum \<and> lib_ublox_bytesRemaining p = ucast (m ! 4)
          | LUblox LUbloxPayload \<Rightarrow>
              6 \<le> length m \<and> sync \<and> sum
              \<and> length m + unat (lib_ublox_bytesRemaining p) = 6 + unat (le16 (m ! 4) (m ! 5))
          | LUblox LUbloxCkB \<Rightarrow>
              7 \<le> length m \<and> sync \<and> fletcher (butlast (drop 2 m)) = lib_ublox_sum p
              \<and> length m = 7 + unat (le16 (m ! 4) (m ! 5))
          | _ \<Rightarrow> False))"

lemma lib_ublox_inv_type: "lib_ublox_inv (p\<lparr>l_type := t\<rparr>) = lib_ublox_inv p"
  by (simp add: lib_ublox_inv_def lib_ublox_sum_def lib_scratch_defs
      cong: lib_routine.case_cong lib_ublox.case_cong)

lemmas lib_ublox_routines =
  sempUbloxSync2_lib_def sempUbloxClass_lib_def sempUbloxId_lib_def sempUbloxLength1_lib_def
  sempUbloxLength2_lib_def sempUbloxPayload_lib_def sempUbloxCkA_lib_def lib_ublox_checksum_def

lemma lib_ublox_continues:
  assumes "wf_lib p" and "lib_ublox_inv p" and "unat (l_length p) < length (l_buffer p)"
    and "lib_feed p d = Inr p'" and "l_state p \<noteq> LUblox LUbloxCkB"
    and "l_state p = LUblox LUbloxSync2 \<longrightarrow> d = 0x62"
  shows "lib_continues LUbloxPreamble lib_ublox_inv p d (lib_call_state (l_state p') p' d)"
proof -
  note f = lib_feedD [OF assms(1,3,4)]
  obtain s where "l_state p = LUblox s"
    using assms(2) by (auto simp: lib_ublox_inv_def Let_def split: lib_routine.splits)
  then show ?thesis
    using assms(2,5,6) f(2-4,6) f(1) [of LUbloxPreamble]
    by (cases s) (auto simp: lib_continues_Inr lib_ublox_inv_def lib_ublox_sum_def lib_ublox_routines Let_def
        lib_scratch_defs layout_simps nth_append le16_def unat_dec unat_eq_zero [symmetric]
        simp del: unat_eq_zero intro!: lib_kept_intros)
qed

lemma lib_ublox_restarts:
  assumes "wf_lib p" and "unat (l_length p) < length (l_buffer p)"
    and "lib_feed p d = Inr p'" and "l_state p = LUblox LUbloxSync2" and "d \<noteq> 0x62"
  shows "lib_restarts LUbloxPreamble p d (lib_call_state (l_state p') p' d)"
proof -
  note f = lib_feedD [OF assms(1-3)]
  show ?thesis
    unfolding lib_restarts_def using f(1,3,6) assms(4,5)
    by (intro exI [of _ "sempPrintf_lib (l_printDebug p') (LBinary LUbloxInvalidSync2) p'"])
      (simp add: sempUbloxSync2_lib_def lib_kept_printf)
qed

lemma lib_kept_clear: "lib_kept r p q \<Longrightarrow> lib_kept r p (q\<lparr>l_length := 0, l_state := s\<rparr>)"
  by (auto simp: lib_kept_def wf_lib_def lib_sbf_invalidDataCallback_def)

lemma lib_ublox_finishes:
  assumes "wf_lib p" and "lib_ublox_inv p" and "unat (l_length p) < length (l_buffer p)"
    and "lib_feed p d = Inr p'" and "l_state p = LUblox LUbloxCkB"
  shows "lib_finishes LUbloxPreamble ublox_valid p d (lib_call_state (l_state p') p' d)"
proof -
  define m where "m = lib_message p"
  have inv: "7 \<le> length m" "m ! 0 = 0xb5" "m ! 1 = 0x62" "length m = 7 + unat (le16 (m ! 4) (m ! 5))"
      "fletcher (butlast (drop 2 m)) = lib_ublox_sum p"
    using assms(2,5) by (simp_all add: lib_ublox_inv_def m_def Let_def)
  note f = lib_feedD [OF assms(1,3,4)]
  define ok where "ok \<longleftrightarrow> \<not> (last m \<noteq> lib_ublox_ck_a p \<or> d \<noteq> lib_ublox_ck_b p)"
  have l: "last m = m ! (length m - 1)" "length m - 1 < length m" using inv(1) by (intro last_conv_nth, auto)
  have rx: "lib_back p' 2 = Inr (last m)" "lib_back p' 1 = Inr d"
    using lib_back_eq [OF f(8), of 2] lib_back_eq [OF f(8), of 1] f(2) inv(1) l
    by (simp_all add: m_def nth_append)
  have valid: "ublox_valid (lib_message p @ [d]) = ok"
    using inv l unfolding m_def [symmetric]
    by (auto simp: ublox_valid_def ublox_shape_def ok_def nth_append lib_ublox_sum_def butlast_conv_take)
  define reject where "reject = (\<lambda>p. Inr (sempPrintf_lib (l_printDebug p)
      (LBinary (LUbloxBadChecksum [last m, d] (lib_ublox_ck_a p) (lib_ublox_ck_b p))) p) :: lib res)"
  have "lib_call_state (l_state p') p' d = (let (p, accepted) = lib_crc_accepted ok p'
      in rbind (if accepted then lib_call_eom p else reject p)
           (\<lambda>p. Inr (p\<lparr>l_length := 0, l_state := LFirstByte\<rparr>, False)))"
    using rx f(3,4) assms(5) unfolding reject_def by (simp add: sempUbloxCkB_lib_def ok_def lib_scratch_defs)
  then show ?thesis
  proof (rule lib_finishesI)
    fix es
    let ?q = "p'\<lparr>l_log := l_log p' @ es\<rparr>"
    obtain gs where "sempPrintf_lib (l_printDebug ?q) (LBinary (LUbloxBadChecksum [last m, d]
        (lib_ublox_ck_a ?q) (lib_ublox_ck_b ?q))) ?q = ?q\<lparr>l_log := l_log ?q @ gs\<rparr>" "lib_eoms gs = []"
      by (rule sempPrintf_lib_log)
    then show "\<exists>fs. lib_eoms fs = [] \<and> reject ?q = Inr (p'\<lparr>l_log := l_log p' @ es @ fs\<rparr>)"
      by (intro exI [of _ gs]) (simp add: reject_def)
  qed (use f valid lib_kept_clear in simp_all)
qed

lemma lib_ublox_prefix:
  assumes "lib_ublox_inv p" and "ublox_shape f" and "prefix (lib_message p @ [d]) f"
  shows "l_state p = LUblox LUbloxCkB \<longleftrightarrow> lib_message p @ [d] = f"
    and "l_state p = LUblox LUbloxSync2 \<Longrightarrow> d = 0x62"
proof -
  obtain zs where f: "f = lib_message p @ d # zs" using assms(3) by (auto simp: prefix_def)
  show "l_state p = LUblox LUbloxCkB \<longleftrightarrow> lib_message p @ [d] = f"
    using assms(1,2)
    by (auto simp: lib_ublox_inv_def ublox_shape_def f nth_append Let_def
        split: lib_routine.splits lib_ublox.splits)
  show "l_state p = LUblox LUbloxSync2 \<Longrightarrow> d = 0x62"
    using assms(1,2) by (simp add: lib_ublox_inv_def ublox_shape_def f Let_def)
qed

interpretation lib_ubx: lib_protocol LUbloxPreamble lib_ublox_inv ublox_shape ublox_valid
proof unfold_locales
  fix p :: lib and d p' res f
  assume p: "wf_lib p" "lib_ublox_inv p" "unat (l_length p) < length (l_buffer p)" "lib_feed p d = Inr p'"
    and res: "res = lib_call_state (l_state p') p' d"
  show "lib_continues LUbloxPreamble lib_ublox_inv p d res \<or> lib_finishes LUbloxPreamble ublox_valid p d res
      \<or> lib_restarts LUbloxPreamble p d res"
    using lib_ublox_continues [OF p] lib_ublox_restarts [OF p(1,3,4)] lib_ublox_finishes [OF p]
    unfolding res by blast
  assume f: "ublox_shape f" "prefix (lib_message p @ [d]) f"
  show "if lib_message p @ [d] = f then lib_finishes LUbloxPreamble ublox_valid p d res
        else lib_continues LUbloxPreamble lib_ublox_inv p d res"
    using lib_ublox_prefix [OF p(2) f] lib_ublox_continues [OF p] lib_ublox_finishes [OF p]
    unfolding res by auto
qed (simp_all only: lib_ublox_inv_type, auto simp: sempUbloxPreamble_lib_def lib_ublox_inv_def ublox_valid_def
  ublox_shape_def Let_def)

section \<open>RTCM\<close>

definition lib_rtcm_inv :: "lib \<Rightarrow> bool" where
  "lib_rtcm_inv p \<longleftrightarrow>
     l_computeCrc p = Some LRtcmComputeCrc24q \<and> l_crc p = rtcm_crc24 (lib_message p) \<and>
     (let m = lib_message p; n = length m; br = lib_rtcm_bytesRemaining p; len = rtcm_length m
      in (case l_state p of
            LRtcm LRtcmReadLength1 \<Rightarrow> m = [0xd3]
          | LRtcm LRtcmReadLength2 \<Rightarrow> n = 2 \<and> rtcm_header m \<and> br = push_bit 8 (ucast (m ! 1))
          | LRtcm LRtcmReadMessage1 \<Rightarrow> n = 3 \<and> rtcm_header m \<and> br = len
          | LRtcm LRtcmReadMessage2 \<Rightarrow> n = 4 \<and> rtcm_header m \<and> br = len - 1
          | LRtcm LRtcmReadData \<Rightarrow>
              5 \<le> n \<and> rtcm_header m \<and> br = len - of_nat (n - 3) \<and> (3 \<le> unat len \<longrightarrow> n < 3 + unat len)
          | LRtcm LRtcmReadCrc \<Rightarrow>
              6 \<le> n \<and> rtcm_header m \<and> 3 + unat len \<le> n \<and> n < 6 + unat len \<and> 3 \<le> unat len
              \<and> br = of_nat (6 + unat len - n)
          | _ \<Rightarrow> False))"

lemma lib_rtcm_inv_type: "lib_rtcm_inv (p\<lparr>l_type := t\<rparr>) = lib_rtcm_inv p"
  by (simp add: lib_rtcm_inv_def lib_scratch_defs cong: lib_routine.case_cong lib_rtcm.case_cong)

lemma lib_rtcm_next_crc: "lib_rtcm_inv p \<Longrightarrow> lib_next_crc p d = rtcm_crc24 (lib_message p @ [d])"
  by (simp add: lib_rtcm_inv_def lib_next_crc_def sempRtcmComputeCrc24q_lib_def crc24q_step_def Let_def)

lemma lib_rtcm_continues_header:
  assumes "wf_lib p" and "lib_rtcm_inv p" and "unat (l_length p) < length (l_buffer p)"
    and "lib_feed p d = Inr p'"
    and "l_state p \<in> LRtcm ` {LRtcmReadLength1, LRtcmReadLength2, LRtcmReadMessage1, LRtcmReadMessage2}"
    and "l_state p = LRtcm LRtcmReadLength1 \<longrightarrow> d AND NOT 3 = 0"
  shows "lib_continues LRtcmPreamble lib_rtcm_inv p d (lib_call_state (l_state p') p' d)"
proof -
  note f = lib_feedD [OF assms(1,3,4)]
  have "LRtcmPreamble \<notin> lib_clobbers" by (simp add: lib_clobbers_def)
  then show ?thesis
    using assms(2,5,6) f(2-7) f(1) [of LRtcmPreamble] lib_rtcm_next_crc [OF assms(2), of d]
    by (elim imageE insertE emptyE)
      (auto simp: lib_continues_Inr lib_rtcm_inv_def lib_scratch_defs layout_simps sempRtcmReadLength1_lib_def
        sempRtcmReadLength2_lib_def sempRtcmReadMessage1_lib_def sempRtcmReadMessage2_lib_def
        rtcm_header_def rtcm_length_def nth_append le16_def or.commute Let_def intro!: lib_kept_intros)
qed

lemma lib_rtcm_continues_data:
  assumes "wf_lib p" and "lib_rtcm_inv p" and "unat (l_length p) < length (l_buffer p)"
    and "lib_feed p d = Inr p'" and "l_state p = LRtcm LRtcmReadData"
  shows "lib_continues LRtcmPreamble lib_rtcm_inv p d (lib_call_state (l_state p') p' d)"
proof -
  note f = lib_feedD [OF assms(1,3,4)]
  define m where "m = lib_message p"
  define n where "n = length m"
  define len where "len = rtcm_length m"
  have n: "5 \<le> n" "n < 65535" "get16 (l_scratchPad p) 4 = len - of_nat (n - 3)"
      "3 \<le> unat len \<longrightarrow> n < 3 + unat len" "rtcm_header m" "l_computeCrc p = Some LRtcmComputeCrc24q"
    using assms by (simp_all add: lib_rtcm_inv_def m_def n_def len_def Let_def length_lib_message wf_lib_def
        lib_scratch_defs)
  have m: "lib_message p' = m @ [d]" "rtcm_header (m @ [d])" "rtcm_length (m @ [d]) = len"
      "l_crc p' = rtcm_crc24 (m @ [d])"
    using f n rtcm_append [of m d] lib_rtcm_next_crc [OF assms(2), of d]
    by (simp_all add: m_def n_def len_def)
  have dec: "get16 (l_scratchPad p) 4 - 1 = 0 \<longleftrightarrow> n = 2 + unat len"
    unfolding n(3) using n(1,2) dec_complete [of "n - 3" len] by auto
  have next_br: "get16 (l_scratchPad p) 4 - 1 = len - of_nat (Suc n - 3)"
    unfolding n(3) using n(1) by (simp add: of_nat_diff)
  show ?thesis
  proof (cases "n = 2 + unat len")
    case True
    then have "get16 (l_scratchPad p) 4 - 1 = 0" using dec by simp
    then show ?thesis
      using assms(5) f(1,3,4,6,7) n m True
      by (auto simp: lib_continues_Inr sempRtcmReadData_lib_def lib_rtcm_inv_def lib_scratch_defs layout_simps
          Let_def n_def m_def [symmetric] intro!: lib_kept_intros)
  next
    case False
    then have "get16 (l_scratchPad p) 4 - 1 \<noteq> 0" using dec by simp
    then show ?thesis
      using assms(5) f(1,3,4,6,7) n m False next_br
      by (auto simp: lib_continues_Inr sempRtcmReadData_lib_def lib_rtcm_inv_def lib_scratch_defs layout_simps
          Let_def n_def m_def [symmetric] intro!: lib_kept_intros)
  qed
qed

lemma lib_rtcm_crc_state:
  assumes "lib_rtcm_inv p" and "l_state p = LRtcm LRtcmReadCrc"
  defines "n \<equiv> length (lib_message p)" and "len \<equiv> unat (rtcm_length (lib_message p))"
  shows "6 \<le> n" "rtcm_header (lib_message p)" "3 \<le> len" "l_crc p = rtcm_crc24 (lib_message p)"
    "get16 (l_scratchPad p) 4 - 1 = of_nat (5 + len - n)" "3 + len \<le> n" "n < 6 + len"
    "get16 (l_scratchPad p) 4 - 1 > 0 \<longleftrightarrow> Suc n < 6 + len" "l_computeCrc p = Some LRtcmComputeCrc24q"
proof -
  show *: "6 \<le> n" "rtcm_header (lib_message p)" "3 \<le> len" "l_crc p = rtcm_crc24 (lib_message p)"
    "3 + len \<le> n" "n < 6 + len" "l_computeCrc p = Some LRtcmComputeCrc24q"
    using assms by (simp_all add: lib_rtcm_inv_def Let_def)
  have "get16 (l_scratchPad p) 4 = of_nat (6 + len - n)"
    using assms by (simp add: lib_rtcm_inv_def lib_scratch_defs Let_def)
  also have "6 + len - n = Suc (5 + len - n)" using * by simp
  finally show dec: "get16 (l_scratchPad p) 4 - 1 = of_nat (5 + len - n)" by simp
  have "unat (of_nat (5 + len - n) :: u16) = 5 + len - n" using * by (intro unat_of_nat_16) simp
  then show "get16 (l_scratchPad p) 4 - 1 > 0 \<longleftrightarrow> Suc n < 6 + len"
    unfolding dec using * by (simp only: word_less_nat_alt) auto
qed

lemma lib_rtcm_continues_crc:
  assumes "wf_lib p" and "lib_rtcm_inv p" and "unat (l_length p) < length (l_buffer p)"
    and "lib_feed p d = Inr p'" and "l_state p = LRtcm LRtcmReadCrc"
    and "Suc (length (lib_message p)) < 6 + unat (rtcm_length (lib_message p))"
  shows "lib_continues LRtcmPreamble lib_rtcm_inv p d (lib_call_state (l_state p') p' d)"
proof -
  note f = lib_feedD [OF assms(1,3,4)]
  note c = lib_rtcm_crc_state [OF assms(2,5)]
  show ?thesis
    using f(1-7) c assms(5,6) lib_rtcm_next_crc [OF assms(2), of d] rtcm_append [of "lib_message p" d]
    by (auto simp: lib_continues_Inr sempRtcmReadCrc_lib_def lib_rtcm_inv_def lib_scratch_defs layout_simps
        Let_def Suc_diff_le intro!: lib_kept_intros)
qed

lemma lib_rtcm_finishes:
  assumes "wf_lib p" and "lib_rtcm_inv p" and "unat (l_length p) < length (l_buffer p)"
    and "lib_feed p d = Inr p'" and "l_state p = LRtcm LRtcmReadCrc"
    and "Suc (length (lib_message p)) = 6 + unat (rtcm_length (lib_message p))"
  shows "lib_finishes LRtcmPreamble rtcm_valid p d (lib_call_state (l_state p') p' d)"
proof -
  note f = lib_feedD [OF assms(1,3,4)]
  note c = lib_rtcm_crc_state [OF assms(2,5)]
  define q where "q = p'\<lparr>l_scratchPad := put16 (l_scratchPad p) 4 (get16 (l_scratchPad p) 4 - 1)\<rparr>"
  have q: "lib_kept LRtcmPreamble p q" "lib_message q = lib_message p @ [d]" "l_log q = l_log p"
      "l_crc q = rtcm_crc24 (lib_message p @ [d])"
    using f lib_rtcm_next_crc [OF assms(2), of d] by (auto simp: q_def layout_simps intro!: lib_kept_intros)
  have valid: "rtcm_valid (lib_message p @ [d]) = (l_crc q = 0)"
    using c assms(6) q(4) rtcm_append [of "lib_message p" d]
    by (simp add: rtcm_valid_def rtcm_shape_def rtcm_header_def)
  define reject where "reject = (\<lambda>p. rbind (lib_last 3 p) (\<lambda>bs. Inr (sempPrintf_lib (l_printDebug p)
      (LBinary (LRtcmBadCrc (lib_rtcm_message p) (l_length p) bs (lib_rtcm_crc p))) p)))"
  have "lib_call_state (l_state p') p' d = (let (p, accepted) = lib_crc_accepted (l_crc q = 0) q
      in rbind (if accepted then lib_call_eom p else reject p) (\<lambda>p. Inr (p\<lparr>l_state := LFirstByte\<rparr>, False)))"
    using f(3,4) c(8) assms(5,6) unfolding reject_def
    by (simp add: sempRtcmReadCrc_lib_def q_def lib_rtcm_bytesRemaining_def set_lib_rtcm_bytesRemaining_def)
  then show ?thesis
  proof (rule lib_finishesI)
    fix es
    let ?q = "q\<lparr>l_log := l_log q @ es\<rparr>"
    have "wf_lib ?q" "3 \<le> length (lib_message ?q)" using q(1,2) c(1) by (simp_all add: lib_kept_def)
    then obtain bs where bs: "lib_last 3 ?q = Inr bs" using lib_last_eq by blast
    obtain gs where "sempPrintf_lib (l_printDebug ?q)
        (LBinary (LRtcmBadCrc (lib_rtcm_message ?q) (l_length ?q) bs (lib_rtcm_crc ?q))) ?q
        = ?q\<lparr>l_log := l_log ?q @ gs\<rparr>" "lib_eoms gs = []"
      by (rule sempPrintf_lib_log)
    then show "\<exists>fs. lib_eoms fs = [] \<and> reject ?q = Inr (q\<lparr>l_log := l_log q @ es @ fs\<rparr>)"
      using bs by (intro exI [of _ gs]) (simp add: reject_def)
  qed (use q valid lib_kept_state in simp_all)
qed

lemma lib_rtcm_restarts:
  assumes "wf_lib p" and "unat (l_length p) < length (l_buffer p)"
    and "lib_feed p d = Inr p'" and "l_state p = LRtcm LRtcmReadLength1" and "d AND NOT 3 \<noteq> 0"
  shows "lib_restarts LRtcmPreamble p d (lib_call_state (l_state p') p' d)"
proof -
  note f = lib_feedD [OF assms(1-3)]
  show ?thesis
    unfolding lib_restarts_def using f(1,3,6) assms(4,5)
    by (intro exI [of _ p']) (simp add: sempRtcmReadLength1_lib_def)
qed

lemma lib_rtcm_cases:
  assumes "lib_rtcm_inv p"
  obtains "l_state p \<in> LRtcm ` {LRtcmReadLength1, LRtcmReadLength2, LRtcmReadMessage1, LRtcmReadMessage2}"
      "l_state p = LRtcm LRtcmReadLength1 \<longrightarrow> d AND NOT 3 = 0"
    | "l_state p = LRtcm LRtcmReadLength1" "d AND NOT 3 \<noteq> 0"
    | "l_state p = LRtcm LRtcmReadData"
    | "l_state p = LRtcm LRtcmReadCrc" "Suc (length (lib_message p)) < 6 + unat (rtcm_length (lib_message p))"
    | "l_state p = LRtcm LRtcmReadCrc" "Suc (length (lib_message p)) = 6 + unat (rtcm_length (lib_message p))"
proof -
  have "l_state p \<in> LRtcm ` {LRtcmReadLength1, LRtcmReadLength2, LRtcmReadMessage1, LRtcmReadMessage2,
      LRtcmReadData, LRtcmReadCrc}"
    using assms by (auto simp: lib_rtcm_inv_def Let_def split: lib_routine.splits lib_rtcm.splits)
  moreover have "Suc (length (lib_message p)) < 6 + unat (rtcm_length (lib_message p))
      \<or> Suc (length (lib_message p)) = 6 + unat (rtcm_length (lib_message p))" if "l_state p = LRtcm LRtcmReadCrc"
    using lib_rtcm_crc_state(7) [OF assms that] by linarith
  ultimately show thesis using that by blast
qed

lemma lib_rtcm_prefix:
  assumes "lib_rtcm_inv p" and "rtcm_shape f" and "prefix (lib_message p @ [d]) f"
  shows "l_state p = LRtcm LRtcmReadLength1 \<Longrightarrow> d AND NOT 3 = 0"
    and "lib_message p @ [d] = f \<longleftrightarrow> l_state p = LRtcm LRtcmReadCrc
      \<and> Suc (length (lib_message p)) = 6 + unat (rtcm_length (lib_message p))"
proof -
  obtain zs where f: "f = lib_message p @ d # zs" using assms(3) by (auto simp: prefix_def)
  show "l_state p = LRtcm LRtcmReadLength1 \<Longrightarrow> d AND NOT 3 = 0"
    using assms(1,2) by (simp add: lib_rtcm_inv_def rtcm_shape_def f Let_def)
  have len: "3 \<le> length (lib_message p) \<Longrightarrow> rtcm_length f = rtcm_length (lib_message p)"
    by (auto simp: rtcm_length_def f nth_append)
  have eq: "lib_message p @ [d] = f \<longleftrightarrow> Suc (length (lib_message p)) = length f" by (auto simp: f)
  show "lib_message p @ [d] = f \<longleftrightarrow> l_state p = LRtcm LRtcmReadCrc
      \<and> Suc (length (lib_message p)) = 6 + unat (rtcm_length (lib_message p))"
    unfolding eq using assms(1,2) len
    by (auto simp: lib_rtcm_inv_def rtcm_shape_def Let_def split: lib_routine.splits lib_rtcm.splits)
qed

interpretation lib_rtcm3: lib_protocol LRtcmPreamble lib_rtcm_inv rtcm_shape rtcm_valid
proof unfold_locales
  fix p :: lib and d p' res f
  assume p: "wf_lib p" "lib_rtcm_inv p" "unat (l_length p) < length (l_buffer p)" "lib_feed p d = Inr p'"
    and res: "res = lib_call_state (l_state p') p' d"
  note steps = lib_rtcm_continues_header [OF p] lib_rtcm_continues_data [OF p] lib_rtcm_continues_crc [OF p]
    lib_rtcm_finishes [OF p] lib_rtcm_restarts [OF p(1,3,4)]
  show "lib_continues LRtcmPreamble lib_rtcm_inv p d res \<or> lib_finishes LRtcmPreamble rtcm_valid p d res
      \<or> lib_restarts LRtcmPreamble p d res"
    using steps unfolding res by (cases rule: lib_rtcm_cases [OF p(2), of d]) blast+
  assume f: "rtcm_shape f" "prefix (lib_message p @ [d]) f"
  show "if lib_message p @ [d] = f then lib_finishes LRtcmPreamble rtcm_valid p d res
        else lib_continues LRtcmPreamble lib_rtcm_inv p d res"
    using steps lib_rtcm_prefix [OF p(2) f] unfolding res
    by (cases rule: lib_rtcm_cases [OF p(2), of d]) auto
qed (simp_all only: lib_rtcm_inv_type, auto simp: sempRtcmPreamble_lib_def lib_rtcm_inv_def rtcm_valid_def
  rtcm_shape_def Let_def rtcm_crc24_def sempRtcmComputeCrc24q_lib_def crc24q_step_def)

end
