(* ===== verification/Lib_Setup.thy ===== *)
theory Lib_Setup
  imports Lib_Step Message_Setup
begin

text \<open>
  The life of a parser of the library, lib/SparkFun_Extensible_Message_Parser.cpp:
  allocation, \<^verbatim>\<open>sempBeginParser\<close>, \<^verbatim>\<open>sempStopParser\<close>, names and output switches. As in
  \<open>Message_Setup\<close>, \<open>malloc\<close> and the size of the parse structure are parameters. The size
  that is passed to \<^verbatim>\<open>malloc\<close> is computed in \<^verbatim>\<open>size_t\<close>, 32 bits wide, and may wrap;
  clearing the parse structure in a block that is too small for it is a fault.
\<close>

section \<open>Output\<close>

definition sempPrintln_lib :: "callback option \<Rightarrow> lib_output \<Rightarrow> lib_event list \<Rightarrow> lib_event list" where
  "sempPrintln_lib cb m es = (case cb of None \<Rightarrow> es | Some a \<Rightarrow> es @ [LPrint a m])"

fun sempDisableDebugOutput_lib :: "lib option \<Rightarrow> lib option" where
  "sempDisableDebugOutput_lib None = None"
| "sempDisableDebugOutput_lib (Some p) = Some (p\<lparr>l_printDebug := None\<rparr>)"

fun sempEnableDebugOutput_lib :: "lib option \<Rightarrow> callback option \<Rightarrow> lib option" where
  "sempEnableDebugOutput_lib None print = None"
| "sempEnableDebugOutput_lib (Some p) print = Some (p\<lparr>l_printDebug := print\<rparr>)"

fun sempDisableErrorOutput_lib :: "lib option \<Rightarrow> lib option" where
  "sempDisableErrorOutput_lib None = None"
| "sempDisableErrorOutput_lib (Some p) = Some (p\<lparr>l_printError := None\<rparr>)"

fun sempEnableErrorOutput_lib :: "lib option \<Rightarrow> callback option \<Rightarrow> lib option" where
  "sempEnableErrorOutput_lib None print = None"
| "sempEnableErrorOutput_lib (Some p) print = Some (p\<lparr>l_printError := print\<rparr>)"

definition sempGetTypeName_lib :: "lib option \<Rightarrow> u16 \<Rightarrow> string res" where
  "sempGetTypeName_lib parse type =
     (case parse of
        None \<Rightarrow> Inr ''Unknown parser''
      | Some p \<Rightarrow>
          if type = l_parserCount p then Inr ''No active parser, scanning for preamble''
          else case l_parserNames p of
            Some names \<Rightarrow>
              if type < l_parserCount p then at names (uint type) else Inr ''Unknown parser''
          | None \<Rightarrow> Inr ''Unknown parser'')"

definition sempPrintParserConfiguration_lib :: "lib option \<Rightarrow> callback option \<Rightarrow> lib option res" where
  "sempPrintParserConfiguration_lib parse print =
     (case (print, parse) of
        (Some a, Some p) \<Rightarrow>
          rbind (sempGetTypeName_lib parse (l_type p)) (\<lambda>name.
            Inr (Some (p\<lparr>l_log := l_log p @ map (LPrint a \<circ> LConfig)
              [LConfigTitle, LConfigName (l_parserName p), LConfigParsers, LConfigParserNames,
               LConfigParserCount (l_parserCount p), LConfigPrintError, LConfigPrintDebug,
               LConfigScratchPad, LConfigComputeCrc, LConfigCrc (l_crc p),
               LConfigState (l_state p = LFirstByte), LConfigEomCallback,
               LConfigBuffer (l_bufferLength p), LConfigLength (l_length p),
               LConfigType (l_type p) name]\<rparr>)))
      | _ \<Rightarrow> Inr parse)"

section \<open>Allocation\<close>

text \<open>
  \<^verbatim>\<open>sizeof(SEMP_SCRATCH_PAD)\<close>: the SPARTN values have 22 bytes, the alignment is four. The
  alignment of the requested size is the computation of \<open>scratch_aligned\<close>.
\<close>

definition sizeof_SEMP_SCRATCH_PAD_lib :: int where
  "sizeof_SEMP_SCRATCH_PAD_lib = 24"

definition scratch_bytes_lib :: "u16 \<Rightarrow> u16" where
  "scratch_bytes_lib n =
     (let n = scratch_aligned n; l = SEMP_ALIGN sizeof_SEMP_SCRATCH_PAD_lib
      in if uint n < l then word_of_int l else n)"

definition SEMP_MINIMUM_BUFFER_LENGTH_lib :: u32 where
  "SEMP_MINIMUM_BUFFER_LENGTH_lib = 32"

definition scratch_log_lib :: "callback option \<Rightarrow> u16 \<Rightarrow> lib_event list \<Rightarrow> lib_event list" where
  "scratch_log_lib cb n es =
     (let es = sempPrintln_lib cb (LAllocate (LScratchPadBytes n)) es;
          a = scratch_aligned n;
          es = (if uint n < SEMP_ALIGN (uint n)
                then sempPrintln_lib cb (LAllocate (LScratchPadAligned a)) es else es)
      in if uint a < SEMP_ALIGN sizeof_SEMP_SCRATCH_PAD_lib
         then sempPrintln_lib cb (LAllocate (LScratchPadMinimum (scratch_bytes_lib n))) es else es)"

definition sempAllocateParseStructure_lib ::
  "(u32 \<Rightarrow> u8 list option) \<Rightarrow> int \<Rightarrow> u32 list \<Rightarrow> callback option \<Rightarrow> u16 \<Rightarrow> u32 \<Rightarrow> lib_event list
    \<Rightarrow> (lib option \<times> lib_event list) res" where
  "sempAllocateParseStructure_lib malloc psize functions printDbg scratchPadBytes bufferLength es =
     (let es = scratch_log_lib printDbg scratchPadBytes es;
          scratchPadBytes = scratch_bytes_lib scratchPadBytes;
          parseBytes = SEMP_ALIGN psize;
          es = sempPrintln_lib printDbg (LAllocate (LParseBytes parseBytes)) es;
          (bufferLength, es) =
            (if bufferLength < SEMP_MINIMUM_BUFFER_LENGTH_lib
             then (SEMP_MINIMUM_BUFFER_LENGTH_lib,
                   sempPrintln_lib printDbg (LAllocate (LIncreasingBufferLength bufferLength)) es)
             else (bufferLength, es));
          len = parseBytes + uint scratchPadBytes;
          block = malloc (word_of_int len + bufferLength);
          es = sempPrintln_lib printDbg (LAllocate LParseAddress) es
      in case block of
           None \<Rightarrow> Inr (None, es)
         | Some bytes \<Rightarrow>
           if length bytes < nat len then Inl OutOfBounds
           else
             let es = sempPrintln_lib printDbg (LAllocate LBufferAddress)
                        (sempPrintln_lib printDbg (LAllocate LScratchPadAddress) es)
             in Inr (Some \<lparr>l_buffer = take (unat bufferLength) (drop (nat len) bytes), l_length = 0,
                           l_bufferLength = bufferLength, l_crc = 0, l_type = 0, l_parserCount = 0,
                           l_scratchPad = (\<lambda>_. 0), l_parserName = '''', l_parsers = [],
                           l_parserNames = None, l_state = LNullRoutine, l_eomCallback = None,
                           l_badCrc = None, l_computeCrc = None, l_printError = None,
                           l_printDebug = printDbg, l_functions = functions, l_log = es\<rparr>, es))"

section \<open>Beginning and stopping\<close>

definition sempBeginParser_lib ::
  "(u32 \<Rightarrow> u8 list option) \<Rightarrow> int \<Rightarrow> u32 list \<Rightarrow> lib_preamble list option \<Rightarrow> u16
    \<Rightarrow> string list option \<Rightarrow> u16 \<Rightarrow> u16 \<Rightarrow> u32 \<Rightarrow> callback option \<Rightarrow> string option
    \<Rightarrow> callback option \<Rightarrow> callback option \<Rightarrow> (lib_view \<Rightarrow> bool) option \<Rightarrow> lib_event list
    \<Rightarrow> (lib option \<times> lib_event list) res" where
  "sempBeginParser_lib malloc psize functions parserTable parserCount parserNameTable parserNameCount
       scratchPadBytes bufferLength eom pname printErr printDbg badCrcCallback es =
     (if parserCount \<noteq> parserNameCount
      then Inr (None, sempPrintln_lib printErr (LBegin LParserCountMismatch) es)
      else case parserTable of
        None \<Rightarrow> Inr (None, sempPrintln_lib printErr (LBegin LNoParserTable) es)
      | Some table \<Rightarrow>
      (if parserNameTable = None then Inr (None, sempPrintln_lib printErr (LBegin LNoParserNameTable) es)
       else if eom = None then Inr (None, sempPrintln_lib printErr (LBegin LNoEomCallback) es)
       else case pname of
         None \<Rightarrow> Inr (None, sempPrintln_lib printErr (LBegin LNoParserName) es)
       | Some name \<Rightarrow>
       (if length name = 0 then Inr (None, sempPrintln_lib printErr (LBegin LNoParserName) es)
        else if parserCount = 0 then Inr (None, sempPrintln_lib printErr (LBegin LNoParsers) es)
        else rbind (sempAllocateParseStructure_lib malloc psize functions printDbg scratchPadBytes
                      bufferLength es) (\<lambda>(parse, es).
          case parse of
            None \<Rightarrow> Inr (None, sempPrintln_lib printErr (LBegin LAllocationFailed) es)
          | Some parse \<Rightarrow>
            let parse = parse\<lparr>l_printError := printErr, l_parsers := table,
                  l_parserCount := parserCount, l_parserNames := parserNameTable,
                  l_state := LFirstByte, l_eomCallback := eom, l_parserName := name,
                  l_badCrc := badCrcCallback\<rparr>
            in rbind (sempPrintParserConfiguration_lib (Some parse) (l_printDebug parse)) (\<lambda>parse.
                 Inr (parse, case parse of None \<Rightarrow> es | Some p \<Rightarrow> l_log p))))))"

definition sempStopParser_lib :: "lib option option \<Rightarrow> lib option option \<times> lib list" where
  "sempStopParser_lib parse =
     (case parse of Some (Some p) \<Rightarrow> (Some None, [p]) | _ \<Rightarrow> (parse, []))"

end
