(* ===== verification/Lib_Correct.thy ===== *)
theory Lib_Correct
  imports Protocol_SBF Protocol_Framed Protocol_SPARTN Protocol_Lib_Shared Lib_Setup
begin

text \<open>
  The parser of the library as a whole, for tables of its six binary protocols: from the
  contracts of the protocols follow, for every byte stream, the invariant of the parser,
  the absence of faults, that only messages of the protocols are delivered, and that all
  of them are.
\<close>

section \<open>The contract of a table entry\<close>

fun lib_pinv_of :: "lib_preamble \<Rightarrow> lib \<Rightarrow> bool" where
  "lib_pinv_of LRtcmPreamble = lib_rtcm_inv"
| "lib_pinv_of LUbloxPreamble = lib_ublox_inv"
| "lib_pinv_of LUnicoreBinaryPreamble = unicore_frame.inv"
| "lib_pinv_of LSpartnPreamble = spartn_inv"
| "lib_pinv_of LSbfPreamble = sbf_inv"
| "lib_pinv_of LBluetoothPreamble = bluetooth_frame.inv"
| "lib_pinv_of _ = (\<lambda>_. False)"

fun lib_shape_of :: "lib_preamble \<Rightarrow> u8 list \<Rightarrow> bool" where
  "lib_shape_of LRtcmPreamble = rtcm_shape"
| "lib_shape_of LUbloxPreamble = ublox_shape"
| "lib_shape_of LUnicoreBinaryPreamble = framed_shape 24 6 0xB5"
| "lib_shape_of LSpartnPreamble = spartn_shape"
| "lib_shape_of LSbfPreamble = sbf_shape"
| "lib_shape_of LBluetoothPreamble = framed_shape 20 12 0x18"
| "lib_shape_of _ = (\<lambda>_. False)"

fun lib_valid_of :: "lib_preamble \<Rightarrow> u8 list \<Rightarrow> bool" where
  "lib_valid_of LRtcmPreamble = rtcm_valid"
| "lib_valid_of LUbloxPreamble = ublox_valid"
| "lib_valid_of LUnicoreBinaryPreamble = framed_valid 24 6 0xB5 0 0"
| "lib_valid_of LSpartnPreamble = spartn_valid"
| "lib_valid_of LSbfPreamble = sbf_valid"
| "lib_valid_of LBluetoothPreamble = framed_valid 20 12 0x18 0xFFFFFFFF 0xFFFFFFFF"
| "lib_valid_of _ = (\<lambda>_. False)"

definition lib_binary :: "lib_preamble list" where
  "lib_binary = [LRtcmPreamble, LUbloxPreamble, LUnicoreBinaryPreamble, LSpartnPreamble, LSbfPreamble,
     LBluetoothPreamble]"

lemma lib_protocol_entry:
  "r \<in> set lib_binary \<Longrightarrow> lib_protocol r (lib_pinv_of r) (lib_shape_of r) (lib_valid_of r)"
  by (cases r) (simp_all add: lib_binary_def lib_rtcm3.lib_protocol_axioms lib_ubx.lib_protocol_axioms
      unicore_frame.is_protocol spartn_message.lib_protocol_axioms sbf_block.lib_protocol_axioms
      bluetooth_frame.is_protocol)

section \<open>The invariant of the parser\<close>

definition lib_ready :: "lib \<Rightarrow> bool" where
  "lib_ready p \<longleftrightarrow>
     wf_lib p \<and> set (l_parsers p) \<subseteq> set lib_binary \<and> lib_sane (l_parsers p)
     \<and> (LSbfPreamble \<in> set (l_parsers p) \<longrightarrow> lib_callback_ok p)"

definition lib_selected :: "lib_preamble \<Rightarrow> lib \<Rightarrow> bool" where
  "lib_selected r p \<longleftrightarrow> unat (l_type p) < length (l_parsers p) \<and> l_parsers p ! unat (l_type p) = r"

definition lib_inv :: "lib \<Rightarrow> bool" where
  "lib_inv p \<longleftrightarrow>
     lib_ready p \<and> (l_state p = LFirstByte \<or> (\<exists>r. lib_selected r p \<and> lib_pinv_of r p))"

definition lib_genuine :: "lib_preamble list \<Rightarrow> u16 \<times> u8 list \<Rightarrow> bool" where
  "lib_genuine tab = (\<lambda>(t, m). unat t < length tab \<and> lib_valid_of (tab ! unat t) m)"

definition lib_sound :: "lib \<Rightarrow> lib \<Rightarrow> bool" where
  "lib_sound p q \<longleftrightarrow>
     l_parsers q = l_parsers p \<and> l_badCrc q = l_badCrc p \<and> l_bufferLength q = l_bufferLength p
     \<and> (\<exists>ds. lib_delivered q = lib_delivered p @ ds
          \<and> (l_badCrc p = None \<longrightarrow> list_all (lib_genuine (l_parsers p)) ds))"

lemma lib_sound_trans: "lib_sound p q \<Longrightarrow> lib_sound q r \<Longrightarrow> lib_sound p r"
  by (auto simp: lib_sound_def)

lemma lib_kept_sound: "lib_kept r p q \<Longrightarrow> lib_delivered q = lib_delivered p \<Longrightarrow> lib_sound p q"
  by (simp add: lib_sound_def lib_kept_def)

lemma lib_kept_ready:
  assumes "lib_ready p" and "lib_kept r p q" and "r \<in> set (l_parsers p)"
  shows "lib_ready q"
proof -
  have q: "wf_lib q" "l_parsers q = l_parsers p" using assms(2) by (simp_all add: lib_kept_def)
  moreover have "lib_callback_ok q" if s: "LSbfPreamble \<in> set (l_parsers p)"
  proof -
    have "r \<notin> lib_clobbers" using assms(1,3) s by (auto simp: lib_ready_def lib_sane_def)
    then show ?thesis using lib_kept_callback [OF assms(2)] assms(1) s by (simp add: lib_ready_def)
  qed
  ultimately show ?thesis using assms(1) by (simp add: lib_ready_def)
qed

section \<open>The first byte of a message\<close>

definition lib_started :: "lib \<Rightarrow> u8 \<Rightarrow> lib \<Rightarrow> bool" where
  "lib_started p d q \<longleftrightarrow>
     lib_ready q \<and> lib_delivered q = lib_delivered p \<and> l_bufferLength q = l_bufferLength p
     \<and> l_parsers q = l_parsers p \<and> l_badCrc q = l_badCrc p
     \<and> (case lib_match (l_parsers p) d of
          None \<Rightarrow> l_state q = LFirstByte
        | Some k \<Rightarrow> l_type q = of_nat k \<and> lib_selected (l_parsers p ! k) q
            \<and> lib_pinv_of (l_parsers p ! k) q \<and> lib_message q = [d])"

lemma lib_taken_ready:
  assumes "lib_ready p" and "lib_taken r p q" and "r \<in> set (l_parsers p)"
  shows "lib_ready q"
proof -
  note t = lib_takenD [OF assms(2)]
  have "r \<notin> lib_clobbers" if "LSbfPreamble \<in> set (l_parsers p)"
    using that assms(1,3) by (auto simp: lib_ready_def lib_sane_def)
  then show ?thesis using assms(1) t by (simp add: lib_ready_def)
qed

lemma lib_ready_restart: "lib_ready p \<Longrightarrow> lib_ready ((lib_restart p d)\<lparr>l_log := es\<rparr>)"
  by (simp add: lib_ready_def wf_lib_restart)

lemma unat_u16_less: "unat (w :: u16) < 65536"
  using unsigned_less [of w] by simp

lemma unat_ucast_16_32: "unat (ucast (w :: u16) :: u32) = unat w"
proof -
  have "unat w < 2 ^ 32" by (rule less_trans [OF unat_u16_less]) simp
  then show ?thesis by (simp add: unsigned_ucast_eq take_bit_nat_eq_self_iff)
qed

lemma sempFirstByte_lib_started:
  assumes "lib_ready p"
  obtains q b where "sempFirstByte_lib p d = Inr (q, b)" "lib_started p d q"
proof -
  have wf: "wf_lib p" "LSbfPreamble \<in> set (l_parsers p) \<longrightarrow> lib_callback_ok p"
    using assms by (simp_all add: lib_ready_def)
  obtain es where es: "lib_eoms es = []" "sempFirstByte_lib p d =
    (case lib_match (l_parsers p) d of
       None \<Rightarrow> Inr ((lib_restart p d)\<lparr>l_log := l_log p @ es, l_state := LFirstByte\<rparr>, False)
     | Some k \<Rightarrow>
         rbind (lib_call_preamble (l_parsers p ! k) ((lib_restart p d)\<lparr>l_log := l_log p @ es\<rparr>) d)
           (\<lambda>(q, _). Inr (q\<lparr>l_type := of_nat k\<rparr>, True)))"
    by (rule sempFirstByte_lib_eq [OF wf])
  define p0 where "p0 = (lib_restart p d)\<lparr>l_log := l_log p @ es\<rparr>"
  have p0: "lib_ready p0" "lib_message p0 = [d]" "l_crc p0 = 0" "l_computeCrc p0 = None" "wf_lib p0"
      "l_parsers p0 = l_parsers p" "lib_delivered p0 = lib_delivered p" "l_badCrc p0 = l_badCrc p"
      "l_bufferLength p0 = l_bufferLength p"
    using lib_ready_restart [OF assms] lib_message_restart [OF wf(1)] wf_lib_restart [OF wf(1)] es(1)
    by (simp_all add: p0_def)
  show thesis
  proof (cases "lib_match (l_parsers p) d")
    case None
    then show thesis
      using es(2) p0 by (intro that [of "p0\<lparr>l_state := LFirstByte\<rparr>" False])
        (simp_all add: lib_started_def lib_ready_def p0_def [symmetric])
  next
    case (Some k)
    define r where "r = l_parsers p ! k"
    have k: "k < length (l_parsers p)" "d = lib_first r"
      using lib_match_Some [OF Some] by (simp_all add: r_def)
    have r: "r \<in> set (l_parsers p)" using k(1) by (simp add: r_def)
    then have "r \<in> set lib_binary" using assms by (auto simp: lib_ready_def)
    then have pr: "lib_protocol r (lib_pinv_of r) (lib_shape_of r) (lib_valid_of r)"
      by (rule lib_protocol_entry)
    obtain q where q: "lib_call_preamble r p0 d = Inr (q, True)" "lib_taken r p0 q"
      by (rule lib_takes [OF k(2)])
    have inv: "lib_pinv_of r q"
      using lib_protocol.start [OF pr p0(5)] p0(2-4) q(1) k(2) by simp
    note t = lib_takenD [OF q(2)]
    have "unat (of_nat k :: u16) = k"
      using k(1) wf(1) unat_u16_less [of "l_parserCount p"] by (intro unat_of_nat_16) (simp add: wf_lib_def)
    moreover have "lib_ready q" using lib_taken_ready [OF p0(1) q(2)] r p0(6) by simp
    then have "lib_ready (q\<lparr>l_type := of_nat k\<rparr>)" by (simp add: lib_ready_def)
    ultimately have "lib_started p d (q\<lparr>l_type := of_nat k\<rparr>)"
      using Some k(1) inv t p0 lib_protocol.pinv_type [OF pr]
      by (simp add: lib_started_def lib_selected_def r_def [symmetric])
    moreover have "sempFirstByte_lib p d = Inr (q\<lparr>l_type := of_nat k\<rparr>, True)"
      using es(2) Some q(1) by (simp add: r_def p0_def)
    ultimately show thesis using that by blast
  qed
qed

lemma lib_started_inv: "lib_started p d q \<Longrightarrow> lib_inv q \<and> lib_sound p q"
  by (auto simp: lib_started_def lib_inv_def lib_sound_def split: option.splits)

section \<open>One byte\<close>

lemma lib_room:
  assumes "wf_lib p"
  shows "l_bufferLength p \<le> ucast (l_length p) \<longleftrightarrow> \<not> unat (l_length p) < length (l_buffer p)"
  using assms by (simp add: wf_lib_def word_le_nat_alt unat_ucast_16_32 not_less)

lemma lib_finishes_result: "lib_finishes r valid p d res \<Longrightarrow> \<exists>q b. res = Inr (q, b)"
  by (auto simp: lib_finishes_def)

lemma lib_finishesE:
  assumes "lib_finishes r valid p d (Inr (q, b))"
  obtains acc where "lib_kept r p q" "l_state q = LFirstByte"
    "l_badCrc p = None \<longrightarrow> acc = valid (lib_message p @ [d])"
    "lib_delivered q = lib_delivered p @ (if acc then [(l_type p, lib_message p @ [d])] else [])"
  using assms unfolding lib_finishes_def sum.inject prod.inject
  by (elim exE conjE) (rule that, simp_all only:)

lemma lib_kept_sound_finish:
  assumes "lib_selected r p" and "lib_finishes r (lib_valid_of r) p d (Inr (q, b))"
  shows "lib_sound p q"
proof -
  obtain acc where q: "lib_kept r p q" "l_state q = LFirstByte"
      "l_badCrc p = None \<longrightarrow> acc = lib_valid_of r (lib_message p @ [d])"
      "lib_delivered q = lib_delivered p @ (if acc then [(l_type p, lib_message p @ [d])] else [])"
    by (rule lib_finishesE [OF assms(2)])
  have "lib_genuine (l_parsers p) (l_type p, m) = lib_valid_of r m" for m
    using assms(1) by (simp add: lib_genuine_def lib_selected_def)
  then show ?thesis using q by (simp add: lib_sound_def lib_kept_def)
qed

text \<open>A parser that waits for a message offers every byte to the table.\<close>

lemma lib_idle_step:
  assumes "lib_ready p" and "l_state p = LFirstByte"
  obtains q p0 where "sempParseNextByte_lib p d = Inr q" "lib_started p0 d q"
    "lib_delivered p0 = lib_delivered p" "l_parsers p0 = l_parsers p" "l_badCrc p0 = l_badCrc p"
    "l_bufferLength p0 = l_bufferLength p"
proof (cases "l_bufferLength p \<le> ucast (l_length p)")
  case True
  obtain es where es: "sempPrintf_lib (l_printError p) (LBinary (LMessageTooLong (l_bufferLength p))) p
      = p\<lparr>l_log := l_log p @ es\<rparr>" "lib_eoms es = []"
    by (rule sempPrintf_lib_log)
  define p0 where "p0 = p\<lparr>l_log := l_log p @ es\<rparr>"
  have r: "lib_ready p0" using assms(1) by (simp add: lib_ready_def p0_def)
  obtain q b where "sempFirstByte_lib p0 d = Inr (q, b)" "lib_started p0 d q"
    by (rule sempFirstByte_lib_started [OF r])
  then show thesis
    using True es by (intro that [of q p0]) (simp_all add: sempParseNextByte_lib_def p0_def)
next
  case False
  have wf: "wf_lib p" using assms(1) by (simp add: lib_ready_def)
  have room: "unat (l_length p) < length (l_buffer p)" using False lib_room [OF wf] by simp
  obtain p0 where p0: "lib_feed p d = Inr p0" using lib_feed_eq [OF wf room] by blast
  note f = lib_feedD [OF wf room p0]
  have k: "l_bufferLength p0 = l_bufferLength p" using f(1) by (simp add: lib_kept_def)
  have r: "lib_ready p0" using assms(1) f by (simp add: lib_ready_def)
  obtain q b where "sempFirstByte_lib p0 d = Inr (q, b)" "lib_started p0 d q"
    by (rule sempFirstByte_lib_started [OF r])
  then show thesis
    using False p0 f k assms(2) by (intro that [of q p0]) (simp_all add: sempParseNextByte_lib_def)
qed

lemma lib_restart_step:
  assumes "lib_ready p0" and "lib_sound p p0"
    and "sempParseNextByte_lib p d = rbind (sempFirstByte_lib p0 d) (\<lambda>(p, _). Inr p)"
  shows "\<exists>q. sempParseNextByte_lib p d = Inr q \<and> lib_inv q \<and> lib_sound p q"
proof -
  obtain q b where "sempFirstByte_lib p0 d = Inr (q, b)" "lib_started p0 d q"
    by (rule sempFirstByte_lib_started [OF assms(1)])
  then show ?thesis using assms(3) lib_started_inv [of p0 d q] lib_sound_trans [OF assms(2)] by simp
qed

text \<open>A byte of a message, when the buffer has room for it.\<close>

lemma lib_message_step:
  assumes "lib_ready p" and "lib_selected r p" and "lib_pinv_of r p"
    and "unat (l_length p) < length (l_buffer p)" and "lib_feed p d = Inr p'"
    and "sempParseNextByte_lib p d = rbind (lib_call_state (l_state p') p' d) (\<lambda>(p, _). Inr p)"
  shows "\<exists>q. sempParseNextByte_lib p d = Inr q \<and> lib_inv q \<and> lib_sound p q"
proof -
  have r: "r \<in> set (l_parsers p)" using assms(2) by (auto simp: lib_selected_def)
  then have pr: "lib_protocol r (lib_pinv_of r) (lib_shape_of r) (lib_valid_of r)"
    using assms(1) by (intro lib_protocol_entry) (auto simp: lib_ready_def)
  have wf: "wf_lib p" "r = LSbfPreamble \<longrightarrow> lib_callback_ok p" using assms(1) r by (auto simp: lib_ready_def)
  have sel: "lib_selected r q" if "lib_kept r p q" for q
    using assms(2) that by (simp add: lib_selected_def lib_kept_def)
  define res where "res = lib_call_state (l_state p') p' d"
  consider q b where "res = Inr (q, b)" "lib_kept r p q" "lib_pinv_of r q" "lib_delivered q = lib_delivered p"
    | q b where "res = Inr (q, b)" "lib_finishes r (lib_valid_of r) p d (Inr (q, b))"
    | p0 where "res = sempFirstByte_lib p0 d" "lib_kept r p p0" "lib_delivered p0 = lib_delivered p"
    using lib_protocol.step [OF pr wf assms(3-5) res_def] lib_finishes_result [of r "lib_valid_of r" p d res]
    unfolding lib_continues_def lib_restarts_def by blast
  then show ?thesis
  proof cases
    case 1
    then have "lib_inv q" using lib_kept_ready [OF assms(1) 1(2) r] sel by (auto simp: lib_inv_def)
    then show ?thesis using 1 assms(6) lib_kept_sound [OF 1(2)] by (simp add: res_def)
  next
    case 2
    obtain acc where q: "lib_kept r p q" "l_state q = LFirstByte" by (rule lib_finishesE [OF 2(2)])
    have "lib_inv q" using lib_kept_ready [OF assms(1) q(1) r] q(2) by (simp add: lib_inv_def)
    then show ?thesis using 2(1) assms(6) lib_kept_sound_finish [OF assms(2) 2(2)] by (simp add: res_def)
  next
    case 3
    then show ?thesis
      using lib_restart_step [OF lib_kept_ready [OF assms(1) 3(2) r] lib_kept_sound [OF 3(2)]] assms(6)
      by (simp add: res_def)
  qed
qed

theorem lib_step:
  assumes "lib_inv p"
  shows "\<exists>q. sempParseNextByte_lib p d = Inr q \<and> lib_inv q \<and> lib_sound p q"
proof (cases "l_state p = LFirstByte")
  case True
  have "lib_ready p" using assms by (simp add: lib_inv_def)
  then obtain q p0 where q: "sempParseNextByte_lib p d = Inr q" "lib_started p0 d q"
    "lib_delivered p0 = lib_delivered p" "l_parsers p0 = l_parsers p" "l_badCrc p0 = l_badCrc p"
    "l_bufferLength p0 = l_bufferLength p"
    by (rule lib_idle_step [OF _ True])
  then have "lib_sound p p0" by (simp add: lib_sound_def)
  then show ?thesis using q lib_started_inv lib_sound_trans by blast
next
  case False
  then obtain r where r: "lib_ready p" "lib_selected r p" "lib_pinv_of r p"
    using assms by (auto simp: lib_inv_def)
  have wf: "wf_lib p" using r(1) by (simp add: lib_ready_def)
  show ?thesis
  proof (cases "l_bufferLength p \<le> ucast (l_length p)")
    case True
    obtain es where es: "sempPrintf_lib (l_printError p) (LBinary (LMessageTooLong (l_bufferLength p))) p
        = p\<lparr>l_log := l_log p @ es\<rparr>" "lib_eoms es = []"
      by (rule sempPrintf_lib_log)
    show ?thesis
      using True es r(1)
      by (intro lib_restart_step [of "p\<lparr>l_log := l_log p @ es\<rparr>"])
        (simp_all add: lib_ready_def lib_sound_def sempParseNextByte_lib_def)
  next
    case False
    have room: "unat (l_length p) < length (l_buffer p)" using False lib_room [OF wf] by simp
    obtain p' where "lib_feed p d = Inr p'" using lib_feed_eq [OF wf room] by blast
    then show ?thesis
      using False lib_message_step [OF r room] by (simp add: sempParseNextByte_lib_def)
  qed
qed

section \<open>Byte streams\<close>

interpretation lib_parser: byte_machine sempParseNextByte_lib lib_inv
  by unfold_locales (use lib_step in blast)

lemma lib_run_sound:
  assumes "lib_inv p" and "run sempParseNextByte_lib p bs = Inr q"
  shows "lib_sound p q"
  using assms
proof (induction bs arbitrary: p)
  case Nil
  then show ?case by (simp add: lib_sound_def)
next
  case (Cons b bs)
  then obtain p1 where p1: "sempParseNextByte_lib p b = Inr p1" "run sempParseNextByte_lib p1 bs = Inr q"
    by (auto simp: rbind_Inr_iff)
  then have "lib_inv p1" "lib_sound p p1" using lib_step [OF Cons.prems(1), of b] by auto
  with Cons.IH [OF _ p1(2)] show ?case using lib_sound_trans by blast
qed

section \<open>Streams of messages\<close>

datatype lib_item = LNoise u8 | LFrame nat "u8 list"

fun lib_item_bytes :: "lib_item \<Rightarrow> u8 list" where
  "lib_item_bytes (LNoise b) = [b]"
| "lib_item_bytes (LFrame k f) = f"

fun lib_item_deliveries :: "lib_preamble list \<Rightarrow> lib_item \<Rightarrow> (u16 \<times> u8 list) list" where
  "lib_item_deliveries tab (LNoise b) = []"
| "lib_item_deliveries tab (LFrame k f) = (if lib_valid_of (tab ! k) f then [(of_nat k, f)] else [])"

fun lib_item_ok :: "lib_preamble list \<Rightarrow> nat \<Rightarrow> lib_item \<Rightarrow> bool" where
  "lib_item_ok tab n (LNoise b) \<longleftrightarrow> lib_match tab b = None"
| "lib_item_ok tab n (LFrame k f) \<longleftrightarrow>
     f \<noteq> [] \<and> lib_match tab (hd f) = Some k \<and> lib_shape_of (tab ! k) f \<and> length f \<le> n"

definition lib_waiting :: "lib_preamble list \<Rightarrow> nat \<Rightarrow> lib \<Rightarrow> bool" where
  "lib_waiting tab n p \<longleftrightarrow>
     lib_ready p \<and> l_state p = LFirstByte \<and> l_parsers p = tab \<and> unat (l_bufferLength p) = n
     \<and> l_badCrc p = None"

text \<open>One more byte of something that has the shape of a message.\<close>

lemma lib_prefix_step:
  assumes "lib_ready p" and "lib_selected r p" and "lib_pinv_of r p" and "lib_shape_of r f"
    and "prefix (lib_message p @ [d]) f" and "length f \<le> unat (l_bufferLength p)"
  obtains p' where "unat (l_length p) < length (l_buffer p)" "lib_feed p d = Inr p'"
    "sempParseNextByte_lib p d = rbind (lib_call_state (l_state p') p' d) (\<lambda>(p, _). Inr p)"
    "if lib_message p @ [d] = f
     then lib_finishes r (lib_valid_of r) p d (lib_call_state (l_state p') p' d)
     else lib_continues r (lib_pinv_of r) p d (lib_call_state (l_state p') p' d)"
proof -
  have r: "r \<in> set (l_parsers p)" using assms(2) by (auto simp: lib_selected_def)
  then have pr: "lib_protocol r (lib_pinv_of r) (lib_shape_of r) (lib_valid_of r)"
    using assms(1) by (intro lib_protocol_entry) (auto simp: lib_ready_def)
  have wf: "wf_lib p" "r = LSbfPreamble \<longrightarrow> lib_callback_ok p"
    using assms(1) r by (auto simp: lib_ready_def)
  have room: "unat (l_length p) < length (l_buffer p)"
    using prefix_length_le [OF assms(5)] assms(6) length_lib_message [OF wf(1)] wf(1)
    by (simp add: wf_lib_def)
  obtain p' where p': "lib_feed p d = Inr p'" using lib_feed_eq [OF wf(1) room] by blast
  have "sempParseNextByte_lib p d = rbind (lib_call_state (l_state p') p' d) (\<lambda>(p, _). Inr p)"
    using room lib_room [OF wf(1)] p' by (simp add: sempParseNextByte_lib_def)
  then show thesis
    using that [OF room p'] lib_protocol.complete [OF pr wf assms(3) room p' refl assms(4,5)] by blast
qed

text \<open>All bytes but the last are read, and the last one decides.\<close>

lemma lib_frame_prefix:
  assumes "lib_ready p" and "lib_selected r p" and "lib_pinv_of r p" and "lib_shape_of r f"
    and "f = lib_message p @ ds @ [e]" and "length f \<le> unat (l_bufferLength p)"
  shows "\<exists>q. run sempParseNextByte_lib p ds = Inr q \<and> lib_ready q \<and> lib_selected r q \<and> lib_pinv_of r q
    \<and> lib_kept r p q \<and> lib_message q = lib_message p @ ds \<and> lib_delivered q = lib_delivered p"
  using assms
proof (induction ds arbitrary: p)
  case Nil
  then show ?case by (simp add: lib_kept_refl lib_ready_def)
next
  case (Cons d ds)
  have r: "r \<in> set (l_parsers p)" using Cons.prems(2) by (auto simp: lib_selected_def)
  have "prefix (lib_message p @ [d]) f" using Cons.prems(5) by (simp add: prefix_def)
  then obtain p' where s: "sempParseNextByte_lib p d = rbind (lib_call_state (l_state p') p' d) (\<lambda>(p, _). Inr p)"
      "if lib_message p @ [d] = f
       then lib_finishes r (lib_valid_of r) p d (lib_call_state (l_state p') p' d)
       else lib_continues r (lib_pinv_of r) p d (lib_call_state (l_state p') p' d)"
    by (rule lib_prefix_step [OF Cons.prems(1-4) _ Cons.prems(6)])
  then obtain q b where q: "lib_call_state (l_state p') p' d = Inr (q, b)" "lib_kept r p q"
      "lib_pinv_of r q" "lib_message q = lib_message p @ [d]" "lib_delivered q = lib_delivered p"
    using Cons.prems(5) by (auto simp: lib_continues_def)
  have ready: "lib_ready q" "lib_selected r q" "l_bufferLength q = l_bufferLength p"
    using lib_kept_ready [OF Cons.prems(1) q(2) r] Cons.prems(2) q(2)
    by (simp_all add: lib_selected_def lib_kept_def)
  then obtain t where "run sempParseNextByte_lib q ds = Inr t" "lib_ready t" "lib_selected r t"
      "lib_pinv_of r t" "lib_kept r q t" "lib_message t = lib_message q @ ds" "lib_delivered t = lib_delivered q"
    using Cons.IH [OF ready(1,2) q(3) Cons.prems(4)] Cons.prems(5,6) q(4) by auto
  then show ?case using s(1) q lib_kept_trans [OF q(2)] by (intro exI [of _ t]) simp
qed

lemma lib_frame_rest:
  assumes "lib_ready p" and "lib_selected r p" and "lib_pinv_of r p" and "lib_shape_of r f"
    and "f = lib_message p @ ds @ [e]" and "length f \<le> unat (l_bufferLength p)" and "l_badCrc p = None"
  shows "\<exists>q. run sempParseNextByte_lib p (ds @ [e]) = Inr q \<and> lib_kept r p q \<and> l_state q = LFirstByte
    \<and> lib_delivered q = lib_delivered p @ (if lib_valid_of r f then [(l_type p, f)] else [])"
proof -
  obtain t where t: "run sempParseNextByte_lib p ds = Inr t" "lib_ready t" "lib_selected r t" "lib_pinv_of r t"
      "lib_kept r p t" "lib_message t = lib_message p @ ds" "lib_delivered t = lib_delivered p"
    using lib_frame_prefix [OF assms(1-6)] by blast
  have k: "l_type t = l_type p" "l_badCrc t = None" "l_bufferLength t = l_bufferLength p"
    using t(5) assms(7) by (simp_all add: lib_kept_def)
  have f: "lib_message t @ [e] = f" using t(6) assms(5) by simp
  then have "prefix (lib_message t @ [e]) f" "length f \<le> unat (l_bufferLength t)" using assms(6) k(3) by simp_all
  then obtain p' where s: "sempParseNextByte_lib t e = rbind (lib_call_state (l_state p') p' e) (\<lambda>(p, _). Inr p)"
      "if lib_message t @ [e] = f
       then lib_finishes r (lib_valid_of r) t e (lib_call_state (l_state p') p' e)
       else lib_continues r (lib_pinv_of r) t e (lib_call_state (l_state p') p' e)"
    by (rule lib_prefix_step [OF t(2-4) assms(4)])
  then have fin: "lib_finishes r (lib_valid_of r) t e (lib_call_state (l_state p') p' e)" using f by simp
  obtain q b where qb: "lib_call_state (l_state p') p' e = Inr (q, b)" using lib_finishes_result [OF fin] by blast
  obtain acc where q: "lib_kept r t q" "l_state q = LFirstByte"
      "l_badCrc t = None \<longrightarrow> acc = lib_valid_of r (lib_message t @ [e])"
      "lib_delivered q = lib_delivered t @ (if acc then [(l_type t, lib_message t @ [e])] else [])"
    by (rule lib_finishesE [OF fin [unfolded qb]])
  then show ?thesis
    using t(1,7) s(1) qb f k lib_kept_trans [OF t(5) q(1)] by (intro exI [of _ q]) (simp add: run_append)
qed

text \<open>The first byte of a message puts the parser in the hands of its protocol.\<close>

lemma lib_frame_started:
  assumes "lib_waiting tab n p" and "lib_match tab d = Some k"
  obtains q where "sempParseNextByte_lib p d = Inr q" "lib_ready q" "lib_selected (tab ! k) q"
    "lib_pinv_of (tab ! k) q" "lib_message q = [d]" "l_type q = of_nat k" "l_parsers q = tab"
    "l_badCrc q = None" "unat (l_bufferLength q) = n" "lib_delivered q = lib_delivered p"
proof -
  have p: "lib_ready p" "l_state p = LFirstByte" "l_parsers p = tab" "unat (l_bufferLength p) = n"
      "l_badCrc p = None"
    using assms(1) by (simp_all add: lib_waiting_def)
  obtain q p0 where "sempParseNextByte_lib p d = Inr q" "lib_started p0 d q"
      "lib_delivered p0 = lib_delivered p" "l_parsers p0 = l_parsers p" "l_badCrc p0 = l_badCrc p"
      "l_bufferLength p0 = l_bufferLength p"
    by (rule lib_idle_step [OF p(1,2)])
  then show thesis using assms(2) p by (intro that [of q]) (simp_all add: lib_started_def)
qed

lemma lib_frame_decided:
  assumes "lib_waiting tab n p" and "lib_item_ok tab n (LFrame k f)"
  shows "\<exists>q. run sempParseNextByte_lib p f = Inr q \<and> lib_waiting tab n q
    \<and> lib_delivered q = lib_delivered p @ lib_item_deliveries tab (LFrame k f)"
proof -
  obtain d ds where f: "f = d # ds" "lib_match tab d = Some k" "lib_shape_of (tab ! k) f" "length f \<le> n"
    using assms(2) by (cases f) auto
  obtain q where q: "sempParseNextByte_lib p d = Inr q" and s: "lib_ready q" "lib_selected (tab ! k) q"
    "lib_pinv_of (tab ! k) q" "lib_message q = [d]" "l_type q = of_nat k" "l_parsers q = tab"
    "l_badCrc q = None" "unat (l_bufferLength q) = n" "lib_delivered q = lib_delivered p"
    by (rule lib_frame_started [OF assms(1) f(2)])
  have r: "tab ! k \<in> set (l_parsers q)" using lib_match_Some [OF f(2)] s(6) by simp
  then have "2 \<le> length f"
    using lib_protocol.shape_length [OF lib_protocol_entry f(3)] s(1) by (auto simp: lib_ready_def)
  then obtain es e where ds: "ds = es @ [e]" using f(1) by (cases ds rule: rev_cases) auto
  obtain t where t: "run sempParseNextByte_lib q ds = Inr t" "lib_kept (tab ! k) q t"
      "l_state t = LFirstByte"
      "lib_delivered t = lib_delivered q @ (if lib_valid_of (tab ! k) f then [(l_type q, f)] else [])"
    using lib_frame_rest [OF s(1-3) f(3), of es e] f(1,4) s(4,7,8) ds by auto
  then have "lib_waiting tab n t"
    using lib_kept_ready [OF s(1) t(2) r] s(6-8) by (simp add: lib_waiting_def lib_kept_def)
  then show ?thesis using q t s(5,9) f(1) by (intro exI [of _ t]) simp
qed

lemma lib_noise_ignored:
  assumes "lib_waiting tab n p" and "lib_match tab b = None"
  shows "\<exists>q. sempParseNextByte_lib p b = Inr q \<and> lib_waiting tab n q \<and> lib_delivered q = lib_delivered p"
proof -
  have p: "lib_ready p" "l_state p = LFirstByte" "l_parsers p = tab" "unat (l_bufferLength p) = n"
      "l_badCrc p = None"
    using assms(1) by (simp_all add: lib_waiting_def)
  obtain q p0 where "sempParseNextByte_lib p b = Inr q" "lib_started p0 b q"
      "lib_delivered p0 = lib_delivered p" "l_parsers p0 = l_parsers p" "l_badCrc p0 = l_badCrc p"
      "l_bufferLength p0 = l_bufferLength p"
    by (rule lib_idle_step [OF p(1,2)])
  then show ?thesis using assms(2) p by (auto simp: lib_started_def lib_waiting_def)
qed

interpretation lib_item_stream:
  framed_machine sempParseNextByte_lib "lib_waiting tab n" "lib_item_ok tab n" lib_item_bytes
    "lib_item_deliveries tab" "\<lambda>p. lib_delivered p" for tab n
proof unfold_locales
  fix p m
  assume p: "lib_waiting tab n p" and m: "lib_item_ok tab n m"
  show "\<exists>t. run sempParseNextByte_lib p (lib_item_bytes m) = Inr t \<and> lib_waiting tab n t
      \<and> lib_delivered t = lib_delivered p @ lib_item_deliveries tab m"
  proof (cases m)
    case (LNoise b)
    then show ?thesis using lib_noise_ignored [OF p, of b] m by auto
  next
    case (LFrame k f)
    then show ?thesis using lib_frame_decided [OF p, of k f] m by (simp only: lib_item_bytes.simps)
  qed
qed

end
