(* ===== verification/Lib_Begin.thy ===== *)
theory Lib_Begin
  imports Lib_Correct Encoders
begin

text \<open>
  The parsers that \<^verbatim>\<open>sempBeginParser\<close> of the library hands out, the messages of its own
  protocols as a sender builds them, and what the access functions of the SBF protocol
  return after a block.
\<close>

section \<open>Allocation\<close>

definition lib_malloc_ok :: "(u32 \<Rightarrow> u8 list option) \<Rightarrow> bool" where
  "lib_malloc_ok malloc \<longleftrightarrow> (\<forall>n bytes. malloc n = Some bytes \<longrightarrow> length bytes = unat n)"

lemma sempPrintln_lib_eoms [simp]: "lib_eoms (sempPrintln_lib cb m es) = lib_eoms es"
  by (simp add: sempPrintln_lib_def split: option.split)

lemma scratch_log_lib_eoms [simp]: "lib_eoms (scratch_log_lib cb n es) = lib_eoms es"
  by (simp add: scratch_log_lib_def Let_def)

text \<open>The bytes in front of the buffer, and the length of the buffer.\<close>

definition lib_front :: "int \<Rightarrow> u16 \<Rightarrow> int" where
  "lib_front psize scratch = SEMP_ALIGN psize + uint (scratch_bytes_lib scratch)"

definition lib_buffer_length :: "u32 \<Rightarrow> u32" where
  "lib_buffer_length len = (if len < SEMP_MINIMUM_BUFFER_LENGTH_lib then SEMP_MINIMUM_BUFFER_LENGTH_lib else len)"

lemma unat_lib_buffer_length: "unat (lib_buffer_length len) = max 32 (unat len)"
  by (auto simp: lib_buffer_length_def SEMP_MINIMUM_BUFFER_LENGTH_lib_def word_less_nat_alt)

lemma lib_front_bounds:
  assumes "0 \<le> psize" and "psize < 65536"
  shows "0 \<le> lib_front psize scratch" "lib_front psize scratch < 131080"
proof -
  have "0 \<le> uint (scratch_bytes_lib scratch)" "uint (scratch_bytes_lib scratch) < 65536"
    using unsigned_less [of "scratch_bytes_lib scratch"] by simp_all
  then show "0 \<le> lib_front psize scratch" "lib_front psize scratch < 131080"
    using SEMP_ALIGN_bounds [of psize] assms by (simp_all add: lib_front_def)
qed

text \<open>What an allocation that succeeds returns.\<close>

lemma lib_allocate_cases:
  assumes "sempAllocateParseStructure_lib malloc psize functions dbg scratch len es = r"
  obtains es' where "malloc (word_of_int (lib_front psize scratch) + lib_buffer_length len) = None"
      "r = Inr (None, es')" "lib_eoms es' = lib_eoms es"
    | bytes where "malloc (word_of_int (lib_front psize scratch) + lib_buffer_length len) = Some bytes"
      "length bytes < nat (lib_front psize scratch)" "r = Inl OutOfBounds"
    | bytes p es' where "malloc (word_of_int (lib_front psize scratch) + lib_buffer_length len) = Some bytes"
      "nat (lib_front psize scratch) \<le> length bytes" "r = Inr (Some p, es')"
      "l_buffer p = take (unat (lib_buffer_length len)) (drop (nat (lib_front psize scratch)) bytes)"
      "l_bufferLength p = lib_buffer_length len" "l_length p = 0" "l_type p = 0" "l_log p = es'"
      "lib_eoms es' = lib_eoms es" "l_scratchPad p = (\<lambda>_. 0)" "l_computeCrc p = None" "l_crc p = 0"
  using assms
  by (cases "malloc (word_of_int (lib_front psize scratch) + lib_buffer_length len)";
      cases "len < SEMP_MINIMUM_BUFFER_LENGTH_lib")
    (auto simp: sempAllocateParseStructure_lib_def lib_front_def lib_buffer_length_def Let_def
      split: if_splits)

lemma unat_lib_request:
  assumes "0 \<le> psize" and "psize < 65536" and "unat len < 65536"
  shows "unat (word_of_int (lib_front psize scratch) + lib_buffer_length len)
    = nat (lib_front psize scratch) + unat (lib_buffer_length len)"
proof -
  define a where "a = nat (lib_front psize scratch)"
  define b where "b = unat (lib_buffer_length len)"
  have "a < 131080" "b < 65536"
    using lib_front_bounds [OF assms(1,2), of scratch] assms(3)
    by (simp_all add: a_def b_def unat_lib_buffer_length)
  moreover have "word_of_int (lib_front psize scratch) + lib_buffer_length len = (of_nat (a + b) :: u32)"
    using lib_front_bounds(1) [OF assms(1,2), of scratch] by (simp add: a_def b_def)
  moreover have "unat (of_nat (a + b) :: u32) = a + b" if "a + b < 2 ^ 32"
    using that by (simp only: unat_of_nat take_bit_nat_eq_self_iff) simp
  ultimately show ?thesis unfolding a_def [symmetric] b_def [symmetric] by (simp only:) simp
qed

lemma lib_print_configuration_log:
  assumes "sempPrintParserConfiguration_lib (Some p) cb = Inr r"
  obtains es where "r = Some (p\<lparr>l_log := es\<rparr>)" "lib_eoms es = lib_delivered p"
proof (cases cb)
  case None
  then show thesis
    using assms by (intro that [of "l_log p"]) (simp_all add: sempPrintParserConfiguration_lib_def)
next
  case (Some a)
  then obtain es where "r = Some (p\<lparr>l_log := l_log p @ es\<rparr>)" "lib_eoms es = []"
    using assms by (auto simp: sempPrintParserConfiguration_lib_def rbind_Inr_iff)
  then show thesis by (intro that [of "l_log p @ es"]) simp_all
qed

section \<open>Parsers the library hands out\<close>

text \<open>
  \<open>lib_begun table bad len p\<close>: some call of \<^verbatim>\<open>sempBeginParser\<close> with this parser table,
  bad-CRC callback and buffer length returned \<open>p\<close>, with an allocator that keeps its promise,
  counts that agree with the tables, and a parse structure of less than 64 KiB.
\<close>

definition lib_begun :: "lib_preamble list \<Rightarrow> (lib_view \<Rightarrow> bool) option \<Rightarrow> u32 \<Rightarrow> lib \<Rightarrow> bool" where
  "lib_begun table bad len p \<longleftrightarrow>
     (\<exists>malloc psize functions count names ncount scratch eom pname err dbg es.
        lib_malloc_ok malloc \<and> 0 \<le> psize \<and> psize < 65536
        \<and> length table = unat count \<and> length names = unat count
        \<and> sempBeginParser_lib malloc psize functions (Some table) count (Some names) ncount scratch len
            eom pname err dbg bad [] = Inr (Some p, es))"

lemma lib_begin_Some:
  assumes "lib_malloc_ok malloc" and "0 \<le> psize" and "psize < 65536" and "length table = unat count"
    and "unat len < 65536"
    and "sempBeginParser_lib malloc psize functions (Some table) count (Some names) ncount scratch len
            eom pname err dbg bad es = Inr (Some p, es')"
  shows "wf_lib p \<and> l_state p = LFirstByte \<and> l_parsers p = table \<and> l_badCrc p = bad
    \<and> lib_delivered p = lib_eoms es \<and> unat (l_bufferLength p) = max 32 (unat len)
    \<and> l_scratchPad p = (\<lambda>_. 0) \<and> l_length p = 0 \<and> l_crc p = 0 \<and> l_type p = 0 \<and> l_computeCrc p = None"
proof -
  obtain q es1 name where a: "sempAllocateParseStructure_lib malloc psize functions dbg scratch len es
        = Inr (Some q, es1)"
      and eom: "eom \<noteq> None"
      and p: "rbind (sempPrintParserConfiguration_lib (Some (q\<lparr>l_printError := err, l_parsers := table,
                  l_parserCount := count, l_parserNames := Some names,
                  l_state := LFirstByte, l_eomCallback := eom, l_parserName := name,
                  l_badCrc := bad\<rparr>)) (l_printDebug q))
        (\<lambda>parse. Inr (parse, case parse of None \<Rightarrow> es1 | Some p \<Rightarrow> l_log p)) = Inr (Some p, es')"
    using assms(6)
    by (auto simp: sempBeginParser_lib_def Let_def rbind_Inr_iff split: if_splits option.splits prod.splits)
  obtain bytes where q: "malloc (word_of_int (lib_front psize scratch) + lib_buffer_length len) = Some bytes"
      "l_buffer q = take (unat (lib_buffer_length len)) (drop (nat (lib_front psize scratch)) bytes)"
      "l_bufferLength q = lib_buffer_length len" "l_length q = 0" "l_log q = es1"
      "lib_eoms es1 = lib_eoms es" "l_scratchPad q = (\<lambda>_. 0)" "l_crc q = 0" "l_type q = 0" "l_computeCrc q = None"
    by (rule lib_allocate_cases [OF a]) auto
  have "length bytes = nat (lib_front psize scratch) + unat (lib_buffer_length len)"
    using assms(1) q(1) unat_lib_request [OF assms(2,3,5)] by (simp add: lib_malloc_ok_def)
  then have len: "length (l_buffer q) = unat (lib_buffer_length len)" using q(2) by simp
  define q1 where "q1 = q\<lparr>l_printError := err, l_parsers := table,
                  l_parserCount := count, l_parserNames := Some names,
                  l_state := LFirstByte, l_eomCallback := eom, l_parserName := name,
                  l_badCrc := bad\<rparr>"
  have "sempPrintParserConfiguration_lib (Some q1) (l_printDebug q) = Inr (Some p)"
    using p unfolding q1_def [symmetric] by (auto simp: rbind_Inr_iff)
  then obtain es2 where "p = q1\<lparr>l_log := es2\<rparr>" "lib_eoms es2 = lib_delivered q1"
    by (rule lib_print_configuration_log) simp
  then show ?thesis
    using q len eom assms(4,5) unat_lib_buffer_length [of len] by (simp add: wf_lib_def q1_def)
qed

lemma lib_begunD:
  assumes "lib_begun table bad len p" and "unat len < 65536"
  shows "wf_lib p" "l_state p = LFirstByte" "l_parsers p = table" "l_badCrc p = bad"
    "lib_delivered p = []" "unat (l_bufferLength p) = max 32 (unat len)"
    "l_scratchPad p = (\<lambda>_. 0)" "l_length p = 0" "l_crc p = 0" "l_type p = 0" "l_computeCrc p = None"
proof -
  obtain malloc psize funs count names ncount scratch eom pname err dbg es where
    "lib_malloc_ok malloc" "0 \<le> psize" "psize < 65536" "length table = unat count"
    "sempBeginParser_lib malloc psize funs (Some table) count (Some names) ncount scratch len
       eom pname err dbg bad [] = Inr (Some p, es)"
    using assms(1) unfolding lib_begun_def by (elim exE conjE)
  note b = lib_begin_Some [OF this(1-4) assms(2) this(5)]
  show "wf_lib p" "l_state p = LFirstByte" "l_parsers p = table" "l_badCrc p = bad"
    "lib_delivered p = []" "unat (l_bufferLength p) = max 32 (unat len)"
    "l_scratchPad p = (\<lambda>_. 0)" "l_length p = 0" "l_crc p = 0" "l_type p = 0" "l_computeCrc p = None"
    using b by simp_all
qed

lemma lib_begun_exists:
  assumes "table \<noteq> []" and "length table < 65536" and "unat len < 65536"
  shows "\<exists>p. lib_begun table bad len p \<and> l_functions p = []"
proof -
  define names where "names = map (\<lambda>_. ''P'') table"
  define count :: u16 where "count = of_nat (length table)"
  define m where "m n = Some (replicate (unat n) (0 :: u8))" for n :: u32
  have m: "lib_malloc_ok m" by (simp add: lib_malloc_ok_def m_def)
  have c: "unat count = length table" using assms(2) by (simp add: count_def unat_of_nat_16)
  then have nz: "count \<noteq> 0" using assms(1) by (metis length_0_conv unat_0)
  obtain q es where "sempAllocateParseStructure_lib m 112 [] None 0 len [] = Inr (Some q, es)" "l_printDebug q = None"
      "l_functions q = []"
    using unat_lib_request [of 112 len 0] assms(3)
    by (cases "len < SEMP_MINIMUM_BUFFER_LENGTH_lib")
      (auto simp: sempAllocateParseStructure_lib_def m_def lib_front_def lib_buffer_length_def Let_def)
  then have "\<exists>p es'. sempBeginParser_lib m 112 [] (Some table) count (Some names) count 0 len (Some 0)
      (Some ''parser'') None None bad [] = Inr (Some p, es') \<and> l_functions p = []"
    using nz by (simp add: sempBeginParser_lib_def sempPrintParserConfiguration_lib_def)
  then obtain p es' where p: "sempBeginParser_lib m 112 [] (Some table) count (Some names) count 0 len (Some 0)
      (Some ''parser'') None None bad [] = Inr (Some p, es')" "l_functions p = []" by blast
  have "length names = unat count" using c by (simp add: names_def)
  then have "lib_begun table bad len p"
    using m c p(1) unfolding lib_begun_def by (intro exI conjI; assumption?; simp)
  then show ?thesis using p(2) by blast
qed

lemma lib_begun_waiting:
  assumes "lib_begun table None len p" and "unat len < 65536"
    and "set table \<subseteq> set lib_binary" and "lib_sane table"
  shows "lib_waiting table (max 32 (unat len)) p"
  using lib_begunD [OF assms(1,2)] assms(3,4)
  by (simp add: lib_waiting_def lib_ready_def lib_callback_ok_def lib_sbf_invalidDataCallback_def get32_def
      le32_def)

lemma lib_begun_inv:
  assumes "lib_begun table bad len p" and "unat len < 65536"
    and "set table \<subseteq> set lib_binary" and "lib_sane table"
  shows "lib_inv p"
  using lib_begunD [OF assms(1,2)] assms(3,4)
  by (simp add: lib_inv_def lib_ready_def lib_callback_ok_def lib_sbf_invalidDataCallback_def get32_def
      le32_def)

end
