(* ===== verification/Lib_Encoders.thy ===== *)
theory Lib_Encoders
  imports Lib_Begin
begin

text \<open>
  Messages of the protocols that only the library has, as a sender builds them: SBF blocks,
  Unicore binary messages and SPARTN messages, with the checksums computed bit by bit. They
  are accepted, and after an SBF block the access functions return its contents.
\<close>

section \<open>Delivery by a new parser\<close>

definition lib_table_ok :: "lib_preamble list \<Rightarrow> bool" where
  "lib_table_ok table \<longleftrightarrow> set table \<subseteq> set lib_binary \<and> lib_sane table"

lemma lib_begun_delivers:
  assumes "lib_begun table None len p" and "unat len < 65536" and "lib_table_ok table"
    and "lib_match table (hd f) = Some k" and "lib_valid_of (table ! k) f" and "length f \<le> max 32 (unat len)"
  shows "\<exists>q. run sempParseNextByte_lib p f = Inr q \<and> lib_delivered q = [(of_nat k, f)]"
proof -
  have w: "lib_waiting table (max 32 (unat len)) p"
    using lib_begun_waiting [OF assms(1,2)] assms(3) by (simp add: lib_table_ok_def)
  have "table ! k \<in> set lib_binary"
    using lib_match_Some [OF assms(4)] assms(3) nth_mem [of k table] by (auto simp: lib_table_ok_def)
  note pr = lib_protocol_entry [OF this]
  have "lib_shape_of (table ! k) f" by (rule lib_protocol.valid_shape [OF pr assms(5)])
  moreover from this have "f \<noteq> []" using lib_protocol.shape_length [OF pr] by fastforce
  ultimately have "lib_item_ok table (max 32 (unat len)) (LFrame k f)" using assms(4,6) by simp
  from lib_frame_decided [OF w this] show ?thesis using assms(5) lib_begunD(5) [OF assms(1,2)] by auto
qed

section \<open>SBF\<close>

text \<open>\<open>i\<close> holds the block number in the low 13 bits and the revision in the high three.\<close>

definition sbf_frame :: "u16 \<Rightarrow> u8 list \<Rightarrow> u8 list" where
  "sbf_frame i body =
     (let n = of_nat (8 + length body) :: u16;
          m = [byte_of 0 i, byte_of 1 i, byte_of 0 n, byte_of 1 n] @ body;
          c = sbf_crc m
      in [0x24, 0x40, byte_of 0 c, byte_of 1 c] @ m)"

lemma length_sbf_frame: "length (sbf_frame i body) = 8 + length body"
  by (simp add: sbf_frame_def Let_def)

lemma sbf_frame_fields:
  "sbf_id (sbf_frame i body) = i AND 0x1FFF" "drop_bit 5 (sbf_frame i body ! 5) = ucast (drop_bit 13 i)"
  "hd (sbf_frame i body) = 0x24" "k < length body \<Longrightarrow> sbf_frame i body ! (8 + k) = body ! k"
  "sbf_length (sbf_frame i body) = of_nat (8 + length body)"
proof -
  show "drop_bit 5 (sbf_frame i body ! 5) = ucast (drop_bit 13 i)"
    by (rule bit_word_eqI) (auto simp: sbf_frame_def Let_def bit_simps bit_byte_of ac_simps
        dest: bit_imp_le_length)
qed (simp_all add: sbf_id_def sbf_frame_def sbf_length_def Let_def)

lemma sbf_frame_valid:
  assumes "4 \<le> length body" and "length body mod 4 = 0" and "length body < 65528"
  shows "sbf_valid (sbf_frame i body)"
proof -
  have "sbf_shape (sbf_frame i body)"
    using assms unat_of_nat_16 [of "8 + length body"] sbf_frame_fields(5) [of i body] length_sbf_frame [of i body]
    by (auto simp: sbf_shape_def) (simp_all add: sbf_frame_def Let_def mod_add_left_eq [symmetric])
  then show ?thesis by (simp add: sbf_valid_def sbf_frame_def Let_def)
qed

text \<open>The parser after the last byte of a block: the block is in the buffer, its number in the scratch area.\<close>

lemma sbf_last_byte:
  assumes "lib_ready p" and "lib_selected LSbfPreamble p" and "sbf_inv p" and "sbf_valid f"
    and "f = lib_message p @ [d]" and "length f \<le> unat (l_bufferLength p)"
  shows "\<exists>q. sempParseNextByte_lib p d = Inr q \<and> wf_lib q \<and> lib_message q = f
    \<and> lib_sbf_sbfID q = sbf_id f \<and> lib_sbf_sbfIDrev q = drop_bit 5 (f ! 5)
    \<and> lib_delivered q = lib_delivered p @ [(l_type p, f)]"
proof -
  have shape: "sbf_shape f" using assms(4) by (simp add: sbf_valid_def)
  obtain p' where p': "unat (l_length p) < length (l_buffer p)" "lib_feed p d = Inr p'"
      "sempParseNextByte_lib p d = rbind (lib_call_state (l_state p') p' d) (\<lambda>(p, _). Inr p)"
    by (rule lib_prefix_step [OF assms(1,2), of f d]) (use assms shape in auto)
  have wf: "wf_lib p" using assms(1) by (simp add: lib_ready_def)
  have "l_state p = LSbf LSbfReadBytes" "unat (sbf_length (lib_message p)) = Suc (length (lib_message p))"
    using sbf_prefix(2) [OF assms(3) shape, of d] assms(5) by simp_all
  note last = sbf_last [OF wf assms(3) p'(1,2) this]
  define q where "q = sbf_done p p' d"
  obtain a where a: "l_eomCallback q = Some a"
    using last(1) by (auto simp: q_def lib_kept_def wf_lib_def)
  have "sempParseNextByte_lib p d = Inr (q\<lparr>l_log := l_log q @ [LEom a (l_type q) (lib_message q)]\<rparr>)"
    using p'(3) last(6) assms(4,5) a by (simp add: q_def [symmetric] lib_crc_accepted_def lib_call_eom_def)
  moreover have "l_type q = l_type p" "wf_lib q" using last(1) by (simp_all add: q_def lib_kept_def)
  ultimately show ?thesis
    using last(2-5) assms(5) by (simp add: q_def [symmetric] lib_sbf_sbfID_def lib_sbf_sbfIDrev_def)
qed

lemma lib_begun_sbf:
  assumes "lib_begun table None len p" and "unat len < 65536" and "lib_table_ok table"
    and "lib_match table 0x24 = Some k" and "sbf_valid f" and "length f \<le> max 32 (unat len)"
  shows "\<exists>q. run sempParseNextByte_lib p f = Inr q \<and> wf_lib q \<and> lib_message q = f
    \<and> lib_sbf_sbfID q = sbf_id f \<and> lib_sbf_sbfIDrev q = drop_bit 5 (f ! 5)
    \<and> lib_delivered q = [(of_nat k, f)]"
proof -
  have w: "lib_waiting table (max 32 (unat len)) p"
    using lib_begun_waiting [OF assms(1,2)] assms(3) by (simp add: lib_table_ok_def)
  have "table ! k \<in> set lib_binary" "lib_first (table ! k) = 0x24"
    using lib_match_Some [OF assms(4)] assms(3) nth_mem [of k table] by (auto simp: lib_table_ok_def)
  then have r: "table ! k = LSbfPreamble" by (auto simp: lib_binary_def)
  have shape: "sbf_shape f" using assms(5) by (simp add: sbf_valid_def)
  obtain ds e where f: "f = 0x24 # ds @ [e]"
  proof -
    have "12 \<le> length f" "f ! 0 = 0x24" using shape by (simp_all add: sbf_shape_def)
    then obtain xs where xs: "f = 0x24 # xs" "11 \<le> length xs" by (cases f) auto
    then have "xs \<noteq> []" by auto
    then show thesis using that [of "butlast xs" "last xs"] xs(1) by simp
  qed
  obtain q where q: "sempParseNextByte_lib p 0x24 = Inr q" and s: "lib_ready q" "lib_selected (table ! k) q"
    "lib_pinv_of (table ! k) q" "lib_message q = [0x24]" "l_type q = of_nat k"
    "unat (l_bufferLength q) = max 32 (unat len)" "lib_delivered q = lib_delivered p"
    by (rule lib_frame_started [OF w assms(4)])
  have "lib_shape_of (table ! k) f" "f = lib_message q @ ds @ [e]" "length f \<le> unat (l_bufferLength q)"
    using shape r f s(4,6) assms(6) by simp_all
  note pre = lib_frame_prefix [OF s(1-3) this]
  obtain t where t: "run sempParseNextByte_lib q ds = Inr t" "lib_ready t" "lib_selected LSbfPreamble t"
      "sbf_inv t" "lib_kept LSbfPreamble q t" "lib_message t = lib_message q @ ds" "lib_delivered t = lib_delivered q"
    using pre r by auto
  have "l_type t = of_nat k" "length f \<le> unat (l_bufferLength t)"
    using t(5) s(5,6) assms(6) by (simp_all add: lib_kept_def)
  then show ?thesis
    using sbf_last_byte [OF t(2-4) assms(5), of e] q t(1,6,7) s(4,7) f lib_begunD(5) [OF assms(1,2)]
    by (auto simp: run_append)
qed

text \<open>The access functions read the message.\<close>

lemma sbf_getters:
  assumes "wf_lib q" and "m = lib_message q"
  shows "unat off < length m \<Longrightarrow> sempSbfGetU1 q off = Inr (m ! unat off)"
    and "unat off + 1 < length m \<Longrightarrow> sempSbfGetU2 q off = Inr (le16 (m ! unat off) (m ! (unat off + 1)))"
    and "unat off + 3 < length m \<Longrightarrow> sempSbfGetU4 q off =
      Inr (le32 (m ! unat off) (m ! (unat off + 1)) (m ! (unat off + 2)) (m ! (unat off + 3)))"
proof -
  have at: "at (l_buffer q) (uint off + int j) = Inr (m ! (unat off + j))" if "unat off + j < length m" for j
    using lib_at [OF assms(1), of "unat off + j"] that assms(2) by simp
  show "unat off < length m \<Longrightarrow> sempSbfGetU1 q off = Inr (m ! unat off)"
    using at [of 0] by (simp add: sempSbfGetU1_def)
  show "unat off + 1 < length m \<Longrightarrow> sempSbfGetU2 q off = Inr (le16 (m ! unat off) (m ! (unat off + 1)))"
    using at [of 0] at [of 1] by (simp add: sempSbfGetU2_def le16_def)
  show "unat off + 3 < length m \<Longrightarrow> sempSbfGetU4 q off =
      Inr (le32 (m ! unat off) (m ! (unat off + 1)) (m ! (unat off + 2)) (m ! (unat off + 3)))"
    using at [of 0] at [of 1] at [of 2] at [of 3]
    by (simp add: sempSbfGetU4_def numeral_eq_Suc le32_def or.assoc)
qed

section \<open>Unicore binary\<close>

text \<open>\<open>a\<close> and \<open>b\<close> are the header fields before and behind the message length.\<close>

definition unicore_binary_frame :: "u8 list \<Rightarrow> u8 list \<Rightarrow> u8 list \<Rightarrow> u8 list" where
  "unicore_binary_frame a b payload =
     (let n = of_nat (length payload) :: u16;
          h = [0xAA, 0x44, 0xB5] @ a @ [byte_of 0 n, byte_of 1 n] @ b @ payload;
          c = foldl crc32_spec 0 h
      in h @ [byte_of 0 c, byte_of 1 c, byte_of 2 c, byte_of 3 c])"

lemma unicore_binary_frame_valid:
  assumes "length a = 3" and "length b = 16" and "0 < length payload" and "length payload < 65536"
  shows "framed_valid 24 6 0xB5 0 0 (unicore_binary_frame a b payload)"
proof -
  define n where "n = (of_nat (length payload) :: u16)"
  define h where "h = [0xAA, 0x44, 0xB5] @ a @ [byte_of 0 n, byte_of 1 n] @ b @ payload"
  define c where "c = foldl crc32_spec 0 h"
  have f: "unicore_binary_frame a b payload = h @ [byte_of 0 c, byte_of 1 c, byte_of 2 c, byte_of 3 c]"
    by (simp add: unicore_binary_frame_def h_def c_def n_def Let_def)
  have h: "length h = 24 + length payload" "h ! 0 = 0xAA" "h ! 1 = 0x44" "h ! 2 = 0xB5"
      "h ! 6 = byte_of 0 n" "h ! 7 = byte_of 1 n"
    using assms by (simp_all add: h_def nth_append)
  have "unat n = length payload" using assms(4) by (simp add: n_def unat_of_nat_16)
  then have "framed_shape 24 6 0xB5 (h @ [byte_of 0 c, byte_of 1 c, byte_of 2 c, byte_of 3 c])"
    using h assms(3) by (simp add: Suc_le_eq framed_shape_def framed_header_def framed_length_def nth_append)
  then show ?thesis
    unfolding f by (simp add: framed_valid_def Let_def nth_append c_def)
qed

lemma unicore_binary_frame_simps:
  "length (unicore_binary_frame a b payload) = length a + length b + length payload + 9"
  "hd (unicore_binary_frame a b payload) = 0xAA"
  by (simp_all add: unicore_binary_frame_def Let_def)

section \<open>SPARTN\<close>

text \<open>
  The four bytes TF001 to TF006: the preamble, the message type, the number of payload
  bytes, the flag of authentication, the kind of CRC and the CRC-4 of these bits.
\<close>

definition spartn_head :: "u8 \<Rightarrow> u16 \<Rightarrow> bool \<Rightarrow> u8 \<Rightarrow> u8 list" where
  "spartn_head typ n eaf kind =
     (let b1 = push_bit 1 typ OR ucast (drop_bit 9 n AND 1);
          b2 = ucast (drop_bit 1 n);
          b3 = push_bit 7 (ucast n) OR (if eaf then 0x40 else 0) OR push_bit 4 (kind AND 3)
      in [0x73, b1, b2, b3 OR foldl crc4_spec 0 [b1, b2, b3]])"

text \<open>
  \<open>tf\<close> are the bytes from TF007 to TF015, four or six by the kind of time tag and two more
  with authentication; the last of them announces the length of the authentication data.
\<close>

definition spartn_parts :: "bool \<Rightarrow> u8 list \<Rightarrow> u8 list \<Rightarrow> bool" where
  "spartn_parts eaf tf auth \<longleftrightarrow>
     tf \<noteq> [] \<and> length tf = (if bit (hd tf) 3 then 6 else 4) + (if eaf then 2 else 0)
     \<and> length auth =
         (if eaf \<and> 1 < drop_bit 3 (last tf) AND 7 then unat (spartn_embedded (last tf)) else 0)"

definition be_bytes :: "nat \<Rightarrow> u32 \<Rightarrow> u8 list" where
  "be_bytes k c = map (\<lambda>i. byte_of i c) (rev [0..<k])"

definition spartn_frame :: "u8 \<Rightarrow> bool \<Rightarrow> u8 \<Rightarrow> u8 list \<Rightarrow> u8 list \<Rightarrow> u8 list \<Rightarrow> u8 list" where
  "spartn_frame typ eaf kind tf payload auth =
     (let m = spartn_head typ (of_nat (length payload)) eaf kind @ tf @ payload @ auth
      in m @ be_bytes (unat (spartn_crc_bytes kind)) (spartn_check kind (drop 1 m)))"

lemma crc4_spec_low: "crc4_spec c d AND 0x0F = crc4_spec c d"
proof -
  have "list_all (\<lambda>x. x AND 0x0F = x) semp_u8Crc4Table" by (simp add: semp_u8Crc4Table_def)
  moreover have "crc4_spec c d = semp_u8Crc4Table ! unat (d XOR c)" "length semp_u8Crc4Table = 256"
    using crc4_table_eq [of "unat (d XOR c)"] unat_u8_less [of "d XOR c"]
    by (simp_all add: crc4_spec_def semp_u8Crc4Table_def del: nth_Cons)
  ultimately show ?thesis using unat_u8_less [of "d XOR c"] by (simp add: list_all_length)
qed

lemma bit_below: "unat w < 2 ^ k \<Longrightarrow> bit (w :: 'a::len word) i \<Longrightarrow> i < k"
proof -
  assume "unat w < 2 ^ k" "bit w i"
  then have "bit (take_bit k (unat w)) i" by (simp add: take_bit_nat_eq_self bit_unsigned_iff bit_imp_le_length)
  then show "i < k" by (simp add: bit_take_bit_iff)
qed

lemma and_1_bit: "(w :: 'a::len word) AND 1 = of_bool (bit w 0)"
  by (simp add: and_one_eq bit_0 mod_2_eq_odd)

lemma spartn_head_bits:
  fixes n :: u16 and kind c :: u8 and eaf :: bool
  assumes "unat kind < 4" and "c AND 0x0F = c"
  defines "b3 \<equiv> push_bit 7 (ucast n :: u8) OR (if eaf then 0x40 else 0) OR push_bit 4 (kind AND 3)"
  shows "(b3 OR c) AND 0xF0 = b3" "(b3 OR c) AND 0x0F = c" "bit (b3 OR c) 7 = bit n 0"
    "drop_bit 4 (b3 OR c) AND 3 = kind" "bit (b3 OR c) 6 = eaf"
proof -
  have c: "\<not> bit c j" if "4 \<le> j" "j < 8" for j
  proof -
    have "\<not> bit (c AND 0x0F) j" using that(2,1) by (cases rule: less_8_cases) (simp_all add: bit_and_iff)
    then show ?thesis by (simp add: assms(2))
  qed
  have k: "\<not> bit kind j" if "2 \<le> j" for j
    using bit_below [of kind 2 j] assms(1) that by auto
  note [simp] = c k bit_and_iff bit_or_iff bit_push_bit_iff bit_drop_bit_eq bit_unsigned_iff
  show "(b3 OR c) AND 0xF0 = b3"
  proof (rule bit_word_eqI)
    fix j assume "j < LENGTH(8)"
    then have "j < 8" by simp
    then show "bit ((b3 OR c) AND 0xF0) j = bit b3 j" by (cases rule: less_8_cases) (auto simp: b3_def)
  qed
  show "(b3 OR c) AND 0x0F = c"
  proof (rule bit_word_eqI)
    fix j assume "j < LENGTH(8)"
    then have "j < 8" by simp
    then show "bit ((b3 OR c) AND 0x0F) j = bit c j" by (cases rule: less_8_cases) (auto simp: b3_def)
  qed
  show "drop_bit 4 (b3 OR c) AND 3 = kind"
  proof (rule bit_word_eqI)
    fix j assume "j < LENGTH(8)"
    then have "j < 8" by simp
    then show "bit (drop_bit 4 (b3 OR c) AND 3) j = bit kind j" by (cases rule: less_8_cases) (auto simp: b3_def)
  qed
  show "bit (b3 OR c) 7 = bit n 0" "bit (b3 OR c) 6 = eaf" by (auto simp: b3_def)
qed

lemma spartn_head_fields:
  assumes "unat n < 1024" and "unat kind < 4" and "m = spartn_head typ n eaf kind @ xs"
  shows "length (spartn_head typ n eaf kind) = 4" "m ! 0 = 0x73" "spartn_payload m = n"
    "spartn_eaf m = (if eaf then 1 else 0)" "spartn_crc_type m = kind" "spartn_header_ok m"
proof -
  define b1 where "b1 = push_bit 1 typ OR (ucast (drop_bit 9 n AND 1) :: u8)"
  define b2 :: u8 where "b2 = ucast (drop_bit 1 n)"
  define b3 where "b3 = push_bit 7 (ucast n :: u8) OR (if eaf then 0x40 else 0) OR push_bit 4 (kind AND 3)"
  define c where "c = foldl crc4_spec 0 [b1, b2, b3]"
  define x where "x = b3 OR c"
  have m: "m = [0x73, b1, b2, x] @ xs" "spartn_head typ n eaf kind = [0x73, b1, b2, x]"
    by (simp_all add: assms(3) spartn_head_def b1_def b2_def b3_def c_def x_def Let_def)
  then show "length (spartn_head typ n eaf kind) = 4" "m ! 0 = 0x73" by simp_all
  have "c AND 0x0F = c" by (simp add: c_def crc4_spec_low)
  note bits = spartn_head_bits [OF assms(2) this, of n eaf, folded b3_def x_def]
  have n: "\<not> bit n j" if "10 \<le> j" for j using bit_below [of n 10 j] assms(1) that by auto
  show "spartn_payload m = n"
  proof (rule bit_word_eqI)
    fix j assume "j < LENGTH(16)"
    have "\<not> bit (push_bit 1 typ) 0" by (simp add: bit_0)
    then have "bit b1 0 = bit n 9"
      unfolding b1_def bit_or_iff and_1_bit by (simp add: bit_drop_bit_eq)
    then have b1: "bit (b1 AND 1) i \<longleftrightarrow> i = 0 \<and> bit n 9" for i
      by (auto simp: and_1_bit bit_of_bool_iff)
    have b3: "bit (drop_bit 7 x) i \<longleftrightarrow> i = 0 \<and> bit n 0" for i
      using bits(3) by (cases i) (auto simp: bit_drop_bit_eq dest: bit_imp_le_length)
    have b2: "bit b2 i \<longleftrightarrow> i < 8 \<and> bit n (Suc i)" for i
      by (auto simp: b2_def bit_unsigned_iff bit_drop_bit_eq)
    have "spartn_payload m = push_bit 1 (push_bit 8 (ucast (b1 AND 1)) OR ucast b2) OR ucast (drop_bit 7 x)"
      by (simp add: spartn_payload_def m(1))
    then have "bit (spartn_payload m) j \<longleftrightarrow>
        1 \<le> j \<and> (8 \<le> j - 1 \<and> (j - 1 - 8 = 0 \<and> bit n 9) \<or> j - 1 < 8 \<and> bit n (Suc (j - 1))) \<or> j = 0 \<and> bit n 0"
      using \<open>j < LENGTH(16)\<close> by (simp only: bit_or_iff bit_push_bit_iff bit_unsigned_iff b1 b2 b3) auto
    moreover consider "j = 0" | "1 \<le> j" "j < 9" | "j = 9" | "10 \<le> j" by linarith
    then have "(1 \<le> j \<and> (8 \<le> j - 1 \<and> (j - 1 - 8 = 0 \<and> bit n 9) \<or> j - 1 < 8 \<and> bit n (Suc (j - 1))) \<or> j = 0 \<and> bit n 0)
        = bit n j"
      using n by cases auto
    ultimately show "bit (spartn_payload m) j = bit n j" by simp
  qed
  have "drop_bit 6 x AND 1 = (if eaf then 1 else 0)"
    using bits(5) by (simp add: and_1_bit bit_drop_bit_eq)
  then show "spartn_eaf m = (if eaf then 1 else 0)" by (simp add: spartn_eaf_def m(1))
  show "spartn_crc_type m = kind" using bits(4) by (simp add: spartn_crc_type_def m(1))
  show "spartn_header_ok m" using bits(1,2) by (simp add: spartn_header_ok_def m(1) c_def)
qed

lemma be_value_bytes:
  assumes "k \<in> {1, 2, 3, 4}"
  shows "be_value (be_bytes k c) = take_bit (8 * k) c"
proof (rule bit_word_eqI)
  fix j assume "j < LENGTH(32)"
  then consider "j < 8" | "8 \<le> j" "j < 16" | "16 \<le> j" "j < 24" | "24 \<le> j" "j < 32" by fastforce
  then show "bit (be_value (be_bytes k c)) j = bit (take_bit (8 * k) c) j"
    using assms
    by cases (auto simp: be_value_def be_bytes_def upt_rec bit_simps bit_byte_of bit_push_bit_iff)
qed

lemma spartn_kind_cases:
  assumes "unat (kind :: u8) < 4"
  obtains "kind = 0" | "kind = 1" | "kind = 2" | "kind = 3"
proof -
  have "unat kind = 0 \<or> unat kind = 1 \<or> unat kind = 2 \<or> unat kind = 3" using assms by linarith
  then show thesis using that by (auto simp: word_unat_eq_iff)
qed

lemma spartn_check_bound:
  assumes "unat kind < 4"
  shows "take_bit (8 * unat (spartn_crc_bytes kind)) (spartn_check kind bs) = spartn_check kind bs"
proof -
  have "take_bit 8 (ucast a :: u32) = ucast a" for a :: u8
    by (rule bit_word_eqI) (auto simp: bit_simps dest: bit_imp_le_length)
  moreover have "take_bit 16 (ucast a :: u32) = ucast a" for a :: u16
    by (rule bit_word_eqI) (auto simp: bit_simps dest: bit_imp_le_length)
  moreover have "take_bit 24 (ucast a :: u32) = ucast a" for a :: u24
    by (rule bit_word_eqI) (auto simp: bit_simps dest: bit_imp_le_length)
  moreover have "take_bit 32 a = a" for a :: u32
    by (rule bit_word_eqI) (auto simp: bit_simps)
  ultimately show ?thesis
    by (cases rule: spartn_kind_cases [OF assms]) (simp_all add: spartn_crc_bytes_def spartn_check_def)
qed

lemma spartn_tf_embedded:
  assumes "spartn_parts eaf tf auth" and "m = spartn_head typ n eaf kind @ tf @ ys"
    and "unat n < 1024" and "unat kind < 4"
  shows "unat (spartn_tf m) = length tf" "unat (spartn_auth m) = length auth"
proof -
  note h = spartn_head_fields [OF assms(3,4,2)]
  have tf: "tf \<noteq> []" "length tf = (if bit (hd tf) 3 then 6 else 4) + (if eaf then 2 else 0)"
    using assms(1) by (simp_all add: spartn_parts_def)
  have four: "m ! 4 = hd tf" using tf(1) h(1) by (simp add: assms(2) nth_append hd_conv_nth)
  have "(ucast (drop_bit 3 (m ! 4) AND 0x01) :: u16) = 0 \<longleftrightarrow> \<not> bit (hd tf) 3"
    by (simp add: four and_1_bit bit_drop_bit_eq)
  then show t: "unat (spartn_tf m) = length tf" by (simp add: spartn_tf_def h(4) tf(2))
  have "m ! (3 + length tf) = last tf"
    using tf(1) h(1) by (simp add: assms(2) nth_append last_conv_nth)
  moreover have "(ucast (w AND 7) :: u16) \<le> 1 \<longleftrightarrow> \<not> 1 < w AND 7" for w :: u8
    by (simp add: word_le_nat_alt word_less_nat_alt unat_ucast_8_16 not_less)
  ultimately show "unat (spartn_auth m) = length auth"
    using assms(1) h(4) t by (simp add: spartn_auth_def spartn_parts_def Let_def)
qed

lemma spartn_frame_valid:
  assumes "spartn_parts eaf tf auth" and "unat kind < 4" and "1 \<le> length payload" and "length payload < 1024"
  shows "spartn_valid (spartn_frame typ eaf kind tf payload auth)"
    "length (spartn_frame typ eaf kind tf payload auth)
      = 4 + length tf + length payload + length auth + unat (spartn_crc_bytes kind)"
    "hd (spartn_frame typ eaf kind tf payload auth) = 0x73"
proof -
  define n where "n = (of_nat (length payload) :: u16)"
  have n: "unat n = length payload" using assms(4) by (simp add: n_def unat_of_nat_16)
  define k where "k = unat (spartn_crc_bytes kind)"
  define m where "m = spartn_head typ n eaf kind @ tf @ payload @ auth"
  define c where "c = spartn_check kind (drop 1 m)"
  define f where "f = spartn_frame typ eaf kind tf payload auth"
  have f: "f = m @ be_bytes k c"
    by (simp add: f_def spartn_frame_def m_def c_def k_def n_def Let_def)
  then have f': "f = spartn_head typ n eaf kind @ tf @ (payload @ auth @ be_bytes k c)" by (simp add: m_def)
  have small: "unat n < 1024" using n assms(4) by simp
  note h = spartn_head_fields [OF small assms(2) f']
  note t = spartn_tf_embedded [OF assms(1) f' small assms(2)]
  have m: "length m = 4 + length tf + length payload + length auth" by (simp add: m_def h(1))
  have body: "spartn_body f = length m" using t h(3) n m by (simp add: spartn_body_def)
  have len: "length f = length m + k" by (simp add: f be_bytes_def)
  then show "length (spartn_frame typ eaf kind tf payload auth)
      = 4 + length tf + length payload + length auth + unat (spartn_crc_bytes kind)"
    using m by (simp add: f_def k_def)
  have "spartn_shape f"
    using h body len m assms(1,3) n by (auto simp: spartn_shape_def spartn_parts_def k_def Suc_le_eq)
  moreover have "k \<in> {1, 2, 3, 4}"
    using assms(2) by (cases rule: spartn_kind_cases) (simp_all add: k_def spartn_crc_bytes_def)
  then have "be_value (be_bytes k c) = c"
    using spartn_check_bound [OF assms(2)] by (simp add: be_value_bytes k_def c_def)
  ultimately show "spartn_valid (spartn_frame typ eaf kind tf payload auth)"
    unfolding f_def [symmetric] by (simp add: spartn_valid_def body h(5)) (simp add: f c_def)
  show "hd (spartn_frame typ eaf kind tf payload auth) = 0x73"
    by (simp add: spartn_frame_def spartn_head_def Let_def)
qed

end
