(* ===== verification/Lib_Overlay.thy ===== *)
theory Lib_Overlay
  imports Lib_Encoders
begin

text \<open>
  The callback that SBF calls on bytes that belong to no message lies in the scratch union,
  in the place of the kind of CRC and the header CRC of a SPARTN message. With both
  protocols in the table a SPARTN header overwrites it, and the next byte that starts no
  message calls an arbitrary address.
\<close>

lemma lib_parse_room:
  assumes "wf_lib p" and "length (lib_message p) < 32"
  obtains p' where "lib_feed p d = Inr p'" "unat (l_length p) < length (l_buffer p)"
    "sempParseNextByte_lib p d = rbind (lib_call_state (l_state p') p' d) (\<lambda>(p, _). Inr p)"
proof -
  have room: "unat (l_length p) < length (l_buffer p)"
    using assms length_lib_message [OF assms(1)] by (simp add: wf_lib_def)
  obtain p' where p': "lib_feed p d = Inr p'" by (rule lib_feed_eq [OF assms(1) room]) blast
  show thesis using room p' lib_room [OF assms(1)] by (intro that [of p']) (simp_all add: sempParseNextByte_lib_def)
qed

text \<open>\<open>overlay p q\<close>: the table and the callback of SBF are the same in both states.\<close>

definition overlay :: "lib \<Rightarrow> lib \<Rightarrow> bool" where
  "overlay p q \<longleftrightarrow> l_parsers q = l_parsers p \<and> l_functions q = l_functions p
     \<and> (\<forall>i\<ge>12. l_scratchPad q i = l_scratchPad p i)"

lemma overlay_feed:
  assumes "wf_lib p" and "unat (l_length p) < length (l_buffer p)" and "lib_feed p d = Inr p'"
  shows "overlay p p'"
  using lib_feedD [OF assms] by (simp add: overlay_def lib_kept_def)

lemma overlay_start:
  assumes "wf_lib p" and "l_state p = LFirstByte" and "lib_callback_ok p" and "length (lib_message p) < 32"
    and "lib_match (l_parsers p) 0x73 = Some k"
  obtains q where "sempParseNextByte_lib p 0x73 = Inr q" "wf_lib q" "lib_message q = [0x73]"
    "l_state q = LSpartn LSpartnReadTF002TF006" "lib_spartn_frameCount q = 0" "overlay p q"
proof -
  obtain p' where p': "lib_feed p 0x73 = Inr p'" "unat (l_length p) < length (l_buffer p)"
      "sempParseNextByte_lib p 0x73 = rbind (lib_call_state (l_state p') p' 0x73) (\<lambda>(p, _). Inr p)"
    by (rule lib_parse_room [OF assms(1,4)])
  note f = lib_feedD [OF assms(1) p'(2,1)]
  have ov: "overlay p p'" by (rule overlay_feed [OF assms(1) p'(2,1)])
  have "l_parsers p ! k = LSpartnPreamble"
    using lib_match_Some [OF assms(5)] by (cases "l_parsers p ! k") simp_all
  obtain es where "sempFirstByte_lib p' 0x73 =
      rbind (sempSpartnPreamble ((lib_restart p' 0x73)\<lparr>l_log := l_log p' @ es\<rparr>) 0x73)
        (\<lambda>(q, _). Inr (q\<lparr>l_type := of_nat k\<rparr>, True))"
    using sempFirstByte_lib_eq [of p' "0x73" thesis] f(8,9,11) assms(3,5) \<open>l_parsers p ! k = LSpartnPreamble\<close> by auto
  then show thesis
    using p'(3) f(3) assms(2) wf_lib_restart [OF f(8), of "0x73"] lib_message_restart [OF f(8), of "0x73"] ov
    by (intro that [of "(set_lib_spartn_frameCount 0 ((lib_restart p' 0x73)\<lparr>l_log := l_log p' @ es\<rparr>))
          \<lparr>l_state := LSpartn LSpartnReadTF002TF006, l_type := of_nat k\<rparr>"])
      (simp_all add: sempSpartnPreamble_def lib_scratch_defs overlay_def layout_simps)
qed

lemma overlay_header:
  assumes "wf_lib p" and "l_state p = LSpartn LSpartnReadTF002TF006" and "length (lib_message p) < 32"
    and "lib_spartn_frameCount p = 0 \<or> lib_spartn_frameCount p = 1"
  obtains q where "sempParseNextByte_lib p d = Inr q" "wf_lib q" "lib_message q = lib_message p @ [d]"
    "l_state q = LSpartn LSpartnReadTF002TF006" "lib_spartn_frameCount q = lib_spartn_frameCount p + 1" "overlay p q"
proof -
  obtain p' where p': "lib_feed p d = Inr p'" "unat (l_length p) < length (l_buffer p)"
      "sempParseNextByte_lib p d = rbind (lib_call_state (l_state p') p' d) (\<lambda>(p, _). Inr p)"
    by (rule lib_parse_room [OF assms(1,3)])
  note f = lib_feedD [OF assms(1) p'(2,1)]
  have "\<exists>m. sempSpartnReadTF002TF006 p' d = Inr (p'\<lparr>l_scratchPad := m\<rparr>, True)
      \<and> get16 m 0 = lib_spartn_frameCount p + 1 \<and> (\<forall>i\<ge>12. m i = l_scratchPad p i)"
    using assms(4) f(4)
    by (elim disjE) (auto simp: sempSpartnReadTF002TF006_def lib_scratch_defs layout_simps Let_def)
  then obtain m where m: "sempSpartnReadTF002TF006 p' d = Inr (p'\<lparr>l_scratchPad := m\<rparr>, True)"
      "get16 m 0 = lib_spartn_frameCount p + 1" "\<forall>i\<ge>12. m i = l_scratchPad p i" by blast
  show thesis
    using m p'(3) f assms(2) overlay_feed [OF assms(1) p'(2,1)]
    by (intro that [of "p'\<lparr>l_scratchPad := m\<rparr>"]) (simp_all add: lib_spartn_frameCount_def overlay_def)
qed

text \<open>The address that a rejected header leaves in the place of the callback\<close>

definition overlay_address :: "u8 \<Rightarrow> u32" where
  "overlay_address c = le32 (drop_bit 4 c AND 3) (c AND 0x0F) 0 0"

lemma overlay_rejected:
  assumes "wf_lib p" and "l_state p = LSpartn LSpartnReadTF002TF006" and "lib_message p = [0x73, a, b]"
    and "lib_spartn_frameCount p = 2" and "\<not> spartn_header_ok [0x73, a, b, c]"
    and "l_scratchPad p 14 = 0" and "l_scratchPad p 15 = 0"
  obtains q where "sempParseNextByte_lib p c = Inr q" "wf_lib q" "length (lib_message q) = 4" "l_state q = LFirstByte"
    "lib_sbf_invalidDataCallback q = overlay_address c" "l_parsers q = l_parsers p" "l_functions q = l_functions p"
proof -
  obtain p' where p': "lib_feed p c = Inr p'" "unat (l_length p) < length (l_buffer p)"
      "sempParseNextByte_lib p c = rbind (lib_call_state (l_state p') p' c) (\<lambda>(p, _). Inr p)"
    by (rule lib_parse_room [OF assms(1)]) (use assms(3) in simp)
  note f = lib_feedD [OF assms(1) p'(2,1)]
  have m': "lib_message p' = [0x73, a, b, c]" using f(2) assms(3) by simp
  have bad: "foldl crc4_spec 0 [a, b, c AND 0xF0] \<noteq> c AND 0x0F" using assms(5) by (simp add: spartn_header_ok_def)
  define s where "s = (p'\<lparr>l_scratchPad := l_scratchPad (set_lib_spartn_frameCRC (c AND 0x0F)
    (set_lib_spartn_crcBytes (spartn_crc_bytes (drop_bit 4 c AND 3)) (set_lib_spartn_crcType (drop_bit 4 c AND 3)
    (set_lib_spartn_EAF (ucast (drop_bit 6 c AND 1)) (set_lib_spartn_payloadLength
      (push_bit 1 (lib_spartn_payloadLength p') OR ucast (drop_bit 7 c)) p')))))\<rparr>)"
  have "get16 (l_scratchPad p') 0 = 2" using assms(4) f(4) by (simp add: lib_spartn_frameCount_def)
  then have r: "sempSpartnReadTF002TF006 p' c = Inr (sempPrintf_lib (l_printDebug p')
      (LBinary (LSpartnBadHeaderCrc (lib_spartn_messageType p') (l_length p'))) (s\<lparr>l_state := LFirstByte\<rparr>), False)"
    using spartn_buffer [OF m'] bad
    by (simp add: s_def sempSpartnReadTF002TF006_def spartn_header_end_def Let_def lib_scratch_defs layout_simps)
  have "lib_sbf_invalidDataCallback s = overlay_address c"
    using f(4) assms(6,7) by (simp add: s_def lib_scratch_defs layout_simps overlay_address_def get32_def numeral_eq_Suc)
  moreover have "wf_lib s" "lib_message s = [0x73, a, b, c]" using f(8) m' by (simp_all add: s_def)
  moreover have "l_parsers s = l_parsers p" "l_functions s = l_functions p"
    using f(11) f(1) [of LSpartnPreamble] by (simp_all add: s_def lib_kept_def)
  ultimately show thesis
    using p'(3) f(3) assms(2) r
    by (intro that [of "sempPrintf_lib (l_printDebug p')
        (LBinary (LSpartnBadHeaderCrc (lib_spartn_messageType p') (l_length p'))) (s\<lparr>l_state := LFirstByte\<rparr>)"])
      (simp_all add: sempPrintf_lib_def lib_sbf_invalidDataCallback_def split: option.splits)
qed

lemma overlay_walk:
  assumes "length (l_parsers p) = i + n" and "LSbfPreamble \<in> set (drop i (l_parsers p))"
    and "lib_match (drop i (l_parsers p)) d = None"
    and "lib_sbf_invalidDataCallback p \<notin> insert 0 (set (l_functions p))"
  shows "sempFirstByte_loop_lib n i p d = Inl WildCall"
  using assms
proof (induction n arbitrary: i p)
  case 0
  then show ?case by simp
next
  case (Suc n)
  define r where "r = l_parsers p ! i"
  have i: "i < length (l_parsers p)" using Suc.prems(1) by simp
  then have at: "at (l_parsers p) (int i) = Inr r" by (simp add: at_nat r_def)
  have d: "drop i (l_parsers p) = r # drop (Suc i) (l_parsers p)" using i by (simp add: r_def Cons_nth_drop_Suc)
  have ne: "d \<noteq> lib_first r" using Suc.prems(3) d by (auto split: if_splits)
  show ?case
  proof (cases "r = LSbfPreamble")
    case True
    then show ?thesis
      using at ne Suc.prems(4) by (simp add: sempSbfPreamble_def call_invalidData_def Let_def)
  next
    case False
    then obtain es where es: "lib_call_preamble r p d = Inr (p\<lparr>l_log := l_log p @ es\<rparr>, False)"
      using lib_declines [OF ne, of p] by blast
    have "sempFirstByte_loop_lib n (Suc i) (p\<lparr>l_log := l_log p @ es\<rparr>) d = Inl WildCall"
      using Suc.prems d ne False by (intro Suc.IH) (auto simp: lib_sbf_invalidDataCallback_def split: if_splits)
    then show ?thesis using at es by simp
  qed
qed

lemma overlay_wild_call:
  assumes "wf_lib p" and "l_state p = LFirstByte" and "length (lib_message p) < 32"
    and "LSbfPreamble \<in> set (l_parsers p)" and "lib_match (l_parsers p) d = None"
    and "lib_sbf_invalidDataCallback p \<notin> insert 0 (set (l_functions p))"
  shows "sempParseNextByte_lib p d = Inl WildCall"
proof -
  obtain p' where p': "lib_feed p d = Inr p'" "unat (l_length p) < length (l_buffer p)"
      "sempParseNextByte_lib p d = rbind (lib_call_state (l_state p') p' d) (\<lambda>(p, _). Inr p)"
    by (rule lib_parse_room [OF assms(1,3)])
  note f = lib_feedD [OF assms(1) p'(2,1)]
  have "l_functions p' = l_functions p" using f(1) [of LSpartnPreamble] by (simp add: lib_kept_def)
  then have "sempFirstByte_loop_lib (unat (l_parserCount p')) 0 (lib_restart p' d) d = Inl WildCall"
    using assms(4-6) f(4,8,11)
    by (intro overlay_walk) (simp_all add: wf_lib_def lib_sbf_invalidDataCallback_def)
  moreover have "lib_push (p'\<lparr>l_crc := 0, l_computeCrc := None, l_length := 0, l_type := l_parserCount p'\<rparr>) d
      = Inr (lib_restart p' d)"
    using f(8) upd_nat [of 0 "l_buffer p'" d] by (auto simp: lib_push_def lib_restart_def wf_lib_def)
  ultimately show ?thesis using p'(3) f(3) assms(2) by (simp add: sempFirstByte_lib_def)
qed

lemma lib_begun_overlay:
  assumes "lib_begun table bad len p" and "unat len < 65536" and "LSbfPreamble \<in> set table"
    and "lib_match table 0x73 = Some k" and "lib_match table d = None" and "\<not> spartn_header_ok [0x73, a, b, c]"
    and "overlay_address c \<notin> insert 0 (set (l_functions p))"
  shows "run sempParseNextByte_lib p [0x73, a, b, c, d] = Inl WildCall"
proof -
  note p = lib_begunD [OF assms(1,2)]
  have m: "length (lib_message p) < 32" using length_lib_message [OF p(1)] p(8) by simp
  have ok: "lib_callback_ok p"
    using p(7) by (simp add: lib_callback_ok_def lib_sbf_invalidDataCallback_def get32_def le32_def)
  obtain q1 where q1: "sempParseNextByte_lib p 0x73 = Inr q1" "wf_lib q1" "lib_message q1 = [0x73]"
      "l_state q1 = LSpartn LSpartnReadTF002TF006" "lib_spartn_frameCount q1 = 0" "overlay p q1"
    using overlay_start [OF p(1,2) ok m] assms(4) p(3) by blast
  obtain q2 where q2: "sempParseNextByte_lib q1 a = Inr q2" "wf_lib q2" "lib_message q2 = [0x73, a]"
      "l_state q2 = LSpartn LSpartnReadTF002TF006" "lib_spartn_frameCount q2 = 1" "overlay q1 q2"
    using overlay_header [OF q1(2,4), of a] q1(3,5) by auto
  obtain q3 where q3: "sempParseNextByte_lib q2 b = Inr q3" "wf_lib q3" "lib_message q3 = [0x73, a, b]"
      "l_state q3 = LSpartn LSpartnReadTF002TF006" "lib_spartn_frameCount q3 = 2" "overlay q2 q3"
    using overlay_header [OF q2(2,4), of b] q2(3,5) by auto
  have ov: "l_scratchPad q3 14 = 0" "l_scratchPad q3 15 = 0" "l_parsers q3 = table" "l_functions q3 = l_functions p"
    using q1(6) q2(6) q3(6) p(3,7) by (simp_all add: overlay_def)
  obtain q4 where q4: "sempParseNextByte_lib q3 c = Inr q4" "wf_lib q4" "length (lib_message q4) = 4"
      "l_state q4 = LFirstByte" "lib_sbf_invalidDataCallback q4 = overlay_address c" "l_parsers q4 = table"
      "l_functions q4 = l_functions p"
    using overlay_rejected [OF q3(2,4,3,5) assms(6) ov(1,2)] ov(3,4) by metis
  have "sempParseNextByte_lib q4 d = Inl WildCall"
    using q4 assms(3,5,7) by (intro overlay_wild_call) simp_all
  then show ?thesis using q1(1) q2(1) q3(1) q4(1) by simp
qed

end
