(* ===== verification/Lib_Port.thy ===== *)
theory Lib_Port
  imports Lib_Begin
begin

text \<open>
  my_parser was ported from the library. For the three binary protocols that both have
  (the custom protocol of my_parser is the Bluetooth protocol of the library) the port is
  exact: the two parsers, fed the same bytes, go through corresponding states and deliver
  the same messages. \<open>same\<close> is the simulation relation; each routine keeps it.
\<close>

section \<open>The correspondence\<close>

fun port_entry :: "SEMP_PREAMBLE \<Rightarrow> lib_preamble" where
  "port_entry NmeaPreamble = LNmeaPreamble"
| "port_entry RtcmPreamble = LRtcmPreamble"
| "port_entry UbloxPreamble = LUbloxPreamble"
| "port_entry UnicoreBinaryPreamble = LUnicoreBinaryPreamble"
| "port_entry UnicoreHashPreamble = LUnicoreHashPreamble"
| "port_entry CustomPreamble = LBluetoothPreamble"

fun port_crc :: "SEMP_COMPUTE_CRC \<Rightarrow> lib_compute_crc" where
  "port_crc RtcmComputeCrc24q = LRtcmComputeCrc24q"
| "port_crc CustomComputeCrc = LBluetoothComputeCrc"
| "port_crc UnicoreBinaryComputeCrc = LUnicoreBinaryComputeCrc"

fun port_state :: "SEMP_PARSE_ROUTINE \<Rightarrow> lib_routine" where
  "port_state FirstByte = LFirstByte"
| "port_state RtcmReadLength1 = LRtcm LRtcmReadLength1"
| "port_state RtcmReadLength2 = LRtcm LRtcmReadLength2"
| "port_state RtcmReadMessage1 = LRtcm LRtcmReadMessage1"
| "port_state RtcmReadMessage2 = LRtcm LRtcmReadMessage2"
| "port_state RtcmReadData = LRtcm LRtcmReadData"
| "port_state RtcmReadCrc = LRtcm LRtcmReadCrc"
| "port_state UbloxSync2 = LUblox LUbloxSync2"
| "port_state UbloxClass = LUblox LUbloxClass"
| "port_state UbloxId = LUblox LUbloxId"
| "port_state UbloxLength1 = LUblox LUbloxLength1"
| "port_state UbloxLength2 = LUblox LUbloxLength2"
| "port_state UbloxPayload = LUblox LUbloxPayload"
| "port_state UbloxCkA = LUblox LUbloxCkA"
| "port_state UbloxCkB = LUblox LUbloxCkB"
| "port_state CustomSync2 = LBluetooth LBluetoothSync2"
| "port_state CustomSync3 = LBluetooth LBluetoothSync3"
| "port_state CustomReadHeader = LBluetooth LBluetoothReadHeader"
| "port_state CustomReadData = LBluetooth LBluetoothReadData"
| "port_state CustomReadCrc = LBluetooth LBluetoothReadCrc"
| "port_state _ = LNullRoutine"

definition port_table :: "SEMP_PREAMBLE list \<Rightarrow> bool" where
  "port_table tab \<longleftrightarrow> set tab \<subseteq> {RtcmPreamble, UbloxPreamble, CustomPreamble}"

definition same :: "parse \<Rightarrow> lib \<Rightarrow> bool" where
  "same p l \<longleftrightarrow>
     wf_parse p \<and> wf_lib l \<and> port_table (parsers_table p) \<and> l_parsers l = map port_entry (parsers_table p)
     \<and> unat (l_bufferLength l) = unat (buffer_length p) \<and> lib_message l = message p \<and> l_crc l = crc p
     \<and> computeCrc p \<noteq> Some UnicoreBinaryComputeCrc \<and> l_computeCrc l = map_option port_crc (computeCrc p)
     \<and> l_scratchPad l = scratchPad p \<and> l_state l = port_state (state p) \<and> l_type l = ucast (parser_type p)
     \<and> badCrc p = None \<and> l_badCrc l = None \<and> lib_delivered l = delivered p"

lemma sameD:
  assumes "same p l"
  shows "wf_parse p" "wf_lib l" "port_table (parsers_table p)" "l_parsers l = map port_entry (parsers_table p)"
    "unat (l_bufferLength l) = unat (buffer_length p)" "lib_message l = message p" "l_crc l = crc p"
    "computeCrc p \<noteq> Some UnicoreBinaryComputeCrc" "l_computeCrc l = map_option port_crc (computeCrc p)"
    "l_scratchPad l = scratchPad p" "l_state l = port_state (state p)" "l_type l = ucast (parser_type p)"
    "badCrc p = None" "l_badCrc l = None" "lib_delivered l = delivered p"
  using assms by (simp_all add: same_def)

lemma same_length:
  assumes "same p l"
  shows "unat (l_length l) = unat (msg_length p)" "length (l_buffer l) = length (buffer p)"
proof -
  note s = sameD [OF assms]
  have "unat (l_length l) = length (lib_message l)" "unat (msg_length p) = length (message p)"
    using s(1,2) by (simp_all add: length_lib_message message_def wf_parse_def)
  then show "unat (l_length l) = unat (msg_length p)" using s(6) by simp
  show "length (l_buffer l) = length (buffer p)" using s(1,2,5) by (simp add: wf_parse_def wf_lib_def)
qed

text \<open>What keeps the relation: the same update on both sides.\<close>

lemma same_update:
  assumes "same p l"
  shows "t = port_state s \<Longrightarrow> same (p\<lparr>state := s\<rparr>) (l\<lparr>l_state := t\<rparr>)"
    "same (p\<lparr>scratchPad := m\<rparr>) (l\<lparr>l_scratchPad := m\<rparr>)"
    "same (p\<lparr>crc := c\<rparr>) (l\<lparr>l_crc := c\<rparr>)"
    "eoms es = lib_eoms fs \<Longrightarrow> same (p\<lparr>log := log p @ es\<rparr>) (l\<lparr>l_log := l_log l @ fs\<rparr>)"
    "same (p\<lparr>msg_length := 0\<rparr>) (l\<lparr>l_length := 0\<rparr>)"
  using sameD [OF assms]
  by (simp_all add: same_def wf_parse_def wf_lib_def lib_message_def message_def)

section \<open>The common start of a byte\<close>

lemma crc32_tables_equal: "semp_crc32Table_lib = semp_crc32Table"
  by (simp add: semp_crc32Table_def semp_crc32Table_lib_def)

lemma same_next_crc:
  assumes "same p l"
  shows "lib_next_crc l d = next_crc p d"
proof -
  note s = sameD [OF assms]
  show ?thesis
    using s(7-9)
    by (auto simp: crc32_tables_equal lib_next_crc_def next_crc_def sempRtcmComputeCrc24q_lib_def crc24q_step_def
        sempBluetoothComputeCrc_lib_def crc32_step_def Let_def split: option.splits SEMP_COMPUTE_CRC.splits)
qed

lemma same_feed:
  assumes "same p l" and "unat (msg_length p) < length (buffer p)"
    and "feed p d = Inr p'" and "lib_feed l d = Inr l'"
  shows "same p' l'" "state p' = state p"
proof -
  note s = sameD [OF assms(1)]
  have room: "unat (l_length l) < length (l_buffer l)" using assms(2) same_length [OF assms(1)] by simp
  note f = feedD [OF s(1) assms(2) s(8) assms(3)]
  note g = lib_feedD [OF s(2) room assms(4)]
  have "l_bufferLength l' = l_bufferLength l" using g(1) by (simp add: lib_kept_def)
  then show "same p' l'"
    using s f g same_next_crc [OF assms(1), of d] by (simp add: same_def unchanged_def)
  show "state p' = state p" by (rule f(3))
qed

section \<open>The search for the protocol\<close>

lemma port_first: "r \<in> {RtcmPreamble, UbloxPreamble, CustomPreamble} \<Longrightarrow> d = lib_first (port_entry r) \<longleftrightarrow> d \<in> first_bytes r"
  by auto

lemma port_match: "port_table tab \<Longrightarrow> lib_match (map port_entry tab) d = first_match tab d"
proof (induction tab)
  case (Cons r tab)
  then have "r \<in> {RtcmPreamble, UbloxPreamble, CustomPreamble}" "port_table tab" by (simp_all add: port_table_def)
  then show ?case using Cons.IH port_first [of r d] by simp
qed simp

lemma same_restart:
  assumes "same p l" and "lib_eoms es = []"
  shows "same ((restart p d)\<lparr>state := s\<rparr>) ((lib_restart l d)\<lparr>l_log := l_log l @ es, l_state := port_state s\<rparr>)"
proof -
  note s = sameD [OF assms(1)]
  have "unat (l_parserCount l) = unat (parsers_count p)"
    using s(1,2,4) by (simp add: wf_parse_def wf_lib_def)
  then have "l_parserCount l = ucast (parsers_count p)" by (simp add: word_unat_eq_iff unat_ucast_8_16)
  then show ?thesis
    using s assms(2) message_restart [OF s(1), of d] lib_message_restart [OF s(2), of d] wf_lib_restart [OF s(2), of d]
    by (simp add: same_def) (simp add: lib_restart_def)
qed

lemma same_preamble:
  assumes "same (p\<lparr>state := s\<rparr>) (l\<lparr>l_state := port_state s\<rparr>)" and "crc p = 0"
    and "r \<in> {RtcmPreamble, UbloxPreamble, CustomPreamble}" and "d \<in> first_bytes r"
    and "call_preamble r p d = Inr (q, b)" and "lib_call_preamble (port_entry r) l d = Inr (m, c)"
  shows "same q m"
proof -
  note s = sameD [OF assms(1)]
  show ?thesis
    using s assms(3-6)
    by (auto simp: crc32_tables_equal same_def sempRtcmPreamble_def sempRtcmPreamble_lib_def sempUbloxPreamble_def
        sempUbloxPreamble_lib_def sempCustomPreamble_def sempBluetoothPreamble_lib_def
        sempRtcmComputeCrc24q_def sempRtcmComputeCrc24q_lib_def crc24q_step_def sempCustomComputeCrc_def
        sempBluetoothComputeCrc_lib_def crc32_step_def Let_def)
qed

lemma same_first_byte:
  assumes "same p l" and "sempFirstByte p d = Inr (q, b)" and "sempFirstByte_lib l d = Inr (m, c)"
  shows "same q m"
proof -
  note s = sameD [OF assms(1)]
  have "LSbfPreamble \<in> set (l_parsers l) \<longrightarrow> lib_callback_ok l" using s(3,4) by (auto simp: port_table_def)
  then obtain es where es: "lib_eoms es = []" "sempFirstByte_lib l d =
    (case lib_match (l_parsers l) d of
       None \<Rightarrow> Inr ((lib_restart l d)\<lparr>l_log := l_log l @ es, l_state := LFirstByte\<rparr>, False)
     | Some k \<Rightarrow>
         rbind (lib_call_preamble (l_parsers l ! k) ((lib_restart l d)\<lparr>l_log := l_log l @ es\<rparr>) d)
           (\<lambda>(q, _). Inr (q\<lparr>l_type := of_nat k\<rparr>, True)))"
    by (rule sempFirstByte_lib_eq [OF s(2)])
  have match: "lib_match (l_parsers l) d = first_match (parsers_table p) d" using port_match [OF s(3)] s(4) by simp
  show ?thesis
  proof (cases "first_match (parsers_table p) d")
    case None
    then have "q = (restart p d)\<lparr>state := FirstByte\<rparr>"
        "m = (lib_restart l d)\<lparr>l_log := l_log l @ es, l_state := LFirstByte\<rparr>"
      using assms(2,3) es(2) sempFirstByte_eq [OF s(1), of d] match by simp_all
    then show ?thesis using same_restart [OF assms(1) es(1), where d = d and s = FirstByte] by simp
  next
    case (Some k)
    define r where "r = parsers_table p ! k"
    have k: "k < length (parsers_table p)" "d \<in> first_bytes r" using first_match_Some [OF Some] by (simp_all add: r_def)
    have r: "r \<in> {RtcmPreamble, UbloxPreamble, CustomPreamble}" "l_parsers l ! k = port_entry r"
      using subsetD [OF s(3) [unfolded port_table_def] nth_mem [OF k(1)]] s(4) k(1) by (simp_all add: r_def)
    obtain q0 b0 m0 c0 where q0: "call_preamble r (restart p d) d = Inr (q0, b0)" "q = q0\<lparr>parser_type := of_nat k\<rparr>"
        and m0: "lib_call_preamble (port_entry r) ((lib_restart l d)\<lparr>l_log := l_log l @ es\<rparr>) d = Inr (m0, c0)"
        "m = m0\<lparr>l_type := of_nat k\<rparr>"
      using assms(2,3) es(2) sempFirstByte_eq [OF s(1), of d] match Some r(2)
      by (auto simp: rbind_Inr_iff r_def [symmetric])
    have "same q0 m0"
      by (rule same_preamble [OF _ _ r(1) k(2) q0(1) m0(1)]) (use same_restart [OF assms(1) es(1)] in simp_all)
    moreover have "k < 256"
      using k(1) s(1) unat_u8_less [of "parsers_count p"] by (simp add: wf_parse_def)
    ultimately show ?thesis
      using q0(2) m0(2) by (simp add: same_def ucast_of_nat_8_16)
  qed
qed

section \<open>The routines\<close>

lemma same_printf:
  assumes "same p l"
  shows "same (sempPrintf cb e p) (sempPrintf_lib cb' e' l)"
  using sameD [OF assms]
  by (cases cb; cases cb') (simp_all add: same_def sempPrintf_def sempPrintf_lib_def message_def wf_parse_def)

text \<open>The end of a message: both deliver it or both report it.\<close>

lemma same_finish:
  assumes "same p l"
    and "(let (p, accepted) = crc_accepted ok p
          in rbind (if accepted then call_eom p else reject p) (\<lambda>p. Inr (idle p, False))) = Inr (q, b)"
    and "(let (l, accepted) = lib_crc_accepted ok l
          in rbind (if accepted then lib_call_eom l else lib_reject l) (\<lambda>l. Inr (lib_idle l, False))) = Inr (m, c)"
    and "\<And>p'. reject p = Inr p' \<Longrightarrow> \<exists>cb e. p' = sempPrintf cb e p"
    and "\<And>l'. lib_reject l = Inr l' \<Longrightarrow> \<exists>cb e. l' = sempPrintf_lib cb e l"
    and idle: "\<And>p l. same p l \<Longrightarrow> same (idle p) (lib_idle l)"
  shows "same q m"
proof -
  note s = sameD [OF assms(1)]
  have acc: "crc_accepted ok p = (p, ok)" "lib_crc_accepted ok l = (l, ok)"
    using s(13,14) by (simp_all add: crc_accepted_def lib_crc_accepted_def)
  show ?thesis
  proof (cases ok)
    case True
    then obtain a c where "q = idle (p\<lparr>log := log p @ [Eom a (ucast (parser_type p)) (message p)]\<rparr>)"
        "m = lib_idle (l\<lparr>l_log := l_log l @ [LEom c (l_type l) (lib_message l)]\<rparr>)"
      using assms(2,3) acc by (auto simp: call_eom_def lib_call_eom_def split: option.splits)
    then show ?thesis using same_update(4) [OF assms(1)] s(6,12) by (auto intro: idle)
  next
    case False
    then obtain p' l' where "reject p = Inr p'" "q = idle p'" "lib_reject l = Inr l'" "m = lib_idle l'"
      using assms(2,3) acc by (auto simp: rbind_Inr_iff)
    moreover obtain cb e cb' e' where "p' = sempPrintf cb e p" "l' = sempPrintf_lib cb' e' l"
      using assms(4,5) calculation by blast
    ultimately show ?thesis by (simp add: idle same_printf [OF assms(1)])
  qed
qed

lemma same_rtcm:
  assumes "same p l" and "state p \<in> {RtcmReadLength1, RtcmReadLength2, RtcmReadMessage1, RtcmReadMessage2, RtcmReadData}"
    and "call_state (state p) p d = Inr (q, b)" and "lib_call_state (l_state l) l d = Inr (m, c)"
  shows "same q m"
proof (cases "state p = RtcmReadLength1 \<and> d AND NOT 3 \<noteq> 0")
  case True
  then show ?thesis
    using assms(3,4) sameD(11) [OF assms(1)] same_first_byte [OF assms(1)]
    by (simp add: sempRtcmReadLength1_def sempRtcmReadLength1_lib_def)
next
  case False
  note s = sameD(7,10,11) [OF assms(1)]
  from assms(2) show ?thesis
    using assms(3,4) False s
    by (elim insertE emptyE; hypsubst?)
      (auto simp: sempRtcmReadLength1_def sempRtcmReadLength1_lib_def sempRtcmReadLength2_def
        sempRtcmReadLength2_lib_def sempRtcmReadMessage1_def sempRtcmReadMessage1_lib_def
        sempRtcmReadMessage2_def sempRtcmReadMessage2_lib_def sempRtcmReadData_def sempRtcmReadData_lib_def
        scratch_defs lib_scratch_defs Let_def same_update assms(1) split: if_splits)
qed

lemma same_rtcm_crc:
  assumes "same p l" and "state p = RtcmReadCrc"
    and "call_state (state p) p d = Inr (q, b)" and "lib_call_state (l_state l) l d = Inr (m, c)"
  shows "same q m"
proof -
  note s = sameD [OF assms(1)]
  define p1 where "p1 = set_rtcm_bytesRemaining (rtcm_bytesRemaining p - 1) p"
  define l1 where "l1 = set_lib_rtcm_bytesRemaining (lib_rtcm_bytesRemaining l - 1) l"
  have same1: "same p1 l1" "rtcm_bytesRemaining p1 = lib_rtcm_bytesRemaining l1"
    using same_update(2) [OF assms(1)] s(10) by (simp_all add: p1_def l1_def scratch_defs lib_scratch_defs)
  show ?thesis
  proof (cases "rtcm_bytesRemaining p1 > 0")
    case True
    then show ?thesis
      using assms(2-4) s(11) same1 by (simp add: sempRtcmReadCrc_def sempRtcmReadCrc_lib_def p1_def l1_def)
  next
    case False
    show ?thesis
    proof (rule same_finish [OF same1(1)])
      show "(let (p, accepted) = crc_accepted (crc p1 = 0) p1
          in rbind (if accepted then call_eom p else Inr (sempPrintf (printDebug p) RtcmBadCrc p))
            (\<lambda>p. Inr (p\<lparr>state := FirstByte\<rparr>, False))) = Inr (q, b)"
        using assms(2,3) False by (simp add: sempRtcmReadCrc_def p1_def Let_def)
      show "(let (p, accepted) = lib_crc_accepted (crc p1 = 0) l1
          in rbind (if accepted then lib_call_eom p
                     else rbind (lib_last 3 p) (\<lambda>bs.
                       Inr (sempPrintf_lib (l_printDebug p)
                              (LBinary (LRtcmBadCrc (lib_rtcm_message p) (l_length p) bs (lib_rtcm_crc p))) p)))
            (\<lambda>p. Inr (p\<lparr>l_state := LFirstByte\<rparr>, False))) = Inr (m, c)"
        using assms(2,4) s(11) False same1(2) sameD(7) [OF same1(1)]
        by (simp add: sempRtcmReadCrc_lib_def l1_def Let_def)
    qed (auto simp: rbind_Inr_iff same_update)
  qed
qed

text \<open>The bytes that both read from their buffers.\<close>

lemma at_Inr_nat: "at xs i = Inr v \<longleftrightarrow> 0 \<le> i \<and> nat i < length xs \<and> v = xs ! nat i"
  by (auto simp: at_def)

lemma same_at:
  assumes "same p l" and "i < unat (msg_length p)" and "at (buffer p) (int i) = Inr a" and "at (l_buffer l) (int i) = Inr b"
  shows "a = b"
proof -
  have "message p ! i = buffer p ! i" "lib_message l ! i = l_buffer l ! i"
    using assms(2) same_length(1) [OF assms(1)] by (simp_all add: message_def lib_message_def)
  then show ?thesis using assms(3,4) sameD(6) [OF assms(1)] by (simp add: at_Inr_nat)
qed

lemma same_back:
  assumes "same p l" and "0 < k" and "buffer_back p (int k) = Inr a" and "lib_back l (int k) = Inr b"
  shows "a = b"
proof -
  have k0: "int k \<le> int (unat (msg_length p))" using assms(3) by (simp add: buffer_back_def at_Inr_nat)
  have k: "k \<le> unat (msg_length p)"
    using k0 by (simp only: of_nat_le_iff)
  moreover have "l_length l = msg_length p" using same_length(1) [OF assms(1)] by (simp add: word_unat_eq_iff)
  ultimately have "uint (msg_length p) - int k = int (unat (msg_length p) - k)"
      "uint (l_length l) - int k = int (unat (msg_length p) - k)"
    by (simp_all add: of_nat_diff)
  then show ?thesis
    using assms(2-4) k by (intro same_at [OF assms(1), of "unat (msg_length p) - k"]) (simp_all add: buffer_back_def lib_back_def)
qed

lemma same_ublox:
  assumes "same p l" and "state p \<in> {UbloxSync2, UbloxClass, UbloxId, UbloxLength1, UbloxLength2, UbloxPayload, UbloxCkA}"
    and "call_state (state p) p d = Inr (q, b)" and "lib_call_state (l_state l) l d = Inr (m, c)"
  shows "same q m"
proof (cases "state p = UbloxSync2 \<and> d \<noteq> 0x62")
  case True
  then show ?thesis
    using assms(3,4) sameD(11) [OF assms(1)] same_first_byte [OF same_printf [OF assms(1)]]
    by (simp add: sempUbloxSync2_def sempUbloxSync2_lib_def)
next
  case False
  note s = sameD(7,10,11) [OF assms(1)]
  from assms(2) show ?thesis
    using assms(3,4) False s
    by (elim insertE emptyE; hypsubst?)
      (auto simp: sempUbloxSync2_def sempUbloxSync2_lib_def sempUbloxClass_def sempUbloxClass_lib_def
        sempUbloxId_def sempUbloxId_lib_def sempUbloxLength1_def sempUbloxLength1_lib_def sempUbloxLength2_def
        sempUbloxLength2_lib_def sempUbloxPayload_def sempUbloxPayload_lib_def sempUbloxCkA_def
        sempUbloxCkA_lib_def ublox_checksum_def lib_ublox_checksum_def
        scratch_defs lib_scratch_defs Let_def same_update assms(1) split: if_splits)
qed

lemma same_ublox_end:
  assumes "same p l" and "state p = UbloxCkB"
    and "call_state (state p) p d = Inr (q, b)" and "lib_call_state (l_state l) l d = Inr (m, c)"
  shows "same q m"
proof -
  note s = sameD [OF assms(1)]
  obtain x y where x: "buffer_back p 2 = Inr x" "buffer_back p 1 = Inr y"
    using assms(2,3) by (cases "buffer_back p 2"; cases "buffer_back p 1") (simp_all add: sempUbloxCkB_def)
  obtain x' y' where x': "lib_back l 2 = Inr x'" "lib_back l 1 = Inr y'"
    using assms(2,4) s(11) by (cases "lib_back l 2"; cases "lib_back l 1") (simp_all add: sempUbloxCkB_lib_def)
  have eq: "x' = x" "y' = y"
    using same_back [OF assms(1), where k = 2 and a = x and b = x'] same_back [OF assms(1), where k = 1 and a = y and b = y']
      x x' by simp_all
  define ok where "ok \<longleftrightarrow> \<not> (x \<noteq> ublox_ck_a p \<or> y \<noteq> ublox_ck_b p)"
  show ?thesis
  proof (rule same_finish [OF assms(1)])
    show "(let (p, accepted) = crc_accepted ok p
        in rbind (if accepted then call_eom p else Inr (sempPrintf (printDebug p) UbloxBadChecksum p))
          (\<lambda>p. Inr (p\<lparr>msg_length := 0, state := FirstByte\<rparr>, False))) = Inr (q, b)"
      using assms(2,3) x by (simp add: sempUbloxCkB_def ok_def)
    show "(let (l, accepted) = lib_crc_accepted ok l
        in rbind (if accepted then lib_call_eom l
                 else Inr (sempPrintf_lib (l_printDebug l)
                             (LBinary (LUbloxBadChecksum [x, y] (lib_ublox_ck_a l) (lib_ublox_ck_b l))) l))
          (\<lambda>l. Inr (l\<lparr>l_length := 0, l_state := LFirstByte\<rparr>, False))) = Inr (m, c)"
      using assms(2,4) x' eq s(10,11)
      by (simp add: sempUbloxCkB_lib_def ok_def ublox_ck_a_def ublox_ck_b_def lib_ublox_ck_a_def lib_ublox_ck_b_def)
  qed (auto simp: same_update)
qed

lemma same_custom:
  assumes "same p l" and "state p \<in> {CustomSync2, CustomSync3, CustomReadData}"
    and "call_state (state p) p d = Inr (q, b)" and "lib_call_state (l_state l) l d = Inr (m, c)"
  shows "same q m"
proof -
  note s = sameD(7,10,11) [OF assms(1)]
  from assms(2) show ?thesis
    using assms(3,4) s same_first_byte [OF assms(1), of d q b m c]
    by (elim insertE emptyE; hypsubst?)
      (auto simp: sempCustomSync2_def sempBluetoothSync2_lib_def sempCustomSync3_def sempBluetoothSync3_lib_def
        sempCustomReadData_def sempBluetoothReadData_lib_def
        scratch_defs lib_scratch_defs Let_def same_update assms(1) split: if_splits)
qed

lemma same_custom_header:
  assumes "same p l" and "state p = CustomReadHeader"
    and "call_state (state p) p d = Inr (q, b)" and "lib_call_state (l_state l) l d = Inr (m, c)"
  shows "same q m"
proof (cases "20 \<le> unat (msg_length p)")
  case True
  note s = sameD [OF assms(1)]
  have len: "20 \<le> unat (l_length l)" using True same_length(1) [OF assms(1)] by simp
  obtain n where n: "custom_messageLength p = Inr n" "q = (set_custom_bytesRemaining n p)\<lparr>state := CustomReadData\<rparr>"
    using assms(2,3) True by (auto simp: sempCustomReadHeader_def sizeof_SEMP_CUSTOM_HEADER_def rbind_Inr_iff Let_def)
  obtain n' where n': "lib_bluetooth_messageLength l = Inr n'"
      "m = (set_lib_bluetooth_bytesRemaining n' l)\<lparr>l_state := LBluetooth LBluetoothReadData\<rparr>"
    using assms(2,4) s(11) len
    by (auto simp: sempBluetoothReadHeader_lib_def sizeof_SEMP_Bluetooth_HEADER_def rbind_Inr_iff Let_def)
  have "n' = n"
    using n(1) n'(1) same_at [OF assms(1), of 12] same_at [OF assms(1), of 13] True
    by (auto simp: custom_messageLength_def lib_bluetooth_messageLength_def rbind_Inr_iff)
  then show ?thesis using n(2) n'(2) s(10) by (simp add: scratch_defs lib_scratch_defs same_update assms(1))
next
  case False
  then show ?thesis
    using assms same_length(1) [OF assms(1)] sameD(11) [OF assms(1)]
    by (simp add: sempCustomReadHeader_def sempBluetoothReadHeader_lib_def sizeof_SEMP_CUSTOM_HEADER_def
        sizeof_SEMP_Bluetooth_HEADER_def)
qed

lemma same_custom_crc:
  assumes "same p l" and "state p = CustomReadCrc"
    and "call_state (state p) p d = Inr (q, b)" and "lib_call_state (l_state l) l d = Inr (m, c)"
  shows "same q m"
proof -
  note s = sameD [OF assms(1)]
  define p1 where "p1 = set_custom_bytesRemaining (custom_bytesRemaining p - 1) p"
  define l1 where "l1 = set_lib_bluetooth_bytesRemaining (lib_bluetooth_bytesRemaining l - 1) l"
  have same1: "same p1 l1" "custom_bytesRemaining p1 = lib_bluetooth_bytesRemaining l1"
    using same_update(2) [OF assms(1)] s(10) by (simp_all add: p1_def l1_def scratch_defs lib_scratch_defs)
  show ?thesis
  proof (cases "custom_bytesRemaining p1 = 0")
    case False
    then show ?thesis
      using assms(2-4) s(11) same1 by (simp add: sempCustomReadCrc_def sempBluetoothReadCrc_lib_def p1_def l1_def)
  next
    case True
    show ?thesis
    proof (rule same_finish [OF same1(1)])
      show "(let (p, accepted) = crc_accepted (crc p1 = 0) p1
          in rbind (if accepted then call_eom p else custom_print_bad_crc p)
            (\<lambda>p. Inr (p\<lparr>state := FirstByte\<rparr>, False))) = Inr (q, b)"
        using assms(2,3) True by (simp add: sempCustomReadCrc_def p1_def Let_def)
      show "(let (p, accepted) = lib_crc_accepted (crc p1 = 0) l1
          in rbind (if accepted then lib_call_eom p
                     else rbind (lib_last 4 p) (\<lambda>bs.
                       Inr (sempPrintf_lib (l_printDebug p)
                              (LBinary (LBluetoothBadCrc bs (lib_bluetooth_crc p))) p)))
            (\<lambda>p. Inr (p\<lparr>l_state := LFirstByte\<rparr>, False))) = Inr (m, c)"
        using assms(2,4) s(11) True same1(2) sameD(7) [OF same1(1)]
        by (simp add: sempBluetoothReadCrc_lib_def l1_def Let_def)
    qed (auto simp: rbind_Inr_iff custom_print_bad_crc_def same_update)
  qed
qed

section \<open>Byte streams\<close>

lemma port_states:
  assumes "parser_inv p" and "port_table (parsers_table p)"
  shows "state p \<in> {FirstByte} \<union> {RtcmReadLength1, RtcmReadLength2, RtcmReadMessage1, RtcmReadMessage2, RtcmReadData}
    \<union> {RtcmReadCrc}
    \<union> {UbloxSync2, UbloxClass, UbloxId, UbloxLength1, UbloxLength2, UbloxPayload, UbloxCkA} \<union> {UbloxCkB}
    \<union> {CustomSync2, CustomSync3, CustomReadData} \<union> {CustomReadHeader} \<union> {CustomReadCrc}"
proof (cases "state p = FirstByte")
  case False
  then obtain r where r: "selected r p" "pinv_of r p" using assms(1) by (auto simp: parser_inv_def)
  then have "r \<in> {RtcmPreamble, UbloxPreamble, CustomPreamble}"
    using assms(2) nth_mem [of "unat (parser_type p)" "parsers_table p"]
    unfolding port_table_def selected_def by blast
  then show ?thesis
    using r(2)
    by (elim insertE emptyE)
      (auto simp: rtcm_inv_def ublox_inv_def custom_inv_def Let_def split: SEMP_PARSE_ROUTINE.splits)
qed simp

lemma same_routine:
  assumes "same p l" and "state p \<in> {FirstByte} \<union> {RtcmReadLength1, RtcmReadLength2, RtcmReadMessage1, RtcmReadMessage2, RtcmReadData}
    \<union> {RtcmReadCrc}
    \<union> {UbloxSync2, UbloxClass, UbloxId, UbloxLength1, UbloxLength2, UbloxPayload, UbloxCkA} \<union> {UbloxCkB}
    \<union> {CustomSync2, CustomSync3, CustomReadData} \<union> {CustomReadHeader} \<union> {CustomReadCrc}"
    and "call_state (state p) p d = Inr (q, b)" and "lib_call_state (l_state l) l d = Inr (m, c)"
  shows "same q m"
proof (cases "state p = FirstByte")
  case True
  then show ?thesis using same_first_byte [OF assms(1)] assms(3,4) sameD(11) [OF assms(1)] by simp
next
  case False
  show ?thesis
    using assms(2) False same_rtcm [OF assms(1) _ assms(3,4)] same_rtcm_crc [OF assms(1) _ assms(3,4)]
      same_ublox [OF assms(1) _ assms(3,4)] same_ublox_end [OF assms(1) _ assms(3,4)]
      same_custom [OF assms(1) _ assms(3,4)] same_custom_header [OF assms(1) _ assms(3,4)]
      same_custom_crc [OF assms(1) _ assms(3,4)]
    by (elim UnE) (simp only: singleton_iff)+
qed

lemma same_step:
  assumes "same p l" and "parser_inv p" and "sempParseNextByte p d = Inr q" and "sempParseNextByte_lib l d = Inr m"
  shows "same q m"
proof (cases "unat (msg_length p) < length (buffer p)")
  case True
  note s = sameD [OF assms(1)]
  have room: "\<not> buffer_length p \<le> msg_length p" "\<not> l_bufferLength l \<le> ucast (l_length l)"
    using True s(1) same_length [OF assms(1)] lib_room [OF s(2)] by (simp_all add: wf_parse_def word_le_nat_alt)
  obtain p' b where p': "feed p d = Inr p'" "call_state (state p') p' d = Inr (q, b)"
    using assms(3) room(1) by (auto simp: sempParseNextByte_def rbind_Inr_iff)
  obtain l' c where l': "lib_feed l d = Inr l'" "lib_call_state (l_state l') l' d = Inr (m, c)"
    using assms(4) room(2) by (auto simp: sempParseNextByte_lib_def rbind_Inr_iff)
  note f = same_feed [OF assms(1) True p'(1) l'(1)]
  show ?thesis
    by (rule same_routine [OF f(1) _ p'(2) l'(2)]) (use port_states [OF assms(2) s(3)] f(2) in simp)
next
  case False
  note s = sameD [OF assms(1)]
  have full: "buffer_length p \<le> msg_length p" "l_bufferLength l \<le> ucast (l_length l)"
    using False s(1) same_length [OF assms(1)] lib_room [OF s(2)] by (simp_all add: wf_parse_def word_le_nat_alt)
  obtain b where "sempFirstByte (sempPrintf (printError p) MessageTooLong p) d = Inr (q, b)"
    using assms(3) full(1) by (auto simp: sempParseNextByte_def rbind_Inr_iff)
  moreover obtain c where "sempFirstByte_lib (sempPrintf_lib (l_printError l)
      (LBinary (LMessageTooLong (l_bufferLength l))) l) d = Inr (m, c)"
    using assms(4) full(2) by (auto simp: sempParseNextByte_lib_def rbind_Inr_iff)
  ultimately show ?thesis by (rule same_first_byte [OF same_printf [OF assms(1)]])
qed

lemma same_run:
  assumes "same p l" and "safe_inv p" and "lib_inv l"
  shows "\<exists>q m. run sempParseNextByte p bs = Inr q \<and> run sempParseNextByte_lib l bs = Inr m \<and> same q m"
  using assms
proof (induction bs arbitrary: p l)
  case (Cons d bs)
  obtain q where q: "sempParseNextByte p d = Inr q" "safe_inv q" using safe_step [OF Cons.prems(2)] by blast
  obtain m where m: "sempParseNextByte_lib l d = Inr m" "lib_inv m" using lib_step [OF Cons.prems(3)] by blast
  have "parser_inv p" using Cons.prems(2) by (simp add: safe_inv_def)
  then have "same q m" by (rule same_step [OF Cons.prems(1) _ q(1) m(1)])
  then show ?case using Cons.IH [OF _ q(2) m(2)] q(1) m(1) by simp
qed simp

lemma begun_same:
  assumes "begun table None len p" and "lib_begun (map port_entry table) None (ucast len) l"
    and "port_table table" and "256 \<le> len"
  shows "same p l" "safe_inv p" "lib_inv l"
proof -
  have len: "unat (ucast len :: u32) = unat len" by (rule unat_ucast_16_32)
  then have "unat (ucast len :: u32) < 65536" using unat_u16_less [of len] by simp
  note l = lib_begunD [OF assms(2) this]
  note p = begunD [OF assms(1)]
  have "256 \<le> unat len" using assms(4) by (simp add: word_le_nat_alt)
  then have "unat (l_bufferLength l) = unat (buffer_length p)"
    using p(1,7) l(6) len by (simp add: wf_parse_def)
  moreover have "message p = []" "lib_message l = []" using p(9) l(8) by (simp_all add: message_def lib_message_def)
  ultimately show "same p l" using p l assms(3) by (simp add: same_def)
  have "UnicoreBinaryPreamble \<notin> set table" "UnicoreHashPreamble \<notin> set table"
    using assms(3) by (auto simp: port_table_def)
  then show "safe_inv p" using begun_inv [OF assms(1)] p(3) by (simp add: safe_inv_def)
  have "set (map port_entry table) \<subseteq> set lib_binary" "lib_sane (map port_entry table)"
    using assms(3) by (auto simp: port_table_def lib_binary_def lib_sane_def)
  then show "lib_inv l"
    using lib_begun_inv [OF assms(2)] \<open>unat (ucast len :: u32) < 65536\<close> by blast
qed

end
