(* ===== verification/Spec2Isabelle.thy ===== *)
theory Spec2Isabelle
  imports Error_Detection Multi_Shared Lib_Overlay Lib_Port
begin

text \<open>
  \<^bold>\<open>The program.\<close> The repository holds parsers that find messages of GNSS receivers
  in a raw byte stream. Every parser is fed one byte at a time, keeps the message read so
  far in a buffer and the progress of the current protocol in a state routine and a
  scratch area, and calls the application back with each complete message.

  \<^item> my_parser: the parser the build compiles, C. An application hands a table of
    protocol entry points to \<^verbatim>\<open>sempBeginParser\<close> and every byte to
    \<^verbatim>\<open>sempParseNextByte\<close>. Protocols: NMEA, RTCM 3, u-blox, a custom binary protocol,
    Unicore binary, Unicore sentences.
  \<^item> single_parser/semp_parser.c: a parser for the custom binary protocol alone.
  \<^item> single_parser/multi_protocol_parser.c: a parser with a fixed table of three protocols
    and statistics.
  \<^item> lib: the SparkFun message parser library, C++, that my_parser was ported from, with two
    more protocols (SBF, SPARTN) and the custom protocol under the name Bluetooth. The build
    includes only its table semp_crc24q.h.

  \<^bold>\<open>Common conventions.\<close> C integers are words of their width, so arithmetic wraps
  as in C. What C leaves undefined (an access outside an object, a null pointer, a missing
  return value, a call of an address that is no function) is a value of \<open>fault\<close>, and an
  operation returns \<open>Inl\<close> of it or \<open>Inr\<close> of its result (\<open>Prelude\<close>). A parser
  structure is a record with the fields
  of the C structure; the scratch union is a byte memory whose members are read and written
  at their offsets, so they overlap as in C. A routine pointer is a datatype value with one
  constructor per routine, a call through it a case distinction. A callback is an address;
  calls to it are entries of a log in the record, which is not part of the C structure.
  Only the bad-CRC callback returns something: it is an arbitrary function of the data it
  can read. Callbacks do not write to the parser. The allocator is a parameter: it returns
  memory with arbitrary contents or refuses. Printed text is a value of a datatype with one
  constructor per format string.

  \<^bold>\<open>my_parser.\<close> \<open>Message_Types\<close>: Message_Parser.h. \<open>Preambles\<close>: the entry
  points of the six protocol files. \<open>Message_Parser\<close>: \<^verbatim>\<open>sempFirstByte\<close>, the search for
  the protocol of a first byte. \<open>Parse_NMEA\<close>, \<open>Parse_RTCM\<close>, \<open>Parse_UBLOX\<close>,
  \<open>Parse_Custom\<close>, \<open>Parse_Unicore_Binary\<close>, \<open>Parse_Unicore_Hash\<close>: the state
  routines of the file of the same name, one definition per routine.
  \<open>Message_Step\<close>: the call of the state routine and \<^verbatim>\<open>sempParseNextByte\<close>.
  \<open>Message_Setup\<close>: \<^verbatim>\<open>sempBeginParser\<close>, \<^verbatim>\<open>sempAllocateParseStructure\<close>, the
  printing of the configuration, \<^verbatim>\<open>sempStopParser\<close> and the switches of the output.
  \<open>Message_Util\<close>: the utilities \<^verbatim>\<open>semp_util_*\<close>. \<open>Crc\<close>: the two lookup tables.

  The proofs go through the locale \<open>protocol\<close> of \<open>Message_Step\<close>: a protocol states
  which byte strings are prefixes of its messages and which are messages, and shows that
  each of its routines either continues a prefix, ends a message, or hands the byte to the
  search. \<open>Protocol_UBLOX\<close>, \<open>Protocol_RTCM\<close>, \<open>Protocol_Custom\<close>,
  \<open>Protocol_NMEA\<close>, \<open>Protocol_Unicore_Hash\<close> (with \<open>Line_Protocols\<close> for what the
  two text protocols share) interpret it. \<open>Message_Correct\<close> composes the protocols of a
  table: the invariant of the whole parser, what it delivers, when it can fault.
  \<open>Encoders\<close> builds messages from their contents and shows that the accepted messages
  are exactly these; \<open>Error_Detection\<close> shows which corruptions a checksum finds.
  Properties C1 to C18 rest on these theories: safety, soundness and completeness of
  the stream, one round trip per protocol, setup, checksums and utilities. They exclude the
  Unicore binary entry from the table, which faults on its first byte (C11); C1 also
  excludes the Unicore sentences, whose line end can overflow (C4, C10).

  \<^bold>\<open>semp_parser.c.\<close> \<open>Semp_Parser\<close> models every routine of the file and
  \<open>Semp_Correct\<close> proves the invariant, the decoding of streams, the return to the first
  state within 65559 bytes (a message has at most \<open>20 + 65535 + 4\<close> bytes) and what
  \<^verbatim>\<open>sempProcessBuffer\<close> returns: C19 to C25. C26 compares this parser with the custom
  protocol of my_parser on messages with payload.

  \<^bold>\<open>multi_protocol_parser.c.\<close> \<open>Multi_Protocol\<close> models every routine of the file.
  \<open>Multi_Correct\<close> has the invariant and the effect of one byte in each state,
  \<open>Multi_Stream\<close> the decoding of streams, \<open>Multi_Shared\<close> setup, statistics, the
  buffer entry point and two parsers on the shared static scratch pad: C27 to C32. The
  static \<^verbatim>\<open>lengthBytes\<close> survives \<^verbatim>\<open>mmpInitParser\<close>; the properties are about parsers set up
  while it is 0, the first argument of \<open>mm_begun\<close>, and C33 shows what happens otherwise.

  \<^bold>\<open>lib.\<close> \<open>Lib_Types\<close>: SparkFun_Extensible_Message_Parser.h. \<open>Lib_Crc\<close>: the tables and
  routines of semp_crc32.h, semp_crc_sbf.h and semp_crc_spartn.h. \<open>Lib_Core\<close>:
  \<^verbatim>\<open>sempFirstByte\<close> and the preambles. \<open>Lib_Text\<close>: Parse_NMEA.cpp, Parse_Unicore_Hash.cpp.
  \<open>Lib_Binary\<close>: Parse_RTCM.cpp, Parse_UBLOX.cpp, Parse_Unicore_Binary.cpp, Parse_BT.cpp.
  \<open>Lib_SBF\<close>, \<open>Lib_SPARTN\<close>: the files of these protocols. \<open>Lib_Step\<close>:
  \<^verbatim>\<open>sempParseNextByte\<close>. \<open>Lib_Setup\<close>: setup and configuration. The target has 32-bit
  pointers and \<^verbatim>\<open>size_t\<close>, which fixes the offsets in the scratch union. The proofs go through
  the locale \<open>lib_protocol\<close> of \<open>Lib_Protocol\<close>, interpreted in \<open>Protocol_SBF\<close>,
  \<open>Protocol_SPARTN\<close>, \<open>Protocol_Framed\<close> (Unicore binary and Bluetooth, which share a
  frame) and \<open>Protocol_Lib_Shared\<close> (RTCM and u-blox). \<open>Lib_Correct\<close> composes them,
  \<open>Lib_Begin\<close> is about parsers the setup returns, \<open>Lib_Encoders\<close> builds messages,
  \<open>Lib_Port\<close> is a simulation between my_parser and the library, \<open>Lib_Overlay\<close> shows
  the callback of SBF being overwritten. C34 to C40 rest on these theories. The text
  protocols of the library are modelled; the properties are about the six binary ones.

  \<^bold>\<open>Loops and bounds.\<close> Every function terminates: the byte handlers are not
  recursive, the table walk is bounded by the number of entries, the loops over a buffer by
  its length, the scan of \<^verbatim>\<open>sempUnicoreHashValidateCrc\<close> for an asterisk by the end of
  the buffer, where the model faults. No fuel is used. Buffer lengths are 16-bit; the
  minimum lengths (256 bytes in my_parser, 32 in the library) are those the setup routines
  enforce. The library takes a 32-bit buffer length but counts the message in 16 bits; its
  properties are about buffers of fewer than 65536 bytes.

  \<^bold>\<open>Not modelled.\<close> The programs with a \<^verbatim>\<open>main\<close> (my_parser/main.cpp, my_parser/demo, single_parser/main.cpp, test_tool.c,
  semp_example.c, multi_protocol_example.c, multi_protocol_demo.c) print results of the
  parsers on fixed inputs or attach them to interrupt handlers of a board that is not part
  of the repository. The generated files under build/ and the CMake files hold no code of
  the parsers. The text printed for the user and the floating-point division of the success
  rate are represented by their arguments.
\<close>

section \<open>The parser of my_parser\<close>

text \<open>
  C1: Safety. A parser that \<^verbatim>\<open>sempBeginParser\<close> returned for a table of the NMEA, RTCM,
  u-blox and custom protocols processes every byte stream without a memory fault: no
  access leaves the message buffer, the table or the scratch area.
\<close>

theorem stream_never_faults:
  assumes "begun table bad len p"
    and "set table \<subseteq> {NmeaPreamble, RtcmPreamble, UbloxPreamble, CustomPreamble}"
  shows "\<exists>q. run sempParseNextByte p bs = Inr q"
proof -
  have "UnicoreBinaryPreamble \<notin> set table" "UnicoreHashPreamble \<notin> set table" using assms(2) by auto
  then have "safe_inv p"
    using begun_inv [OF assms(1)] begunD(3) [OF assms(1)] by (simp add: safe_inv_def)
  then show ?thesis using safe_parser.run_safe by blast
qed

theorem stream_never_faults_witness:
  "\<exists>p. begun [NmeaPreamble, RtcmPreamble, UbloxPreamble, CustomPreamble] None 512 p
    \<and> (\<exists>q. run sempParseNextByte p [0xB5, 0x62, 0x24, 0xD3, 0, 0xAA] = Inr q)"
proof -
  obtain p where "begun [NmeaPreamble, RtcmPreamble, UbloxPreamble, CustomPreamble] None 512 p"
    using begun_exists [of "[NmeaPreamble, RtcmPreamble, UbloxPreamble, CustomPreamble]"] by auto
  then show ?thesis using stream_never_faults [of _ None 512 p] by (auto simp del: run.simps)
qed

text \<open>
  C2: Soundness. For a table without the Unicore binary entry and without a bad-CRC
  callback, whatever bytes arrive, every message handed to the end-of-message callback is a
  message of the protocol at the reported table index: sync bytes, length field and checksum
  are right.
\<close>

theorem only_messages_delivered:
  assumes "begun table None len p" and "UnicoreBinaryPreamble \<notin> set table"
    and "run sempParseNextByte p bs = Inr q"
  shows "list_all (\<lambda>(t, m). unat t < length table \<and> valid_of (table ! unat t) m) (delivered q)"
proof -
  have "sound p q" using run_sound [OF begun_inv [OF assms(1,2)] assms(3)] by blast
  then show ?thesis
    using begunD(3,5,6) [OF assms(1)] by (auto simp: sound_def genuine_def case_prod_unfold)
qed

theorem only_messages_delivered_witness:
  "\<exists>p q. begun [UbloxPreamble] None 256 p
    \<and> run sempParseNextByte p [0xB5, 0x62, 5, 1, 0, 0, 6, 0x17, 0xB5] = Inr q
    \<and> list_all (\<lambda>(t, m). unat t < 1 \<and> valid_of ([UbloxPreamble] ! unat t) m) (delivered q)"
proof -
  obtain p where p: "begun [UbloxPreamble] None 256 p" using begun_exists [of "[UbloxPreamble]"] by auto
  then have "safe_inv p" using begun_inv [OF p] begunD(3) [OF p] by (simp add: safe_inv_def)
  then obtain q where "run sempParseNextByte p [0xB5, 0x62, 5, 1, 0, 0, 6, 0x17, 0xB5] = Inr q"
    using safe_parser.run_safe by blast
  then show ?thesis using only_messages_delivered [OF p] p by fastforce
qed

text \<open>
  C3: Completeness. For a table without the Unicore binary entry and without a bad-CRC
  callback, on a stream of noise bytes and of frames of the protocols that fit the buffer,
  some with a wrong checksum, the parser delivers exactly the frames whose checksum is
  right, each once, in their order and with the index of their protocol.
\<close>

theorem stream_decoded:
  assumes "begun table None len p" and "UnicoreBinaryPreamble \<notin> set table"
    and "list_all (item_ok table (max 256 (unat len))) items"
  shows "\<exists>q. run sempParseNextByte p (concat (map item_bytes items)) = Inr q
    \<and> delivered q = concat (map (item_deliveries table) items)"
  using item_stream.stream [OF begun_waiting [OF assms(1,2)] assms(3)] begunD(6) [OF assms(1)] by auto

theorem stream_decoded_witness:
  "\<exists>p q. begun [RtcmPreamble, UbloxPreamble] None 256 p
    \<and> run sempParseNextByte p
        [0x31, 0xB5, 0x62, 5, 1, 0, 0, 6, 0x17, 0x0D, 0xB5, 0x62, 5, 1, 0, 0, 6, 0x18, 0x0A] = Inr q
    \<and> delivered q = [(1, [0xB5, 0x62, 5, 1, 0, 0, 6, 0x17])]"
proof -
  define items where "items = [Noise 0x31, Frame 1 [0xB5, 0x62, 5, 1, 0, 0, 6, 0x17], Noise 0x0D,
    Frame 1 [0xB5, 0x62, 5, 1, 0, 0, 6, 0x18], Noise 0x0A]"
  obtain p where p: "begun [RtcmPreamble, UbloxPreamble] None 256 p"
    using begun_exists [of "[RtcmPreamble, UbloxPreamble]"] by auto
  have "list_all (item_ok [RtcmPreamble, UbloxPreamble] (max 256 (unat (256 :: u16)))) items"
    by (simp add: items_def ublox_shape_def le16_def)
  moreover have "concat (map (item_deliveries [RtcmPreamble, UbloxPreamble]) items) =
      [(1, [0xB5, 0x62, 5, 1, 0, 0, 6, 0x17])]"
    by (simp add: items_def ublox_valid_def ublox_shape_def fletcher_def le16_def)
  ultimately show ?thesis using stream_decoded [OF p, of items] p by (auto simp: items_def)
qed

text \<open>
  C4: The only faults of a table without the Unicore binary entry (with that entry the first
  byte AA is a fault, as is shown below). With any of the other five protocols in the table, the Unicore
  sentences included, the parser faults only at the end of a Unicore sentence with a
  two-digit checksum that leaves less than three free bytes in the buffer.
\<close>

theorem faults_only_at_full_sentences:
  assumes "begun table bad len p" and "UnicoreBinaryPreamble \<notin> set table"
    and "run sempParseNextByte p bs = Inl e"
  shows "\<exists>as b cs q. bs = as @ b # cs \<and> run sempParseNextByte p as = Inr q
    \<and> table ! unat (parser_type q) = UnicoreHashPreamble
    \<and> state q \<in> {UnicoreHashLineTermination, UnicoreHashLineFeed, UnicoreHashCarriageReturn}
    \<and> unicoreHash_checksumBytes q = 2 \<and> length (buffer q) < length (message q) + 3"
proof -
  obtain as b cs q where q: "bs = as @ b # cs" "run sempParseNextByte p as = Inr q" "hazard_state q"
    using run_fault [OF begun_inv [OF assms(1,2)] assms(3)] by blast
  have "sound p q" using run_sound [OF begun_inv [OF assms(1,2)] q(2)] by blast
  then have "parsers_table q = table" using begunD(3) [OF assms(1)] by (simp add: sound_def)
  then show ?thesis
    using q by (intro exI [of _ as] exI [of _ b] exI [of _ cs] exI [of _ q])
      (simp add: hazard_state_def selected_def hash_hazard_def)
qed

theorem faults_only_at_full_sentences_witness:
  "\<exists>p as b cs q. begun [UnicoreHashPreamble] None 256 p
    \<and> run sempParseNextByte p (unicore_line [0x4D, 0x4F, 0x44, 0x45] (replicate 245 0x30)) = Inl OutOfBounds
    \<and> unicore_line [0x4D, 0x4F, 0x44, 0x45] (replicate 245 0x30) = as @ b # cs
    \<and> run sempParseNextByte p as = Inr q \<and> length (buffer q) < length (message q) + 3"
proof -
  define f where "f = unicore_line [0x4D, 0x4F, 0x44, 0x45] (replicate 245 0x30)"
  obtain p where p: "begun [UnicoreHashPreamble] None 256 p"
    using begun_exists [of "[UnicoreHashPreamble]"] by auto
  have parts: "sentence_parts [0x4D, 0x4F, 0x44, 0x45] (replicate 245 0x30)"
    by (simp add: sentence_parts_def name_char_def list_all_iff)
  have o: "occurs_in [0x4D, 0x4F, 0x44, 0x45] [0x4D, 0x4F, 0x44, 0x45 :: u8]" by code_simp
  have "run sempParseNextByte p f = Inl OutOfBounds"
    using unicore_line_valid [OF parts] unicore_line_digits [OF parts] o unfolding f_def
    by (intro begun_sentence_overflow [OF p, of 0]) (simp_all add: length_lines del: run.simps)
  then show ?thesis
    using faults_only_at_full_sentences [OF p _ \<open>run sempParseNextByte p f = Inl OutOfBounds\<close>] p
    unfolding f_def [symmetric] by auto
qed

section \<open>The protocols\<close>

text \<open>
  C5: u-blox round trip. For a table without the Unicore binary entry, every UBX message that
  fits the buffer, with any class, id and payload and the Fletcher checksum, is delivered
  unchanged.
\<close>

theorem ublox_delivered:
  assumes "begun table None len p" and "UnicoreBinaryPreamble \<notin> set table"
    and "first_match table 0xb5 = Some k" and "length payload + 8 \<le> max 256 (unat len)"
  shows "\<exists>q. run sempParseNextByte p (ublox_frame cls mid payload) = Inr q
    \<and> delivered q = [(of_nat k, ublox_frame cls mid payload)]"
proof -
  have "max 256 (unat len) < 65536" using unsigned_less [of len] by simp
  then show ?thesis
    using assms first_match_protocol(3) [OF assms(3)] ublox_frame_valid [of payload cls mid]
      length_frames(1) [of cls mid payload]
    by (intro begun_delivers) (auto simp: hd_frames)
qed

theorem ublox_delivered_witness:
  "\<exists>p q. begun [NmeaPreamble, UbloxPreamble] None 256 p
    \<and> run sempParseNextByte p [0xB5, 0x62, 5, 1, 2, 0, 6, 1, 0x0F, 0x38] = Inr q
    \<and> delivered q = [(1, [0xB5, 0x62, 5, 1, 2, 0, 6, 1, 0x0F, 0x38])]"
proof -
  obtain p where p: "begun [NmeaPreamble, UbloxPreamble] None 256 p"
    using begun_exists [of "[NmeaPreamble, UbloxPreamble]"] by auto
  have "ublox_frame 5 1 [6, 1] = [0xB5, 0x62, 5, 1, 2, 0, 6, 1, 0x0F, 0x38]" by code_simp
  then show ?thesis using ublox_delivered [OF p, of 1 "[6, 1]" 5 1] p by (auto simp del: run.simps)
qed

text \<open>
  C6: RTCM round trip. For a table without the Unicore binary entry, every RTCM 3 message of
  3 to 1023 payload bytes that fits the buffer, with the CRC-24Q computed bit by bit, is
  delivered unchanged.
\<close>

theorem rtcm_delivered:
  assumes "begun table None len p" and "UnicoreBinaryPreamble \<notin> set table"
    and "first_match table 0xd3 = Some k" and "length payload + 6 \<le> max 256 (unat len)"
    and "3 \<le> length payload" and "length payload < 1024"
  shows "\<exists>q. run sempParseNextByte p (rtcm_frame payload) = Inr q
    \<and> delivered q = [(of_nat k, rtcm_frame payload)]"
  using assms first_match_protocol(2) [OF assms(3)] rtcm_frame_valid [OF assms(5,6)] length_frames(2) [of payload]
  by (intro begun_delivers) (auto simp: hd_frames)

theorem rtcm_delivered_witness:
  "\<exists>p q. begun [RtcmPreamble] None 256 p
    \<and> run sempParseNextByte p (rtcm_frame [0x3E, 0xD0, 0]) = Inr q
    \<and> delivered q = [(0, rtcm_frame [0x3E, 0xD0, 0])]"
proof -
  obtain p where p: "begun [RtcmPreamble] None 256 p" using begun_exists [of "[RtcmPreamble]"] by auto
  then show ?thesis using rtcm_delivered [OF p, of 0 "[0x3E, 0xD0, 0]"] by auto
qed

text \<open>
  C7: Custom round trip. For a table without the Unicore binary entry, every custom message
  with a 20-byte header and a payload of at least one byte that fits the buffer, with the
  CRC-32 computed bit by bit, is delivered unchanged.
\<close>

theorem custom_delivered:
  assumes "begun table None len p" and "UnicoreBinaryPreamble \<notin> set table"
    and "first_match table 0xAA = Some k" and "length payload + 24 \<le> max 256 (unat len)"
    and "length a = 9" and "length b = 6" and "0 < length payload"
  shows "\<exists>q. run sempParseNextByte p (custom_frame a b payload) = Inr q
    \<and> delivered q = [(of_nat k, custom_frame a b payload)]"
proof -
  have "max 256 (unat len) < 65536" using unsigned_less [of len] by simp
  then show ?thesis
    using assms first_match_custom [OF assms(3,2)] custom_frame_valid [OF assms(5-7)]
      length_frames(3) [of a b payload]
    by (intro begun_delivers) (auto simp: hd_frames)
qed

theorem custom_delivered_witness:
  "\<exists>p q. begun [CustomPreamble] None 256 p
    \<and> run sempParseNextByte p (custom_frame (replicate 9 1) (replicate 6 2) [7]) = Inr q
    \<and> delivered q = [(0, custom_frame (replicate 9 1) (replicate 6 2) [7])]"
proof -
  obtain p where p: "begun [CustomPreamble] None 256 p" using begun_exists [of "[CustomPreamble]"] by auto
  have "\<exists>q. run sempParseNextByte p (custom_frame (replicate 9 1) (replicate 6 2) [7]) = Inr q
      \<and> delivered q = [(0, custom_frame (replicate 9 1) (replicate 6 2) [7])]"
    using custom_delivered [OF p, of 0 "[7]" "replicate 9 1" "replicate 6 2"] by simp
  then show ?thesis using p by blast
qed

text \<open>
  C8: NMEA round trip. For a table without the Unicore binary entry, every NMEA sentence that
  fits the buffer with its line end and a terminating zero, and whose checksum is the
  exclusive or that \<^verbatim>\<open>semp_util_calculateChecksum\<close> computes over its characters, written as
  two upper-case hexadecimal digits, is delivered with its line end.
\<close>

theorem nmea_delivered:
  assumes "begun table None len p" and "UnicoreBinaryPreamble \<notin> set table"
    and "first_match table 0x24 = Some k" and "sentence_parts name body"
    and "length name + length body + 7 < max 256 (unat len)"
    and "semp_util_calculateChecksum (name @ 0x2C # body) (of_nat (length name + length body + 1)) = Inr c"
    and "f = 0x24 # (name @ 0x2C # body) @ 0x2A # hex_text c @ [0x0D, 0x0A]"
  shows "\<exists>q. run sempParseNextByte p f = Inr q \<and> delivered q = [(of_nat k, f)]"
proof -
  have "max 256 (unat len) < 65536" using unsigned_less [of len] by simp
  then have "unat (of_nat (length name + length body + 1) :: u16) = length (name @ 0x2C # body)"
    using assms(5) unat_of_nat_16 [of "length name + length body + 1"] by simp
  then have "c = xor_bytes (name @ 0x2C # body)"
    using assms(6) by (simp add: calculateChecksum_eq xor_bytes_def)
  then have f: "f = nmea_line name body" using assms(7) by (simp add: nmea_line_def Let_def)
  show ?thesis
    unfolding f using assms(3,5) first_match_protocol(1) [OF assms(3)] nmea_line_valid [OF assms(4)]
      length_lines(1) [of name body]
    by (intro begun_delivers [OF assms(1,2)]) (auto simp: hd_frames)
qed

theorem nmea_delivered_witness:
  "\<exists>p q. begun [NmeaPreamble] None 256 p
    \<and> run sempParseNextByte p [0x24, 0x47, 0x50, 0x2C, 0x31, 0x2A, 0x30, 0x41, 0x0D, 0x0A] = Inr q
    \<and> delivered q = [(0, [0x24, 0x47, 0x50, 0x2C, 0x31, 0x2A, 0x30, 0x41, 0x0D, 0x0A])]"
proof -
  obtain p where p: "begun [NmeaPreamble] None 256 p" using begun_exists [of "[NmeaPreamble]"] by auto
  have "semp_util_calculateChecksum ([0x47, 0x50] @ 0x2C # [0x31]) 4 = Inr 0x0A"
    by (simp add: calculateChecksum_eq)
  moreover have "sentence_parts [0x47, 0x50] [0x31]" by (simp add: sentence_parts_def name_char_def)
  moreover have "hex_text 0x0A = [0x30, 0x41]" by code_simp
  ultimately show ?thesis
    using nmea_delivered [OF p, of 0 "[0x47, 0x50]" "[0x31]" "0x0A"] p by (auto simp del: run.simps)
qed

text \<open>
  C9: Unicore sentence round trip. For a table without the Unicore binary entry, every
  Unicore sentence that fits the buffer with its line end and a terminating zero is
  delivered with its line end: with a CRC-32 of eight digits, or with a two-digit
  exclusive-or checksum when its name contains MODE.
\<close>

theorem unicore_delivered:
  assumes "begun table None len p" and "UnicoreBinaryPreamble \<notin> set table"
    and "first_match table 0x23 = Some k" and "sentence_parts name body"
    and "length (unicore_line name body) < max 256 (unat len)"
  shows "\<exists>q. run sempParseNextByte p (unicore_line name body) = Inr q
    \<and> delivered q = [(of_nat k, unicore_line name body)]"
  using assms(3,5) first_match_protocol(4) [OF assms(3)] unicore_line_valid [OF assms(4)]
  by (intro begun_delivers [OF assms(1,2)]) (auto simp: hd_frames hash_not_valid_Nil)

theorem unicore_delivered_witness:
  "\<exists>p q. begun [UnicoreHashPreamble] None 256 p
    \<and> run sempParseNextByte p (unicore_line [0x56, 0x45, 0x52] [0x31]) = Inr q
    \<and> delivered q = [(0, unicore_line [0x56, 0x45, 0x52] [0x31])]"
proof -
  obtain p where p: "begun [UnicoreHashPreamble] None 256 p"
    using begun_exists [of "[UnicoreHashPreamble]"] by auto
  have "sentence_parts [0x56, 0x45, 0x52] [0x31]" by (simp add: sentence_parts_def name_char_def)
  then show ?thesis using unicore_delivered [OF p, of 0 "[0x56, 0x45, 0x52]" "[0x31]"] p
    by (auto simp: length_lines simp del: run.simps)
qed

text \<open>
  C10: The line end of a full sentence. For a table without the Unicore binary entry, a
  correct Unicore sentence with a two-digit checksum that is as long as the buffer, or one byte longer, makes the parser write behind the
  buffer: this checksum path does not test for room before it appends the line end.
\<close>

theorem mode_sentence_overflows:
  assumes "begun table None len p" and "UnicoreBinaryPreamble \<notin> set table"
    and "first_match table 0x23 = Some k" and "sentence_parts name body"
    and "occurs_in [0x4D, 0x4F, 0x44, 0x45] name"
    and "length (unicore_line name body) \<in> {max 256 (unat len), max 256 (unat len) + 1}"
  shows "run sempParseNextByte p (unicore_line name body) = Inl OutOfBounds"
  using assms(5,6) unicore_line_valid [OF assms(4)] unicore_line_digits [OF assms(4)]
  by (intro begun_sentence_overflow [OF assms(1-3)]) auto

theorem mode_sentence_overflows_witness:
  "\<exists>p. begun [UnicoreHashPreamble] None 256 p
    \<and> run sempParseNextByte p (unicore_line [0x4D, 0x4F, 0x44, 0x45] (replicate 246 0x30)) = Inl OutOfBounds"
proof -
  obtain p where p: "begun [UnicoreHashPreamble] None 256 p"
    using begun_exists [of "[UnicoreHashPreamble]"] by auto
  have "sentence_parts [0x4D, 0x4F, 0x44, 0x45] (replicate 246 0x30)"
    by (simp add: sentence_parts_def name_char_def list_all_iff)
  moreover have "occurs_in [0x4D, 0x4F, 0x44, 0x45] [0x4D, 0x4F, 0x44, 0x45 :: u8]" by code_simp
  ultimately have "run sempParseNextByte p (unicore_line [0x4D, 0x4F, 0x44, 0x45] (replicate 246 0x30)) = Inl OutOfBounds"
    using mode_sentence_overflows [OF p, of 0 "[0x4D, 0x4F, 0x44, 0x45]" "replicate 246 0x30"]
    by (simp add: length_lines del: run.simps)
  then show ?thesis using p by blast
qed

text \<open>
  C11: The Unicore binary protocol. A table whose entry for the byte AA is the Unicore binary
  preamble is unusable: the first such byte calls a CRC routine that returns no value.
\<close>

theorem unicore_binary_undefined:
  assumes "begun table bad len p"
    and "first_match table 0xAA = Some k" and "table ! k = UnicoreBinaryPreamble"
  shows "sempParseNextByte p 0xAA = Inl UndefinedReturn"
proof -
  note p = begunD [OF assms(1)]
  have fault: "sempFirstByte q 0xAA = Inl UndefinedReturn" if "wf_parse q" "parsers_table q = table" for q
    using that assms(2,3)
    by (simp add: sempFirstByte_eq sempUnicoreBinaryPreamble_def sempUnicoreBinaryComputeCrc_def)
  show ?thesis
  proof (cases "buffer_length p \<le> msg_length p")
    case True
    then show ?thesis using fault p(1,3) by (simp add: sempParseNextByte_def)
  next
    case False
    then have room: "unat (msg_length p) < length (buffer p)"
      using p(1) by (simp add: wf_parse_def word_le_nat_alt)
    have c: "computeCrc p \<noteq> Some UnicoreBinaryComputeCrc" using p(4) by simp
    obtain q where q: "feed p 0xAA = Inr q" using feed_eq [OF p(1) room c] by blast
    note f = feedD [OF p(1) room c q]
    have "wf_parse q" "parsers_table q = table" "state q = FirstByte"
      using f p(2,3) by (simp_all add: unchanged_def)
    then show ?thesis using False q fault by (simp add: sempParseNextByte_def)
  qed
qed

theorem unicore_binary_undefined_witness:
  "\<exists>p. begun [UnicoreBinaryPreamble, CustomPreamble] None 256 p
    \<and> sempParseNextByte p 0xAA = Inl UndefinedReturn"
proof -
  obtain p where p: "begun [UnicoreBinaryPreamble, CustomPreamble] None 256 p"
    using begun_exists [of "[UnicoreBinaryPreamble, CustomPreamble]"] by auto
  then show ?thesis using unicore_binary_undefined [OF p, of 0] by auto
qed





section \<open>Setting up a parser\<close>

text \<open>
  C14: The decision of \<^verbatim>\<open>sempBeginParser\<close>, for any arguments, null tables included. The first
  argument check that fails (counts, parser table, name table, callback, name, number of
  parsers) is reported on the error output and no parser is returned; with good arguments a
  parser is returned unless the allocator refuses a block of the size of structure, scratch
  area and buffer together. A name table that is given has the announced number of entries.
\<close>

theorem begin_decides:
  assumes "malloc_ok malloc" and "0 \<le> psize" and "\<And>ns. names = Some ns \<Longrightarrow> length ns = unat count"
  shows "case begin_check pname table count names ncount eom of
      Some m \<Rightarrow> sempBeginParser malloc psize pname table count names ncount scratch len
          eom err dbg bad es = Inr (None, sempPrintln err m es)
    | None \<Rightarrow>
        if malloc (SEMP_ALIGN psize + uint (scratch_bytes scratch) + max 256 (uint len)) = None
        then \<exists>es'. sempBeginParser malloc psize pname table count names ncount scratch len
          eom err dbg bad es = Inr (None, sempPrintln err AllocationFailed es')
        else \<exists>p es'. sempBeginParser malloc psize pname table count names ncount scratch len
          eom err dbg bad es = Inr (Some p, es')"
proof (cases "begin_check pname table count names ncount eom")
  case None
  then obtain t ns where t: "table = Some t" "names = Some ns" by (auto simp: begin_check_def split: if_splits)
  then show ?thesis
    using None begin_accepts [OF None [unfolded t] assms(1,2) assms(3) [OF t(2)]] begin_out_of_memory [OF None [unfolded t]]
    by simp
next
  case (Some m)
  then show ?thesis using begin_rejects by simp
qed

theorem begin_decides_witness:
  "malloc_ok (\<lambda>n. None)
    \<and> sempBeginParser (\<lambda>n. None) 112 (Some ''p'') (Some [UbloxPreamble]) 1 (Some [''ubx'']) 2 0 256
        (Some 5) (Some 9) None None [] = Inr (None, [Print 9 ParserCountMismatch])
    \<and> sempBeginParser (\<lambda>n. None) 112 (Some ''p'') None 1 None 1 0 256
        (Some 5) (Some 9) None None [] = Inr (None, [Print 9 NoParserTable])
    \<and> (\<exists>es'. sempBeginParser (\<lambda>n. None) 112 (Some ''p'') (Some [UbloxPreamble]) 1 (Some [''ubx'']) 1 0 256
        (Some 5) None None None [] = Inr (None, sempPrintln None AllocationFailed es'))"
  using begin_decides [where malloc = "\<lambda>n. None" and psize = 112 and names = "Some [''ubx'']" and count = 1
      and pname = "Some ''p''" and table = "Some [UbloxPreamble]" and ncount = 2 and eom = "Some 5" and scratch = 0
      and len = 256 and err = "Some 9" and dbg = None and bad = None and es = "[]"]
    begin_decides [where malloc = "\<lambda>n. None" and psize = 112 and names = None and count = 1
      and pname = "Some ''p''" and table = None and ncount = 1 and eom = "Some 5" and scratch = 0
      and len = 256 and err = "Some 9" and dbg = None and bad = None and es = "[]"]
    begin_decides [where malloc = "\<lambda>n. None" and psize = 112 and names = "Some [''ubx'']" and count = 1
      and pname = "Some ''p''" and table = "Some [UbloxPreamble]" and ncount = 1 and eom = "Some 5" and scratch = 0
      and len = 256 and err = None and dbg = None and bad = None and es = "[]"]
  by (simp add: malloc_ok_def begin_check_def sempPrintln_def)

text \<open>
  The scratch area. The size asked for is rounded up to a multiple of eight and to at
  least the size of the protocols' union; a size above 65528 wraps around in the 16-bit
  variable and leaves the minimum.
\<close>

theorem scratch_area_size:
  "uint (scratch_bytes n) = (if uint n \<le> 65528 then max 24 (8 * ((uint n + 7) div 8)) else 24)"
  using scratch_bytes_cases [of n] by (simp add: SEMP_ALIGN_eq)

section \<open>Checksums\<close>

text \<open>
  C15: The table-driven CRC routine of the custom protocol computes, for every register
  and byte, the bitwise CRC-32 of the reflected polynomial EDB88320.
\<close>

theorem custom_crc_bitwise: "sempCustomComputeCrc p data = crc32_spec (crc p) data"
  by (simp add: sempCustomComputeCrc_def semp_crc32.step_spec)

text \<open>
  C16: The table-driven CRC routine of the RTCM protocol computes, for every 24-bit register
  and byte, the bitwise CRC-24Q of the polynomial 864CFB.
\<close>

theorem rtcm_crc_bitwise:
  "sempRtcmComputeCrc24q (p\<lparr>crc := ucast (c :: u24)\<rparr>) data = ucast (crc24_spec c data)"
  by (simp add: sempRtcmComputeCrc24q_def crc24q_step_spec)

section \<open>Utilities\<close>

text \<open>
  Hexadecimal digits. The bytes taken as digits are 0 to 9, A to F, a to f and, because
  the case bit is set before the range test, also the control characters 16 to 25; every
  other byte gives -1.
\<close>

theorem nibble_values:
  fixes c :: u8
  shows "semp_util_asciiToNibble (uint c) =
    (if c \<in> {0x30..0x39} then uint c - 0x30
     else if c \<in> {0x10..0x19} then uint c - 0x10
     else if c \<in> {0x41..0x46} then uint c - 0x41 + 10
     else if c \<in> {0x61..0x66} then uint c - 0x61 + 10
     else -1)"
  by (simp add: asciiToNibble_eq)

text \<open>
  C17: Hexadecimal dump. When at least one byte fits, \<^verbatim>\<open>semp_util_hexToString\<close> writes two digits
  per byte, separated by blanks and ended by a zero, for as many bytes as fit into the given
  size, returns the length of the text, and writes nothing behind the given size.
\<close>

theorem hex_dump:
  assumes "unat len \<le> length data" and "unat room \<le> length out" and "3 \<le> room"
    and "k = min (unat len) ((unat room - 1) div 3)" and "0 < k"
  shows "\<exists>out'. semp_util_hexToString (Some data) len (Some out) room = Inr (Some out', 3 * k - 1)
    \<and> length out' = length out \<and> drop (unat room) out' = drop (unat room) out
    \<and> take (3 * k) out' = butlast (concat (map (\<lambda>d. hex_text d @ [0x20]) (take k data))) @ [0]"
  using hexToString_text [of len data room out] assms by (simp add: dump_count_def dump_text_def)

theorem hex_dump_witness:
  "\<exists>out'. semp_util_hexToString (Some [0x0F, 0xA5, 1]) 3 (Some (replicate 8 0x3F)) 8 = Inr (Some out', 5)
    \<and> take 6 out' = [0x30, 0x46, 0x20, 0x41, 0x35, 0]"
proof -
  have "hex_text 0x0F = [0x30, 0x46]" "hex_text 0xA5 = [0x41, 0x35]" by code_simp+
  then have dump: "butlast (concat (map (\<lambda>d. hex_text d @ [0x20]) (take 2 [0x0F, 0xA5, 1]))) @ [0] =
      [0x30, 0x46, 0x20, 0x41, 0x35, 0]"
    by (simp add: numeral_2_eq_2)
  have "\<exists>out'. semp_util_hexToString (Some [0x0F, 0xA5, 1]) 3 (Some (replicate 8 0x3F)) 8 = Inr (Some out', 3 * 2 - 1)
      \<and> length out' = length (replicate 8 (0x3F :: u8))
      \<and> drop (unat (8 :: u16)) out' = drop (unat (8 :: u16)) (replicate 8 0x3F)
      \<and> take (3 * 2) out' = butlast (concat (map (\<lambda>d. hex_text d @ [0x20]) (take 2 [0x0F, 0xA5, 1]))) @ [0]"
    by (rule hex_dump) simp_all
  then show ?thesis unfolding dump by (elim exE conjE, intro exI conjI) simp_all
qed

text \<open>
  Nothing to dump. When there is no byte to write, or the size given is three,
  \<^verbatim>\<open>semp_util_hexToString\<close> returns 0 and leaves the output as it was: there is no terminating
  zero.
\<close>

theorem hex_dump_unterminated:
  assumes "unat len \<le> length data" and "unat room \<le> length out" and "len = 0 \<or> room = 3"
  shows "semp_util_hexToString (Some data) len (Some out) room = Inr (Some out, 0)"
  using assms by (intro hexToString_empty) (auto simp: dump_count_def)

theorem hex_dump_unterminated_witness:
  "semp_util_hexToString (Some [0x0F]) 0 (Some (replicate 8 0x3F)) 8 = Inr (Some (replicate 8 0x3F), 0)"
  by (rule hex_dump_unterminated) simp_all

text \<open>
  C18: Fields. A sentence whose first character is not a control character (it is at least
  32, so a leading dollar sign belongs to the first field), of fields without separators
  inside and at most as many as the array has rows, is split into its fields when the last
  field is not empty (an empty last field would not be counted): each row of the array
  holds its field, cut to the row size and ended by a zero, and the number of fields is
  returned.
\<close>

theorem fields_parsed:
  assumes "fs \<noteq> []" and "list_all (plain dl tm) fs" and "dl \<noteq> 0" and "dl \<noteq> tm" and "t = 0 \<or> t = tm"
    and "length fs \<le> m" and "m \<le> length rows" and "wide z rows" and "0 < z"
    and "\<not> sint (hd (joined dl fs @ [t])) < 32" and "last fs \<noteq> []"
  shows "\<exists>rows'. semp_util_parse_delimited_fields (Some (joined dl fs @ t # rest)) (Some rows)
      (int m) (int (Suc z)) dl tm = Inr (Some rows', int (length fs))
    \<and> length rows' = length rows
    \<and> (\<forall>i<length fs. take (Suc (length (take z (fs ! i)))) (rows' ! i) = take z (fs ! i) @ [0])"
  using parse_fields_joined [OF assms] by (simp add: stores_def)

theorem fields_parsed_witness:
  "\<exists>rows'. semp_util_parse_delimited_fields (Some [0x41, 0x42, 0x2C, 0x43, 0x2A, 0x37])
      (Some [[1, 1, 1, 1], [1, 1, 1, 1]]) 2 4 0x2C 0x2A = Inr (Some rows', 2)
    \<and> take 3 (rows' ! 0) = [0x41, 0x42, 0] \<and> take 2 (rows' ! 1) = [0x43, 0]"
proof -
  define fs :: "u8 list list" where "fs = [[0x41, 0x42], [0x43]]"
  have "wide 3 [[1, 1, 1, 1], [1, 1, 1, 1 :: u8]]" by (simp add: wide_def All_less_Suc)
  then obtain rows' where "semp_util_parse_delimited_fields (Some (joined 0x2C fs @ 0x2A # [0x37]))
      (Some [[1, 1, 1, 1], [1, 1, 1, 1]]) (int 2) (int (Suc 3)) 0x2C 0x2A = Inr (Some rows', int (length fs))"
    "\<forall>i<length fs. take (Suc (length (take 3 (fs ! i)))) (rows' ! i) = take 3 (fs ! i) @ [0]"
    using fields_parsed [of fs "0x2C" "0x2A" "0x2A" 2 "[[1, 1, 1, 1], [1, 1, 1, 1]]" 3 "[0x37]"]
    by (auto simp: fs_def plain_def)
  then show ?thesis by (auto simp: fs_def All_less_Suc numeral_3_eq_3 numeral_2_eq_2)
qed

text \<open>
  Too many fields. A sentence whose field number \<^verbatim>\<open>maxFields\<close> is not empty and is
  followed by a delimiter makes \<^verbatim>\<open>semp_util_parse_delimited_fields\<close> write a row behind the
  array, because the field position is not reset.
\<close>

theorem too_many_fields_overflow:
  assumes "fs \<noteq> []" and "list_all (plain dl tm) fs" and "dl \<noteq> 0" and "dl \<noteq> tm"
    and "length rows = length fs" and "wide z rows" and "0 < z"
    and "\<not> sint (hd (hd fs @ [dl])) < 32" and "last fs \<noteq> []" and "rest \<noteq> []"
  shows "semp_util_parse_delimited_fields (Some (concat (map (\<lambda>f. f @ [dl]) fs) @ rest)) (Some rows)
    (int (length fs)) (int (Suc z)) dl tm = Inl OutOfBounds"
  using parse_fields_overflow [OF assms] .

theorem too_many_fields_overflow_witness:
  "semp_util_parse_delimited_fields (Some [0x41, 0x2C, 0x42, 0]) (Some [[1, 1, 1, 1]]) 1 4 0x2C 0x2A =
    Inl OutOfBounds"
proof -
  have "wide 3 [[1, 1, 1, 1 :: u8]]" by (simp add: wide_def)
  then show ?thesis
    using too_many_fields_overflow [of "[[0x41]]" "0x2C" "0x2A" "[[1, 1, 1, 1]]" 3 "[0x42, 0]"]
    by (simp add: plain_def)
qed

section \<open>The parser of single_parser/semp_parser.c\<close>

text \<open>
  C19: Invariant. A parser initialised with a buffer of at least the announced size processes
  every byte stream without a memory fault, and after every byte its invariant holds: the
  message lies in the buffer, counters and CRC register fit the bytes read so far, or the
  message has outgrown the buffer.
\<close>

theorem single_invariant:
  assumes "unat n \<le> length buf"
  shows "\<exists>q. run sp_feed (Some (sempInitParser buf n eom bad name)) bs = Inr (Some q) \<and> sp_inv q"
  using sp_run_sound [OF sp_init(1) [OF assms]] by blast

theorem single_invariant_witness:
  "\<exists>q. run sp_feed (Some (sempInitParser (replicate 64 0) 64 (Some 1) None None)) [0xAA, 0x44, 0xAA, 7] = Inr (Some q)
    \<and> sp_inv q"
  by (rule single_invariant) simp

text \<open>
  C20: Soundness. Whatever bytes arrive, every delivered message that does not fill the whole
  buffer has the sync bytes, lengths and CRC of a frame and is delivered with its message
  type; up to two leading sync bytes may be missing, with the CRC register starting at zero.
\<close>

theorem single_only_frames:
  assumes "unat n \<le> length buf"
    and "run sp_feed (Some (sempInitParser buf n eom bad name)) bs = Inr (Some q)"
  shows "list_all (\<lambda>(t, m). length m < unat n \<longrightarrow>
    t = m ! 17 \<and> (bt_valid 0xFFFFFFFF 0 m \<or> bt_valid 0 1 m \<or> bt_valid 0 2 m)) (sp_delivered q)"
proof -
  have "sp_sound (sempInitParser buf n eom bad name) q"
    using sp_run_sound [OF sp_init(1) [OF assms(1), of eom bad name], of bs] assms(2) by auto
  then show ?thesis
    using sp_init(4,5) [OF assms(1), of eom bad name] by (auto simp: sp_sound_def sp_starts_def case_prod_unfold)
qed

theorem single_only_frames_witness:
  "\<exists>q. run sp_feed (Some (sempInitParser (replicate 64 0) 64 (Some 1) None None))
      (0xAA # 0x55 # bt_frame 0 [0x44, 0x18, 0] (replicate 8 0) (replicate 6 0) []) = Inr (Some q)
    \<and> sp_delivered q = [(0, bt_frame 0 [0x44, 0x18, 0] (replicate 8 0) (replicate 6 0) [])]
    \<and> list_all (\<lambda>(t, m). length m < 64 \<longrightarrow>
        t = m ! 17 \<and> (bt_valid 0xFFFFFFFF 0 m \<or> bt_valid 0 1 m \<or> bt_valid 0 2 m)) (sp_delivered q)"
proof -
  define f where "f = bt_frame 0 [0x44, 0x18, 0] (replicate 8 0) (replicate 6 0) []"
  define p where "p = sempInitParser (replicate 64 0) 64 (Some 1) None None"
  have n: "unat (64 :: u16) \<le> length (replicate 64 (0 :: u8))" by simp
  have f: "bt_valid 0 1 f" unfolding f_def by (rule bt_frame_valid) simp_all
  have "length f = 24" "f ! 17 = 0" by (simp_all add: f_def length_bt_frame bt_frame_def Let_def nth_append eval_nat_numeral)
  moreover have "sp_idle p" "sp_eomCallback p = Some 1" "sp_maxLength p = 64" "sp_log p = []"
    using sp_init [OF n] by (simp_all add: p_def sp_idle_def)
  ultimately obtain q where q: "run sp_feed (Some p) (0xAA # 0x55 # f) = Inr (Some q)" "sp_delivered q = [(0, f)]"
    using sp_missing_sync [of p "0x55" f] f by (auto simp: sp_after_def bt_valid_def simp del: run.simps)
  then show ?thesis
    using single_only_frames [OF n q(1) [unfolded p_def]] unfolding f_def [symmetric] p_def [symmetric] by auto
qed

text \<open>
  C21: Refinement. On a stream of frames that fit the buffer, right or wrong in their CRC, and of
  bytes other than AA between them, the parser behaves as the abstract decoder that maps
  each frame with a right CRC to its message type and bytes, and drops the rest.
\<close>

theorem single_stream_decoded:
  assumes "unat n \<le> length buf" and "list_all (sp_item_ok (unat n)) items"
  shows "\<exists>q. run sp_feed (Some (sempInitParser buf n (Some cb) bad name)) (concat (map sp_encode items)) = Inr (Some q)
    \<and> sp_state q = Some SpFirstByte \<and> sp_delivered q = concat (map sp_decode items)"
proof -
  let ?s = "Some (sempInitParser buf n (Some cb) bad name)"
  note i = sp_init [OF assms(1), where eom = "Some cb" and bad = bad and name = name]
  have "sp_waiting (unat n) ?s" using i(2,3,5,6) by (simp add: sp_waiting_def sp_idle_def)
  from sp_stream.stream [OF this assms(2)] obtain t
    where "run sp_feed ?s (concat (map sp_encode items)) = Inr t" "sp_waiting (unat n) t"
      "sp_trace t = sp_trace ?s @ concat (map sp_decode items)" by blast
  then show ?thesis using i(4) by (auto simp: sp_waiting_def sp_idle_def sp_trace_def)
qed

theorem single_stream_decoded_witness:
  "\<exists>q. run sp_feed (Some (sempInitParser (replicate 64 0) 64 (Some 1) None None))
      (7 # bt_frame 0xFFFFFFFF [0xAA, 0x44, 0x18] (replicate 8 0) [0, 0, 0, 9, 0, 0] [1, 2] @ [0x44]) = Inr (Some q)
    \<and> sp_delivered q = [(9, bt_frame 0xFFFFFFFF [0xAA, 0x44, 0x18] (replicate 8 0) [0, 0, 0, 9, 0, 0] [1, 2])]"
proof -
  define f where "f = bt_frame 0xFFFFFFFF [0xAA, 0x44, 0x18] (replicate 8 0) [0, 0, 0, 9, 0, 0] [1, 2]"
  have f: "bt_valid 0xFFFFFFFF 0 f" unfolding f_def by (rule bt_frame_valid) simp_all
  then have "bt_shape 0 f" by (simp add: bt_valid_def)
  moreover have "length f = 26" by (simp add: f_def length_bt_frame)
  moreover have "f ! 17 = 9" by (simp add: f_def bt_frame_def Let_def nth_append eval_nat_numeral)
  ultimately show ?thesis
    using single_stream_decoded [of 64 "replicate 64 0" "[SpNoise 7, SpFrame f, SpNoise 0x44]" 1 None None] f
    unfolding f_def [symmetric] by (auto simp del: run.simps)
qed

text \<open>
  C22: A false frame. After AA and a byte that does not continue the sync sequence the parser
  still waits for the second sync byte, with the CRC register at zero: a byte string
  without the first sync byte, with a CRC over the rest from that register, is delivered.
\<close>

theorem single_short_sync_delivered:
  assumes "sp_idle p" and "sp_eomCallback p \<noteq> None" and "x \<noteq> 0x44" and "x \<noteq> 0xAA"
    and "bt_valid 0 1 f" and "length f \<le> unat (sp_maxLength p)"
  shows "\<exists>q. run sp_feed (Some p) (0xAA # x # f) = Inr (Some q) \<and> hd f = 0x44
    \<and> sp_delivered q = sp_delivered p @ [(f ! 17, f)]"
proof -
  have sh: "bt_shape 1 f" using assms(5) by (simp add: bt_valid_def)
  then have "hd f = 0x44" using bt_sync_nth [of 1 f 0] by (cases f) (auto simp: bt_shape_def)
  then show ?thesis using sp_missing_sync [OF assms(1,3,4) sh assms(6)] assms(2,5) by (auto simp: sp_after_def simp del: run.simps)
qed

theorem single_short_sync_delivered_witness:
  "\<exists>q. run sp_feed (Some (sempInitParser (replicate 64 0) 64 (Some 1) None None))
      (0xAA # 0x55 # bt_frame 0 [0x44, 0x18, 0] (replicate 8 0) (replicate 6 0) []) = Inr (Some q)
    \<and> sp_delivered q = [(0, bt_frame 0 [0x44, 0x18, 0] (replicate 8 0) (replicate 6 0) [])]"
proof -
  define f where "f = bt_frame 0 [0x44, 0x18, 0] (replicate 8 0) (replicate 6 0) []"
  define p where "p = sempInitParser (replicate 64 0) 64 (Some 1) None None"
  have f: "bt_valid 0 1 f" unfolding f_def by (rule bt_frame_valid) simp_all
  have "length f = 24" by (simp add: f_def length_bt_frame)
  moreover have "f ! 17 = 0" by (simp add: f_def bt_frame_def Let_def nth_append eval_nat_numeral)
  moreover have "sp_idle p" "sp_eomCallback p = Some 1" "sp_maxLength p = 64" "sp_log p = []"
    using sp_init [of 64 "replicate 64 0"] by (simp_all add: p_def sp_idle_def)
  ultimately show ?thesis
    using single_short_sync_delivered [of p "0x55" f] f unfolding f_def [symmetric] p_def [symmetric] by (auto simp del: run.simps)
qed

text \<open>
  Small buffers. With a buffer of fewer than 20 bytes the header is never complete: after
  the three sync bytes the parser reads header bytes for ever.
\<close>

theorem single_small_buffer_stuck:
  assumes "unat n \<le> length buf" and "unat n < 20"
  shows "\<exists>q. run sp_feed (Some (sempInitParser buf n eom bad name)) (0xAA # 0x44 # 0x18 # bs) = Inr (Some q)
    \<and> sp_state q = Some SpReadHeader"
  using sp_sticking [of "sempInitParser buf n eom bad name" bs] sp_init [OF assms(1)] assms(2)
  by (simp add: sp_idle_def del: run.simps)

theorem single_small_buffer_stuck_witness:
  "\<exists>q. run sp_feed (Some (sempInitParser (replicate 16 0) 16 None None None)) (0xAA # 0x44 # 0x18 # replicate 100 0x14)
      = Inr (Some q) \<and> sp_state q = Some SpReadHeader"
  by (rule single_small_buffer_stuck) simp_all

text \<open>
  C23: Liveness. With a buffer of at least 20 bytes, the size of a header, a parser in one of the
  three states that read a header, data or a CRC is back at its first state after at most
  65559 more bytes, whatever they are.
\<close>

theorem single_message_ends:
  assumes "unat n \<le> length buf" and "20 \<le> unat n"
    and "run sp_feed (Some (sempInitParser buf n eom bad name)) bs = Inr (Some q)"
    and "sp_state q \<in> {Some SpReadHeader, Some SpReadData, Some SpReadCrc}" and "65559 \<le> length cs"
  shows "\<exists>k \<le> 65559. \<exists>r. run sp_feed (Some q) (take k cs) = Inr (Some r) \<and> sp_state r = Some SpFirstByte"
proof -
  have "sp_inv q" "sp_maxLength q = n"
    using sp_run_sound [OF sp_init(1) [OF assms(1), of eom bad name], of bs] assms(3) sp_init(5) [OF assms(1), of eom bad name]
    by (auto simp: sp_sound_def sp_same_def)
  then show ?thesis
    using sp_returns [of q cs] sp_left_le [of q] assms(2,4,5) by (auto simp: sp_busy_def intro: order_trans)
qed

theorem single_message_ends_witness:
  "\<exists>q. run sp_feed (Some (sempInitParser (replicate 64 0) 64 None None None)) [0xAA, 0x44, 0x18] = Inr (Some q)
    \<and> (\<exists>k \<le> 65559. \<exists>r. run sp_feed (Some q) (take k (replicate 65559 0x14)) = Inr (Some r)
          \<and> sp_state r = Some SpFirstByte)"
proof -
  let ?p = "sempInitParser (replicate 64 0) 64 None None None"
  have n: "unat (64 :: u16) \<le> length (replicate 64 (0 :: u8))" by simp
  have "sp_idle ?p" using sp_init(2,3) [OF n] by (simp add: sp_idle_def)
  then obtain q where q: "run sp_feed (Some ?p) [0xAA, 0x44, 0x18] = Inr (Some q)" "sp_state q = Some SpReadHeader"
    using sp_header_reached by blast
  have "\<exists>k \<le> 65559. \<exists>r. run sp_feed (Some q) (take k (replicate 65559 0x14)) = Inr (Some r)
      \<and> sp_state r = Some SpFirstByte"
    using q(2) by (intro single_message_ends [OF n _ q(1)]) simp_all
  then show ?thesis using q(1) by blast
qed

text \<open>
  C24: Termination. \<^verbatim>\<open>sempProcessBuffer\<close> returns on every buffer of at least the announced
  length, without a fault, in a state of the invariant, and reports at most that length.
\<close>

theorem single_buffer_total:
  assumes "sp_inv p" and "unat len \<le> length data"
  shows "\<exists>t n. sempProcessBuffer (Some p) data len = Inr (t, n) \<and> sp_good t \<and> n \<le> len"
  using sp_loop_total [of "Some p" len data 0 0] assms by (simp add: sempProcessBuffer_def sp_good_def)

theorem single_buffer_total_witness:
  "\<exists>t n. sempProcessBuffer (Some (sempInitParser (replicate 64 0) 64 None None None)) [0xAA, 0x44, 7] 3 = Inr (t, n)
    \<and> sp_good t \<and> n \<le> 3"
  using single_buffer_total [OF sp_init(1) [of 64 "replicate 64 0" None None None], of 3 "[0xAA, 0x44, 7]"] by simp

text \<open>
  C25: One message per call. Given a buffer that starts with a frame, \<^verbatim>\<open>sempProcessBuffer\<close>
  handles exactly this frame, ignores the bytes behind it, and returns one less than the
  number of bytes it has consumed.
\<close>

theorem single_buffer_one_message:
  assumes "sp_idle p" and "bt_valid 0xFFFFFFFF 0 f" and "length f \<le> unat (sp_maxLength p)"
    and "length f \<le> unat len" and "unat len \<le> length (f @ rest)" and "sp_eomCallback p \<noteq> None"
  shows "\<exists>q. sempProcessBuffer (Some p) (f @ rest) len = Inr (Some q, of_nat (length f - 1))
    \<and> sp_delivered q = sp_delivered p @ [(f ! 17, f)]"
  using sp_buffer_frame [OF assms(1) _ assms(3-5)] assms(2,6) by (auto simp: bt_valid_def sp_after_def)

theorem single_buffer_one_message_witness:
  "\<exists>q. sempProcessBuffer (Some (sempInitParser (replicate 64 0) 64 (Some 1) None None))
      (bt_frame 0xFFFFFFFF [0xAA, 0x44, 0x18] (replicate 8 0) (replicate 6 0) [] @ [0xAA, 0x44]) 26 = Inr (Some q, 23)
    \<and> length (sp_delivered q) = 1"
proof -
  define f where "f = bt_frame 0xFFFFFFFF [0xAA, 0x44, 0x18] (replicate 8 0) (replicate 6 0) []"
  define p where "p = sempInitParser (replicate 64 0) 64 (Some 1) None None"
  have f: "bt_valid 0xFFFFFFFF 0 f" unfolding f_def by (rule bt_frame_valid) simp_all
  have "length f = 24" by (simp add: f_def length_bt_frame)
  moreover have "sp_idle p" "sp_eomCallback p = Some 1" "sp_maxLength p = 64" "sp_log p = []"
    using sp_init [of 64 "replicate 64 0"] by (simp_all add: p_def sp_idle_def)
  ultimately show ?thesis
    using single_buffer_one_message [of p f 26 "[0xAA, 0x44]"] f unfolding f_def [symmetric] p_def [symmetric] by auto
qed



section \<open>The parser of single_parser/multi_protocol_parser.c\<close>

text \<open>
  C27: Type invariant. However many bytes a parser set up by \<^verbatim>\<open>mmpInitParser\<close> while the static
  \<^verbatim>\<open>lengthBytes\<close> was 0 (as at program start) has processed, its
  structure is well formed: the message length stays within the buffer, the statistics
  have one entry per protocol, the callback is set, \<^verbatim>\<open>lengthBytes\<close> is 1 exactly between the
  two length bytes of a u-blox message, and registers and counters fit the bytes read.
\<close>

theorem multi_well_formed:
  assumes "mm_begun 0 buf n bad p" and "run mm_feed (Some p) bs = Inr s"
  shows "\<exists>q. s = Some q \<and> mm_inv q \<and> mm_length q \<le> n \<and> length (mm_messagesProcessed q) = 8"
proof -
  have "mm_inv p" "mm_bufferLength p = n" using mm_begunD(1,2) [OF assms(1)] by (simp_all add: mm_idle_def)
  then obtain q where q: "s = Some q" "mm_inv q" "mm_sound p q" using mm_run_sound [OF _ assms(2)] by blast
  then have "mm_bufferLength q = n" using \<open>mm_bufferLength p = n\<close> by (auto simp: mm_sound_def mm_reports_def)
  then show ?thesis using q(1,2) by (simp add: mm_inv_def wf_mm_def)
qed

theorem multi_well_formed_witness:
  "\<exists>p q. mm_begun 0 (replicate 256 0) 256 None p \<and> run mm_feed (Some p) (ublox_frame 5 1 []) = Inr (Some q)
    \<and> mm_inv q \<and> mm_length q \<le> 256 \<and> length (mm_messagesProcessed q) = 8"
proof -
  obtain p where p: "mm_begun 0 (replicate 256 0) 256 None p" using mm_begun_exists [of 256 "replicate 256 0" 0 None] by auto
  have "mm_valid 2 (ublox_frame 5 1 [])" using ublox_frame_valid [of "[]" 5 1] by (simp add: mm_valid_def)
  then obtain q where "run mm_feed (Some p) (ublox_frame 5 1 []) = Inr (Some q)"
    using mm_message_run [OF mm_begunD(1) [OF p], of 2 "ublox_frame 5 1 []"] mm_begunD(2) [OF p]
    by (auto simp: mm_fits_def ublox_frame_def ublox_body_def Let_def case_prod_unfold)
  then show ?thesis using multi_well_formed [OF p, of "ublox_frame 5 1 []" "Some q"] p by auto
qed

text \<open>
  C28: Soundness. For a parser set up while \<^verbatim>\<open>lengthBytes\<close> was 0, without a bad-CRC callback,
  whatever bytes arrive, every message handed to the
  end-of-message callback is a SEMP frame, an NMEA sentence or a u-blox message with right
  lengths and checksum, and is reported with the number of its protocol.
\<close>

theorem multi_only_messages:
  assumes "mm_begun 0 buf n None p" and "run mm_feed (Some p) bs = Inr (Some q)"
  shows "list_all (\<lambda>(t, m). t = 0 \<and> bt_valid 0xFFFFFFFF 0 m \<or> t = 1 \<and> nmea_valid m \<and> hd m = 0x24 \<or> t = 2 \<and> ublox_valid m)
    (mm_delivered q)"
proof -
  have "mm_sound p q" using mm_run_sound [OF _ assms(2)] mm_begunD(1) [OF assms(1)] by (auto simp: mm_idle_def)
  then show ?thesis
    using mm_begunD(4,5) [OF assms(1)] by (auto simp: mm_sound_def mm_reports_def mm_valid_def case_prod_unfold)
qed

theorem multi_only_messages_witness:
  "\<exists>p q. mm_begun 0 (replicate 256 0) 256 None p \<and> run mm_feed (Some p) (ublox_frame 5 1 []) = Inr (Some q)
    \<and> list_all (\<lambda>(t, m). t = 0 \<and> bt_valid 0xFFFFFFFF 0 m \<or> t = 1 \<and> nmea_valid m \<and> hd m = 0x24 \<or> t = 2 \<and> ublox_valid m)
        (mm_delivered q)"
proof -
  obtain p where p: "mm_begun 0 (replicate 256 0) 256 None p" using mm_begun_exists [of 256 "replicate 256 0" 0 None] by auto
  have "mm_valid 2 (ublox_frame 5 1 [])" using ublox_frame_valid [of "[]" 5 1] by (simp add: mm_valid_def)
  then obtain q where "run mm_feed (Some p) (ublox_frame 5 1 []) = Inr (Some q)"
    using mm_message_run [OF mm_begunD(1) [OF p], of 2 "ublox_frame 5 1 []"] mm_begunD(2) [OF p]
    by (auto simp: mm_fits_def ublox_frame_def ublox_body_def Let_def case_prod_unfold)
  then show ?thesis using multi_only_messages [OF p] p by blast
qed

text \<open>
  C29: Completeness. For a parser set up while \<^verbatim>\<open>lengthBytes\<close> was 0, on a stream of messages of the three protocols that fit the buffer and of
  bytes between them that start no message, the parser delivers exactly these messages,
  each once, in their order and with the number of their protocol.
\<close>

theorem multi_stream_decoded:
  assumes "mm_begun 0 buf n bad p" and "list_all (mm_item_ok (unat n)) items"
  shows "\<exists>q. run mm_feed (Some p) (concat (map mm_encode items)) = Inr (Some q)
    \<and> mm_state q = Some MmpFirstByte \<and> mm_delivered q = concat (map mm_decode items)"
proof -
  have "mm_waiting (unat n) (Some p)" using mm_begunD(1,2) [OF assms(1)] by (simp add: mm_waiting_def)
  from mm_stream.stream [OF this assms(2)] show ?thesis
    using mm_begunD(5) [OF assms(1)] by (auto simp: mm_waiting_def mm_idle_def mm_trace_def)
qed

theorem multi_stream_decoded_witness:
  "\<exists>p q. mm_begun 0 (replicate 256 0) 256 None p
    \<and> run mm_feed (Some p) (ublox_frame 5 1 [] @ [7] @ nmea_line [0x47, 0x50] [0x31]
        @ bt_frame 0xFFFFFFFF [0xAA, 0x44, 0x18] (replicate 8 0) (replicate 6 0) [1]) = Inr (Some q)
    \<and> mm_delivered q = [(2, ublox_frame 5 1 []), (1, nmea_line [0x47, 0x50] [0x31]),
        (0, bt_frame 0xFFFFFFFF [0xAA, 0x44, 0x18] (replicate 8 0) (replicate 6 0) [1])]"
proof -
  obtain p where p: "mm_begun 0 (replicate 256 0) 256 None p" using mm_begun_exists [of 256 "replicate 256 0" 0 None] by auto
  define a b c where "a = ublox_frame 5 1 []" and "b = nmea_line [0x47, 0x50] [0x31]"
    and "c = bt_frame 0xFFFFFFFF [0xAA, 0x44, 0x18] (replicate 8 0) (replicate 6 0) [1]"
  have "ublox_valid a" unfolding a_def by (rule ublox_frame_valid) simp
  moreover have "sentence_parts [0x47, 0x50] [0x31]" by (simp add: sentence_parts_def name_char_def)
  then have "nmea_valid b" unfolding b_def by (rule nmea_line_valid)
  moreover have "bt_valid 0xFFFFFFFF 0 c" unfolding c_def by (rule bt_frame_valid) simp_all
  moreover have "length a = 8" "length b = 10" "hd b = 0x24" "length c = 25"
    by (simp_all add: a_def b_def c_def length_bt_frame length_lines hd_frames length_frames)
  ultimately have "list_all (mm_item_ok (unat (256 :: u16))) [MmMessage 2 a, MmNoise 7, MmMessage 1 b, MmMessage 0 c]"
    by (simp add: mm_valid_def mm_fits_def)
  from multi_stream_decoded [OF p this] show ?thesis
    using p unfolding a_def [symmetric] b_def [symmetric] c_def [symmetric] by (auto simp del: run.simps)
qed

text \<open>
  C30: Where the parser can fail. For a parser set up while \<^verbatim>\<open>lengthBytes\<close> was 0 the only fault is an access behind the buffer, at the byte after
  the checksum of an NMEA sentence that leaves less than three bytes for line end and zero.
\<close>

theorem multi_faults_only_at_full_sentences:
  assumes "mm_begun 0 buf n bad p" and "run mm_feed (Some p) bs = Inl e"
  shows "e = OutOfBounds \<and> (\<exists>as d cs q. bs = as @ d # cs \<and> run mm_feed (Some p) as = Inr (Some q)
    \<and> mm_state q = Some MmpNmeaLineTermination \<and> length buf < length (mm_message q) + 3)"
proof -
  have p: "mm_inv p" using mm_begunD(1) [OF assms(1)] by (simp add: mm_idle_def)
  obtain as d cs q where q: "e = OutOfBounds" "bs = as @ d # cs" "run mm_feed (Some p) as = Inr (Some q)" "mm_hazard q"
    using mm_run_fault [OF p assms(2)] by blast
  have "mm_sound p q" using mm_run_sound [OF p q(3)] by auto
  then have "length (mm_buffer q) = length buf" using mm_begunD(3) [OF assms(1)] by (auto simp: mm_sound_def mm_reports_def)
  then show ?thesis
    using q by (intro conjI exI [of _ as] exI [of _ d] exI [of _ cs] exI [of _ q]) (simp_all add: mm_hazard_def)
qed

theorem multi_faults_only_at_full_sentences_witness:
  "\<exists>p. mm_begun 0 (replicate 256 0) 256 None p
    \<and> (\<exists>as d cs q. nmea_line [0x47, 0x50] (replicate 247 0x31) = as @ d # cs \<and> run mm_feed (Some p) as = Inr (Some q)
        \<and> mm_state q = Some MmpNmeaLineTermination \<and> length (replicate 256 (0 :: u8)) < length (mm_message q) + 3)"
proof -
  obtain p where p: "mm_begun 0 (replicate 256 0) 256 None p" using mm_begun_exists [of 256 "replicate 256 0" 0 None] by auto
  define f where "f = nmea_line [0x47, 0x50] (replicate 247 0x31)"
  have "sentence_parts [0x47, 0x50] (replicate 247 0x31)" by (simp add: sentence_parts_def name_char_def list_all_iff)
  then have "mm_valid 1 f" using nmea_line_valid hd_frames by (simp add: mm_valid_def f_def)
  moreover have "length f = 256" by (simp add: f_def length_lines)
  ultimately have "run mm_feed (Some p) f = Inl OutOfBounds"
    using mm_begunD [OF p] by (intro mm_overflow) simp_all
  then show ?thesis using multi_faults_only_at_full_sentences [OF p] p unfolding f_def by blast
qed

text \<open>
  The overflow happens. For a parser set up while \<^verbatim>\<open>lengthBytes\<close> was 0, an NMEA sentence with a right checksum whose length with its line end
  is that of the buffer makes the parser write a zero behind the buffer.
\<close>

theorem multi_sentence_overflows:
  assumes "mm_begun 0 buf n bad p" and "length buf = unat n" and "sentence_parts name body"
    and "length name + length body + 7 = unat n"
  shows "run mm_feed (Some p) (nmea_line name body) = Inl OutOfBounds"
proof (rule mm_overflow)
  note b = mm_begunD [OF assms(1)]
  show "mm_idle p" "length (mm_buffer p) = unat (mm_bufferLength p)" using b(1,2,3) assms(2) by simp_all
  show "mm_valid 1 (nmea_line name body)" using nmea_line_valid [OF assms(3)] by (simp add: mm_valid_def hd_frames)
  show "length (nmea_line name body) = unat (mm_bufferLength p)" using b(2) assms(4) by (simp add: length_lines)
qed

theorem multi_sentence_overflows_witness:
  "\<exists>p. mm_begun 0 (replicate 256 0) 256 None p
    \<and> run mm_feed (Some p) (nmea_line [0x47, 0x50] (replicate 247 0x31)) = Inl OutOfBounds"
proof -
  obtain p where p: "mm_begun 0 (replicate 256 0) 256 None p" using mm_begun_exists [of 256 "replicate 256 0" 0 None] by auto
  have "sentence_parts [0x47, 0x50] (replicate 247 0x31)" by (simp add: sentence_parts_def name_char_def list_all_iff)
  then show ?thesis using multi_sentence_overflows [OF p] p by (intro exI [of _ p] conjI) simp_all
qed

text \<open>
  C31: Statistics. For a parser set up while \<^verbatim>\<open>lengthBytes\<close> was 0, after any byte stream the counter of processed messages of each protocol is the
  number of messages of this protocol that were delivered, modulo 32 bits, and
  \<^verbatim>\<open>mmpGetProtocolStats\<close> lists exactly the protocols with a counter above zero.
\<close>

theorem multi_statistics:
  assumes "mm_begun 0 buf n bad p" and "run mm_feed (Some p) bs = Inr (Some q)" and "8 \<le> length stats"
  shows "\<exists>stats'. mmpGetProtocolStats (Some q) (Some stats) 8 = Inr (Some stats', of_nat (length (mm_active q)))
    \<and> take (length (mm_active q)) stats' = map (mm_entry q) (mm_active q)
    \<and> (\<forall>i<8. st_messagesProcessed (mm_entry q i) = of_nat (length (filter (\<lambda>(t, m). unat t = i) (mm_delivered q))))"
proof -
  have l: "length (mm_active q) \<le> 8" using length_filter_le [of _ "[0..<8]"] by (simp add: mm_active_def)
  obtain s where "mmpGetProtocolStats_loop q stats 8 0 0 = Inr (s, of_nat (length (mm_active q)))"
      "take (length (mm_active q)) s = map (mm_entry q) (mm_active q)"
    using mm_stats_loop [of 0 8 stats 0 "map (mm_entry q) (mm_active q)" q "length (mm_active q)"] assms(3) l
    by (auto simp: mm_active_def)
  then show ?thesis
    using mm_statistics [OF assms(1,2)] by (simp add: mmpGetProtocolStats_def mm_entry_def)
qed

theorem multi_statistics_witness:
  "\<exists>p q stats'. mm_begun 0 (replicate 256 0) 256 None p \<and> run mm_feed (Some p) (ublox_frame 5 1 []) = Inr (Some q)
    \<and> mmpGetProtocolStats (Some q) (Some (replicate 8 (mm_entry p 0))) 8 = Inr (Some stats', of_nat (length (mm_active q)))
    \<and> st_messagesProcessed (mm_entry q 2) = 1"
proof -
  obtain p where p: "mm_begun 0 (replicate 256 0) 256 None p" using mm_begun_exists [of 256 "replicate 256 0" 0 None] by auto
  have "mm_valid 2 (ublox_frame 5 1 [])" using ublox_frame_valid [of "[]" 5 1] by (simp add: mm_valid_def)
  then obtain q where q: "run mm_feed (Some p) (ublox_frame 5 1 []) = Inr (Some q)" "mm_reports [(2, ublox_frame 5 1 [])] p q"
    using mm_message_run [OF mm_begunD(1) [OF p], of 2 "ublox_frame 5 1 []"] mm_begunD(2) [OF p]
    by (auto simp: mm_fits_def ublox_frame_def ublox_body_def Let_def case_prod_unfold)
  then have "mm_delivered q = [(2, ublox_frame 5 1 [])]" using mm_begunD(5) [OF p] by (simp add: mm_reports_def)
  then show ?thesis
    using multi_statistics [OF p q(1), of "replicate 8 (mm_entry p 0)"] p q(1) by (auto simp del: run.simps)
qed

text \<open>
  The byte counter is wrong. A byte that arrives while no message is being read and the
  buffer is not full is counted twice in \<^verbatim>\<open>totalBytes\<close>, once by \<^verbatim>\<open>mmpProcessByte\<close> and once by \<^verbatim>\<open>mmpFirstByte\<close>.
\<close>

theorem multi_first_byte_counted_twice:
  assumes "mm_idle p" and "mm_length p < mm_bufferLength p"
  shows "\<exists>q b. mmpProcessByte (Some p) d = Inr (Some q, b) \<and> mm_totalBytes q = mm_totalBytes p + 2"
proof -
  obtain q where "mmpProcessByte (Some p) d = Inr (Some q, d \<in> {0xAA, 0x24, 0xB5})"
      "mm_totalBytes q = mm_totalBytes p + (if mm_length p < mm_bufferLength p then 2 else 1)"
    by (rule mm_idle_step [OF assms(1), of d])
  then show ?thesis using assms(2) by simp
qed

theorem multi_first_byte_counted_twice_witness:
  "\<exists>p q b. mm_begun 0 (replicate 256 0) 256 None p \<and> mmpProcessByte (Some p) 0x55 = Inr (Some q, b) \<and> mm_totalBytes q = 2"
proof -
  obtain p where p: "mm_begun 0 (replicate 256 0) 256 None p" using mm_begun_exists [of 256 "replicate 256 0" 0 None] by auto
  then have "mm_length p < mm_bufferLength p"
    by (auto simp: mm_begun_def mmpInitParser_def mmp_constants split: if_splits)
  then show ?thesis
    using multi_first_byte_counted_twice [OF mm_begunD(1) [OF p], of "0x55"] mm_begunD(7) [OF p] p by auto
qed

text \<open>
  One message per call. Given a buffer that starts with a message that fits, \<^verbatim>\<open>mmpProcessBuffer\<close>
  of a parser that is between two messages delivers it, ignores the bytes behind it and returns
  its length; the parser is between two messages again.
\<close>

theorem multi_buffer_one_message:
  assumes "mm_idle p" and "mm_valid t f" and "mm_fits (unat (mm_bufferLength p)) t f" and "length f \<le> unat len"
    and "unat len \<le> length (f @ rest)"
  shows "\<exists>q. mmpProcessBuffer (Some p) (Some (f @ rest)) len = Inr (Some q, of_nat (length f))
    \<and> mm_idle q \<and> mm_delivered q = mm_delivered p @ [(t, f)]"
  using mm_buffer_message [OF assms] by (auto simp: mm_reports_def)

theorem multi_buffer_one_message_witness:
  "\<exists>p q. mm_begun 0 (replicate 256 0) 256 None p
    \<and> mmpProcessBuffer (Some p) (Some (ublox_frame 5 1 [] @ [0xB5, 0x62])) 10 = Inr (Some q, 8)
    \<and> mm_delivered q = [(2, ublox_frame 5 1 [])]"
proof -
  obtain p where p: "mm_begun 0 (replicate 256 0) 256 None p" using mm_begun_exists [of 256 "replicate 256 0" 0 None] by auto
  have "mm_valid 2 (ublox_frame 5 1 [])" "length (ublox_frame 5 1 []) = 8"
    using ublox_frame_valid [of "[]" 5 1] by (simp_all add: mm_valid_def length_frames)
  then show ?thesis
    using multi_buffer_one_message [OF mm_begunD(1) [OF p], of 2 "ublox_frame 5 1 []" 10 "[0xB5, 0x62]"] mm_begunD(2,5) [OF p] p
    by (auto simp: mm_fits_def)
qed

text \<open>
  C32: Parsers interfere. The scratch pad and \<^verbatim>\<open>lengthBytes\<close> are static objects of the file, here
  with \<^verbatim>\<open>lengthBytes\<close> 0 at the start: when a second parser reads the first
  four bytes of a u-blox message between the payload and the checksum of a message the
  first parser is reading, the first parser loses its correct message, unless the
  checksums agree by chance.
\<close>

theorem multi_parsers_interfere:
  assumes "mm_begun 0 buf1 n1 bad1 p" and "mm_begun 0 buf2 n2 bad2 q" and "ublox_valid f" and "length f \<le> unat n1"
    and "c + i \<noteq> f ! (length f - 2)"
  shows "\<exists>t1 t2 t3. run (sh_step True) \<lparr>sh_scratchPad = pad, sh_lengthBytes = 0, sh_first = p, sh_second = q\<rparr>
      (take (length f - 2) f) = Inr t1
    \<and> run (sh_step False) t1 [0xB5, 0x62, c, i] = Inr t2
    \<and> run (sh_step True) t2 (drop (length f - 2) f) = Inr t3
    \<and> mm_delivered (sh_first t3) = []"
proof -
  let ?s = "\<lparr>sh_scratchPad = pad, sh_lengthBytes = 0, sh_first = p, sh_second = q\<rparr>"
  have "length f \<le> unat (mm_bufferLength (sh_first ?s))" "mm_delivered (sh_first ?s) = []"
    using assms(4) mm_begunD(2,5) [OF assms(1)] by simp_all
  then show ?thesis
    using sh_interference [OF sh_begun [OF assms(1,2)] sh_begun [OF assms(1,2)] assms(3) _ assms(5), of pad] by (simp del: run.simps)
qed

theorem multi_parsers_interfere_witness:
  "\<exists>p q t1 t2 t3. mm_begun 0 (replicate 256 0) 256 None p \<and> mm_begun 0 (replicate 256 0) 256 None q
    \<and> run (sh_step True) \<lparr>sh_scratchPad = (\<lambda>_. 0), sh_lengthBytes = 0, sh_first = p, sh_second = q\<rparr> (take 6 (ublox_frame 5 1 [])) = Inr t1
    \<and> run (sh_step False) t1 [0xB5, 0x62, 0, 0] = Inr t2
    \<and> run (sh_step True) t2 (drop 6 (ublox_frame 5 1 [])) = Inr t3
    \<and> mm_delivered (sh_first t3) = []"
proof -
  obtain p where p: "mm_begun 0 (replicate 256 0) 256 None p" using mm_begun_exists [of 256 "replicate 256 0" 0 None] by auto
  have f: "ublox_valid (ublox_frame 5 1 [])" "length (ublox_frame 5 1 []) = 8" "ublox_frame 5 1 [] ! 6 = 6"
    using ublox_frame_valid [of "[]" 5 1] by (simp_all add: length_frames) (simp add: ublox_frame_def ublox_body_def fletcher_def byte_of_def)
  obtain t1 t2 t3 where "run (sh_step True) \<lparr>sh_scratchPad = (\<lambda>_. 0), sh_lengthBytes = 0, sh_first = p, sh_second = p\<rparr>
        (take 6 (ublox_frame 5 1 [])) = Inr t1" "run (sh_step False) t1 [0xB5, 0x62, 0, 0] = Inr t2"
      "run (sh_step True) t2 (drop 6 (ublox_frame 5 1 [])) = Inr t3" "mm_delivered (sh_first t3) = []"
    using multi_parsers_interfere [OF p p f(1), of 0 0 "\<lambda>_. 0"] f(2,3) by (auto simp del: run.simps)
  then show ?thesis
    using p by (intro exI [of _ p] exI [of _ t1] exI [of _ t2] exI [of _ t3] conjI)
qed

text \<open>
  C33: A second setup does not reset the parser. A parser set up while \<^verbatim>\<open>lengthBytes\<close> was 0 has read
  the first length byte of a u-blox message, a zero, when \<^verbatim>\<open>mmpInitParser\<close> is called again. The
  static \<^verbatim>\<open>lengthBytes\<close> stays 1, so the next length field is taken to have one byte: the new
  parser loses a correct message without payload, unless the sum of class and id is 0 or a
  first byte of a message, and delivers seven bytes that are no u-blox message.
\<close>

theorem multi_setup_keeps_length_state:
  assumes "mm_begun 0 buf n bad p" and "run mm_feed (Some p) [0xB5, 0x62, c, i, 0] = Inr (Some q)"
    and "mmpInitParser (mm_scratchPad q) (mm_lengthBytes q) (Some q) (Some buf) n (Some cb) bad name err dbg = (Some r, True)"
    and "cls + mid \<notin> {0, 0xAA, 0x24, 0xB5}"
  shows "(\<exists>s. run mm_feed (Some r) (ublox_frame cls mid []) = Inr (Some s) \<and> mm_delivered s = [])
    \<and> (\<exists>s. run mm_feed (Some r) [0xB5, 0x62, cls, mid, 0, cls + mid, 3 * cls + 2 * mid] = Inr (Some s)
        \<and> mm_delivered s = [(2, [0xB5, 0x62, cls, mid, 0, cls + mid, 3 * cls + 2 * mid])]
        \<and> \<not> ublox_valid [0xB5, 0x62, cls, mid, 0, cls + mid, 3 * cls + 2 * mid])"
proof -
  have "unat n \<le> length buf" using assms(1) by (simp add: mm_begun_def)
  note r = mm_init_again [OF assms(3) this]
  note l = mm_between_lengths [OF assms(1,2)]
  have "mm_lengthBytes r = 1" "mm_ublox_bytesRemaining r = 0" using r(4,5) l by (simp_all add: mm_ublox_bytesRemaining_def)
  then obtain t where t: "run mm_feed (Some r) [0xB5, 0x62, cls, mid, 0] = Inr (Some t)" "wf_mm t"
      "mm_message t = [0xB5, 0x62, cls, mid, 0]" "mm_state t = Some MmpUbloxChecksumA" "mm_reports [] r t"
      "mm_lengthBytes t = 0" "mm_sum t = (cls + mid, 3 * cls + 2 * mid)"
    by (rule mm_stale_length [OF r(1-3)])
  have "mm_length t < mm_bufferLength t" using t(2,3) by (intro mm_room) simp_all
  moreover have "0 \<noteq> ublox_checksumA t" using t(7) assms(4) by (auto simp: mm_sum_def)
  moreover obtain g where g: "ublox_frame cls mid [] = [0xB5, 0x62, cls, mid, 0] @ [0, cls + mid, g]"
    by (simp add: ublox_frame_def ublox_body_def fletcher_def byte_of_def)
  ultimately obtain u where u: "run mm_feed (Some t) [0, cls + mid, g] = Inr (Some u)" "mm_reports [] t u"
    using mm_stale_rejects [OF t(2,6,4), of 0 "cls + mid" g] assms(4) by blast
  obtain v where v: "run mm_feed (Some t) [cls + mid, 3 * cls + 2 * mid] = Inr (Some v)"
      "mm_reports [(2, [0xB5, 0x62, cls, mid, 0, cls + mid, 3 * cls + 2 * mid])] t v"
    using mm_stale_accepts [OF t(2,3) _ t(4,7)] by auto
  have "run mm_feed (Some r) (ublox_frame cls mid []) = Inr (Some u)" unfolding g using t(1) u(1) by (simp add: run_append del: run.simps append.simps)
  moreover have "run mm_feed (Some r) ([0xB5, 0x62, cls, mid, 0] @ [cls + mid, 3 * cls + 2 * mid]) = Inr (Some v)"
    using t(1) v(1) by (simp add: run_append del: run.simps append.simps)
  ultimately show ?thesis
    using t(5) u(2) v(2) r(6) by (simp add: mm_reports_def ublox_valid_def ublox_shape_def del: run.simps)
qed

theorem multi_setup_keeps_length_state_witness:
  "\<exists>p q r s. mm_begun 0 (replicate 256 0) 256 None p
    \<and> run mm_feed (Some p) [0xB5, 0x62, 1, 7, 0] = Inr (Some q)
    \<and> mmpInitParser (mm_scratchPad q) (mm_lengthBytes q) (Some q) (Some (replicate 256 0)) 256 (Some 1) None None None None
        = (Some r, True)
    \<and> run mm_feed (Some r) [0xB5, 0x62, 5, 1, 0, 6, 0x11] = Inr (Some s)
    \<and> mm_delivered s = [(2, [0xB5, 0x62, 5, 1, 0, 6, 0x11])] \<and> \<not> ublox_valid [0xB5, 0x62, 5, 1, 0, 6, 0x11]"
proof -
  obtain p where p: "mm_begun 0 (replicate 256 0) 256 None p" using mm_begun_exists [of 256 "replicate 256 0" 0 None] by auto
  obtain q where q: "run mm_feed (Some p) [0xB5, 0x62, 1, 7, 0] = Inr (Some q)"
    using mm_between_run [OF p] by blast
  obtain r where r: "mmpInitParser (mm_scratchPad q) (mm_lengthBytes q) (Some q) (Some (replicate 256 0)) 256 (Some 1) None None None None
      = (Some r, True)"
    by (simp add: mmpInitParser_def mmp_constants)
  from multi_setup_keeps_length_state [OF p q r, of 5 1] show ?thesis using p q r by (auto simp del: run.simps)
qed

section \<open>The library under lib/\<close>

text \<open>
  C34: Safety of the library parser. A parser that \<^verbatim>\<open>sempBeginParser\<close> of the library returned for a
  buffer of fewer than 65536 bytes and a table of the six binary protocols (RTCM, u-blox,
  Unicore binary, SPARTN, SBF, Bluetooth; SBF and SPARTN not together) processes every byte
  stream without a fault.
\<close>

theorem lib_never_faults:
  assumes "lib_begun table bad len p" and "unat len < 65536" and "lib_table_ok table"
  shows "\<exists>q. run sempParseNextByte_lib p bs = Inr q"
proof -
  have "lib_inv p" using lib_begun_inv [OF assms(1,2)] assms(3) by (simp add: lib_table_ok_def)
  then show ?thesis using lib_parser.run_safe by blast
qed

theorem lib_never_faults_witness:
  "\<exists>p. lib_begun [LRtcmPreamble, LUbloxPreamble, LUnicoreBinaryPreamble, LSbfPreamble] None 512 p
    \<and> (\<exists>q. run sempParseNextByte_lib p [0xB5, 0x62, 0x24, 0xD3, 0, 0xAA, 0x24, 0x40] = Inr q)"
proof -
  obtain p where p: "lib_begun [LRtcmPreamble, LUbloxPreamble, LUnicoreBinaryPreamble, LSbfPreamble] None 512 p"
    using lib_begun_exists [of "[LRtcmPreamble, LUbloxPreamble, LUnicoreBinaryPreamble, LSbfPreamble]" 512 None] by auto
  then show ?thesis
    using lib_never_faults [OF p, of "[0xB5, 0x62, 0x24, 0xD3, 0, 0xAA, 0x24, 0x40]"]
    by (auto simp: lib_table_ok_def lib_binary_def lib_sane_def lib_clobbers_def simp del: run.simps)
qed

text \<open>
  C35: Soundness of the library parser. For a table of the six binary protocols (SBF and SPARTN not
  together), a buffer of fewer than 65536 bytes and no bad-CRC callback, whatever bytes arrive, every message handed to the end-of-message callback is a message of
  the protocol at the reported table index, with right length fields and checksums.
\<close>

theorem lib_only_messages:
  assumes "lib_begun table None len p" and "unat len < 65536" and "lib_table_ok table"
    and "run sempParseNextByte_lib p bs = Inr q"
  shows "list_all (\<lambda>(t, m). unat t < length table \<and> lib_valid_of (table ! unat t) m) (lib_delivered q)"
proof -
  note b = lib_begunD [OF assms(1,2)]
  have "lib_inv p" using lib_begun_inv [OF assms(1,2)] assms(3) by (simp add: lib_table_ok_def)
  then have "lib_sound p q" using lib_run_sound assms(4) by blast
  then show ?thesis using b(3-5) by (auto simp: lib_sound_def lib_genuine_def case_prod_unfold)
qed

theorem lib_only_messages_witness:
  "\<exists>p q. lib_begun [LSbfPreamble] None 64 p \<and> run sempParseNextByte_lib p (sbf_frame 0x2FA7 [1, 2, 3, 4]) = Inr q
    \<and> lib_delivered q = [(0, sbf_frame 0x2FA7 [1, 2, 3, 4])]
    \<and> list_all (\<lambda>(t, m). unat t < 1 \<and> lib_valid_of ([LSbfPreamble] ! unat t) m) (lib_delivered q)"
proof -
  obtain p where p: "lib_begun [LSbfPreamble] None 64 p" using lib_begun_exists [of "[LSbfPreamble]" 64 None] by auto
  have ok: "lib_table_ok [LSbfPreamble]" by (simp add: lib_table_ok_def lib_binary_def lib_sane_def lib_clobbers_def)
  obtain q where q: "run sempParseNextByte_lib p (sbf_frame 0x2FA7 [1, 2, 3, 4]) = Inr q"
      "lib_delivered q = [(0, sbf_frame 0x2FA7 [1, 2, 3, 4])]"
    using lib_begun_delivers [OF p _ ok, of "sbf_frame 0x2FA7 [1, 2, 3, 4]" 0] sbf_frame_valid [of "[1, 2, 3, 4]" "0x2FA7"]
    by (auto simp: sbf_frame_fields(3) length_sbf_frame simp del: run.simps)
  then show ?thesis using lib_only_messages [OF p _ ok q(1)] p by auto
qed

text \<open>
  C36: Completeness of the library parser. For a table of the six binary protocols (SBF and SPARTN
  not together), a buffer of fewer than 65536 bytes and no bad-CRC callback, on a stream of bytes that start no message and of frames of the protocols that fit
  the buffer, some with a wrong checksum, the parser delivers exactly the frames whose checksum
  is right, each once, in their order and with the index of their protocol.
\<close>

theorem lib_stream_decoded:
  assumes "lib_begun table None len p" and "unat len < 65536" and "lib_table_ok table"
    and "list_all (lib_item_ok table (max 32 (unat len))) items"
  shows "\<exists>q. run sempParseNextByte_lib p (concat (map lib_item_bytes items)) = Inr q
    \<and> lib_delivered q = concat (map (lib_item_deliveries table) items)"
proof -
  have "lib_waiting table (max 32 (unat len)) p"
    using lib_begun_waiting [OF assms(1,2)] assms(3) by (simp add: lib_table_ok_def)
  from lib_item_stream.stream [OF this assms(4)] show ?thesis using lib_begunD(5) [OF assms(1,2)] by auto
qed

theorem lib_stream_decoded_witness:
  "\<exists>p q. lib_begun [LSbfPreamble, LUbloxPreamble] None 64 p
    \<and> run sempParseNextByte_lib p (0x31 # [0xB5, 0x62, 5, 1, 0, 0, 6, 0x18] @ sbf_frame 0x2FA7 [1, 2, 3, 4]
        @ [0xB5, 0x62, 5, 1, 0, 0, 6, 0x17]) = Inr q
    \<and> lib_delivered q = [(0, sbf_frame 0x2FA7 [1, 2, 3, 4]), (1, [0xB5, 0x62, 5, 1, 0, 0, 6, 0x17])]"
proof -
  define f where "f = sbf_frame 0x2FA7 [1, 2, 3, 4]"
  define items where "items = [LNoise 0x31, LFrame 1 [0xB5, 0x62, 5, 1, 0, 0, 6, 0x18], LFrame 0 f,
    LFrame 1 [0xB5, 0x62, 5, 1, 0, 0, 6, 0x17]]"
  obtain p where p: "lib_begun [LSbfPreamble, LUbloxPreamble] None 64 p"
    using lib_begun_exists [of "[LSbfPreamble, LUbloxPreamble]" 64 None] by auto
  have ok: "lib_table_ok [LSbfPreamble, LUbloxPreamble]"
    by (simp add: lib_table_ok_def lib_binary_def lib_sane_def lib_clobbers_def)
  have f: "sbf_valid f" "hd f = 0x24" "length f = 12" "f \<noteq> []"
    using sbf_frame_valid [of "[1, 2, 3, 4]" "0x2FA7"] length_sbf_frame [of "0x2FA7" "[1, 2, 3, 4]"]
    by (auto simp: f_def sbf_frame_fields(3))
  then have "sbf_shape f" by (simp add: sbf_valid_def)
  with f have "list_all (lib_item_ok [LSbfPreamble, LUbloxPreamble] (max 32 (unat (64 :: u32)))) items"
    by (simp add: items_def ublox_shape_def le16_def)
  moreover have "concat (map (lib_item_deliveries [LSbfPreamble, LUbloxPreamble]) items) =
      [(0, f), (1, [0xB5, 0x62, 5, 1, 0, 0, 6, 0x17])]"
    using f(1) by (simp add: items_def ublox_valid_def ublox_shape_def fletcher_def le16_def)
  ultimately show ?thesis
    using lib_stream_decoded [OF p _ ok, of items] p unfolding f_def [symmetric] by (auto simp: items_def simp del: run.simps)
qed

text \<open>
  C37: SBF round trip. For a table of the binary protocols with SBF and without SPARTN, a buffer of
  fewer than 65536 bytes and no bad-CRC callback, every SBF block that fits the buffer, with any
  number and revision and a body of at least four bytes, a multiple of four, and the CRC computed
  bit by bit, is delivered unchanged; afterwards the access functions of Parse_SBF.cpp return its
  number, its revision and, at the offset of a body byte in the block, the bytes and the 32-bit
  little-endian words of the body.
\<close>

theorem sbf_delivered:
  assumes "lib_begun table None len p" and "unat len < 65536" and "lib_table_ok table"
    and "lib_match table 0x24 = Some k"
    and "4 \<le> length body" and "length body mod 4 = 0" and "8 + length body \<le> max 32 (unat len)"
  shows "\<exists>q. run sempParseNextByte_lib p (sbf_frame i body) = Inr q
    \<and> lib_delivered q = [(of_nat k, sbf_frame i body)]
    \<and> sempSbfGetBlockNumber q = i AND 0x1FFF \<and> sempSbfGetBlockRevision q = ucast (drop_bit 13 i)
    \<and> (\<forall>j<length body. sempSbfGetU1 q (of_nat (8 + j)) = Inr (body ! j))
    \<and> (\<forall>j. j + 3 < length body \<longrightarrow> sempSbfGetU4 q (of_nat (8 + j)) =
          Inr (le32 (body ! j) (body ! (j + 1)) (body ! (j + 2)) (body ! (j + 3))))"
proof -
  have l: "length body < 65528" using assms(2,7) by simp
  define f where "f = sbf_frame i body"
  have f: "sbf_valid f" "length f = 8 + length body" using sbf_frame_valid [OF assms(5,6) l] by (simp_all add: f_def length_sbf_frame)
  obtain q where q: "run sempParseNextByte_lib p f = Inr q" "wf_lib q" "lib_message q = f"
      "lib_sbf_sbfID q = sbf_id f" "lib_sbf_sbfIDrev q = drop_bit 5 (f ! 5)" "lib_delivered q = [(of_nat k, f)]"
    using lib_begun_sbf [OF assms(1-4) f(1)] f(2) assms(7) by auto
  have g: "unat (of_nat (8 + j) :: u16) = 8 + j" if "j < length body" for j
    using that l unat_of_nat_16 [of "8 + j"] by simp
  have at: "f ! (8 + j) = body ! j" if "j < length body" for j using that sbf_frame_fields(4) by (simp add: f_def)
  have "sempSbfGetU1 q (of_nat (8 + j)) = Inr (body ! j)" if "j < length body" for j
    using sbf_getters(1) [OF q(2) q(3) [symmetric], of "of_nat (8 + j)"] g [OF that] at [OF that] that f(2) by simp
  moreover have "sempSbfGetU4 q (of_nat (8 + j)) = Inr (le32 (body ! j) (body ! (j + 1)) (body ! (j + 2)) (body ! (j + 3)))"
    if "j + 3 < length body" for j
    using sbf_getters(3) [OF q(2) q(3) [symmetric], of "of_nat (8 + j)"] g [of j] at [of j] at [of "j + 1"] at [of "j + 2"]
      at [of "j + 3"] that f(2) by (simp add: add.assoc)
  moreover have "sempSbfGetBlockNumber q = i AND 0x1FFF" "sempSbfGetBlockRevision q = ucast (drop_bit 13 i)"
    using q(4,5) sbf_frame_fields(1,2) by (simp_all add: sempSbfGetBlockNumber_def sempSbfGetBlockRevision_def f_def)
  ultimately show ?thesis using q(1,6) unfolding f_def [symmetric] by blast
qed

theorem sbf_delivered_witness:
  "\<exists>p q. lib_begun [LSbfPreamble] None 64 p \<and> run sempParseNextByte_lib p (sbf_frame 0x2FA7 [1, 2, 3, 4]) = Inr q
    \<and> lib_delivered q = [(0, sbf_frame 0x2FA7 [1, 2, 3, 4])]
    \<and> sempSbfGetBlockNumber q = 4007 \<and> sempSbfGetBlockRevision q = 1 \<and> sempSbfGetU4 q 8 = Inr 0x04030201"
proof -
  obtain p where p: "lib_begun [LSbfPreamble] None 64 p" using lib_begun_exists [of "[LSbfPreamble]" 64 None] by auto
  have ok: "lib_table_ok [LSbfPreamble]" by (simp add: lib_table_ok_def lib_binary_def lib_sane_def lib_clobbers_def)
  obtain q where q: "run sempParseNextByte_lib p (sbf_frame 0x2FA7 [1, 2, 3, 4]) = Inr q"
      "lib_delivered q = [(of_nat 0, sbf_frame 0x2FA7 [1, 2, 3, 4])]"
      "sempSbfGetBlockNumber q = 0x2FA7 AND 0x1FFF" "sempSbfGetBlockRevision q = ucast (drop_bit 13 (0x2FA7 :: u16))"
      "\<forall>j. j + 3 < length [1, 2, 3, 4 :: u8] \<longrightarrow> sempSbfGetU4 q (of_nat (8 + j)) =
        Inr (le32 ([1, 2, 3, 4] ! j) ([1, 2, 3, 4] ! (j + 1)) ([1, 2, 3, 4] ! (j + 2)) ([1, 2, 3, 4] ! (j + 3)))"
    using sbf_delivered [OF p _ ok, of 0 "[1, 2, 3, 4]" "0x2FA7"] by (auto simp del: run.simps)
  have "sempSbfGetU4 q 8 = Inr (le32 1 2 3 4)" using spec [OF q(5), of 0] by simp
  moreover have "le32 1 2 3 4 = 0x04030201" by (simp add: le32_def)
  moreover have "sempSbfGetBlockNumber q = 4007" "sempSbfGetBlockRevision q = 1" using q(3,4) by simp_all
  ultimately show ?thesis using p q(1,2) by auto
qed

text \<open>
  C38: SPARTN round trip. For a table of the binary protocols with SPARTN and without SBF, a buffer
  of fewer than 65536 bytes and no bad-CRC callback, every SPARTN message that fits the buffer is
  delivered unchanged: any type, a payload of 1 to 1023 bytes, with or without authentication data,
  a short or long time tag, and one of the four kinds of CRC, where header CRC and message CRC are
  computed bit by bit.
\<close>

theorem spartn_delivered:
  assumes "lib_begun table None len p" and "unat len < 65536" and "lib_table_ok table"
    and "lib_match table 0x73 = Some k"
    and "spartn_parts eaf tf auth" and "unat kind < 4" and "1 \<le> length payload" and "length payload < 1024"
    and "length (spartn_frame mtype eaf kind tf payload auth) \<le> max 32 (unat len)"
  shows "\<exists>q. run sempParseNextByte_lib p (spartn_frame mtype eaf kind tf payload auth) = Inr q
    \<and> lib_delivered q = [(of_nat k, spartn_frame mtype eaf kind tf payload auth)]"
proof -
  note f = spartn_frame_valid [OF assms(5-8), of mtype]
  have "table ! k = LSpartnPreamble" using lib_match_Some [OF assms(4)] by (cases "table ! k") simp_all
  then show ?thesis using assms(4,9) f(1,3) by (intro lib_begun_delivers [OF assms(1-3)]) simp_all
qed

theorem spartn_delivered_witness:
  "\<exists>p q. lib_begun [LSpartnPreamble] None 64 p
    \<and> run sempParseNextByte_lib p (spartn_frame 2 False 1 [0x10, 0, 0, 0] [7, 9] []) = Inr q
    \<and> lib_delivered q = [(0, spartn_frame 2 False 1 [0x10, 0, 0, 0] [7, 9] [])]"
proof -
  obtain p where p: "lib_begun [LSpartnPreamble] None 64 p" using lib_begun_exists [of "[LSpartnPreamble]" 64 None] by auto
  have ok: "lib_table_ok [LSpartnPreamble]" by (simp add: lib_table_ok_def lib_binary_def lib_sane_def)
  have s: "spartn_parts False [0x10, 0, 0, 0] []" by (simp add: spartn_parts_def)
  have "length (spartn_frame 2 False 1 [0x10, 0, 0, 0] [7, 9] []) = 12"
    using spartn_frame_valid(2) [OF s, of 1 "[7, 9]" 2] by (simp add: spartn_crc_bytes_def)
  then show ?thesis
    using spartn_delivered [OF p _ ok _ s, of 0 1 "[7, 9]" 2] p by (auto simp del: run.simps)
qed

text \<open>
  C39: The port refines the library. For a table of the RTCM, u-blox and custom protocols, the parser
  of my_parser and the parser of the library with the corresponding table (custom is Bluetooth
  there), both with the same buffer length of at least 256 bytes and without a bad-CRC callback,
  process every byte stream without a fault and deliver the same messages with the same indices.
\<close>

theorem port_agrees:
  assumes "begun table None len p" and "lib_begun (map port_entry table) None (ucast len) l"
    and "set table \<subseteq> {RtcmPreamble, UbloxPreamble, CustomPreamble}" and "256 \<le> len"
  shows "\<exists>q m. run sempParseNextByte p bs = Inr q \<and> run sempParseNextByte_lib l bs = Inr m
    \<and> delivered q = lib_delivered m"
proof -
  have "port_table table" using assms(3) by (simp add: port_table_def)
  from same_run [OF begun_same [OF assms(1,2) this assms(4)], of bs] show ?thesis by (auto simp: same_def)
qed

theorem port_agrees_witness:
  "\<exists>p l q m. begun [RtcmPreamble, UbloxPreamble] None 256 p \<and> lib_begun [LRtcmPreamble, LUbloxPreamble] None 256 l
    \<and> run sempParseNextByte p (ublox_frame 5 1 [6, 1]) = Inr q
    \<and> run sempParseNextByte_lib l (ublox_frame 5 1 [6, 1]) = Inr m
    \<and> delivered q = [(1, ublox_frame 5 1 [6, 1])] \<and> lib_delivered m = [(1, ublox_frame 5 1 [6, 1])]"
proof -
  obtain p where p: "begun [RtcmPreamble, UbloxPreamble] None 256 p"
    using begun_exists [of "[RtcmPreamble, UbloxPreamble]"] by auto
  obtain l where l: "lib_begun [LRtcmPreamble, LUbloxPreamble] None 256 l"
    using lib_begun_exists [of "[LRtcmPreamble, LUbloxPreamble]" 256 None] by auto
  have "ublox_valid (ublox_frame 5 1 [6, 1])" by (rule ublox_frame_valid) simp
  moreover have "ublox_frame 5 1 [6, 1] \<noteq> []" by (simp add: ublox_frame_def Let_def case_prod_unfold)
  ultimately obtain q where q: "run sempParseNextByte p (ublox_frame 5 1 [6, 1]) = Inr q"
      "delivered q = [(1, ublox_frame 5 1 [6, 1])]"
    using begun_delivers [OF p, of "ublox_frame 5 1 [6, 1]" 1] length_frames(1) [of 5 1 "[6, 1]"]
    by (auto simp: hd_frames simp del: run.simps)
  obtain m where "run sempParseNextByte_lib l (ublox_frame 5 1 [6, 1]) = Inr m" "delivered q = lib_delivered m"
    using port_agrees [OF p, of l "ublox_frame 5 1 [6, 1]"] l q(1) by (auto simp del: run.simps)
  then show ?thesis
    using p l q by (intro exI [of _ p] exI [of _ l] exI [of _ q] exI [of _ m]) (simp del: run.simps)
qed

text \<open>
  C40: SBF and SPARTN share memory. SBF keeps the address of the callback for bytes that belong to no
  message in the scratch union, where SPARTN keeps the kind and the value of the header CRC. With
  both protocols in the table, a buffer of fewer than 65536 bytes and no callback registered, a SPARTN header with a wrong CRC makes
  the next byte that starts no message call the address composed of these two values, unless it
  is 0 or by chance the address of a function.
\<close>

theorem sbf_callback_overwritten:
  assumes "lib_begun table bad len p" and "unat len < 65536" and "LSbfPreamble \<in> set table"
    and "lib_match table 0x73 = Some k" and "lib_match table d = None"
    and "foldl crc4_spec 0 [a, b, c AND 0xF0] \<noteq> c AND 0x0F"
    and "le32 (drop_bit 4 c AND 3) (c AND 0x0F) 0 0 \<notin> insert 0 (set (l_functions p))"
  shows "run sempParseNextByte_lib p [0x73, a, b, c, d] = Inl WildCall"
  using assms(6,7) by (intro lib_begun_overlay [OF assms(1-5)]) (simp_all add: spartn_header_ok_def overlay_address_def)

theorem sbf_callback_overwritten_witness:
  "\<exists>p. lib_begun [LSpartnPreamble, LSbfPreamble] None 256 p
    \<and> run sempParseNextByte_lib p [0x73, 0, 0, 1, 0x55] = Inl WildCall"
proof -
  obtain p where p: "lib_begun [LSpartnPreamble, LSbfPreamble] None 256 p" "l_functions p = []"
    using lib_begun_exists [of "[LSpartnPreamble, LSbfPreamble]" 256 None] by auto
  have "crc4_spec 0 0 = 0" by (simp add: crc4_spec_def crc4_bit_def numeral_eq_Suc)
  then have "foldl crc4_spec 0 [0, 0, 1 AND 0xF0] \<noteq> 1 AND 0x0F" by simp
  moreover have "le32 (drop_bit 4 1 AND 3) (1 AND 0x0F) 0 0 = 0x100" by (simp add: le32_def)
  ultimately have "run sempParseNextByte_lib p [0x73, 0, 0, 1, 0x55] = Inl WildCall"
    using p(2) by (intro sbf_callback_overwritten [OF p(1), of 0]) simp_all
  then show ?thesis using p(1) by blast
qed

end
